(* ===== verification/Prelude.thy ===== *)
theory Prelude
  imports Main "HOL-Library.Word" "HOL-Library.Monad_Syntax" "HOL-Library.Multiset"
    "HOL-Library.Sublist"
begin

text \<open>
  Shared vocabulary of the development: the machine types of the C program, the way an abort,
  a failed assertion or an access outside an object is modelled (\<open>None\<close> of an option), the
  tail queues of \<^verbatim>\<open>misc/queue.h\<close> as lists, and the list lemmas that several components use.
\<close>

unbundle bit_operations_syntax

section \<open>Machine types\<close>

type_synonym byte = "8 word"
type_synonym u16 = "16 word"
type_synonym u32 = "32 word"
type_synonym u64 = "64 word"

text \<open>A byte string of a text protocol is a list of characters, as \<^verbatim>\<open>char *\<close> is in the code.\<close>

type_synonym cstr = "char list"

section \<open>Collections of hints\<close>

named_theorems abort_simps \<open>when the option monad of the model returns a value\<close>
named_theorems queue_simps \<open>tail queue operations read as list operations\<close>
named_theorems bits_simps \<open>bit fields read as sets of indices\<close>
named_theorems wf_simps \<open>well-formedness predicates unfolded\<close>

section \<open>Aborting computations\<close>

text \<open>
  A function that can reach \<^verbatim>\<open>abort()\<close>, a failed \<^verbatim>\<open>assert\<close> or undefined behaviour returns an
  option; \<open>None\<close> is that end of the process. \<open>guard_opt\<close> is the assertion.
\<close>

definition guard_opt :: "bool \<Rightarrow> unit option" where
  "guard_opt b = (if b then Some () else None)"

lemma guard_opt_Some [simp, abort_simps]: "guard_opt b = Some u \<longleftrightarrow> b"
  by (simp add: guard_opt_def)

lemma guard_opt_None [simp]: "guard_opt b = None \<longleftrightarrow> \<not> b"
  by (simp add: guard_opt_def)

lemma guard_opt_bind [simp]: "(guard_opt b \<bind> f) = (if b then f () else None)"
  by (simp add: guard_opt_def)

lemma bind_Some_iff [abort_simps]: "(m \<bind> f) = Some y \<longleftrightarrow> (\<exists>x. m = Some x \<and> f x = Some y)"
  by (cases m) auto

text \<open>
  A C function that reports 0 or an \<^verbatim>\<open>errno\<close> value returns \<open>None\<close> or \<open>Some e\<close>;
  one that also delivers a result returns a sum, \<open>Inl\<close> for the error.
\<close>

datatype errno = ENOENT | EIO | EAGAIN | ENOMEM | EEXIST | EINVAL | EFBIG | ENAMETOOLONG
  | ENOTCONN | EINPROGRESS | EOTHER nat

section \<open>Tail queues\<close>

text \<open>
  \<^verbatim>\<open>BTPDQ_\<close> queues link distinct elements; a queue is the list of its elements, front first.
  \<^verbatim>\<open>BTPDQ_REMOVE\<close> unlinks the element, \<^verbatim>\<open>BTPDQ_INSERT_BEFORE\<close> and \<^verbatim>\<open>BTPDQ_INSERT_AFTER\<close> place a
  new element next to a linked one, \<^verbatim>\<open>BTPDQ_NEXT\<close> is the neighbour.
\<close>

definition q_insert_tail :: "'a list \<Rightarrow> 'a \<Rightarrow> 'a list" where
  "q_insert_tail q x = q @ [x]"

definition q_insert_head :: "'a list \<Rightarrow> 'a \<Rightarrow> 'a list" where
  "q_insert_head q x = x # q"

fun q_insert_before :: "'a list \<Rightarrow> 'a \<Rightarrow> 'a \<Rightarrow> 'a list" where
  "q_insert_before [] l x = []"
| "q_insert_before (y # ys) l x = (if y = l then x # y # ys else y # q_insert_before ys l x)"

fun q_insert_after :: "'a list \<Rightarrow> 'a \<Rightarrow> 'a \<Rightarrow> 'a list" where
  "q_insert_after [] l x = []"
| "q_insert_after (y # ys) l x = (if y = l then y # x # ys else y # q_insert_after ys l x)"

definition q_remove :: "'a list \<Rightarrow> 'a \<Rightarrow> 'a list" where
  "q_remove q x = remove1 x q"

fun q_next :: "'a list \<Rightarrow> 'a \<Rightarrow> 'a option" where
  "q_next [] x = None"
| "q_next [y] x = None"
| "q_next (y # z # zs) x = (if y = x then Some z else q_next (z # zs) x)"

definition q_first :: "'a list \<Rightarrow> 'a option" where
  "q_first q = (case q of [] \<Rightarrow> None | x # _ \<Rightarrow> Some x)"

lemma q_first_simps [simp, queue_simps]: "q_first [] = None" "q_first (x # xs) = Some x"
  by (simp_all add: q_first_def)

lemma q_first_None [simp]: "q_first q = None \<longleftrightarrow> q = []" "None = q_first q \<longleftrightarrow> q = []"
  by (cases q; simp)+

lemma q_first_Some: "q_first q = Some x \<longleftrightarrow> (\<exists>r. q = x # r)"
  by (cases q) auto

lemma set_q_insert_before [queue_simps]:
  "l \<in> set q \<Longrightarrow> set (q_insert_before q l x) = insert x (set q)"
  by (induction q) auto

lemma set_q_insert_after [queue_simps]:
  "l \<in> set q \<Longrightarrow> set (q_insert_after q l x) = insert x (set q)"
  by (induction q) auto

lemma mset_q_insert_before [queue_simps]:
  "l \<in> set q \<Longrightarrow> mset (q_insert_before q l x) = add_mset x (mset q)"
  by (induction q) auto

lemma mset_q_insert_after [queue_simps]:
  "l \<in> set q \<Longrightarrow> mset (q_insert_after q l x) = add_mset x (mset q)"
  by (induction q) auto

lemma mset_q_ends [queue_simps]:
  "mset (q_insert_tail q x) = add_mset x (mset q)"
  "mset (q_insert_head q x) = add_mset x (mset q)"
  "mset (q_remove q x) = mset q - {#x#}"
  by (simp_all add: q_insert_tail_def q_insert_head_def q_remove_def)

section \<open>Lists\<close>

lemma take_eq_prefix: "take (length s) m = s \<longleftrightarrow> (\<exists>t. m = s @ t)"
  by (metis append_eq_conv_conj)

lemma drop_nth_Cons: "i < length xs \<Longrightarrow> drop i xs = xs ! i # drop (Suc i) xs"
  by (rule Cons_nth_drop_Suc [symmetric])

lemma dropWhile_length_less: "dropWhile P xs = y # ys \<Longrightarrow> length ys < length xs"
  using length_dropWhile_le [of P xs] by simp

end
