(* ===== verification/Subr.thy ===== *)
theory Subr
  imports Prelude
begin

text \<open>
  \<^verbatim>\<open>misc/subr.c\<close>: byte search, big-endian integers, bit fields, hexadecimal, complete reads and
  writes over a kernel that answers partially, and the normalisation of path names.
\<close>

section \<open>memfind\<close>

text \<open>
  \<^verbatim>\<open>mem\<close> is what can be read from the start pointer on; \<^verbatim>\<open>memlen\<close> is the length the caller gives.
  Both loop bounds are those of the source, so \<open>memlen - sublen + 1\<close> is a \<^verbatim>\<open>size_t\<close> and wraps.
  \<open>None\<close> is a read outside \<open>mem\<close>, \<open>Some None\<close> is NULL, \<open>Some (Some i)\<close> is \<open>m + i\<close>.
\<close>

fun memfind_cmp :: "'a list \<Rightarrow> 'a list \<Rightarrow> bool option" where
  "memfind_cmp [] m = Some True"
| "memfind_cmp (s # ss) [] = None"
| "memfind_cmp (s # ss) (c # m) = (if c \<noteq> s then Some False else memfind_cmp ss m)"

function memfind_from :: "'a list \<Rightarrow> 'a list \<Rightarrow> nat \<Rightarrow> nat \<Rightarrow> nat option option" where
  "memfind_from sub mem bound i =
     (if i < bound
      then (case memfind_cmp sub (drop i mem) of
              None \<Rightarrow> None
            | Some True \<Rightarrow> Some (Some i)
            | Some False \<Rightarrow> memfind_from sub mem bound (Suc i))
      else Some None)"
  by pat_completeness auto
termination
  by (relation "measure (\<lambda>(sub, mem, bound, i). bound - i)") auto

declare memfind_from.simps [simp del]

definition memfind :: "'a list \<Rightarrow> u64 \<Rightarrow> 'a list \<Rightarrow> u64 \<Rightarrow> nat option option" where
  "memfind sub sublen mem memlen =
     memfind_from (take (unat sublen) sub) mem (unat (memlen - sublen + 1)) 0"

lemma memfind_cmp_Some:
  "length s \<le> length m \<Longrightarrow> memfind_cmp s m = Some (take (length s) m = s)"
  by (induction s m rule: memfind_cmp.induct) auto

lemma memfind_cmp_True: "memfind_cmp s m = Some True \<longleftrightarrow> take (length s) m = s"
  by (induction s m rule: memfind_cmp.induct) auto

definition occurs_at :: "'a list \<Rightarrow> 'a list \<Rightarrow> nat \<Rightarrow> bool" where
  "occurs_at s m i \<longleftrightarrow> i + length s \<le> length m \<and> take (length s) (drop i m) = s"

lemma memfind_from_spec:
  assumes "bound + length s = Suc n" "n \<le> length m" "i \<le> bound"
  shows "\<exists>r. memfind_from s m bound i = Some r \<and>
    (case r of None \<Rightarrow> \<forall>j\<ge>i. \<not> occurs_at s (take n m) j
     | Some k \<Rightarrow> i \<le> k \<and> occurs_at s (take n m) k \<and> (\<forall>j. i \<le> j \<longrightarrow> j < k \<longrightarrow> \<not> occurs_at s (take n m) j))"
  using assms
proof (induction s m bound i rule: memfind_from.induct)
  case (1 s m bound i)
  show ?case
  proof (cases "i < bound")
    case True
    with "1.prems" have len: "length s \<le> length (drop i m)" "i + length s \<le> n" by auto
    have occ: "occurs_at s (take n m) i \<longleftrightarrow> take (length s) (drop i m) = s"
      using "1.prems" len by (auto simp: occurs_at_def drop_take min_def)
    note cmp = memfind_cmp_Some [OF len(1)]
    show ?thesis
    proof (cases "take (length s) (drop i m) = s")
      case True
      with \<open>i < bound\<close> occ cmp show ?thesis
        by (subst memfind_from.simps) auto
    next
      case False
      with cmp have cmpF: "memfind_cmp s (drop i m) = Some False" by simp
      have "\<exists>r. memfind_from s m bound (Suc i) = Some r \<and>
        (case r of None \<Rightarrow> \<forall>j\<ge>Suc i. \<not> occurs_at s (take n m) j
         | Some k \<Rightarrow> Suc i \<le> k \<and> occurs_at s (take n m) k \<and> (\<forall>j. Suc i \<le> j \<longrightarrow> j < k \<longrightarrow> \<not> occurs_at s (take n m) j))"
        using "1.IH" [OF \<open>i < bound\<close> cmpF] "1.prems" \<open>i < bound\<close> by simp
      moreover have "\<not> occurs_at s (take n m) i" using occ False by simp
      ultimately show ?thesis using \<open>i < bound\<close> cmpF
        by (subst memfind_from.simps) (auto split: option.splits simp: Suc_le_eq nat_less_le)
    qed
  next
    case False
    with "1.prems" have "\<forall>j\<ge>i. \<not> occurs_at s (take n m) j"
      by (auto simp: occurs_at_def)
    with False show ?thesis by (subst memfind_from.simps) auto
  qed
qed

lemma memfind_bound:
  fixes n k :: u64
  assumes "unat k \<le> unat n" "0 < unat k \<or> unat n < 2 ^ 64 - 1"
  shows "unat (n - k + 1) + unat k = Suc (unat n)"
proof -
  have "unat (n - k) = unat n - unat k"
    using assms(1) by (simp add: unat_sub word_le_nat_alt)
  moreover have "unat (n - k + 1) = unat (n - k) + 1"
  proof -
    have "unat n < 2 ^ 64" using unsigned_less [of n, where ?'a = nat] by simp
    then have "unat (n - k) + 1 < 2 ^ 64"
      using calculation assms by auto
    then show ?thesis by (simp add: unat_word_ariths)
  qed
  ultimately show ?thesis using assms(1) by simp
qed

section \<open>Big-endian integers\<close>

definition enc_be32 :: "u32 \<Rightarrow> byte list" where
  "enc_be32 num =
     [ucast (drop_bit 24 num AND 0xff), ucast (drop_bit 16 num AND 0xff),
      ucast (drop_bit 8 num AND 0xff), ucast (num AND 0xff)]"

fun dec_be32 :: "byte list \<Rightarrow> u32 option" where
  "dec_be32 (p0 # p1 # p2 # p3 # _) =
     Some (push_bit 24 (ucast p0) OR push_bit 16 (ucast p1) OR push_bit 8 (ucast p2) OR ucast p3)"
| "dec_be32 _ = None"

definition enc_be64 :: "u64 \<Rightarrow> byte list" where
  "enc_be64 num =
     [ucast (drop_bit 56 num AND 0xff), ucast (drop_bit 48 num AND 0xff),
      ucast (drop_bit 40 num AND 0xff), ucast (drop_bit 32 num AND 0xff),
      ucast (drop_bit 24 num AND 0xff), ucast (drop_bit 16 num AND 0xff),
      ucast (drop_bit 8 num AND 0xff), ucast (num AND 0xff)]"

fun dec_be64 :: "byte list \<Rightarrow> u64 option" where
  "dec_be64 (p0 # p1 # p2 # p3 # p4 # p5 # p6 # p7 # _) =
     Some (push_bit 56 (ucast p0) OR push_bit 48 (ucast p1) OR push_bit 40 (ucast p2)
       OR push_bit 32 (ucast p3) OR push_bit 24 (ucast p4) OR push_bit 16 (ucast p5)
       OR push_bit 8 (ucast p6) OR ucast p7)"
| "dec_be64 _ = None"

lemma length_enc_be [simp]: "length (enc_be32 n) = 4" "length (enc_be64 m) = 8"
  by (simp_all add: enc_be32_def enc_be64_def)

lemma and_ff_take_bit: "(x :: 'a::len word) AND 0xff = take_bit 8 x"
  by (simp add: take_bit_eq_mask mask_eq_exp_minus_1)

lemma bytes_of_word:
  fixes i :: nat
  assumes "i < 8 * k"
  obtains j b where "j < k" "b < 8" "i = 8 * j + b"
  using that [of "i div 8" "i mod 8"] assms by (simp add: less_mult_imp_div_less mult.commute)

lemma dec_enc_be32 [simp]: "dec_be32 (enc_be32 n @ r) = Some n"
proof -
  have "push_bit 24 (ucast (ucast (take_bit 8 (drop_bit 24 n)) :: byte)) OR
      push_bit 16 (ucast (ucast (take_bit 8 (drop_bit 16 n)) :: byte)) OR
      push_bit 8 (ucast (ucast (take_bit 8 (drop_bit 8 n)) :: byte)) OR
      ucast (ucast (take_bit 8 n) :: byte) = n" (is "?l = n")
  proof (rule bit_word_eqI)
    fix i assume "i < LENGTH(32)"
    then obtain j b where j: "j < 4" and ib: "b < 8" "i = 8 * j + b"
      using bytes_of_word [of i 4] by auto
    from j have "j = 0 \<or> j = 1 \<or> j = 2 \<or> j = 3" by arith
    with ib show "bit ?l i = bit n i"
      by (elim disjE) (auto simp: bit_simps)
  qed
  then show ?thesis by (simp add: enc_be32_def and_ff_take_bit)
qed

lemma dec_enc_be64 [simp]: "dec_be64 (enc_be64 n @ r) = Some n"
proof -
  have "push_bit 56 (ucast (ucast (take_bit 8 (drop_bit 56 n)) :: byte)) OR
      push_bit 48 (ucast (ucast (take_bit 8 (drop_bit 48 n)) :: byte)) OR
      push_bit 40 (ucast (ucast (take_bit 8 (drop_bit 40 n)) :: byte)) OR
      push_bit 32 (ucast (ucast (take_bit 8 (drop_bit 32 n)) :: byte)) OR
      push_bit 24 (ucast (ucast (take_bit 8 (drop_bit 24 n)) :: byte)) OR
      push_bit 16 (ucast (ucast (take_bit 8 (drop_bit 16 n)) :: byte)) OR
      push_bit 8 (ucast (ucast (take_bit 8 (drop_bit 8 n)) :: byte)) OR
      ucast (ucast (take_bit 8 n) :: byte) = n" (is "?l = n")
  proof (rule bit_word_eqI)
    fix i assume "i < LENGTH(64)"
    then obtain j b where j: "j < 8" and ib: "b < 8" "i = 8 * j + b"
      using bytes_of_word [of i 8] by auto
    from j have "j = 0 \<or> j = 1 \<or> j = 2 \<or> j = 3 \<or> j = 4 \<or> j = 5 \<or> j = 6 \<or> j = 7" by arith
    with ib show "bit ?l i = bit n i"
      by (elim disjE) (auto simp: bit_simps)
  qed
  then show ?thesis by (simp add: enc_be64_def and_ff_take_bit)
qed

lemma enc_dec_be32:
  assumes "dec_be32 bs = Some n"
  shows "take 4 bs = enc_be32 n"
proof -
  from assms obtain p0 p1 p2 p3 r where bs: "bs = p0 # p1 # p2 # p3 # r"
    by (cases bs rule: dec_be32.cases) auto
  let ?n = "push_bit 24 (ucast p0) OR push_bit 16 (ucast p1) OR push_bit 8 (ucast p2) OR ucast p3 :: u32"
  have "?n = n" using assms bs by simp
  moreover have "ucast (take_bit 8 (drop_bit 24 ?n)) = p0" "ucast (take_bit 8 (drop_bit 16 ?n)) = p1"
    "ucast (take_bit 8 (drop_bit 8 ?n)) = p2" "ucast (take_bit 8 ?n) = p3"
    by (rule bit_word_eqI; auto simp: bit_simps dest: bit_imp_le_length)+
  ultimately show ?thesis using bs by (simp add: enc_be32_def and_ff_take_bit)
qed

section \<open>Bit fields\<close>

text \<open>
  Index 0 is the most significant bit of byte 0, as on the wire. \<open>in_field\<close> says that the byte of
  an index lies inside the field; \<^verbatim>\<open>set_bit\<close> and \<^verbatim>\<open>clear_bit\<close> outside of it are undefined behaviour,
  which the callers of the model check where the index is not known to be inside.
\<close>

definition in_field :: "byte list \<Rightarrow> nat \<Rightarrow> bool" where
  "in_field bits index \<longleftrightarrow> index div 8 < length bits"

definition set_bit :: "byte list \<Rightarrow> nat \<Rightarrow> byte list" where
  "set_bit bits index =
     bits[index div 8 := bits ! (index div 8) OR push_bit (7 - index mod 8) 1]"

definition clear_bit :: "byte list \<Rightarrow> nat \<Rightarrow> byte list" where
  "clear_bit bits index =
     bits[index div 8 := bits ! (index div 8) AND NOT (push_bit (7 - index mod 8) 1)]"

definition has_bit :: "byte list \<Rightarrow> nat \<Rightarrow> bool" where
  "has_bit bits index \<longleftrightarrow> bits ! (index div 8) AND push_bit (7 - index mod 8) 1 \<noteq> 0"

lemma has_bit_bit: "has_bit bits i \<longleftrightarrow> bit (bits ! (i div 8)) (7 - i mod 8)"
  by (simp add: has_bit_def push_bit_eq_mult and_exp_eq_0_iff_not_bit)

lemma length_bits [simp]: "length (set_bit bs i) = length bs" "length (clear_bit bs i) = length bs"
  by (simp_all add: set_bit_def clear_bit_def)

lemma in_field_bits [simp]:
  "in_field (set_bit bs i) j = in_field bs j" "in_field (clear_bit bs i) j = in_field bs j"
  by (simp_all add: in_field_def)

lemma seven_minus_eq: "i div 8 = j div 8 \<Longrightarrow> 7 - i mod 8 = 7 - j mod 8 \<longleftrightarrow> i = (j::nat)"
proof
  assume "i div 8 = j div 8" "7 - i mod 8 = 7 - j mod 8"
  moreover have "i mod 8 \<le> 7" "j mod 8 \<le> 7" by simp_all
  ultimately have "i mod 8 = j mod 8" by linarith
  with \<open>i div 8 = j div 8\<close> show "i = j" by (metis div_mult_mod_eq)
qed simp

lemma has_bit_set_bit [bits_simps]:
  "in_field bs i \<Longrightarrow> has_bit (set_bit bs i) j \<longleftrightarrow> i = j \<or> has_bit bs j"
  by (cases "i div 8 = j div 8")
    (auto simp: has_bit_bit set_bit_def in_field_def bit_simps seven_minus_eq nth_list_update)

lemma has_bit_clear_bit [bits_simps]:
  "in_field bs i \<Longrightarrow> has_bit (clear_bit bs i) j \<longleftrightarrow> i \<noteq> j \<and> has_bit bs j"
  by (cases "i div 8 = j div 8")
    (auto simp: has_bit_bit clear_bit_def in_field_def bit_simps seven_minus_eq nth_list_update)

lemma has_bit_zero [simp]: "i div 8 < n \<Longrightarrow> \<not> has_bit (replicate n 0) i"
  by (simp add: has_bit_def)

text \<open>The length of a field of \<^verbatim>\<open>n\<close> bits, \<^verbatim>\<open>ceil(n / 8.0)\<close>.\<close>

definition field_len :: "nat \<Rightarrow> nat" where
  "field_len n = (n + 7) div 8"

lemma in_field_len: "length bs = field_len n \<Longrightarrow> i < n \<Longrightarrow> in_field bs i"
  by (simp add: in_field_def field_len_def)

subsection \<open>The interface: a field is a set of indices\<close>

locale bit_set =
  fixes member :: "'f \<Rightarrow> nat \<Rightarrow> bool"
    and insert_at :: "'f \<Rightarrow> nat \<Rightarrow> 'f"
    and delete_at :: "'f \<Rightarrow> nat \<Rightarrow> 'f"
    and inside :: "'f \<Rightarrow> nat \<Rightarrow> bool"
  assumes member_insert: "inside f i \<Longrightarrow> member (insert_at f i) j \<longleftrightarrow> i = j \<or> member f j"
    and member_delete: "inside f i \<Longrightarrow> member (delete_at f i) j \<longleftrightarrow> i \<noteq> j \<and> member f j"
    and inside_insert: "inside (insert_at f i) j = inside f j"
    and inside_delete: "inside (delete_at f i) j = inside f j"
begin

definition members :: "'f \<Rightarrow> nat \<Rightarrow> nat set" where
  "members f n = {i. i < n \<and> member f i}"

definition count :: "'f \<Rightarrow> nat \<Rightarrow> nat" where
  "count f n = card (members f n)"

lemma finite_members [simp]: "finite (members f n)"
  by (simp add: members_def)

lemma members_insert:
  "inside f i \<Longrightarrow> members (insert_at f i) n = (if i < n then insert i (members f n) else members f n)"
  by (auto simp: members_def member_insert)

lemma members_delete: "inside f i \<Longrightarrow> members (delete_at f i) n = members f n - {i}"
  by (auto simp: members_def member_delete)

lemma count_insert:
  "inside f i \<Longrightarrow> i < n \<Longrightarrow> \<not> member f i \<Longrightarrow> count (insert_at f i) n = Suc (count f n)"
  by (simp add: count_def members_insert) (simp add: members_def)

lemma count_delete:
  "inside f i \<Longrightarrow> i < n \<Longrightarrow> member f i \<Longrightarrow> Suc (count (delete_at f i) n) = count f n"
  unfolding count_def members_delete by (rule card_Suc_Diff1) (auto simp: members_def)

lemma count_le: "count f n \<le> n"
  unfolding count_def using card_mono [of "{..<n}" "members f n"] by (auto simp: members_def)

lemma count_full: "count f n = n \<Longrightarrow> i < n \<Longrightarrow> member f i"
  unfolding count_def using card_subset_eq [of "{..<n}" "members f n"] by (auto simp: members_def)

lemma delete_all:
  "\<forall>i < n. inside f i \<Longrightarrow> \<not> member (foldl delete_at f [0..<n]) j \<or> \<not> j < n"
proof -
  have "inside (foldl delete_at f xs) j = inside f j" for xs j
    by (induction xs arbitrary: f) (simp_all add: inside_delete)
  moreover have "\<forall>i \<in> set xs. inside f i \<Longrightarrow> j \<in> set xs \<Longrightarrow> \<not> member (foldl delete_at f xs) j" for xs
    by (induction xs rule: rev_induct) (auto simp: member_delete calculation)
  ultimately show "\<forall>i < n. inside f i \<Longrightarrow> \<not> member (foldl delete_at f [0..<n]) j \<or> \<not> j < n"
    by auto
qed

end

interpretation bf: bit_set has_bit set_bit clear_bit in_field
  by unfold_locales (simp_all add: bits_simps)

section \<open>Hexadecimal\<close>

definition hex2i :: "char \<Rightarrow> byte option" where
  "hex2i c = (let n = (of_char c :: nat) in
     if 48 \<le> n \<and> n \<le> 57 then Some (of_nat (n - 48))
     else if 97 \<le> n \<and> n \<le> 102 then Some (of_nat (10 + n - 97))
     else None)"

fun ishex :: "cstr \<Rightarrow> bool" where
  "ishex [] = True"
| "ishex (c # str) = (let n = (of_char c :: nat) in
     if \<not> (48 \<le> n \<and> n \<le> 57 \<or> 97 \<le> n \<and> n \<le> 102) then False else ishex str)"

fun hex2bin :: "cstr \<Rightarrow> nat \<Rightarrow> byte list option" where
  "hex2bin hex 0 = Some []"
| "hex2bin (h # l # hex) (Suc n) =
     do { x \<leftarrow> hex2i h; y \<leftarrow> hex2i l; r \<leftarrow> hex2bin hex n; Some ((push_bit 4 x OR y) # r) }"
| "hex2bin _ (Suc n) = None"

definition hexc :: cstr where
  "hexc = ''0123456789abcdef''"

fun bin2hex :: "byte list \<Rightarrow> nat \<Rightarrow> cstr" where
  "bin2hex bin 0 = []"
| "bin2hex [] (Suc n) = []"
| "bin2hex (b # bin) (Suc n) =
     hexc ! unat (drop_bit 4 b AND 0xf) # hexc ! unat (b AND 0xf) # bin2hex bin n"

lemma hex2i_hexc: "k < 16 \<Longrightarrow> hex2i (hexc ! k) = Some (of_nat k)"
proof -
  assume "k < 16"
  then have "k = 0 \<or> k = 1 \<or> k = 2 \<or> k = 3 \<or> k = 4 \<or> k = 5 \<or> k = 6 \<or> k = 7 \<or> k = 8 \<or>
    k = 9 \<or> k = 10 \<or> k = 11 \<or> k = 12 \<or> k = 13 \<or> k = 14 \<or> k = 15" by arith
  then show ?thesis by (elim disjE) (simp_all add: hex2i_def hexc_def)
qed

lemma and_0xf: "(b :: byte) AND 0xf = take_bit 4 b"
  by (simp add: take_bit_eq_mask mask_eq_exp_minus_1)

lemma nibble_less: "unat ((b :: byte) AND 0xf) < 16"
  using take_bit_nat_less_exp [of 4 "unat b"] by (simp add: and_0xf unsigned_take_bit_eq)

lemma nibbles_join: "push_bit 4 (drop_bit 4 b AND 0xf) OR (b AND 0xf) = (b :: byte)"
proof (rule bit_word_eqI)
  fix i assume "i < LENGTH(8)"
  then have "i < 4 \<or> i \<ge> 4 \<and> i - 4 < 4" by auto
  then show "bit (push_bit 4 (drop_bit 4 b AND 0xf) OR (b AND 0xf)) i = bit b i"
    by (auto simp: and_0xf bit_simps dest: bit_imp_le_length)
qed

lemma hex2bin_bin2hex: "length bin = n \<Longrightarrow> hex2bin (bin2hex bin n) n = Some bin"
  by (induction bin n rule: bin2hex.induct)
    (simp_all add: hex2i_hexc nibble_less nibbles_join del: push_bit_and)

lemma length_bin2hex: "length bin = n \<Longrightarrow> length (bin2hex bin n) = 2 * n"
  by (induction bin n rule: bin2hex.induct) simp_all

lemma ishex_hex2i: "ishex s \<longleftrightarrow> (\<forall>c \<in> set s. hex2i c \<noteq> None)"
  by (induction s rule: ishex.induct) (auto simp: hex2i_def Let_def)

lemma hex2bin_ishex: "ishex s \<Longrightarrow> length s = 2 * n \<Longrightarrow> \<exists>b. hex2bin s n = Some b \<and> length b = n"
  by (induction s n rule: hex2bin.induct) (fastforce simp: ishex_hex2i)+

lemma ishex_bin2hex: "length bin = n \<Longrightarrow> ishex (bin2hex bin n)"
  by (induction bin n rule: bin2hex.induct)
    (auto simp: ishex_hex2i hex2i_hexc nibble_less simp del: ishex.simps)

section \<open>Complete reads and writes\<close>

text \<open>
  The kernel answers each call of \<^verbatim>\<open>write\<close> and \<^verbatim>\<open>read\<close> with part of what was asked for, or an error.
  A run is given by its answers; the model stops with \<open>None\<close> where the answers run out (the
  process still waits). \<^verbatim>\<open>read\<close> answers with the bytes it delivered, none of them at end of file.
\<close>

datatype wr_answer = Wrote nat | Wr_Error errno

fun write_fully :: "wr_answer list \<Rightarrow> 'a list \<Rightarrow> (errno option \<times> 'a list) option" where
  "write_fully ans [] = Some (None, [])"
| "write_fully [] buf = None"
| "write_fully (Wr_Error e # ans) buf = Some (Some e, [])"
| "write_fully (Wrote nw # ans) buf =
     map_option (\<lambda>(e, out). (e, take nw buf @ out)) (write_fully ans (drop nw buf))"

datatype 'a rd_answer = Did_Read "'a list" | Rd_Error errno

fun read_fully :: "'a rd_answer list \<Rightarrow> nat \<Rightarrow> (errno option \<times> 'a list) option" where
  "read_fully ans 0 = Some (None, [])"
| "read_fully [] (Suc n) = None"
| "read_fully (Rd_Error e # ans) (Suc n) = Some (Some e, [])"
| "read_fully (Did_Read bs # ans) (Suc n) =
     (if bs = [] then Some (Some EIO, [])
      else map_option (\<lambda>(e, got). (e, bs @ got)) (read_fully ans (Suc n - length bs)))"

lemma write_fully_prefix: "write_fully ans buf = Some (e, out) \<Longrightarrow> prefix out buf"
proof (induction ans buf arbitrary: e out rule: write_fully.induct)
  case (4 nw ans b bs)
  then obtain out' where "write_fully ans (drop nw (b # bs)) = Some (e, out')"
    and out: "out = take nw (b # bs) @ out'" by auto
  then have "prefix out' (drop nw (b # bs))" using "4.IH" by blast
  then show ?case using out by (metis append_take_drop_id same_prefix_prefix)
qed auto

lemma write_fully_ok: "write_fully ans buf = Some (None, out) \<Longrightarrow> out = buf"
  by (induction ans buf arbitrary: out rule: write_fully.induct) auto

lemma read_fully_ok:
  "read_fully ans n = Some (None, got) \<Longrightarrow>
     (\<exists>k. got = concat (map (\<lambda>a. case a of Did_Read bs \<Rightarrow> bs | Rd_Error _ \<Rightarrow> []) (take k ans))) \<and> n \<le> length got"
proof (induction ans n arbitrary: got rule: read_fully.induct)
  case (1 ans)
  then show ?case by (auto intro: exI [of _ 0])
next
  case (4 bs ans n)
  then obtain got' where g: "read_fully ans (Suc n - length bs) = Some (None, got')"
    "got = bs @ got'" "bs \<noteq> []" by (auto split: if_splits)
  with "4.IH" [OF g(3) g(1)] obtain k where
    "got' = concat (map (\<lambda>a. case a of Did_Read bs \<Rightarrow> bs | Rd_Error _ \<Rightarrow> []) (take k ans))"
    "Suc n - length bs \<le> length got'" by blast
  with g(2) show ?case by (auto intro: exI [of _ "Suc k"])
qed auto

section \<open>Absolute path names\<close>

text \<open>
  The labels of the \<^verbatim>\<open>goto\<close> machine of \<^verbatim>\<open>make_abs_path\<close>. \<^verbatim>\<open>inp\<close> is what is left of \<^verbatim>\<open>in\<close>, \<^verbatim>\<open>out\<close> the first
  \<^verbatim>\<open>oi\<close> characters of the result and \<^verbatim>\<open>lastsep\<close> the index of the slash before the current component.
  \<^verbatim>\<open>getcwd\<close> is the argument \<open>cwd\<close>.
\<close>

definition PATH_MAX :: nat where
  "PATH_MAX = 4096"

datatype abs_label = After_Slash | One_Dot | Two_Dot | Normal

definition drop_last_comp :: "cstr \<Rightarrow> nat \<Rightarrow> cstr \<times> nat" where
  "drop_last_comp out lastsep =
     (if lastsep = 0 then (take 1 out, lastsep)
      else (let o1 = rev (dropWhile (\<lambda>c. c \<noteq> CHR ''/'') (rev (take lastsep out)))
            in (o1, length o1 - 1)))"

function abs_loop :: "abs_label \<Rightarrow> cstr \<Rightarrow> cstr \<Rightarrow> nat \<Rightarrow> cstr \<times> nat" where
  "abs_loop After_Slash inp out lastsep =
     (let inp1 = dropWhile (\<lambda>c. c = CHR ''/'') inp in
      case inp1 of
        [] \<Rightarrow> (out, lastsep)
      | c # r \<Rightarrow> if c = CHR ''.'' then abs_loop One_Dot r out lastsep
                 else abs_loop Normal inp1 out lastsep)"
| "abs_loop One_Dot inp out lastsep =
     (case inp of
        [] \<Rightarrow> (out, lastsep)
      | c # r \<Rightarrow> if c = CHR ''/'' then abs_loop After_Slash r out lastsep
                 else if c = CHR ''.'' then abs_loop Two_Dot r out lastsep
                 else abs_loop Normal inp (out @ ''.'') lastsep)"
| "abs_loop Two_Dot inp out lastsep =
     (case inp of
        [] \<Rightarrow> drop_last_comp out lastsep
      | c # r \<Rightarrow> if c = CHR ''/''
                 then (let ol = drop_last_comp out lastsep in abs_loop After_Slash r (fst ol) (snd ol))
                 else abs_loop Normal inp (out @ ''..'') lastsep)"
| "abs_loop Normal inp out lastsep =
     (case inp of
        [] \<Rightarrow> (out, lastsep)
      | c # r \<Rightarrow> if c = CHR ''/'' then abs_loop After_Slash r (out @ ''/'') (length out)
                 else abs_loop Normal r (out @ [c]) lastsep)"
  by pat_completeness auto
termination
  by (relation "measure (\<lambda>(l, inp, out, ls). 2 * length inp + (if l = Normal then 0 else 1))")
    (auto simp: length_dropWhile_le less_Suc_eq_le dest!: dropWhile_length_less [OF sym])

declare abs_loop.simps [simp del]

definition abs_end :: "cstr \<times> nat \<Rightarrow> cstr" where
  "abs_end ol = (case ol of (out, lastsep) \<Rightarrow>
     if length out = lastsep + 1 \<and> lastsep \<noteq> 0 then take lastsep out else out)"

definition make_abs_path :: "errno + cstr \<Rightarrow> cstr \<Rightarrow> errno + cstr" where
  "make_abs_path cwd inp =
     (case inp of
        [] \<Rightarrow> Inl EINVAL
      | c # r \<Rightarrow>
          if c = CHR ''/''
          then (if PATH_MAX \<le> length inp then Inl ENAMETOOLONG
                else Inr (abs_end (abs_loop After_Slash r ''/'' 0)))
          else (case cwd of
                  Inl e \<Rightarrow> Inl e
                | Inr d \<Rightarrow> if PATH_MAX \<le> length d + length inp + 1 then Inl ENAMETOOLONG
                           else Inr (abs_end (abs_loop After_Slash inp (d @ ''/'') (length d)))))"

subsection \<open>What a path means\<close>

text \<open>The specification: split at slashes, drop empty and dot components, let dot-dot remove one.\<close>

fun path_comps :: "cstr \<Rightarrow> cstr \<Rightarrow> cstr list" where
  "path_comps w [] = [w]"
| "path_comps w (c # s) = (if c = CHR ''/'' then w # path_comps [] s else path_comps (w @ [c]) s)"

definition push_comp :: "cstr list \<Rightarrow> cstr \<Rightarrow> cstr list" where
  "push_comp cs w =
     (if w = [] \<or> w = ''.'' then cs else if w = ''..'' then butlast cs else cs @ [w])"

definition path_of :: "cstr list \<Rightarrow> cstr" where
  "path_of cs = concat (map (\<lambda>c. CHR ''/'' # c) cs)"

definition show_path :: "cstr list \<Rightarrow> cstr" where
  "show_path cs = (if cs = [] then ''/'' else path_of cs)"

definition resolve :: "cstr list \<Rightarrow> cstr \<Rightarrow> cstr list" where
  "resolve cs s = foldl push_comp cs (path_comps [] s)"

definition no_slash :: "cstr list \<Rightarrow> bool" where
  "no_slash cs \<longleftrightarrow> (\<forall>c \<in> set cs. CHR ''/'' \<notin> set c)"

lemma push_comp_dots [simp]:
  "push_comp cs [] = cs" "push_comp cs ''.'' = cs" "push_comp cs ''..'' = butlast cs"
  by (simp_all add: push_comp_def)

lemma path_of_simps [simp]:
  "path_of [] = []" "path_of (cs @ [c]) = path_of cs @ CHR ''/'' # c"
  by (simp_all add: path_of_def)

lemma path_of_Nil_iff [simp]: "path_of cs = [] \<longleftrightarrow> cs = []"
  by (cases cs) (simp_all add: path_of_def)

lemma abs_end_dir: "abs_end (path_of cs @ ''/'', length (path_of cs)) = show_path cs"
  by (simp add: abs_end_def show_path_def)

lemma abs_end_name:
  "w \<noteq> [] \<Longrightarrow> abs_end (path_of cs @ CHR ''/'' # w, length (path_of cs)) = show_path (cs @ [w])"
  by (simp add: abs_end_def show_path_def)

lemma drop_last_comp_dir:
  assumes "no_slash cs"
  shows "drop_last_comp (path_of cs @ ''/'') (length (path_of cs)) =
    (path_of (butlast cs) @ ''/'', length (path_of (butlast cs)))"
proof (cases cs rule: rev_cases)
  case Nil
  then show ?thesis by (simp add: drop_last_comp_def)
next
  case (snoc ds d)
  with assms have "CHR ''/'' \<notin> set (rev d)" by (simp add: no_slash_def)
  then have "dropWhile (\<lambda>c. c \<noteq> CHR ''/'') (rev d @ CHR ''/'' # rev (path_of ds)) = CHR ''/'' # rev (path_of ds)"
    by (subst dropWhile_append2) auto
  with snoc show ?thesis by (simp add: drop_last_comp_def)
qed

lemma no_slash_push [simp]: "no_slash cs \<Longrightarrow> CHR ''/'' \<notin> set w \<Longrightarrow> no_slash (push_comp cs w)"
  by (auto simp: no_slash_def push_comp_def dest: in_set_butlastD)

lemma no_slash_butlast [simp]: "no_slash cs \<Longrightarrow> no_slash (butlast cs)"
  by (auto simp: no_slash_def dest: in_set_butlastD)

lemma path_comps_dropWhile:
  "foldl push_comp cs (path_comps [] (dropWhile (\<lambda>c. c = CHR ''/'') s)) = foldl push_comp cs (path_comps [] s)"
  by (induction s) (auto simp: push_comp_def)

text \<open>
  What each label has read of the current component: nothing, a dot, two dots, or \<open>w\<close>, which at
  \<open>Normal\<close> is, or is about to become, a name that is neither empty, dot nor dot-dot.
\<close>

fun label_inv :: "abs_label \<Rightarrow> cstr \<Rightarrow> cstr \<Rightarrow> bool" where
  "label_inv After_Slash w inp \<longleftrightarrow> w = []"
| "label_inv One_Dot w inp \<longleftrightarrow> w = ''.''"
| "label_inv Two_Dot w inp \<longleftrightarrow> w = ''..''"
| "label_inv Normal w inp \<longleftrightarrow> CHR ''/'' \<notin> set w \<and>
     (w \<notin> {[], ''.'', ''..''} \<or>
      w \<in> {[], ''.'', ''..''} \<and> (\<exists>c r. inp = c # r \<and> c \<noteq> CHR ''/'' \<and> (w = ''..'' \<or> c \<noteq> CHR ''.'')))"

definition written :: "abs_label \<Rightarrow> cstr \<Rightarrow> cstr" where
  "written l w = (if l = Normal then w else [])"

lemma push_comp_name: "w \<notin> {[], ''.'', ''..''} \<Longrightarrow> push_comp cs w = cs @ [w]"
  by (simp add: push_comp_def)

lemma abs_loop_resolve:
  assumes "no_slash cs" "label_inv l w inp"
    and "out = path_of cs @ CHR ''/'' # written l w" "lastsep = length (path_of cs)"
  shows "abs_end (abs_loop l inp out lastsep) = show_path (foldl push_comp cs (path_comps w inp))"
  using assms
proof (induction l inp out lastsep arbitrary: cs w rule: abs_loop.induct)
  case (1 inp out ls)
  let ?i = "dropWhile (\<lambda>c. c = CHR ''/'') inp"
  have e: "foldl push_comp cs (path_comps [] inp) = foldl push_comp cs (path_comps [] ?i)"
    by (simp add: path_comps_dropWhile)
  show ?case
  proof (cases ?i)
    case Nil
    have "abs_end (abs_loop After_Slash inp out ls) = abs_end (out, ls)"
      by (subst abs_loop.simps, unfold Let_def Nil) simp
    with 1 e [unfolded Nil] show ?thesis by (simp add: written_def abs_end_dir)
  next
    case (Cons c r)
    then have c: "c \<noteq> CHR ''/''" using hd_dropWhile [of "\<lambda>c. c = CHR ''/''" inp] by simp
    show ?thesis
    proof (cases "c = CHR ''.''")
      case True
      have "abs_end (abs_loop One_Dot r out ls) = show_path (foldl push_comp cs (path_comps ''.'' r))"
        by (rule "1.IH"(1) [OF refl Cons True "1.prems"(1)]) (use "1.prems" in \<open>auto simp: written_def\<close>)
      with 1 e Cons True show ?thesis by (subst abs_loop.simps) simp
    next
      case False
      have "abs_end (abs_loop Normal ?i out ls) = show_path (foldl push_comp cs (path_comps [] ?i))"
        by (rule "1.IH"(2) [OF refl Cons False "1.prems"(1)])
          (use "1.prems" c False Cons in \<open>auto simp: written_def\<close>)
      with 1 e Cons False show ?thesis by (subst abs_loop.simps) simp
    qed
  qed
next
  case (2 inp out ls)
  show ?case
  proof (cases inp)
    case Nil
    with 2 show ?thesis by (subst abs_loop.simps) (simp add: written_def abs_end_dir)
  next
    case (Cons c r)
    then show ?thesis using 2
      by (subst abs_loop.simps) (auto simp: written_def )
  qed
next
  case (3 inp out ls)
  show ?case
  proof (cases inp)
    case Nil
    with 3 show ?thesis
      by (subst abs_loop.simps) (simp add: written_def abs_end_dir  drop_last_comp_dir)
  next
    case (Cons c r)
    then show ?thesis using 3
      by (subst abs_loop.simps) (auto simp: written_def  drop_last_comp_dir Let_def)
  qed
next
  case (4 inp out ls)
  show ?case
  proof (cases inp)
    case Nil
    with 4 show ?thesis
      by (subst abs_loop.simps) (auto simp: written_def abs_end_name push_comp_name)
  next
    case (Cons c r)
    show ?thesis
    proof (cases "c = CHR ''/''")
      case True
      with Cons "4.prems" have w: "w \<notin> {[], ''.'', ''..''}" "CHR ''/'' \<notin> set w" by auto
      have "abs_end (abs_loop After_Slash r (out @ ''/'') (length out)) =
          show_path (foldl push_comp (cs @ [w]) (path_comps [] r))"
        by (rule "4.IH"(1) [OF Cons True]) (use "4.prems" w in \<open>auto simp: written_def no_slash_def\<close>)
      with Cons True w show ?thesis by (subst abs_loop.simps) (simp add: push_comp_name)
    next
      case False
      have "label_inv Normal (w @ [c]) r"
        using "4.prems"(2) Cons False by (auto simp: append_eq_Cons_conv)
      then have "abs_end (abs_loop Normal r (out @ [c]) ls) = show_path (foldl push_comp cs (path_comps (w @ [c]) r))"
        by (intro "4.IH"(2) [OF Cons False "4.prems"(1)]) (use "4.prems" in \<open>auto simp: written_def\<close>)
      with Cons False show ?thesis by (subst abs_loop.simps) simp
    qed
  qed
qed

section \<open>Properties\<close>

text \<open>C39. \<^verbatim>\<open>memfind\<close> returns the first position at which the needle occurs in the first \<open>memlen\<close> bytes,
  and NULL only when it does not occur there, without reading outside the object; provided the
  needle is not longer than the searched region.\<close>

theorem memfind_first_occurrence:
  assumes "unat sublen = length sub" "sub \<noteq> []" "unat memlen \<le> length mem" "length sub \<le> unat memlen"
  shows "\<exists>r. memfind sub sublen mem memlen = Some r \<and>
    (case r of None \<Rightarrow> \<forall>j. \<not> occurs_at sub (take (unat memlen) mem) j
     | Some k \<Rightarrow> occurs_at sub (take (unat memlen) mem) k \<and>
         (\<forall>j < k. \<not> occurs_at sub (take (unat memlen) mem) j))"
proof -
  have "0 < unat sublen" using assms by simp
  with assms have "unat (memlen - sublen + 1) + length sub = Suc (unat memlen)"
    using memfind_bound [of sublen memlen] by simp
  from memfind_from_spec [OF this assms(3), of 0] show ?thesis
    using assms(1) by (auto simp: memfind_def split: option.splits)
qed

theorem memfind_first_occurrence_witness:
  "\<exists>r. memfind [CHR ''b'', CHR ''c''] 2 ''abcbc!'' 5 = Some r \<and>
    (case r of None \<Rightarrow> \<forall>j. \<not> occurs_at ''bc'' (take (unat (5 :: u64)) ''abcbc!'') j
     | Some k \<Rightarrow> occurs_at ''bc'' (take (unat (5 :: u64)) ''abcbc!'') k \<and>
         (\<forall>j < k. \<not> occurs_at ''bc'' (take (unat (5 :: u64)) ''abcbc!'') j))"
  by (rule memfind_first_occurrence) simp_all

text \<open>The case the length test of the loop misses: a region shorter than the needle by two or more.\<close>

lemma memfind_overruns_short_buffer:
  "memfind ''abcd'' 4 ''ab'' 2 = None"
  by (simp add: memfind_def memfind_from.simps unsigned_minus_1_eq_mask mask_eq_exp_minus_1)

text \<open>The encoders and decoders of 32 and 64 bit network integers are inverse to each other on
  every value and every four bytes, whatever follows in the buffer.\<close>

theorem be_integers_roundtrip:
  "dec_be32 (enc_be32 n @ r) = Some n \<and> dec_be64 (enc_be64 m @ r) = Some m \<and>
   (case dec_be32 bs of None \<Rightarrow> length bs < 4 | Some k \<Rightarrow> take 4 bs = enc_be32 k)"
proof -
  have "dec_be32 bs = None \<Longrightarrow> length bs < 4" by (induction bs rule: dec_be32.induct) auto
  then show ?thesis using enc_dec_be32 [of bs] by (auto split: option.splits)
qed

text \<open>C40. A bit field is a set of piece indices: after \<^verbatim>\<open>set_bit\<close> and \<^verbatim>\<open>clear_bit\<close> inside a field of
  \<open>n\<close> bits exactly the index asked for is added or removed, and the number of members moves by one.\<close>

theorem bit_field_is_set:
  assumes "length bs = field_len n" "i < n"
  shows "bf.members (set_bit bs i) n = insert i (bf.members bs n) \<and>
    bf.members (clear_bit bs i) n = bf.members bs n - {i} \<and>
    bf.count (set_bit bs i) n = bf.count bs n + (if has_bit bs i then 0 else 1) \<and>
    bf.count (clear_bit bs i) n = bf.count bs n - (if has_bit bs i then 1 else 0)"
proof -
  have "i \<in> bf.members bs n \<longleftrightarrow> has_bit bs i" using assms(2) by (simp add: bf.members_def)
  then show ?thesis using in_field_len [OF assms] assms(2)
    by (simp add: bf.members_insert bf.members_delete bf.count_def insert_absorb)
qed

theorem bit_field_is_set_witness:
  "bf.members (set_bit [0x80, 0] 9) 10 = insert 9 (bf.members [0x80, 0] 10) \<and>
   bf.members (clear_bit [0x80, 0] 9) 10 = bf.members [0x80, 0] 10 - {9} \<and>
   bf.count (set_bit [0x80, 0] 9) 10 = bf.count [0x80, 0] 10 + (if has_bit [0x80, 0] 9 then 0 else 1) \<and>
   bf.count (clear_bit [0x80, 0] 9) 10 = bf.count [0x80, 0] 10 - (if has_bit [0x80, 0] 9 then 1 else 0)"
  by (rule bit_field_is_set) (simp_all add: field_len_def)

text \<open>Hexadecimal text of a byte string decodes to it, and is accepted by \<^verbatim>\<open>ishex\<close>.\<close>

theorem hex_roundtrip:
  "hex2bin (bin2hex bin (length bin)) (length bin) = Some bin \<and> ishex (bin2hex bin (length bin))"
  by (simp_all add: hex2bin_bin2hex ishex_bin2hex)

text \<open>C30. \<^verbatim>\<open>make_abs_path\<close> computes the path a name denotes: the components of the name are resolved
  against those of the current directory, dot and empty components dropped and each dot-dot taking
  one component away, for every name and every current directory other than the root.\<close>

theorem make_abs_path_resolves:
  assumes "length d + length inp + 1 < PATH_MAX" "inp \<noteq> []"
    and "d = path_of ds" "ds \<noteq> []" "no_slash ds"
  shows "make_abs_path (Inr d) inp =
    Inr (show_path (resolve (if hd inp = CHR ''/'' then [] else ds) inp))"
proof (cases inp)
  case Nil
  with assms show ?thesis by simp
next
  case (Cons c r)
  show ?thesis
  proof (cases "c = CHR ''/''")
    case True
    have "abs_end (abs_loop After_Slash r ''/'' 0) = show_path (foldl push_comp [] (path_comps [] r))"
      by (rule abs_loop_resolve) (simp_all add: no_slash_def written_def)
    with Cons True assms show ?thesis by (simp add: make_abs_path_def resolve_def)
  next
    case False
    have "abs_end (abs_loop After_Slash inp (d @ ''/'') (length d)) =
        show_path (foldl push_comp ds (path_comps [] inp))"
      by (rule abs_loop_resolve) (simp_all add: assms written_def)
    with Cons False assms show ?thesis by (simp add: make_abs_path_def resolve_def)
  qed
qed

theorem make_abs_path_resolves_witness:
  "make_abs_path (Inr ''/home/u'') ''a//./../b'' =
    Inr (show_path (resolve (if hd ''a//./../b'' = CHR ''/'' then [] else [''home'', ''u'']) ''a//./../b''))"
  by (rule make_abs_path_resolves) (simp_all add: PATH_MAX_def path_of_def no_slash_def)

text \<open>From the root directory the result keeps an empty first component.\<close>

lemma make_abs_path_root: "make_abs_path (Inr ''/'') ''x'' = Inr ''//x''"
  by (simp add: make_abs_path_def PATH_MAX_def abs_loop.simps abs_end_def)

end
