(* ===== verification/Benc.thy ===== *)
theory Benc
  imports Subr
begin

text \<open>
  \<^verbatim>\<open>misc/benc.c\<close>: validation of bencoded buffers and the accessors that walk them in place.
  A pointer into a buffer is the suffix of the buffer that starts there, so \<^verbatim>\<open>p + n\<close> is \<open>drop n p\<close>,
  \<^verbatim>\<open>*p\<close> is the head and \<^verbatim>\<open>p <= end\<close> is \<open>p \<noteq> []\<close>. Where the code returns a pointer that may be NULL
  the model returns an option; where it can read past the buffer or fail an assertion the outer
  option is \<open>None\<close>.
\<close>

section \<open>Digits\<close>

definition isdigit :: "char \<Rightarrow> bool" where
  "isdigit c \<longleftrightarrow> (let n = (of_char c :: nat) in 48 \<le> n \<and> n \<le> 57)"

definition digit :: "char \<Rightarrow> nat" where
  "digit c = of_char c - 48"

definition dec_val :: "cstr \<Rightarrow> nat" where
  "dec_val ds = foldl (\<lambda>l c. l * 10 + digit c) 0 ds"

text \<open>The \<^verbatim>\<open>size_t\<close> accumulation of the validator wraps, \<^verbatim>\<open>strtoul\<close> and \<^verbatim>\<open>strtoll\<close> saturate.\<close>

definition wrap_len :: "cstr \<Rightarrow> u64" where
  "wrap_len ds = foldl (\<lambda>l c. l * 10 + of_nat (digit c)) 0 ds"

definition strtoul :: "cstr \<Rightarrow> nat" where
  "strtoul p = min (dec_val (takeWhile isdigit p)) (2 ^ 64 - 1)"

definition strtoll :: "cstr \<Rightarrow> int \<times> cstr" where
  "strtoll p =
     (let neg = (case p of c # _ \<Rightarrow> c = CHR ''-'' | [] \<Rightarrow> False); q = (if neg then tl p else p);
          ds = takeWhile isdigit q; v = (if neg then - int (dec_val ds) else int (dec_val ds))
      in if ds = [] then (0, p)
         else (max (- (2 ^ 63)) (min (2 ^ 63 - 1) v), dropWhile isdigit q))"

lemma wrap_len_dec: "unat (wrap_len ds) = dec_val ds mod 2 ^ 64"
proof -
  have "foldl (\<lambda>l c. l * 10 + of_nat (digit c)) (of_nat n) ds =
      (of_nat (foldl (\<lambda>l c. l * 10 + digit c) n ds) :: u64)" for n
  proof (induction ds arbitrary: n)
    case (Cons d ds)
    from Cons [of "n * 10 + digit d"] show ?case by simp
  qed simp
  from this [of 0] have "wrap_len ds = of_nat (dec_val ds)"
    by (simp add: wrap_len_def dec_val_def)
  then show ?thesis by (simp add: unsigned_of_nat take_bit_eq_mod)
qed

section \<open>Validation\<close>

text \<open>
  The cases of \<^verbatim>\<open>benc_validate_aux\<close>: after \<^verbatim>\<open>'i'\<close>, and the default case of a string. The result
  points at the last byte of the element, \<open>None\<close> is NULL.
\<close>

definition benc_validate_int :: "cstr \<Rightarrow> cstr option" where
  "benc_validate_int r =
     (case (case r of x # r' \<Rightarrow> if x = CHR ''-'' then r' else r | [] \<Rightarrow> r) of
        [] \<Rightarrow> None
      | x # r2 \<Rightarrow>
          if \<not> isdigit x then None
          else (case dropWhile isdigit r2 of
                  [] \<Rightarrow> None
                | e # r3 \<Rightarrow> if e \<noteq> CHR ''e'' then None else Some (e # r3)))"

definition benc_validate_str :: "cstr \<Rightarrow> cstr option" where
  "benc_validate_str p =
     (let len = wrap_len (takeWhile isdigit p) in
      case dropWhile isdigit p of
        [] \<Rightarrow> None
      | e # r \<Rightarrow> if e = CHR '':'' \<and> unat len < length (e # r) then Some (drop (unat len) (e # r))
                 else None)"

text \<open>
  The recursion; \<open>benc_validate_loop\<close> is the \<^verbatim>\<open>for\<close> loop of the list and dictionary case together
  with the check after it, \<open>d\<close> the counter that is 0 for a list.
\<close>

function (sequential) benc_validate_aux :: "cstr \<Rightarrow> cstr option"
  and benc_validate_loop :: "nat \<Rightarrow> cstr \<Rightarrow> cstr option" where
  "benc_validate_aux [] = None"
| "benc_validate_aux (c # r) =
     (if c = CHR ''d'' then benc_validate_loop 1 r
      else if c = CHR ''l'' then benc_validate_loop 0 r
      else if c = CHR ''i'' then benc_validate_int r
      else if isdigit c then benc_validate_str (c # r)
      else None)"
| "benc_validate_loop d [] = None"
| "benc_validate_loop d (c # r) =
     (if c = CHR ''e'' then (if d \<noteq> 0 \<and> d mod 2 \<noteq> 1 then None else Some (c # r))
      else if d \<noteq> 0 \<and> d mod 2 = 1 \<and> \<not> isdigit c then None
      else (case benc_validate_aux (c # r) of
              None \<Rightarrow> None
            | Some q \<Rightarrow> benc_validate_loop (if d \<noteq> 0 then Suc d else d) (tl q)))"
  by pat_completeness auto

lemma benc_validate_int_shrinks: "benc_validate_int r = Some q \<Longrightarrow> q \<noteq> [] \<and> length q \<le> length r"
  by (auto simp: benc_validate_int_def length_dropWhile_le le_SucI split: if_splits list.splits)

lemma benc_validate_str_shrinks: "benc_validate_str p = Some q \<Longrightarrow> q \<noteq> [] \<and> length q \<le> length p"
  by (auto simp: benc_validate_str_def Let_def split: if_splits list.splits
      dest!: dropWhile_length_less)

lemma benc_validate_shrinks:
  shows "benc_validate_aux_benc_validate_loop_dom (Inl p) \<Longrightarrow>
     benc_validate_aux p = Some q \<Longrightarrow> q \<noteq> [] \<and> length q \<le> length p"
  and "benc_validate_aux_benc_validate_loop_dom (Inr (d, p')) \<Longrightarrow>
     benc_validate_loop d p' = Some q \<Longrightarrow> q \<noteq> [] \<and> length q \<le> length p'"
proof (induction p and d p' arbitrary: q and q rule: benc_validate_aux_benc_validate_loop.pinduct)
  case (2 c r)
  then show ?case
    by (auto simp: benc_validate_aux.psimps split: if_splits
        dest!: benc_validate_int_shrinks benc_validate_str_shrinks intro: le_SucI)
next
  case (4 d c r)
  then show ?case
    by (fastforce simp: benc_validate_loop.psimps split: if_splits option.splits)
qed (simp_all add: benc_validate_aux.psimps benc_validate_loop.psimps)

termination benc_validate_aux
proof (relation "measure (\<lambda>x. case x of Inl p \<Rightarrow> 2 * length p | Inr (d, p) \<Rightarrow> 2 * length p + 1)",
    goal_cases)
  case (5 d c r q)
  then show ?case using benc_validate_shrinks(1) [of "c # r" q] by (cases q) auto
qed auto

lemma benc_validate_aux_shrinks:
  shows "benc_validate_aux p = Some q \<Longrightarrow> q \<noteq> [] \<and> length q \<le> length p"
  and "benc_validate_loop d p' = Some q \<Longrightarrow> q \<noteq> [] \<and> length q \<le> length p'"
proof (induction p and d p' arbitrary: q and q rule: benc_validate_aux_benc_validate_loop.induct)
  case (2 c r)
  then show ?case
    by (auto split: if_splits
        dest!: benc_validate_int_shrinks benc_validate_str_shrinks intro: le_SucI)
next
  case (4 d c r)
  then show ?case
    by (fastforce split: if_splits option.splits)
qed simp_all

declare benc_validate_aux.simps [simp del] benc_validate_loop.simps [simp del]

definition benc_validate :: "cstr \<Rightarrow> errno option" where
  "benc_validate p =
     (if length p = 0 then Some EINVAL
      else case benc_validate_aux p of
             Some q \<Rightarrow> if length q = 1 then None else Some EINVAL
           | None \<Rightarrow> Some EINVAL)"

section \<open>The grammar\<close>

text \<open>
  The values a buffer can stand for, and the relation between a value and its encodings. The
  relation is over the reading \<open>rd\<close> of a length field: the validator reads it modulo \<open>2 ^ 64\<close>
  (\<open>wrap_rd\<close>), a reader of the format takes the decimal value (\<open>dec_val\<close>).
\<close>

datatype bval = BInt int | BStr cstr | BList "bval list" | BDict "(cstr \<times> bval) list"

definition wrap_rd :: "cstr \<Rightarrow> nat" where
  "wrap_rd ds = unat (wrap_len ds)"

definition digits :: "cstr \<Rightarrow> bool" where
  "digits ds \<longleftrightarrow> ds \<noteq> [] \<and> (\<forall>c \<in> set ds. isdigit c)"

inductive encodes :: "(cstr \<Rightarrow> nat) \<Rightarrow> bval \<Rightarrow> cstr \<Rightarrow> bool"
  and encodes_list :: "(cstr \<Rightarrow> nat) \<Rightarrow> bval list \<Rightarrow> cstr \<Rightarrow> bool"
  and encodes_dict :: "(cstr \<Rightarrow> nat) \<Rightarrow> (cstr \<times> bval) list \<Rightarrow> cstr \<Rightarrow> bool"
  for rd :: "cstr \<Rightarrow> nat" where
  Enc_Int: "digits ds \<Longrightarrow> encodes rd (BInt (int (dec_val ds))) (CHR ''i'' # ds @ ''e'')"
| Enc_Neg: "digits ds \<Longrightarrow> encodes rd (BInt (- int (dec_val ds))) (CHR ''i'' # CHR ''-'' # ds @ ''e'')"
| Enc_Str: "digits ds \<Longrightarrow> rd ds = length s \<Longrightarrow> encodes rd (BStr s) (ds @ CHR '':'' # s)"
| Enc_List: "encodes_list rd vs b \<Longrightarrow> encodes rd (BList vs) (CHR ''l'' # b @ ''e'')"
| Enc_Dict: "encodes_dict rd kvs b \<Longrightarrow> encodes rd (BDict kvs) (CHR ''d'' # b @ ''e'')"
| Enc_List_Nil: "encodes_list rd [] []"
| Enc_List_Cons: "encodes rd v a \<Longrightarrow> encodes_list rd vs b \<Longrightarrow> encodes_list rd (v # vs) (a @ b)"
| Enc_Dict_Nil: "encodes_dict rd [] []"
| Enc_Dict_Cons: "encodes rd (BStr k) kb \<Longrightarrow> encodes rd v a \<Longrightarrow> encodes_dict rd kvs b \<Longrightarrow>
    encodes_dict rd ((k, v) # kvs) (kb @ a @ b)"

inductive_cases encodes_strE: "encodes rd (BStr s) b"
inductive_cases encodes_listE: "encodes rd (BList vs) b"
inductive_cases encodes_dictE: "encodes rd (BDict kvs) b"
inductive_cases encodes_intE: "encodes rd (BInt i) b"
inductive_cases encodes_list_ConsE: "encodes_list rd (v # vs) b"
inductive_cases encodes_list_NilE: "encodes_list rd [] b"
inductive_cases encodes_dict_ConsE: "encodes_dict rd (kv # kvs) b"
inductive_cases encodes_dict_NilE: "encodes_dict rd [] b"

lemma isdigit_others [simp]:
  "\<not> isdigit CHR ''e''" "\<not> isdigit CHR '':''" "\<not> isdigit CHR ''-''" "\<not> isdigit CHR ''i''"
  "\<not> isdigit CHR ''l''" "\<not> isdigit CHR ''d''"
  by (simp_all add: isdigit_def)

lemma digits_span:
  "digits ds \<Longrightarrow> \<not> isdigit c \<Longrightarrow> takeWhile isdigit (ds @ c # r) = ds"
  "digits ds \<Longrightarrow> \<not> isdigit c \<Longrightarrow> dropWhile isdigit (ds @ c # r) = c # r"
  by (auto simp: digits_def takeWhile_append2 dropWhile_append2)

lemma digits_hd: "digits ds \<Longrightarrow> \<exists>c r. ds = c # r \<and> isdigit c"
  by (cases ds) (auto simp: digits_def)

lemma digits_takeWhile: "isdigit c \<Longrightarrow> digits (takeWhile isdigit (c # r))"
  by (auto simp: digits_def dest: set_takeWhileD)

lemma encodes_first:
  "encodes rd v b \<Longrightarrow> \<exists>c r. b = c # r \<and> c \<noteq> CHR ''e''"
  by (erule encodes.cases) (auto dest!: digits_hd)

lemma encodes_str_hd: "encodes rd (BStr s) b \<Longrightarrow> \<exists>c r. b = c # r \<and> isdigit c"
  by (auto elim!: encodes_strE dest!: digits_hd)

section \<open>Validation decides the grammar\<close>

lemma benc_validate_int_sound:
  assumes "benc_validate_int r = Some q"
  shows "\<exists>v b. CHR ''i'' # r = b @ tl q \<and> b \<noteq> [] \<and> last b = hd q \<and> encodes rd v b"
proof -
  define neg where "neg = (case r of x # _ \<Rightarrow> x = CHR ''-'' | [] \<Rightarrow> False)"
  define s where "s = (if neg then tl r else r)"
  have r: "r = (if neg then [CHR ''-''] else []) @ s"
    by (auto simp: s_def neg_def split: list.splits)
  from assms obtain x r2 r3 where *: "s = x # r2" "isdigit x" "dropWhile isdigit r2 = CHR ''e'' # r3"
    "q = CHR ''e'' # r3"
    by (auto simp: benc_validate_int_def s_def neg_def split: if_splits list.splits)
  let ?ds = "x # takeWhile isdigit r2"
  have ds: "digits ?ds" using *(2) by (auto simp: digits_def dest: set_takeWhileD)
  have s: "s = ?ds @ CHR ''e'' # r3"
    using * takeWhile_dropWhile_id [of isdigit r2] by simp
  show ?thesis
  proof (cases neg)
    case True
    with r s *(4) Enc_Neg [OF ds, of rd] show ?thesis
      by (intro exI [of _ "BInt (- int (dec_val ?ds))"] exI [of _ "CHR ''i'' # CHR ''-'' # ?ds @ ''e''"]) simp
  next
    case False
    with r s *(4) Enc_Int [OF ds, of rd] show ?thesis
      by (intro exI [of _ "BInt (int (dec_val ?ds))"] exI [of _ "CHR ''i'' # ?ds @ ''e''"]) simp
  qed
qed

lemma benc_validate_str_sound:
  assumes "benc_validate_str p = Some q" "isdigit (hd p)" "p \<noteq> []"
  shows "\<exists>s b. p = b @ tl q \<and> b \<noteq> [] \<and> last b = hd q \<and> encodes wrap_rd (BStr s) b"
proof -
  let ?ds = "takeWhile isdigit p"
  let ?n = "wrap_rd ?ds"
  from assms obtain r where r: "dropWhile isdigit p = CHR '':'' # r" "?n < length (CHR '':'' # r)"
    "q = drop ?n (CHR '':'' # r)"
    by (auto simp: benc_validate_str_def Let_def wrap_rd_def split: if_splits list.splits)
  have ds: "digits ?ds" using assms(2,3) digits_takeWhile by (cases p) auto
  have p: "p = ?ds @ CHR '':'' # r" using r(1) takeWhile_dropWhile_id [of isdigit p] by simp
  let ?s = "take ?n r"
  have "encodes wrap_rd (BStr ?s) (?ds @ CHR '':'' # ?s)"
    by (rule Enc_Str [OF ds]) (use r(2) in simp)
  moreover have "p = (?ds @ CHR '':'' # ?s) @ tl q"
    using p r(3) by (metis append_Cons append_assoc append_take_drop_id drop_Suc list.sel(3) tl_drop)
  moreover have "last (?ds @ CHR '':'' # ?s) = hd q"
    using r(2,3) by (cases "wrap_rd ?ds") (auto simp: last_conv_nth hd_drop_conv_nth nth_append)
  ultimately show ?thesis by blast
qed

lemma benc_validate_sound:
  shows "benc_validate_aux p = Some q \<Longrightarrow>
      \<exists>v b. p = b @ tl q \<and> b \<noteq> [] \<and> last b = hd q \<and> encodes wrap_rd v b \<and>
        (isdigit (hd p) \<longrightarrow> (\<exists>s. v = BStr s))"
  and "benc_validate_loop d p' = Some q \<Longrightarrow>
      \<exists>b. p' = b @ q \<and> q \<noteq> [] \<and> hd q = CHR ''e'' \<and>
        (if d = 0 then \<exists>vs. encodes_list wrap_rd vs b
         else if d mod 2 = 1 then \<exists>kvs. encodes_dict wrap_rd kvs b
         else \<exists>v kvs a c. b = a @ c \<and> encodes wrap_rd v a \<and> encodes_dict wrap_rd kvs c)"
proof (induction p and d p' arbitrary: q and q rule: benc_validate_aux_benc_validate_loop.induct)
  case 1
  then show ?case by (simp add: benc_validate_aux.simps)
next
  case (2 c r)
  have "q \<noteq> []" using benc_validate_aux_shrinks(1) [OF "2.prems"] by simp
  note prem = "2.prems" and IHd = "2.IH"(1) and IHl = "2.IH"(2)
  consider (d) "c = CHR ''d''" | (l) "c = CHR ''l''" | (i) "c = CHR ''i''"
    | (s) "c \<noteq> CHR ''d''" "c \<noteq> CHR ''l''" "c \<noteq> CHR ''i''" by blast
  then show ?case
  proof cases
    case d
    with prem have "benc_validate_loop 1 r = Some q" by (simp add: benc_validate_aux.simps)
    from IHd [OF d this] obtain b kvs
      where b: "r = b @ q" "hd q = CHR ''e''" "encodes_dict wrap_rd kvs b" by auto
    with \<open>q \<noteq> []\<close> d have "c # r = (CHR ''d'' # b @ ''e'') @ tl q" by (cases q) auto
    with b Enc_Dict [OF b(3)] d show ?thesis
      by (intro exI [of _ "BDict kvs"] exI [of _ "CHR ''d'' # b @ ''e''"]) simp
  next
    case l
    with prem have "benc_validate_loop 0 r = Some q" by (simp add: benc_validate_aux.simps)
    moreover from l have "c \<noteq> CHR ''d''" by simp
    ultimately obtain b vs
      where b: "r = b @ q" "hd q = CHR ''e''" "encodes_list wrap_rd vs b"
      using IHl l by fastforce
    with \<open>q \<noteq> []\<close> l have "c # r = (CHR ''l'' # b @ ''e'') @ tl q" by (cases q) auto
    with b Enc_List [OF b(3)] l show ?thesis
      by (intro exI [of _ "BList vs"] exI [of _ "CHR ''l'' # b @ ''e''"]) simp
  next
    case i
    with prem have "benc_validate_int r = Some q" by (simp add: benc_validate_aux.simps)
    from benc_validate_int_sound [OF this, of wrap_rd] i show ?thesis by auto
  next
    case s
    with prem have "isdigit c" "benc_validate_str (c # r) = Some q"
      by (auto simp: benc_validate_aux.simps split: if_splits)
    with benc_validate_str_sound [of "c # r" q] show ?thesis by auto
  qed
next
  case (3 d)
  then show ?case by (simp add: benc_validate_loop.simps)
next
  case (4 d c r)
  show ?case
  proof (cases "c = CHR ''e''")
    case True
    have "\<exists>vs. encodes_list wrap_rd vs []" "\<exists>kvs. encodes_dict wrap_rd kvs []"
      using Enc_List_Nil Enc_Dict_Nil by blast+
    with True "4.prems" show ?thesis
      by (cases "d = 0") (auto simp: benc_validate_loop.simps split: if_splits)
  next
    case False
    with "4.prems" obtain q' where q': "benc_validate_aux (c # r) = Some q'"
      "benc_validate_loop (if d \<noteq> 0 then Suc d else d) (tl q') = Some q"
      "\<not> (d \<noteq> 0 \<and> d mod 2 = 1 \<and> \<not> isdigit c)"
      by (auto simp: benc_validate_loop.simps split: if_splits option.splits)
    from "4.IH"(1) [OF False q'(3,1)] obtain v a where
      a: "c # r = a @ tl q'" "encodes wrap_rd v a" "isdigit c \<longrightarrow> (\<exists>s. v = BStr s)" by auto
    have loop: "\<exists>b. tl q' = b @ q \<and> q \<noteq> [] \<and> hd q = CHR ''e'' \<and>
        (if (if d \<noteq> 0 then Suc d else d) = 0 then \<exists>vs. encodes_list wrap_rd vs b
         else if (if d \<noteq> 0 then Suc d else d) mod 2 = 1 then \<exists>kvs. encodes_dict wrap_rd kvs b
         else \<exists>v kvs a c. b = a @ c \<and> encodes wrap_rd v a \<and> encodes_dict wrap_rd kvs c)"
      by (rule "4.IH"(2) [OF False q'(3,1,2)])
    then obtain b where b: "tl q' = b @ q" "q \<noteq> []" "hd q = CHR ''e''" by blast
    consider "d = 0" | "d \<noteq> 0" "d mod 2 = 1" | "d \<noteq> 0" "d mod 2 = 0" by linarith
    then show ?thesis
    proof cases
      case 1
      with loop b have "\<exists>vs. encodes_list wrap_rd vs b" by auto
      then have "\<exists>vs. encodes_list wrap_rd vs (a @ b)" using a(2) Enc_List_Cons by blast
      with a b 1 show ?thesis by (intro exI [of _ "a @ b"]) auto
    next
      case 2
      then have "Suc d mod 2 \<noteq> 1" by presburger
      with 2 loop b obtain w kvs x y where
        "b = x @ y" "encodes wrap_rd w x" "encodes_dict wrap_rd kvs y" by auto
      moreover obtain s where "v = BStr s" using 2 q'(3) a(3) by auto
      ultimately have "\<exists>kvs. encodes_dict wrap_rd kvs (a @ b)" using a(2) Enc_Dict_Cons by blast
      with a b 2 show ?thesis by (intro exI [of _ "a @ b"]) auto
    next
      case 3
      then have "Suc d mod 2 = 1" by presburger
      with 3 loop b obtain kvs where "encodes_dict wrap_rd kvs b" by auto
      with a b 3 show ?thesis by (intro exI [of _ "a @ b"]) auto
    qed
  qed
qed

lemma benc_validate_int_complete:
  "digits ds \<Longrightarrow> benc_validate_int (ds @ CHR ''e'' # r) = Some (CHR ''e'' # r)"
  "digits ds \<Longrightarrow> benc_validate_int (CHR ''-'' # ds @ CHR ''e'' # r) = Some (CHR ''e'' # r)"
proof -
  assume ds: "digits ds"
  then obtain x t where x: "ds = x # t" "isdigit x" "x \<noteq> CHR ''-''"
    using digits_hd by fastforce
  from digits_span(2) [OF ds, of "CHR ''e''" r] x
  have "dropWhile isdigit (t @ CHR ''e'' # r) = CHR ''e'' # r" by simp
  with x show "benc_validate_int (ds @ CHR ''e'' # r) = Some (CHR ''e'' # r)"
    "benc_validate_int (CHR ''-'' # ds @ CHR ''e'' # r) = Some (CHR ''e'' # r)"
    by (simp_all add: benc_validate_int_def)
qed

lemma benc_validate_str_complete:
  assumes "digits ds" "wrap_rd ds = length s"
  shows "benc_validate_str (ds @ CHR '':'' # s @ r) = Some (last (CHR '':'' # s) # r)"
proof -
  have "drop (length s) (CHR '':'' # s @ r) = last (CHR '':'' # s) # r"
    by (cases s rule: rev_cases) auto
  with assms digits_span [OF assms(1), of "CHR '':''" "s @ r"] show ?thesis
    by (simp add: benc_validate_str_def Let_def wrap_rd_def)
qed

lemma benc_validate_complete:
  shows "encodes wrap_rd v b \<Longrightarrow> \<forall>r. benc_validate_aux (b @ r) = Some (last b # r)"
  and "encodes_list wrap_rd vs bl \<Longrightarrow> \<forall>q. benc_validate_loop 0 (bl @ q) = benc_validate_loop 0 q"
  and "encodes_dict wrap_rd kvs bd \<Longrightarrow> \<forall>d q. d mod 2 = 1 \<longrightarrow>
     (\<exists>d'. d' mod 2 = 1 \<and> benc_validate_loop d (bd @ q) = benc_validate_loop d' q)"
proof (induction rule: encodes_encodes_list_encodes_dict.inducts)
  case (Enc_Str ds s)
  from digits_hd [OF Enc_Str(1)] obtain x t where x: "ds = x # t" "isdigit x" by blast
  then have "x \<noteq> CHR ''d''" "x \<noteq> CHR ''l''" "x \<noteq> CHR ''i''" by auto
  with x benc_validate_str_complete [OF Enc_Str(1,2)] show ?case
    by (simp add: benc_validate_aux.simps)
next
  case (Enc_List vs b)
  then show ?case by (simp add: benc_validate_aux.simps benc_validate_loop.simps)
next
  case (Enc_Dict kvs b)
  show ?case
  proof
    fix r
    have "(1::nat) mod 2 = 1" by simp
    with Enc_Dict(2) obtain d' where "d' mod 2 = 1"
      "benc_validate_loop 1 (b @ CHR ''e'' # r) = benc_validate_loop d' (CHR ''e'' # r)" by blast
    then show "benc_validate_aux ((CHR ''d'' # b @ ''e'') @ r) = Some (last (CHR ''d'' # b @ ''e'') # r)"
      by (simp add: benc_validate_aux.simps benc_validate_loop.simps)
  qed
next
  case (Enc_List_Cons v a vs b)
  from encodes_first [OF Enc_List_Cons(1)] obtain c t where "a = c # t" "c \<noteq> CHR ''e''" by blast
  then show ?case using Enc_List_Cons(2,4) by (simp add: benc_validate_loop.simps)
next
  case (Enc_Dict_Nil)
  then show ?case by auto
next
  case (Enc_Dict_Cons k kb v a kvs b)
  from encodes_str_hd [OF Enc_Dict_Cons(1)] obtain c t where k: "kb = c # t" "isdigit c" by blast
  then have "c \<noteq> CHR ''e''" by auto
  from encodes_first [OF Enc_Dict_Cons(3)] obtain x u where v: "a = x # u" "x \<noteq> CHR ''e''" by blast
  show ?case
  proof (intro allI impI)
    fix d :: nat and q
    assume d: "d mod 2 = 1"
    then have "d \<noteq> 0" by (cases d) auto
    from d have d2: "Suc d mod 2 \<noteq> 1" "Suc (Suc d) mod 2 = 1" by presburger+
    from Enc_Dict_Cons(6) d2(2) obtain d' where d': "d' mod 2 = 1"
      "benc_validate_loop (Suc (Suc d)) (b @ q) = benc_validate_loop d' q" by blast
    have "benc_validate_loop d (kb @ a @ b @ q) = benc_validate_loop (Suc d) (a @ b @ q)"
      using Enc_Dict_Cons(2) k \<open>c \<noteq> CHR ''e''\<close> \<open>d \<noteq> 0\<close> by (simp add: benc_validate_loop.simps)
    moreover have "benc_validate_loop (Suc d) (a @ b @ q) = benc_validate_loop (Suc (Suc d)) (b @ q)"
      using Enc_Dict_Cons(4) v d2(1) by (simp add: benc_validate_loop.simps)
    ultimately show "\<exists>d'. d' mod 2 = 1 \<and>
        benc_validate_loop d ((kb @ a @ b) @ q) = benc_validate_loop d' q"
      using d' by (intro exI [of _ d']) simp
  qed
qed (simp_all add: benc_validate_aux.simps benc_validate_int_complete)

lemma benc_validate_grammar: "benc_validate p = None \<longleftrightarrow> (\<exists>v. encodes wrap_rd v p)"
proof
  assume "benc_validate p = None"
  then obtain q where q: "benc_validate_aux p = Some q" "length q = 1"
    by (auto simp: benc_validate_def split: if_splits option.splits)
  then have "tl q = []" by (cases q) auto
  with benc_validate_sound(1) [OF q(1)] show "\<exists>v. encodes wrap_rd v p" by auto
next
  assume "\<exists>v. encodes wrap_rd v p"
  then obtain v where v: "encodes wrap_rd v p" by blast
  from benc_validate_complete(1) [OF v] have "benc_validate_aux (p @ []) = Some [last p]" by blast
  moreover have "p \<noteq> []" using encodes_first [OF v] by auto
  ultimately show "benc_validate p = None" by (simp add: benc_validate_def)
qed

end
