(* ===== verification/BencGet.thy ===== *)
theory BencGet
  imports Benc
begin

text \<open>
  The accessors of \<^verbatim>\<open>misc/benc.c\<close>. They walk a buffer in place and trust that it was validated:
  where they would read past the buffer or fail an \<^verbatim>\<open>assert\<close>, the outer option is \<open>None\<close>; a NULL
  pointer that the code returns is an inner \<open>None\<close>.
\<close>

section \<open>Types of elements\<close>

datatype be_type = BE_ANY | BE_DCT | BE_INT | BE_LST | BE_STR

definition benc_islst :: "cstr \<Rightarrow> bool" where
  "benc_islst p = (case p of c # _ \<Rightarrow> c = CHR ''l'' \<or> c = CHR ''d'' | [] \<Rightarrow> False)"

definition benc_isdct :: "cstr \<Rightarrow> bool" where
  "benc_isdct p = (case p of c # _ \<Rightarrow> c = CHR ''d'' | [] \<Rightarrow> False)"

definition benc_isint :: "cstr \<Rightarrow> bool" where
  "benc_isint p = (case p of c # _ \<Rightarrow> c = CHR ''i'' | [] \<Rightarrow> False)"

definition benc_isstr :: "cstr \<Rightarrow> bool" where
  "benc_isstr p = (case p of c # _ \<Rightarrow> isdigit c | [] \<Rightarrow> False)"

fun benc_istype :: "cstr \<Rightarrow> be_type \<Rightarrow> bool" where
  "benc_istype p BE_ANY = (benc_isdct p \<or> benc_isint p \<or> benc_islst p \<or> benc_isstr p)"
| "benc_istype p BE_DCT = benc_isdct p"
| "benc_istype p BE_INT = benc_isint p"
| "benc_istype p BE_LST = benc_islst p"
| "benc_istype p BE_STR = benc_isstr p"

section \<open>Strings\<close>

text \<open>\<^verbatim>\<open>benc_mem\<close>: length and data pointer; \<open>benc_mem_next\<close> is what it stores through \<^verbatim>\<open>next\<close>.\<close>

definition benc_mem :: "cstr \<Rightarrow> (nat \<times> cstr) option option" where
  "benc_mem p =
     (if \<not> benc_isstr p then Some None
      else let endptr = dropWhile isdigit p; blen = strtoul p in
        case endptr of
          c # r \<Rightarrow> if c = CHR '':'' then Some (Some (blen, r)) else None
        | [] \<Rightarrow> None)"

definition benc_mem_next :: "cstr \<Rightarrow> cstr option option" where
  "benc_mem_next p =
     (case benc_mem p of
        Some (Some (blen, bstr)) \<Rightarrow>
          (case drop blen bstr of
             [] \<Rightarrow> None
           | c # r \<Rightarrow> if c = CHR ''e'' then Some None else Some (Some (c # r)))
      | _ \<Rightarrow> None)"

definition benc_strlen :: "cstr \<Rightarrow> nat" where
  "benc_strlen p = strtoul p"

text \<open>
  \<^verbatim>\<open>strncmp\<close> of the C library, as a difference; a list that ends stands for a NUL-terminated string.
\<close>

fun strncmp :: "cstr \<Rightarrow> cstr \<Rightarrow> nat \<Rightarrow> int" where
  "strncmp a b 0 = 0"
| "strncmp [] [] (Suc n) = 0"
| "strncmp [] (y # ys) (Suc n) = - of_char y"
| "strncmp (x # xs) [] (Suc n) = of_char x"
| "strncmp (x # xs) (y # ys) (Suc n) =
     (if x \<noteq> y then of_char x - of_char y else if x = CHR 0x00 then 0 else strncmp xs ys n)"

definition benc_strcmp :: "cstr \<Rightarrow> cstr \<Rightarrow> int option" where
  "benc_strcmp str1 str2 =
     do { m1 \<leftarrow> benc_mem str1; m2 \<leftarrow> benc_mem str2;
          case (m1, m2) of
            (Some (len1, cs1), Some (len2, cs2)) \<Rightarrow>
              Some (let test = strncmp cs1 cs2 (min len1 len2) in
                if test = 0 then (if len1 = len2 then 0 else if len1 < len2 then -1 else 1)
                else test)
          | _ \<Rightarrow> None }"

text \<open>
  \<^verbatim>\<open>benc_str\<close> and \<^verbatim>\<open>benc_mema\<close> copy the \<^verbatim>\<open>blen\<close> bytes (allocation is taken to succeed); copying more
  than there is reads outside the buffer.
\<close>

definition benc_copy :: "cstr \<Rightarrow> cstr option option" where
  "benc_copy p =
     do { m \<leftarrow> benc_mem p;
          case m of
            None \<Rightarrow> Some None
          | Some (blen, bstr) \<Rightarrow> if blen \<le> length bstr then Some (Some (take blen bstr)) else None }"

definition benc_str :: "cstr \<Rightarrow> cstr option option" where
  "benc_str p = benc_copy p"

definition benc_mema :: "cstr \<Rightarrow> cstr option option" where
  "benc_mema p = benc_copy p"

section \<open>Integers\<close>

definition benc_int :: "cstr \<Rightarrow> int option" where
  "benc_int p =
     (if \<not> benc_isint p then Some 0
      else case strtoll (tl p) of (res, endptr) \<Rightarrow>
        (case endptr of c # _ \<Rightarrow> if c = CHR ''e'' then Some res else None | [] \<Rightarrow> None))"

definition benc_int_next :: "cstr \<Rightarrow> cstr option option" where
  "benc_int_next p =
     (case strtoll (tl p) of (res, endptr) \<Rightarrow>
        (case endptr of
           c # d # r \<Rightarrow> if c \<noteq> CHR ''e'' then None
                        else if d = CHR ''e'' then Some None else Some (Some (d # r))
         | _ \<Rightarrow> None))"

section \<open>Walking\<close>

function (sequential) benc_length :: "cstr \<Rightarrow> nat option"
  and benc_length_loop :: "cstr \<Rightarrow> nat option" where
  "benc_length [] = None"
| "benc_length (c # r) =
     (if c = CHR ''d'' \<or> c = CHR ''l'' then map_option (\<lambda>k. 2 + k) (benc_length_loop r)
      else if c = CHR ''i'' then
        (let ds = takeWhile (\<lambda>x. x \<noteq> CHR ''e'') r in
         if length ds = length r then None else Some (1 + length ds + 1))
      else (case benc_mem (c # r) of
              Some (Some (blen, nxt)) \<Rightarrow> Some (length (c # r) - length nxt + blen)
            | _ \<Rightarrow> None))"
| "benc_length_loop [] = None"
| "benc_length_loop (c # r) =
     (if c = CHR ''e'' then Some 0
      else (case benc_length (c # r) of
              None \<Rightarrow> None
            | Some len \<Rightarrow> map_option (\<lambda>k. len + k) (benc_length_loop (drop len (c # r)))))"
  by pat_completeness auto

lemma benc_mem_shrinks: "benc_mem p = Some (Some (n, r)) \<Longrightarrow> length r < length p"
  by (auto simp: benc_mem_def Let_def split: if_splits list.splits dest!: dropWhile_length_less)

lemma benc_length_pos_dom:
  shows "benc_length_benc_length_loop_dom (Inl p) \<Longrightarrow> benc_length p = Some n \<Longrightarrow> 0 < n"
  and "benc_length_benc_length_loop_dom (Inr p') \<Longrightarrow> True"
proof (induction p and p' arbitrary: n rule: benc_length_benc_length_loop.pinduct)
  case (2 c r)
  then show ?case
    by (auto simp: benc_length.psimps Let_def split: if_splits option.splits prod.splits
        dest!: benc_mem_shrinks)
qed (simp_all add: benc_length.psimps)

termination benc_length
proof (relation "measure (\<lambda>x. case x of Inl p \<Rightarrow> 2 * length p | Inr p \<Rightarrow> 2 * length p + 1)",
    goal_cases)
  case (4 c r len)
  then show ?case using benc_length_pos_dom(1) [of "c # r" len] by (cases len) auto
qed auto

declare benc_length.simps [simp del] benc_length_loop.simps [simp del]

lemma benc_length_pos: "benc_length p = Some n \<Longrightarrow> 0 < n"
  by (cases p) (auto simp: benc_length.simps Let_def split: if_splits option.splits prod.splits
      dest!: benc_mem_shrinks)

definition benc_first :: "cstr \<Rightarrow> cstr option option" where
  "benc_first p =
     (if \<not> benc_islst p then None
      else case tl p of
        [] \<Rightarrow> None
      | c # r \<Rightarrow> if c = CHR ''e'' then Some None else Some (Some (c # r)))"

definition benc_next :: "cstr \<Rightarrow> cstr option option" where
  "benc_next p =
     do { blen \<leftarrow> benc_length p;
          case drop blen p of
            [] \<Rightarrow> None
          | c # r \<Rightarrow> if c = CHR ''e'' then Some None else Some (Some (c # r)) }"

lemma benc_next_shrinks: "benc_next p = Some (Some q) \<Longrightarrow> length q < length p"
proof -
  assume q: "benc_next p = Some (Some q)"
  then obtain n where n: "benc_length p = Some n"
    by (cases "benc_length p") (auto simp: benc_next_def)
  with q have "drop n p = q" "q \<noteq> []"
    by (auto simp: benc_next_def split: list.splits if_splits)
  moreover from n have "0 < n" by (rule benc_length_pos)
  ultimately show ?thesis by (cases p) auto
qed

lemma benc_first_shrinks: "benc_first p = Some (Some q) \<Longrightarrow> length q < length p"
  by (cases p) (auto simp: benc_first_def benc_islst_def split: if_splits list.splits)

function benc_nelems_from :: "cstr \<Rightarrow> nat option" where
  "benc_nelems_from p =
     (case benc_next p of
        None \<Rightarrow> None
      | Some None \<Rightarrow> Some 1
      | Some (Some q) \<Rightarrow> map_option Suc (benc_nelems_from q))"
  by pat_completeness auto
termination
  by (relation "measure length") (auto dest: benc_next_shrinks)

declare benc_nelems_from.simps [simp del]

definition benc_nelems :: "cstr \<Rightarrow> nat option" where
  "benc_nelems p =
     (case benc_first p of None \<Rightarrow> None | Some None \<Rightarrow> Some 0 | Some (Some q) \<Rightarrow> benc_nelems_from q)"

section \<open>Dictionary lookups\<close>

lemma benc_mem_next_shrinks: "benc_mem_next p = Some (Some q) \<Longrightarrow> length q < length p"
proof -
  assume "benc_mem_next p = Some (Some q)"
  then obtain n r where "benc_mem p = Some (Some (n, r))" "q = drop n r"
    by (auto simp: benc_mem_next_def split: option.splits prod.splits list.splits if_splits)
  then show ?thesis using benc_mem_shrinks [of p n r] by auto
qed

function benc_dget_loop :: "cstr \<Rightarrow> cstr \<Rightarrow> cstr option option" where
  "benc_dget_loop key p =
     (if \<not> benc_isstr p then Some None
      else (case benc_mem p of
              Some (Some (blen, bstr)) \<Rightarrow>
                (case benc_mem_next p of
                   None \<Rightarrow> None
                 | Some nx \<Rightarrow>
                     if strncmp bstr key blen = 0 \<and> length key = blen then Some nx
                     else (case nx of
                             None \<Rightarrow> None
                           | Some v \<Rightarrow> (case benc_next v of
                                           None \<Rightarrow> None
                                         | Some None \<Rightarrow> Some None
                                         | Some (Some q) \<Rightarrow> benc_dget_loop key q)))
            | _ \<Rightarrow> None))"
  by pat_completeness auto
termination
  by (relation "measure (\<lambda>(key, p). length p)")
    (auto dest!: benc_next_shrinks benc_mem_next_shrinks)

declare benc_dget_loop.simps [simp del]

definition benc_dget_any :: "cstr \<Rightarrow> cstr \<Rightarrow> cstr option option" where
  "benc_dget_any p key =
     (if \<not> benc_isdct p then Some None
      else case benc_first p of
        None \<Rightarrow> None
      | Some None \<Rightarrow> Some None
      | Some (Some q) \<Rightarrow> benc_dget_loop key q)"

definition benc_dget_lst :: "cstr \<Rightarrow> cstr \<Rightarrow> cstr option option" where
  "benc_dget_lst p key =
     do { ret \<leftarrow> benc_dget_any p key;
          Some (case ret of Some q \<Rightarrow> if benc_islst q then Some q else None | None \<Rightarrow> None) }"

definition benc_dget_dct :: "cstr \<Rightarrow> cstr \<Rightarrow> cstr option option" where
  "benc_dget_dct p key =
     do { ret \<leftarrow> benc_dget_any p key;
          Some (case ret of Some q \<Rightarrow> if benc_isdct q then Some q else None | None \<Rightarrow> None) }"

definition benc_dget_mem :: "cstr \<Rightarrow> cstr \<Rightarrow> (nat \<times> cstr) option option" where
  "benc_dget_mem p key =
     do { str \<leftarrow> benc_dget_any p key;
          case str of Some q \<Rightarrow> if benc_isstr q then benc_mem q else Some None | None \<Rightarrow> Some None }"

definition benc_dget_mema :: "cstr \<Rightarrow> cstr \<Rightarrow> cstr option option" where
  "benc_dget_mema p key =
     do { str \<leftarrow> benc_dget_any p key;
          case str of Some q \<Rightarrow> if benc_isstr q then benc_mema q else Some None | None \<Rightarrow> Some None }"

definition benc_dget_str :: "cstr \<Rightarrow> cstr \<Rightarrow> cstr option option" where
  "benc_dget_str p key =
     do { str \<leftarrow> benc_dget_any p key;
          case str of Some q \<Rightarrow> if benc_isstr q then benc_str q else Some None | None \<Rightarrow> Some None }"

definition benc_dget_int :: "cstr \<Rightarrow> cstr \<Rightarrow> int option" where
  "benc_dget_int p key =
     do { intp \<leftarrow> benc_dget_any p key;
          case intp of Some q \<Rightarrow> if benc_isint q then benc_int q else Some 0 | None \<Rightarrow> Some 0 }"

text \<open>
  \<^verbatim>\<open>benc_dct_chk\<close>: each variadic entry is the type and the keys from the outermost dictionary inwards.
\<close>

fun benc_dct_path :: "cstr \<Rightarrow> cstr list \<Rightarrow> cstr option option" where
  "benc_dct_path dct [] = Some None"
| "benc_dct_path dct [key] = benc_dget_any dct key"
| "benc_dct_path dct (key # k2 # keys) =
     do { d \<leftarrow> benc_dget_dct dct key;
          case d of None \<Rightarrow> Some None | Some q \<Rightarrow> benc_dct_path q (k2 # keys) }"

fun benc_dct_chk_args :: "cstr \<Rightarrow> (be_type \<times> cstr list) list \<Rightarrow> bool option" where
  "benc_dct_chk_args p [] = Some True"
| "benc_dct_chk_args p ((type, keys) # args) =
     do { val \<leftarrow> benc_dct_path p keys;
          case val of
            None \<Rightarrow> Some False
          | Some q \<Rightarrow> if benc_istype q type then benc_dct_chk_args p args else Some False }"

definition benc_dct_chk :: "cstr \<Rightarrow> (be_type \<times> cstr list) list \<Rightarrow> bool option" where
  "benc_dct_chk p args = (if \<not> benc_isdct p then Some False else benc_dct_chk_args p args)"

section \<open>The accessors on well-formed data\<close>

lemma strtoul_digits:
  "digits ds \<Longrightarrow> dec_val ds < 2 ^ 64 \<Longrightarrow> \<not> isdigit c \<Longrightarrow> strtoul (ds @ c # r) = dec_val ds"
  by (simp add: strtoul_def digits_span)

lemma benc_isstr_encodes: "encodes rd (BStr s) b \<Longrightarrow> benc_isstr (b @ r)"
  by (auto simp: benc_isstr_def dest!: encodes_str_hd)

lemma benc_mem_encodes:
  assumes "encodes dec_val (BStr s) b" "length s < 2 ^ 64"
  shows "benc_mem (b @ r) = Some (Some (length s, s @ r))"
proof -
  from assms(1) obtain ds where ds: "digits ds" "dec_val ds = length s" "b = ds @ CHR '':'' # s"
    by (auto elim: encodes_strE)
  with assms(2) have "strtoul (b @ r) = length s" by (simp add: strtoul_digits)
  with ds benc_isstr_encodes [OF assms(1), of r] show ?thesis
    by (simp add: benc_mem_def digits_span)
qed

lemma benc_mem_next_encodes:
  assumes "encodes dec_val (BStr s) b" "length s < 2 ^ 64"
  shows "benc_mem_next (b @ c # r) = Some (if c = CHR ''e'' then None else Some (c # r))"
  using benc_mem_encodes [OF assms, of "c # r"] by (simp add: benc_mem_next_def)

lemma takeWhile_not_e:
  "digits ds \<Longrightarrow> takeWhile (\<lambda>x. x \<noteq> CHR ''e'') (ds @ CHR ''e'' # r) = ds"
  by (auto simp: digits_def intro!: takeWhile_append2 [THEN trans])

lemma benc_length_encodes_all:
  shows "encodes dec_val v b \<Longrightarrow>
      length b < 2 ^ 64 \<longrightarrow> (\<forall>r. benc_length (b @ r) = Some (length b))"
  and "encodes_list dec_val vs bl \<Longrightarrow>
      length bl < 2 ^ 64 \<longrightarrow> (\<forall>r. benc_length_loop (bl @ CHR ''e'' # r) = Some (length bl))"
  and "encodes_dict dec_val kvs bd \<Longrightarrow>
      length bd < 2 ^ 64 \<longrightarrow> (\<forall>r. benc_length_loop (bd @ CHR ''e'' # r) = Some (length bd))"
proof (induction rule: encodes_encodes_list_encodes_dict.inducts)
  case (Enc_Int ds)
  then show ?case by (simp add: benc_length.simps takeWhile_not_e)
next
  case (Enc_Neg ds)
  then show ?case by (simp add: benc_length.simps takeWhile_not_e)
next
  case (Enc_Str ds s)
  have e: "encodes dec_val (BStr s) (ds @ CHR '':'' # s)"
    using Enc_Str by (rule encodes_encodes_list_encodes_dict.Enc_Str)
  from digits_hd [OF Enc_Str(1)] obtain x t where x: "ds = x # t" "isdigit x" by blast
  then have "x \<noteq> CHR ''d''" "x \<noteq> CHR ''l''" "x \<noteq> CHR ''i''" by auto
  with x benc_mem_encodes [OF e] show ?case by (auto simp: benc_length.simps)
next
  case (Enc_List_Cons v a vs b)
  from encodes_first [OF Enc_List_Cons(1)] obtain c t where "a = c # t" "c \<noteq> CHR ''e''" by blast
  with Enc_List_Cons(2,4) show ?case by (auto simp: benc_length_loop.simps)
next
  case (Enc_Dict_Cons k kb v a kvs b)
  from encodes_first [OF Enc_Dict_Cons(1)] obtain c t where c: "kb = c # t" "c \<noteq> CHR ''e''" by blast
  from encodes_first [OF Enc_Dict_Cons(3)] obtain x u where x: "a = x # u" "x \<noteq> CHR ''e''" by blast
  show ?case
  proof (intro impI allI)
    fix r assume len: "length (kb @ a @ b) < 2 ^ 64"
    have "benc_length_loop (a @ b @ CHR ''e'' # r) = Some (length a + length b)"
      using Enc_Dict_Cons(4,6) len x by (auto simp: benc_length_loop.simps)
    moreover have "benc_length (kb @ a @ b @ CHR ''e'' # r) = Some (length kb)"
      using Enc_Dict_Cons(2) len by auto
    ultimately show "benc_length_loop ((kb @ a @ b) @ CHR ''e'' # r) = Some (length (kb @ a @ b))"
      using c by (auto simp: benc_length_loop.simps)
  qed
qed (auto simp: benc_length.simps benc_length_loop.simps)

lemma benc_length_encodes:
  "encodes dec_val v b \<Longrightarrow> length b < 2 ^ 64 \<Longrightarrow> benc_length (b @ r) = Some (length b)"
  using benc_length_encodes_all(1) by blast

lemma benc_next_encodes:
  "encodes dec_val v b \<Longrightarrow> length b < 2 ^ 64 \<Longrightarrow>
     benc_next (b @ c # r) = Some (if c = CHR ''e'' then None else Some (c # r))"
  by (simp add: benc_next_def benc_length_encodes)

lemma encodes_list_hd:
  "encodes_list rd vs b \<Longrightarrow> vs \<noteq> [] \<Longrightarrow> \<exists>c r. b = c # r \<and> c \<noteq> CHR ''e''"
  by (auto simp: neq_Nil_conv elim!: encodes_list_ConsE dest!: encodes_first)

lemma encodes_dict_hd:
  "encodes_dict rd kvs b \<Longrightarrow> kvs \<noteq> [] \<Longrightarrow> \<exists>c r. b = c # r \<and> c \<noteq> CHR ''e''"
proof -
  assume "encodes_dict rd kvs b" "kvs \<noteq> []"
  then obtain k v kvs' kb a b' where "encodes rd (BStr k) kb" "b = kb @ a @ b'"
    by (cases kvs) (auto elim!: encodes_dict_ConsE)
  with encodes_first show ?thesis by fastforce
qed

lemma benc_nelems_from_encodes:
  "encodes_list dec_val (v # vs) b \<Longrightarrow> length b < 2 ^ 64 \<Longrightarrow>
     benc_nelems_from (b @ CHR ''e'' # r) = Some (length (v # vs))"
proof (induction vs arbitrary: v b)
  case Nil
  then have "encodes dec_val v b" by (auto elim!: encodes_list_ConsE encodes_list_NilE)
  then show ?case using Nil by (simp add: benc_nelems_from.simps benc_next_encodes)
next
  case (Cons w vs)
  then obtain a b' where ab: "encodes dec_val v a" "encodes_list dec_val (w # vs) b'" "b = a @ b'"
    by (auto elim: encodes_list_ConsE)
  then obtain c t where c: "b' = c # t" "c \<noteq> CHR ''e''" using encodes_list_hd by blast
  have "length a < 2 ^ 64" "length b' < 2 ^ 64" using ab(3) Cons.prems(2) by auto
  then have "benc_next (b @ CHR ''e'' # r) = Some (Some (b' @ CHR ''e'' # r))"
    "benc_nelems_from (b' @ CHR ''e'' # r) = Some (length (w # vs))"
    using ab c benc_next_encodes [OF ab(1), of c] Cons.IH [OF ab(2)] by auto
  then show ?case by (subst benc_nelems_from.simps) simp
qed

lemma benc_nelems_encodes:
  assumes "encodes dec_val (BList vs) b" "length b < 2 ^ 64"
  shows "benc_nelems (b @ r) = Some (length vs)"
proof -
  from assms obtain l where l: "b = CHR ''l'' # l @ ''e''" "encodes_list dec_val vs l"
    by (auto elim: encodes_listE)
  show ?thesis
  proof (cases vs)
    case Nil
    with l show ?thesis
      by (auto simp: benc_nelems_def benc_first_def benc_islst_def elim: encodes_list_NilE)
  next
    case (Cons v vs')
    with l obtain c t where "l = c # t" "c \<noteq> CHR ''e''" using encodes_list_hd by blast
    with l Cons assms benc_nelems_from_encodes [of v vs' l r] show ?thesis
      by (simp add: benc_nelems_def benc_first_def benc_islst_def)
  qed
qed

subsection \<open>Lookup\<close>

lemma strncmp_prefix:
  "CHR 0x00 \<notin> set key \<Longrightarrow> length s = length key \<Longrightarrow> strncmp (s @ r) key (length s) = 0 \<longleftrightarrow> s = key"
proof (induction s arbitrary: key)
  case (Cons x s)
  then obtain y key' where "key = y # key'" by (cases key) auto
  with Cons show ?case by auto
qed simp

text \<open>
  \<open>points_to v q buf\<close>: the pointer \<open>q\<close> lies in \<open>buf\<close> and an encoding of \<open>v\<close> starts there.
\<close>

definition points_to :: "bval \<Rightarrow> cstr \<Rightarrow> cstr \<Rightarrow> bool" where
  "points_to v q buf \<longleftrightarrow>
     suffix q buf \<and> (\<exists>a t. q = a @ t \<and> encodes dec_val v a \<and> length a < 2 ^ 64 \<and> t \<noteq> [])"

definition lookup_ok :: "(cstr \<times> bval) list \<Rightarrow> cstr \<Rightarrow> cstr \<Rightarrow> cstr option \<Rightarrow> bool" where
  "lookup_ok kvs key buf res =
     (case map_of kvs key of
        None \<Rightarrow> res = None
      | Some v \<Rightarrow> (case res of None \<Rightarrow> False | Some q \<Rightarrow> points_to v q buf))"

lemma points_to_suffix: "points_to v q b \<Longrightarrow> suffix b b' \<Longrightarrow> points_to v q b'"
  unfolding points_to_def using suffix_order.trans by blast

lemma lookup_ok_suffix: "lookup_ok kvs key b res \<Longrightarrow> suffix b b' \<Longrightarrow> lookup_ok kvs key b' res"
  by (auto simp: lookup_ok_def split: option.splits intro: points_to_suffix)

lemma benc_dget_loop_encodes:
  assumes "encodes_dict dec_val kvs b" "kvs \<noteq> []" "length b < 2 ^ 64" "CHR 0x00 \<notin> set key"
  shows "\<exists>res. benc_dget_loop key (b @ CHR ''e'' # r) = Some res \<and>
    lookup_ok kvs key (b @ CHR ''e'' # r) res"
  using assms
proof (induction kvs arbitrary: b)
  case (Cons kv kvs)
  note IH = Cons.IH and key = Cons.prems(4)
  obtain k v where kv: "kv = (k, v)" by force
  with Cons.prems obtain kb a b' where e: "encodes dec_val (BStr k) kb" "encodes dec_val v a"
    "encodes_dict dec_val kvs b'" "b = kb @ a @ b'" by (auto elim: encodes_dict_ConsE)
  from e(1) obtain ds where "kb = ds @ CHR '':'' # k" by (rule encodes_strE)
  with e(4) Cons.prems(3)
  have kl: "length k < 2 ^ 64" "length a < 2 ^ 64" "length b' < 2 ^ 64" by auto
  from encodes_first [OF e(2)] obtain x u where x: "a = x # u" "x \<noteq> CHR ''e''" by blast
  let ?rest = "a @ b' @ CHR ''e'' # r"
  have str: "benc_isstr (b @ CHR ''e'' # r)" using benc_isstr_encodes [OF e(1), of ?rest] e(4) by simp
  have mem: "benc_mem (b @ CHR ''e'' # r) = Some (Some (length k, k @ ?rest))"
    using benc_mem_encodes [OF e(1) kl(1), of ?rest] e(4) by simp
  have nx: "benc_mem_next (b @ CHR ''e'' # r) = Some (Some ?rest)"
    using benc_mem_next_encodes [OF e(1) kl(1), of x "u @ b' @ CHR ''e'' # r"] e(4) x by simp
  have cmp: "strncmp (k @ ?rest) key (length k) = 0 \<and> length key = length k \<longleftrightarrow> k = key"
  proof (cases "length k = length key")
    case True
    then show ?thesis using strncmp_prefix [OF Cons.prems(4) True, of ?rest] by metis
  next
    case False
    then show ?thesis by metis
  qed
  show ?case
  proof (cases "k = key")
    case True
    have loop: "benc_dget_loop key (b @ CHR ''e'' # r) = Some (Some ?rest)"
      using str mem nx cmp True by (subst benc_dget_loop.simps) simp
    have "suffix ?rest (b @ CHR ''e'' # r)" using e(4) by (simp add: suffix_def)
    then have "points_to v ?rest (b @ CHR ''e'' # r)"
      using e(2) kl(2) unfolding points_to_def by blast
    with loop kv True show ?thesis by (simp add: lookup_ok_def)
  next
    case False
    show ?thesis
    proof (cases kvs)
      case Nil
      then have b': "b' = []" using e(3) by (auto elim: encodes_dict_NilE)
      have "benc_next ?rest = Some None" using benc_next_encodes [OF e(2) kl(2), of "CHR ''e''"] b' by simp
      then have "benc_dget_loop key (b @ CHR ''e'' # r) = Some None"
        using str mem nx cmp False by (subst benc_dget_loop.simps) auto
      with Nil kv False show ?thesis by (simp add: lookup_ok_def)
    next
      case (Cons kv' kvs')
      with e(3) obtain c t where c: "b' = c # t" "c \<noteq> CHR ''e''" using encodes_dict_hd by blast
      have "benc_next ?rest = Some (Some (b' @ CHR ''e'' # r))"
        using benc_next_encodes [OF e(2) kl(2), of c "t @ CHR ''e'' # r"] c by simp
      then have eq: "benc_dget_loop key (b @ CHR ''e'' # r) = benc_dget_loop key (b' @ CHR ''e'' # r)"
        using str mem nx cmp False by (subst benc_dget_loop.simps) auto
      have suf: "suffix (b' @ CHR ''e'' # r) (b @ CHR ''e'' # r)" using e(4) by (simp add: suffix_def)
      from \<open>kvs = kv' # kvs'\<close> have "kvs \<noteq> []" by simp
      from IH [OF e(3) this kl(3) key] obtain res where
        "benc_dget_loop key (b' @ CHR ''e'' # r) = Some res"
        "lookup_ok kvs key (b' @ CHR ''e'' # r) res" by blast
      moreover from this(2) suf have "lookup_ok kvs key (b @ CHR ''e'' # r) res"
        by (rule lookup_ok_suffix)
      ultimately show ?thesis using eq kv False by (simp add: lookup_ok_def)
    qed
  qed
qed simp

lemma benc_dget_any_encodes:
  assumes "encodes dec_val (BDict kvs) b" "length b < 2 ^ 64" "CHR 0x00 \<notin> set key"
  shows "\<exists>res. benc_dget_any (b @ r) key = Some res \<and> lookup_ok kvs key (b @ r) res"
proof -
  from assms(1) obtain d where d: "b = CHR ''d'' # d @ ''e''" "encodes_dict dec_val kvs d"
    by (auto elim: encodes_dictE)
  show ?thesis
  proof (cases kvs)
    case Nil
    then show ?thesis using d
      by (auto simp: benc_dget_any_def benc_isdct_def benc_first_def benc_islst_def lookup_ok_def
          elim: encodes_dict_NilE)
  next
    case (Cons kv kvs')
    with d obtain c t where c: "d = c # t" "c \<noteq> CHR ''e''" using encodes_dict_hd by blast
    have "benc_dget_any (b @ r) key = benc_dget_loop key (d @ CHR ''e'' # r)"
      using d c by (simp add: benc_dget_any_def benc_isdct_def benc_first_def benc_islst_def)
    moreover have "suffix (d @ CHR ''e'' # r) (b @ r)" using d by (simp add: suffix_def)
    moreover have "length d < 2 ^ 64" using d assms(2) by simp
    ultimately show ?thesis
      using benc_dget_loop_encodes [OF d(2) _ _ assms(3), of r] Cons lookup_ok_suffix by fastforce
  qed
qed

section \<open>Properties\<close>


text \<open>C38. On the encoding of a value followed by more data, the length is that of the encoding and
  the next element starts right behind it.\<close>

theorem benc_next_skips_element:
  assumes "encodes dec_val v b" "length b < 2 ^ 64" "c \<noteq> CHR ''e''"
  shows "benc_length (b @ c # r) = Some (length b) \<and> benc_next (b @ c # r) = Some (Some (c # r))"
  using benc_length_encodes [OF assms(1,2)] benc_next_encodes [OF assms(1,2)] assms(3) by simp

theorem benc_next_skips_element_witness:
  "benc_length (''li7ee'' @ CHR ''2'' # '':xy'') = Some (length ''li7ee'') \<and>
   benc_next (''li7ee'' @ CHR ''2'' # '':xy'') = Some (Some (CHR ''2'' # '':xy''))"
proof (rule benc_next_skips_element)
  have "encodes dec_val (BInt 7) ''i7e''"
    using Enc_Int [of "''7''" dec_val] by (simp add: digits_def isdigit_def dec_val_def digit_def)
  from Enc_List [OF Enc_List_Cons [OF this Enc_List_Nil]]
  show "encodes dec_val (BList [BInt 7]) ''li7ee''" by simp
qed simp_all

text \<open>C29. A dictionary lookup in an encoded dictionary finds the element stored under the first
  equal key, and NULL when the key does not occur.\<close>

theorem benc_dget_any_finds:
  assumes "encodes dec_val (BDict kvs) b" "length b < 2 ^ 64" "CHR 0x00 \<notin> set key"
  shows "\<exists>res. benc_dget_any (b @ r) key = Some res \<and> lookup_ok kvs key (b @ r) res"
  by (rule benc_dget_any_encodes [OF assms])

theorem benc_dget_any_finds_witness:
  "\<exists>res. benc_dget_any (''d1:a1:be'' @ ''x'') ''a'' = Some res \<and>
     lookup_ok [(''a'', BStr ''b'')] ''a'' (''d1:a1:be'' @ ''x'') res"
proof (rule benc_dget_any_finds)
  have str: "encodes dec_val (BStr [c]) (''1:'' @ [c])" for c
    using Enc_Str [of "''1''" dec_val "[c]"] by (simp add: digits_def isdigit_def dec_val_def digit_def)
  from Enc_Dict [OF Enc_Dict_Cons [OF str str Enc_Dict_Nil]]
  show "encodes dec_val (BDict [(''a'', BStr ''b'')]) ''d1:a1:be''" by simp
qed simp_all

text \<open>
  The validator and the accessors disagree on a length of \<open>2 ^ 64\<close> and more: the string is accepted,
  and the accessor computes a data length that no buffer holds.
\<close>

lemma benc_huge_length_accepted:
  "benc_validate ''18446744073709551617:a'' = None"
  "benc_mem ''18446744073709551617:a'' = Some (Some (2 ^ 64 - 1, ''a''))"
  by (simp_all add: benc_validate_def benc_validate_aux.simps benc_validate_str_def benc_mem_def benc_isstr_def
      wrap_len_def isdigit_def digit_def strtoul_def dec_val_def)

section \<open>Evaluation\<close>

lemma strncmp_numeral: "strncmp (x # xs) (y # ys) (numeral n) =
     (if x \<noteq> y then of_char x - of_char y else if x = CHR 0x00 then 0 else strncmp xs ys (pred_numeral n))"
  by (simp add: numeral_eq_Suc)

lemmas benc_eval = strncmp_numeral benc_validate_def benc_validate_aux.simps benc_validate_loop.simps
  benc_validate_str_def benc_validate_int_def wrap_len_def isdigit_def digit_def strtoul_def strtoll_def
  dec_val_def benc_mem_def benc_mem_next_def benc_isstr_def benc_isint_def benc_isdct_def benc_islst_def
  benc_length.simps benc_length_loop.simps benc_first_def benc_next_def benc_dget_loop.simps
  benc_dget_any_def benc_dget_mem_def benc_dget_int_def benc_dget_lst_def benc_dget_dct_def benc_int_def
  benc_dget_str_def benc_str_def benc_copy_def benc_nelems_def benc_nelems_from.simps

end
