(* ===== verification/Iobuf.thy ===== *)
theory Iobuf
  imports Subr
begin

text \<open>
  \<^verbatim>\<open>misc/iobuf.c\<close>: the growing buffer into which the HTTP client, the control socket and the
  thread calls write and from whose front they consume.

  The allocated block is the list \<open>ib_mem\<close>, \<open>None\<close> for a NULL \<^verbatim>\<open>buf\<close>; \<^verbatim>\<open>iob->buf\<close> is the address
  \<open>ib_skip\<close> bytes into the block, so \<^verbatim>\<open>iob->buf - iob->skip\<close> is its start. Sizes are of allocated
  objects and kept as naturals. \<open>alloc n\<close> is what the allocator answers to a request of \<open>n\<close>
  bytes: a block with unspecified contents, or NULL.
\<close>

record 'a iobuf =
  ib_mem :: "'a list option"
  ib_size :: nat
  ib_off :: nat
  ib_skip :: nat
  ib_error :: bool

type_synonym 'a alloc = "nat \<Rightarrow> 'a list option"

definition iobuf_init :: "'a alloc \<Rightarrow> nat \<Rightarrow> 'a iobuf" where
  "iobuf_init alloc sz =
     \<lparr>ib_mem = alloc sz, ib_size = sz, ib_off = 0, ib_skip = 0, ib_error = (alloc sz = None)\<rparr>"

definition iobuf_free :: "'a iobuf \<Rightarrow> 'a iobuf" where
  "iobuf_free iob = iob\<lparr>ib_mem := None, ib_error := True\<rparr>"

definition iobuf_consumed :: "'a iobuf \<Rightarrow> nat \<Rightarrow> 'a iobuf option" where
  "iobuf_consumed iob cnt =
     (if ib_error iob then Some iob
      else do {
        guard_opt (cnt \<le> ib_off iob);
        Some (iob\<lparr>ib_skip := ib_skip iob + cnt, ib_off := ib_off iob - cnt\<rparr>) })"

definition iobuf_accommodate :: "'a alloc \<Rightarrow> 'a iobuf \<Rightarrow> nat \<Rightarrow> bool \<times> 'a iobuf" where
  "iobuf_accommodate alloc iob cnt =
     (if ib_error iob then (False, iob)
      else let esize = ib_size iob - (ib_skip iob + ib_off iob); mem = the (ib_mem iob) in
        if esize \<ge> cnt then (True, iob)
        else if esize + ib_skip iob \<ge> cnt
        then (True, iob\<lparr>ib_mem := Some (take (ib_off iob) (drop (ib_skip iob) mem) @ drop (ib_off iob) mem),
                        ib_skip := 0\<rparr>)
        else (case alloc (ib_size iob + cnt) of
                None \<Rightarrow> (False, iob\<lparr>ib_error := True\<rparr>)
              | Some nb \<Rightarrow> (True, iob\<lparr>ib_mem := Some (mem @ drop (ib_size iob) nb),
                                     ib_size := ib_size iob + cnt\<rparr>)))"

text \<open>\<open>overwrite m i bs\<close>: the bytes \<open>bs\<close> copied to index \<open>i\<close> of the block.\<close>

definition overwrite :: "'a list \<Rightarrow> nat \<Rightarrow> 'a list \<Rightarrow> 'a list" where
  "overwrite m i bs = take i m @ bs @ drop (i + length bs) m"

definition iobuf_write :: "'a alloc \<Rightarrow> 'a iobuf \<Rightarrow> 'a list \<Rightarrow> bool \<times> 'a iobuf" where
  "iobuf_write alloc iob buf =
     (if ib_error iob then (False, iob)
      else case iobuf_accommodate alloc iob (length buf) of
        (False, iob1) \<Rightarrow> (False, iob1)
      | (True, iob1) \<Rightarrow>
          (True, iob1\<lparr>ib_mem := Some (overwrite (the (ib_mem iob1)) (ib_skip iob1 + ib_off iob1) buf),
                      ib_off := ib_off iob1 + length buf\<rparr>))"

text \<open>
  \<^verbatim>\<open>iobuf_print\<close>: \<open>txt\<close> is the formatted text, \<open>nul\<close> the terminator \<^verbatim>\<open>vsnprintf\<close> writes behind it;
  room is made for both and only the text counts as written.
\<close>

definition iobuf_print :: "'a alloc \<Rightarrow> 'a \<Rightarrow> 'a iobuf \<Rightarrow> 'a list \<Rightarrow> bool \<times> 'a iobuf" where
  "iobuf_print alloc nul iob txt =
     (if ib_error iob then (False, iob)
      else case iobuf_accommodate alloc iob (length txt + 1) of
        (False, iob1) \<Rightarrow> (False, iob1)
      | (True, iob1) \<Rightarrow>
          (True, iob1\<lparr>ib_mem := Some (overwrite (the (ib_mem iob1)) (ib_skip iob1 + ib_off iob1) (txt @ [nul])),
                      ib_off := ib_off iob1 + length txt\<rparr>))"

text \<open>\<^verbatim>\<open>iobuf_find\<close> gives the index of the match behind \<^verbatim>\<open>iob->buf\<close>.\<close>

definition iobuf_find :: "'a iobuf \<Rightarrow> 'a list \<Rightarrow> nat option option" where
  "iobuf_find iob p =
     (if ib_error iob then Some None
      else memfind p (of_nat (length p)) (drop (ib_skip iob) (the (ib_mem iob))) (of_nat (ib_off iob)))"

section \<open>Well-formed buffers\<close>

definition iobuf_data :: "'a iobuf \<Rightarrow> 'a list" where
  "iobuf_data iob = take (ib_off iob) (drop (ib_skip iob) (the (ib_mem iob)))"

definition iobuf_wf :: "'a iobuf \<Rightarrow> bool" where
  "iobuf_wf iob \<longleftrightarrow> ib_error iob \<or>
     (\<exists>m. ib_mem iob = Some m \<and> length m = ib_size iob \<and> ib_skip iob + ib_off iob \<le> ib_size iob)"

definition alloc_ok :: "'a alloc \<Rightarrow> bool" where
  "alloc_ok alloc \<longleftrightarrow> (\<forall>n m. alloc n = Some m \<longrightarrow> length m = n)"

lemma alloc_okD: "alloc_ok alloc \<Longrightarrow> alloc n = Some m \<Longrightarrow> length m = n"
  by (simp add: alloc_ok_def)

lemma iobuf_wf_init: "alloc_ok alloc \<Longrightarrow> iobuf_wf (iobuf_init alloc n)"
  by (cases "alloc n") (auto simp: iobuf_wf_def iobuf_init_def alloc_okD)

lemma iobuf_init_data [simp]: "iobuf_data (iobuf_init alloc n) = []"
  by (simp add: iobuf_data_def iobuf_init_def)

lemma iobuf_free_wf [simp]: "iobuf_wf (iobuf_free iob)"
  by (simp add: iobuf_wf_def iobuf_free_def)

lemma iobuf_consumed_spec:
  assumes "iobuf_wf iob" "\<not> ib_error iob"
  shows "iobuf_consumed iob k = Some iob' \<longleftrightarrow>
    k \<le> length (iobuf_data iob) \<and> iob' = iob\<lparr>ib_skip := ib_skip iob + k, ib_off := ib_off iob - k\<rparr>"
  using assms by (auto simp: iobuf_consumed_def iobuf_wf_def iobuf_data_def)

lemma iobuf_consumed_wf:
  "iobuf_wf iob \<Longrightarrow> iobuf_consumed iob k = Some iob' \<Longrightarrow> iobuf_wf iob' \<and> ib_error iob' = ib_error iob \<and>
     (\<not> ib_error iob \<longrightarrow> k \<le> length (iobuf_data iob) \<and> iobuf_data iob' = drop k (iobuf_data iob))"
  by (auto simp: iobuf_consumed_def iobuf_wf_def iobuf_data_def drop_take ac_simps split: if_splits)

lemma iobuf_accommodate_spec:
  assumes "iobuf_wf iob" "alloc_ok alloc" "iobuf_accommodate alloc iob n = (ok, iob')"
  shows "iobuf_wf iob' \<and> ok = (\<not> ib_error iob') \<and> (ib_error iob \<longrightarrow> ib_error iob') \<and>
    (ok \<longrightarrow> iobuf_data iob' = iobuf_data iob \<and> ib_skip iob' + ib_off iob' + n \<le> ib_size iob')"
proof (cases "ib_error iob")
  case True
  with assms show ?thesis by (auto simp: iobuf_accommodate_def)
next
  case False
  with assms(1) obtain m where m: "ib_mem iob = Some m" "length m = ib_size iob"
    "ib_skip iob + ib_off iob \<le> ib_size iob" by (auto simp: iobuf_wf_def)
  show ?thesis
    using assms(3) False m
    by (auto simp: iobuf_accommodate_def iobuf_wf_def iobuf_data_def Let_def alloc_okD [OF assms(2)]
        split: if_splits option.splits)
qed

lemma overwrite_region:
  "i \<le> length m \<Longrightarrow> s \<le> i \<Longrightarrow>
     take (i - s + length bs) (drop s (overwrite m i bs)) = take (i - s) (drop s m) @ bs"
  by (simp add: overwrite_def drop_take)

lemma take_of_longer: "take b xs = ys \<Longrightarrow> a \<le> b \<Longrightarrow> take a xs = take a ys"
  by (auto simp: min_def)

lemma length_overwrite [simp]: "i + length bs \<le> length m \<Longrightarrow> length (overwrite m i bs) = length m"
  by (simp add: overwrite_def)

lemma iobuf_store:
  assumes "iobuf_wf iob" "\<not> ib_error iob" "ib_skip iob + ib_off iob + length bs + length t \<le> ib_size iob"
  defines "iob' \<equiv> iob\<lparr>ib_mem := Some (overwrite (the (ib_mem iob)) (ib_skip iob + ib_off iob) (bs @ t)),
                     ib_off := ib_off iob + length bs\<rparr>"
  shows "iobuf_wf iob' \<and> \<not> ib_error iob' \<and> iobuf_data iob' = iobuf_data iob @ bs"
proof -
  from assms obtain m where m: "ib_mem iob = Some m" "length m = ib_size iob"
    by (auto simp: iobuf_wf_def)
  have "take (ib_off iob + length (bs @ t)) (drop (ib_skip iob) (overwrite m (ib_skip iob + ib_off iob) (bs @ t)))
      = take (ib_off iob) (drop (ib_skip iob) m) @ bs @ t"
    using overwrite_region [of "ib_skip iob + ib_off iob" m "ib_skip iob" "bs @ t"] m assms(3) by simp
  then have "take (ib_off iob + length bs) (drop (ib_skip iob) (overwrite m (ib_skip iob + ib_off iob) (bs @ t)))
      = take (ib_off iob + length bs) (take (ib_off iob) (drop (ib_skip iob) m) @ bs @ t)"
    by (rule take_of_longer) simp
  also have "\<dots> = take (ib_off iob) (drop (ib_skip iob) m) @ bs"
    using m assms(3) by simp
  finally show ?thesis using m assms by (simp add: iobuf_wf_def iobuf_data_def)
qed

lemma iobuf_write_spec:
  assumes "iobuf_wf iob" "alloc_ok alloc" "iobuf_write alloc iob bs = (ok, iob')"
  shows "iobuf_wf iob' \<and> ok = (\<not> ib_error iob') \<and> (ib_error iob \<longrightarrow> ib_error iob') \<and>
    (ok \<longrightarrow> iobuf_data iob' = iobuf_data iob @ bs)"
proof (cases "ib_error iob")
  case True
  with assms show ?thesis by (auto simp: iobuf_write_def)
next
  case False
  obtain ok1 iob1 where a: "iobuf_accommodate alloc iob (length bs) = (ok1, iob1)" by force
  note sp = iobuf_accommodate_spec [OF assms(1,2) a]
  show ?thesis
  proof (cases ok1)
    case True
    with sp show ?thesis
      using iobuf_store [of iob1 bs "[]"] assms(3) False a by (auto simp: iobuf_write_def)
  next
    case ok1: False
    with sp a assms(3) False show ?thesis by (auto simp: iobuf_write_def)
  qed
qed

lemma iobuf_print_spec:
  assumes "iobuf_wf iob" "alloc_ok alloc" "iobuf_print alloc nul iob bs = (ok, iob')"
  shows "iobuf_wf iob' \<and> ok = (\<not> ib_error iob') \<and> (ib_error iob \<longrightarrow> ib_error iob') \<and>
    (ok \<longrightarrow> iobuf_data iob' = iobuf_data iob @ bs)"
proof (cases "ib_error iob")
  case True
  with assms show ?thesis by (auto simp: iobuf_print_def)
next
  case False
  obtain ok1 iob1 where a: "iobuf_accommodate alloc iob (length bs + 1) = (ok1, iob1)" by force
  note sp = iobuf_accommodate_spec [OF assms(1,2) a]
  show ?thesis
  proof (cases ok1)
    case True
    with sp show ?thesis
      using iobuf_store [of iob1 bs "[nul]"] assms(3) False a by (auto simp: iobuf_print_def)
  next
    case ok1: False
    with sp a assms(3) False show ?thesis by (auto simp: iobuf_print_def)
  qed
qed

lemma iobuf_find_short:
  "\<not> ib_error iob \<Longrightarrow> ib_mem iob = Some ''ab'' \<Longrightarrow> ib_skip iob = 0 \<Longrightarrow> ib_off iob = 2 \<Longrightarrow>
     iobuf_find iob ''abcd'' = None"
  by (simp add: iobuf_find_def memfind_def memfind_from.simps unsigned_minus_1_eq_mask mask_eq_exp_minus_1)

section \<open>The interface: a byte queue\<close>

text \<open>
  What the clients of a buffer rely on: a write either fails for good or appends, consuming takes
  from the front and never takes more than there is. Under these laws the contents after any
  sequence of writes and consumptions is the written stream less the consumed prefix.
\<close>

locale byte_queue =
  fixes inv :: "'b \<Rightarrow> bool"
    and failed :: "'b \<Rightarrow> bool"
    and content :: "'b \<Rightarrow> 'a list"
    and put :: "'b \<Rightarrow> 'a list \<Rightarrow> bool \<times> 'b"
    and eat :: "'b \<Rightarrow> nat \<Rightarrow> 'b option"
  assumes put_inv: "inv b \<Longrightarrow> put b xs = (ok, b') \<Longrightarrow> inv b'"
    and put_ok: "inv b \<Longrightarrow> put b xs = (ok, b') \<Longrightarrow> ok = (\<not> failed b')"
    and put_failed: "inv b \<Longrightarrow> put b xs = (ok, b') \<Longrightarrow> failed b \<Longrightarrow> failed b'"
    and put_content: "inv b \<Longrightarrow> put b xs = (True, b') \<Longrightarrow> content b' = content b @ xs"
    and eat_inv: "inv b \<Longrightarrow> eat b n = Some b' \<Longrightarrow> inv b'"
    and eat_failed: "inv b \<Longrightarrow> eat b n = Some b' \<Longrightarrow> failed b' = failed b"
    and eat_content: "inv b \<Longrightarrow> eat b n = Some b' \<Longrightarrow> \<not> failed b \<Longrightarrow>
      n \<le> length (content b) \<and> content b' = drop n (content b)"
    and eat_defined: "inv b \<Longrightarrow> n \<le> length (content b) \<Longrightarrow> eat b n \<noteq> None"
begin

fun run :: "'b \<Rightarrow> ('a list + nat) list \<Rightarrow> 'b option" where
  "run b [] = Some b"
| "run b (Inl xs # ops) = run (snd (put b xs)) ops"
| "run b (Inr n # ops) = do { b' \<leftarrow> eat b n; run b' ops }"

fun stream_of :: "('a list + nat) list \<Rightarrow> 'a list" where
  "stream_of [] = []"
| "stream_of (Inl xs # ops) = xs @ stream_of ops"
| "stream_of (Inr n # ops) = stream_of ops"

fun eaten :: "('a list + nat) list \<Rightarrow> nat" where
  "eaten [] = 0"
| "eaten (Inl xs # ops) = eaten ops"
| "eaten (Inr n # ops) = n + eaten ops"

lemma run_failed: "inv b \<Longrightarrow> failed b \<Longrightarrow> run b ops = Some b' \<Longrightarrow> failed b'"
proof (induction ops arbitrary: b rule: stream_of.induct)
  case (2 xs ops)
  obtain ok b1 where p: "put b xs = (ok, b1)" by force
  with 2 show ?case using put_inv [OF "2.prems"(1) p] put_failed [OF "2.prems"(1) p] by simp
next
  case (3 n ops)
  then obtain b1 where e: "eat b n = Some b1" "run b1 ops = Some b'" by (auto simp: bind_Some_iff)
  with 3 show ?case using eat_inv [OF "3.prems"(1) e(1)] eat_failed [OF "3.prems"(1) e(1)] by simp
qed simp

lemma run_content:
  "inv b \<Longrightarrow> run b ops = Some b' \<Longrightarrow> \<not> failed b' \<Longrightarrow>
     inv b' \<and> content b' = drop (eaten ops) (content b @ stream_of ops) \<and>
     eaten ops \<le> length (content b @ stream_of ops)"
proof (induction ops arbitrary: b rule: stream_of.induct)
  case (2 xs ops)
  obtain ok b1 where p: "put b xs = (ok, b1)" by force
  with 2 have r: "run b1 ops = Some b'" by simp
  note i1 = put_inv [OF "2.prems"(1) p]
  have nf: "\<not> failed b1" using run_failed [OF i1 _ r] "2.prems"(3) by blast
  with put_ok [OF "2.prems"(1) p] p have "content b1 = content b @ xs"
    using put_content [OF "2.prems"(1)] by simp
  with "2.IH" [OF i1 r "2.prems"(3)] show ?case by (simp only: append_assoc stream_of.simps eaten.simps)
next
  case (3 n ops)
  then obtain b1 where e: "eat b n = Some b1" "run b1 ops = Some b'" by (auto simp: bind_Some_iff)
  note i1 = eat_inv [OF "3.prems"(1) e(1)]
  have "\<not> failed b1" using run_failed [OF i1 _ e(2)] "3.prems"(3) by blast
  then have nf: "\<not> failed b" using eat_failed [OF "3.prems"(1) e(1)] by simp
  note c = eat_content [OF "3.prems"(1) e(1) nf]
  have "drop (n + eaten ops) (content b @ stream_of ops) = drop (eaten ops) (content b1 @ stream_of ops)"
    using c by (auto simp: add.commute)
  with "3.IH" [OF i1 e(2) "3.prems"(3)] c show ?case by (auto simp: add.commute)
qed simp

end

text \<open>The buffer of the code is such a queue, whenever the allocator keeps its promise.\<close>

interpretation iq: byte_queue "\<lambda>b. alloc_ok alloc \<and> iobuf_wf b" ib_error iobuf_data
    "iobuf_write alloc" iobuf_consumed for alloc
proof unfold_locales
  fix b b' :: "'a iobuf" and xs ok n
  assume wf: "alloc_ok alloc \<and> iobuf_wf b"
  { assume w: "iobuf_write alloc b xs = (ok, b')"
    from wf w show "alloc_ok alloc \<and> iobuf_wf b'" "ok = (\<not> ib_error b')" "ib_error b \<Longrightarrow> ib_error b'"
      using iobuf_write_spec [OF _ _ w] by auto }
  show "iobuf_data b' = iobuf_data b @ xs" if "iobuf_write alloc b xs = (True, b')"
    using iobuf_write_spec [OF _ _ that] wf by simp
  { assume c: "iobuf_consumed b n = Some b'"
    from wf show "alloc_ok alloc \<and> iobuf_wf b'" "ib_error b' = ib_error b"
      "\<not> ib_error b \<Longrightarrow> n \<le> length (iobuf_data b) \<and> iobuf_data b' = drop n (iobuf_data b)"
      using iobuf_consumed_wf [OF _ c] by auto }
  show "iobuf_consumed b n \<noteq> None" if "n \<le> length (iobuf_data b)"
    using that by (auto simp: iobuf_consumed_def iobuf_data_def)
qed

text \<open>C31. A buffer is a byte queue: after any sequence of writes and consumptions, whatever moving and
  reallocation they caused, its contents are the bytes written less the bytes consumed from the
  front, unless an allocation failed.\<close>

theorem iobuf_is_byte_queue:
  assumes "alloc_ok alloc" "iq.run alloc (iobuf_init alloc n) ops = Some iob" "\<not> ib_error iob"
  shows "iobuf_data iob = drop (iq.eaten ops) (iq.stream_of ops) \<and>
    iq.eaten ops \<le> length (iq.stream_of ops) \<and> iobuf_wf iob"
  using iq.run_content [of alloc "iobuf_init alloc n" ops iob] assms
  by (simp add: iobuf_wf_init)

theorem iobuf_is_byte_queue_witness:
  "iobuf_data \<lparr>ib_mem = Some ''bcdefghei'', ib_size = 9, ib_off = 9, ib_skip = 0, ib_error = False\<rparr> =
     drop (iq.eaten [Inl ''a'', Inr 1, Inl ''bcdefghei'']) (iq.stream_of [Inl ''a'', Inr 1, Inl ''bcdefghei'']) \<and>
   iq.eaten [Inl ''a'', Inr 1, Inl ''bcdefghei''] \<le> length (iq.stream_of [Inl ''a'', Inr 1, Inl ''bcdefghei'']) \<and>
   iobuf_wf \<lparr>ib_mem = Some ''bcdefghei'', ib_size = 9, ib_off = 9, ib_skip = 0, ib_error = False\<rparr>"
proof (rule iobuf_is_byte_queue)
  let ?al = "\<lambda>n. Some (replicate n CHR ''f'')"
  show "alloc_ok ?al" by (simp add: alloc_ok_def)
  show "iq.run ?al (iobuf_init ?al 9) [Inl ''a'', Inr 1, Inl ''bcdefghei''] =
    Some \<lparr>ib_mem = Some ''bcdefghei'', ib_size = 9, ib_off = 9, ib_skip = 0, ib_error = False\<rparr>"
    by (simp add: iobuf_init_def iobuf_write_def iobuf_accommodate_def iobuf_consumed_def
        overwrite_def numeral_eq_Suc)
qed simp

end
