(* ===== verification/Hashtable.thy ===== *)
theory Hashtable
  imports Prelude
begin

text \<open>
  \<^verbatim>\<open>misc/hashtable.c\<close>: the chained hash table of peer ids, torrents and identifiers. A bucket is
  the chain of its objects, front first; \<^verbatim>\<open>KEYP\<close> and the function pointers of the table are its
  fields \<open>keyp\<close>, \<open>eq\<close>, \<open>hash\<close>. The tables are created with an integral load ratio, and the comparison
  of the size with \<^verbatim>\<open>buckcnt * ratio\<close> is exact for sizes below \<open>2 ^ 24\<close>; a rounded comparison would only
  move the moment at which a table grows. \<open>ok\<close> arguments tell whether \<^verbatim>\<open>calloc\<close> succeeds.
\<close>

record ('k, 'o) htbl =
  eq :: "'k \<Rightarrow> 'k \<Rightarrow> bool"
  hash :: "'k \<Rightarrow> u32"
  keyp :: "'o \<Rightarrow> 'k"
  buckets :: "'o list list"
  tsize :: nat
  ratio :: nat

definition htbl_create :: "bool \<Rightarrow> nat \<Rightarrow> ('k \<Rightarrow> 'k \<Rightarrow> bool) \<Rightarrow> ('k \<Rightarrow> u32) \<Rightarrow> ('o \<Rightarrow> 'k) \<Rightarrow> ('k, 'o) htbl option" where
  "htbl_create ok r e h kp =
     (if ok then Some \<lparr>eq = e, hash = h, keyp = kp, buckets = [[]], tsize = 0, ratio = r\<rparr> else None)"

definition bucket_of :: "('k, 'o) htbl \<Rightarrow> 'k \<Rightarrow> nat" where
  "bucket_of tbl k = unat (hash tbl k) mod length (buckets tbl)"

fun bucket_rev :: "'o list \<Rightarrow> 'o list \<Rightarrow> 'o list" where
  "bucket_rev p [] = p"
| "bucket_rev p (n # s) = bucket_rev (n # p) s"

definition bucket_insert :: "('k, 'o) htbl \<Rightarrow> 'o \<Rightarrow> ('k, 'o) htbl" where
  "bucket_insert tbl ob =
     (let bi = bucket_of tbl (keyp tbl ob) in
      tbl\<lparr>buckets := (buckets tbl)[bi := ob # buckets tbl ! bi]\<rparr>)"

definition htbl_grow :: "bool \<Rightarrow> ('k, 'o) htbl \<Rightarrow> ('k, 'o) htbl" where
  "htbl_grow ok tbl =
     (if \<not> ok then tbl
      else let ncnt = 2 * length (buckets tbl) + 1; obuckets = buckets tbl in
        foldl (\<lambda>t b. foldl bucket_insert t (bucket_rev [] b))
          (tbl\<lparr>buckets := replicate ncnt []\<rparr>) obuckets)"

definition htbl_insert :: "bool \<Rightarrow> ('k, 'o) htbl \<Rightarrow> 'o \<Rightarrow> ('k, 'o) htbl" where
  "htbl_insert ok tbl ob =
     (let t1 = bucket_insert tbl ob; t2 = t1\<lparr>tsize := tsize t1 + 1\<rparr> in
      if tsize t2 > length (buckets t2) * ratio t2 then htbl_grow ok t2 else t2)"

fun find_chain :: "('k \<Rightarrow> 'k \<Rightarrow> bool) \<Rightarrow> ('o \<Rightarrow> 'k) \<Rightarrow> 'k \<Rightarrow> 'o list \<Rightarrow> 'o option" where
  "find_chain e kp k [] = None"
| "find_chain e kp k (ret # ch) = (if e (kp ret) k then Some ret else find_chain e kp k ch)"

definition htbl_find :: "('k, 'o) htbl \<Rightarrow> 'k \<Rightarrow> 'o option" where
  "htbl_find tbl k = find_chain (eq tbl) (keyp tbl) k (buckets tbl ! bucket_of tbl k)"

fun unlink_chain :: "('k \<Rightarrow> 'k \<Rightarrow> bool) \<Rightarrow> ('o \<Rightarrow> 'k) \<Rightarrow> 'k \<Rightarrow> 'o list \<Rightarrow> 'o option \<times> 'o list" where
  "unlink_chain e kp k [] = (None, [])"
| "unlink_chain e kp k (ob # ch) =
     (if e (kp ob) k then (Some ob, ch)
      else (case unlink_chain e kp k ch of (r, ch') \<Rightarrow> (r, ob # ch')))"

definition htbl_remove :: "('k, 'o) htbl \<Rightarrow> 'k \<Rightarrow> 'o option \<times> ('k, 'o) htbl" where
  "htbl_remove tbl k =
     (let bi = bucket_of tbl k in
      case unlink_chain (eq tbl) (keyp tbl) k (buckets tbl ! bi) of
        (None, _) \<Rightarrow> (None, tbl)
      | (Some ob, ch) \<Rightarrow> (Some ob, tbl\<lparr>buckets := (buckets tbl)[bi := ch], tsize := tsize tbl - 1\<rparr>))"

text \<open>Filling a vector reads buckets until it has seen \<^verbatim>\<open>size\<close> objects; \<open>None\<close> is a read past the last bucket.\<close>

function fillv_loop :: "'o list list \<Rightarrow> nat \<Rightarrow> nat \<Rightarrow> 'o list \<Rightarrow> 'o list option" where
  "fillv_loop bs n bi ch =
     (if n = 0 then Some []
      else case ch of
        [] \<Rightarrow> (if bi + 1 < length bs then fillv_loop bs n (bi + 1) (bs ! (bi + 1)) else None)
      | ob # ch' \<Rightarrow> do { v \<leftarrow> fillv_loop bs (n - 1) bi ch'; Some (ob # v) })"
  by pat_completeness auto
termination
  by (relation "measures [\<lambda>(bs, n, bi, ch). n, \<lambda>(bs, n, bi, ch). length bs - bi]") auto

declare fillv_loop.simps [simp del]

definition htbl_fillv :: "('k, 'o) htbl \<Rightarrow> 'o list option" where
  "htbl_fillv tbl = fillv_loop (buckets tbl) (tsize tbl) 0 (buckets tbl ! 0)"

text \<open>\<^verbatim>\<open>_htbl_tov\<close> allocates room for a single pointer, whatever the size of the table.\<close>

definition htbl_tov :: "bool \<Rightarrow> ('k, 'o) htbl \<Rightarrow> 'o list option option" where
  "htbl_tov ok tbl =
     (if ok then do { v \<leftarrow> htbl_fillv tbl; guard_opt (length v \<le> 1); Some (Some v) } else Some None)"

definition htbl_size :: "('k, 'o) htbl \<Rightarrow> nat" where
  "htbl_size tbl = tsize tbl"

section \<open>Iterators\<close>

text \<open>
  The current object is the one at \<open>it_pos\<close> in bucket \<open>it_bi\<close>; \<^verbatim>\<open>it->ptr\<close> is the link that leads to it
  and \<^verbatim>\<open>it->cnt\<close> its number. The outer \<open>None\<close> is a read past the last bucket.
\<close>

record htbl_iter =
  it_bi :: nat
  it_cnt :: nat
  it_pos :: nat

function iter_next_bucket :: "'o list list \<Rightarrow> nat \<Rightarrow> nat option" where
  "iter_next_bucket bs bi =
     (if bi < length bs then if bs ! bi = [] then iter_next_bucket bs (bi + 1) else Some bi else None)"
  by pat_completeness auto
termination
  by (relation "measure (\<lambda>(bs, bi). length bs - bi)") auto

declare iter_next_bucket.simps [simp del]

definition iter_obj :: "('k, 'o) htbl \<Rightarrow> htbl_iter \<Rightarrow> 'o" where
  "iter_obj tbl it = buckets tbl ! it_bi it ! it_pos it"

definition htbl_iter_first :: "('k, 'o) htbl \<Rightarrow> ('o \<times> htbl_iter) option option" where
  "htbl_iter_first tbl =
     (if tsize tbl = 0 then Some None
      else do {
        bi \<leftarrow> iter_next_bucket (buckets tbl) 0;
        let it = \<lparr>it_bi = bi, it_cnt = 1, it_pos = 0\<rparr>;
        Some (Some (iter_obj tbl it, it)) })"

definition htbl_iter_next :: "('k, 'o) htbl \<Rightarrow> htbl_iter \<Rightarrow> ('o \<times> htbl_iter) option option" where
  "htbl_iter_next tbl it =
     (if it_cnt it = tsize tbl then Some None
      else do {
        bi \<leftarrow> (if it_pos it + 1 < length (buckets tbl ! it_bi it) then Some (it_bi it)
              else iter_next_bucket (buckets tbl) (it_bi it + 1));
        let pos = (if it_pos it + 1 < length (buckets tbl ! it_bi it) then it_pos it + 1 else 0);
        let it' = \<lparr>it_bi = bi, it_cnt = it_cnt it + 1, it_pos = pos\<rparr>;
        Some (Some (iter_obj tbl it', it')) })"

text \<open>Deleting writes \<^verbatim>\<open>*it->ptr\<close>: the rest of the chain behind the object, or its end.\<close>

definition htbl_iter_del :: "('k, 'o) htbl \<Rightarrow> htbl_iter \<Rightarrow> (('o \<times> htbl_iter) option \<times> ('k, 'o) htbl) option" where
  "htbl_iter_del tbl it =
     (let b = buckets tbl ! it_bi it; sz = tsize tbl - 1 in
      if it_cnt it > sz
      then Some (None, tbl\<lparr>buckets := (buckets tbl)[it_bi it := take (it_pos it) b], tsize := sz\<rparr>)
      else if it_pos it + 1 < length b
      then let t = tbl\<lparr>buckets := (buckets tbl)[it_bi it := take (it_pos it) b @ drop (it_pos it + 1) b], tsize := sz\<rparr>
           in Some (Some (iter_obj t it, it), t)
      else let t = tbl\<lparr>buckets := (buckets tbl)[it_bi it := take (it_pos it) b], tsize := sz\<rparr>
           in do {
             bi \<leftarrow> iter_next_bucket (buckets t) (it_bi it + 1);
             let it' = \<lparr>it_bi = bi, it_cnt = it_cnt it, it_pos = 0\<rparr>;
             Some (Some (iter_obj t it', it'), t) })"

section \<open>Invariant and abstraction\<close>

definition htbl_wf :: "('o \<Rightarrow> 'k) \<Rightarrow> ('k, 'o) htbl \<Rightarrow> bool" where
  "htbl_wf kp tbl \<longleftrightarrow> eq tbl = (=) \<and> keyp tbl = kp \<and> buckets tbl \<noteq> [] \<and>
     tsize tbl = length (concat (buckets tbl)) \<and>
     (\<forall>i < length (buckets tbl). \<forall>ob \<in> set (buckets tbl ! i). bucket_of tbl (kp ob) = i)"

text \<open>The objects stored under a key, newest first, and all objects of a table.\<close>

definition objs :: "('k, 'o) htbl \<Rightarrow> 'k \<Rightarrow> 'o list" where
  "objs tbl k = filter (\<lambda>ob. keyp tbl ob = k) (buckets tbl ! bucket_of tbl k)"

definition all_objs :: "('k, 'o) htbl \<Rightarrow> 'o list" where
  "all_objs tbl = concat (buckets tbl)"

lemma bucket_of_less [simp]: "buckets tbl \<noteq> [] \<Longrightarrow> bucket_of tbl k < length (buckets tbl)"
  by (simp add: bucket_of_def)

lemma bucket_rev_rev: "bucket_rev p n = rev n @ p"
  by (induction p n rule: bucket_rev.induct) simp_all

lemma bucket_insert_frame [simp]:
  "length (buckets (bucket_insert t ob)) = length (buckets t)" "hash (bucket_insert t ob) = hash t"
  "eq (bucket_insert t ob) = eq t" "keyp (bucket_insert t ob) = keyp t"
  "tsize (bucket_insert t ob) = tsize t" "ratio (bucket_insert t ob) = ratio t"
  "bucket_of (bucket_insert t ob) k = bucket_of t k"
  by (simp_all add: bucket_insert_def Let_def bucket_of_def)

lemma bucket_insert_nonempty [simp]: "buckets (bucket_insert t ob) = [] \<longleftrightarrow> buckets t = []"
  by (metis bucket_insert_frame(1) length_0_conv)

text \<open>What a table keeps under insertion of one object, without the size field.\<close>

definition chains_ok :: "('k, 'o) htbl \<Rightarrow> bool" where
  "chains_ok tbl \<longleftrightarrow> buckets tbl \<noteq> [] \<and>
     (\<forall>i < length (buckets tbl). \<forall>ob \<in> set (buckets tbl ! i). bucket_of tbl (keyp tbl ob) = i)"

lemma htbl_wf_chains:
  "htbl_wf kp t \<longleftrightarrow> eq t = (=) \<and> keyp t = kp \<and> tsize t = length (all_objs t) \<and> chains_ok t"
  by (auto simp: htbl_wf_def chains_ok_def all_objs_def)

lemma bucket_insert_chains:
  assumes "chains_ok t"
  shows "chains_ok (bucket_insert t ob)"
proof -
  let ?t = "bucket_insert t ob"
  have "bucket_of t (keyp t x) = i" if i: "i < length (buckets t)" and x: "x \<in> set (buckets ?t ! i)" for x i
  proof (cases "i = bucket_of t (keyp t ob)")
    case True
    with i have "buckets ?t ! i = ob # buckets t ! i" by (simp add: bucket_insert_def Let_def)
    with x have "x = ob \<or> x \<in> set (buckets t ! i)" by simp
    with True i assms show ?thesis unfolding chains_ok_def by blast
  next
    case False
    then have "buckets ?t ! i = buckets t ! i" by (simp add: bucket_insert_def Let_def)
    with x i assms show ?thesis unfolding chains_ok_def by simp
  qed
  then show ?thesis using assms unfolding chains_ok_def by simp
qed

lemma mset_concat_update:
  "i < length bs \<Longrightarrow> mset (concat (bs[i := b])) + mset (bs ! i) = mset (concat bs) + mset b"
proof (induction bs arbitrary: i)
  case (Cons c bs)
  then show ?case by (cases i) (simp_all add: ac_simps)
qed simp

lemma bucket_insert_all:
  assumes "buckets t \<noteq> []"
  shows "mset (all_objs (bucket_insert t ob)) = add_mset ob (mset (all_objs t))"
  using mset_concat_update [of "bucket_of t (keyp t ob)" "buckets t" "ob # buckets t ! bucket_of t (keyp t ob)"] assms
  by (simp add: all_objs_def bucket_insert_def Let_def)

lemma bucket_insert_objs:
  assumes "buckets t \<noteq> []"
  shows "objs (bucket_insert t ob) k = (if keyp t ob = k then ob # objs t k else objs t k)"
  using assms by (auto simp: objs_def) (auto simp: bucket_insert_def Let_def nth_list_update)

section \<open>The operations keep the invariant and act on the stacks of objects\<close>

lemma foldl_bucket_insert:
  assumes "chains_ok t"
  shows "chains_ok (foldl bucket_insert t xs) \<and>
    mset (all_objs (foldl bucket_insert t xs)) = mset xs + mset (all_objs t) \<and>
    objs (foldl bucket_insert t xs) k = rev (filter (\<lambda>ob. keyp t ob = k) xs) @ objs t k"
  using assms
proof (induction xs arbitrary: t)
  case (Cons x xs)
  from Cons.prems have ne: "buckets t \<noteq> []" by (simp add: chains_ok_def)
  note ih = Cons.IH [OF bucket_insert_chains [OF Cons.prems], of x]
  show ?case
    using ih by (simp add: bucket_insert_all [OF ne] bucket_insert_objs [OF ne])
qed simp

lemma foldl_bucket_insert_frame [simp]:
  "hash (foldl bucket_insert t xs) = hash t" "eq (foldl bucket_insert t xs) = eq t"
  "keyp (foldl bucket_insert t xs) = keyp t" "tsize (foldl bucket_insert t xs) = tsize t"
  "ratio (foldl bucket_insert t xs) = ratio t"
  by (induction xs arbitrary: t) simp_all

lemma htbl_grow_foldl:
  "htbl_grow True tbl = foldl bucket_insert (tbl\<lparr>buckets := replicate (2 * length (buckets tbl) + 1) []\<rparr>)
     (concat (map rev (buckets tbl)))"
proof -
  have "foldl (\<lambda>t b. foldl bucket_insert t (bucket_rev [] b)) t bs = foldl bucket_insert t (concat (map rev bs))"
    for t :: "('k, 'o) htbl" and bs
    by (induction bs arbitrary: t) (simp_all add: bucket_rev_rev)
  then show ?thesis by (simp add: htbl_grow_def Let_def)
qed

lemma filter_concat_single:
  "i < length bs \<Longrightarrow> \<forall>j < length bs. j \<noteq> i \<longrightarrow> filter P (bs ! j) = [] \<Longrightarrow>
     filter P (concat bs) = filter P (bs ! i)"
proof (induction bs arbitrary: i)
  case (Cons b bs)
  show ?case
  proof (cases i)
    case 0
    with Cons.prems(2) have "\<forall>j < length bs. filter P (bs ! j) = []" by auto
    then have "\<forall>b \<in> set bs. filter P b = []" by (metis in_set_conv_nth)
    then have "filter P (concat bs) = []" by (auto simp: filter_empty_conv)
    with 0 show ?thesis by simp
  next
    case (Suc i')
    then have "filter P b = []" using Cons.prems(2) by auto
    moreover have "filter P (concat bs) = filter P (bs ! i')"
      using Cons.prems Suc by (intro Cons.IH) auto
    ultimately show ?thesis using Suc by simp
  qed
qed simp

lemma empty_buckets:
  assumes "0 < n"
  shows "chains_ok (t\<lparr>buckets := replicate n []\<rparr>)" "all_objs (t\<lparr>buckets := replicate n []\<rparr>) = []"
    "objs (t\<lparr>buckets := replicate n []\<rparr>) k = []"
  using assms by (auto simp: chains_ok_def all_objs_def objs_def bucket_of_def)

lemma mset_concat_rev: "mset (concat (map rev bs)) = mset (concat bs)"
  by (induction bs) simp_all

lemma htbl_grow_spec:
  assumes "chains_ok t"
  shows "chains_ok (htbl_grow ok t) \<and> mset (all_objs (htbl_grow ok t)) = mset (all_objs t) \<and>
    objs (htbl_grow ok t) k = objs t k"
proof (cases ok)
  case True
  let ?bs = "buckets t" and ?bi = "bucket_of t k" and ?P = "\<lambda>ob. keyp t ob = k"
  let ?n = "2 * length (buckets t) + 1"
  let ?t0 = "t\<lparr>buckets := replicate ?n []\<rparr>"
  have t0: "chains_ok ?t0" "all_objs ?t0 = []"
    by (rule empty_buckets, simp)+
  have t0': "objs ?t0 k = []" by (rule empty_buckets) simp
  have bi: "?bi < length ?bs" using assms by (simp add: chains_ok_def)
  have "filter ?P (concat (map rev ?bs)) = filter ?P (map rev ?bs ! ?bi)"
    using assms bi by (intro filter_concat_single) (auto simp: chains_ok_def filter_empty_conv)
  also have "\<dots> = rev (objs t k)" using bi by (simp add: objs_def rev_filter)
  finally have f: "filter ?P (concat (map rev ?bs)) = rev (objs t k)" .
  have g: "htbl_grow ok t = foldl bucket_insert ?t0 (concat (map rev ?bs))"
    using True htbl_grow_foldl [of t] by simp
  have "rev (filter ?P (concat (map rev ?bs))) @ objs ?t0 k = objs t k" using f t0' by simp
  moreover have "mset (concat (map rev ?bs)) + mset (all_objs ?t0) = mset (all_objs t)"
    using t0 by (simp add: mset_concat_rev all_objs_def)
  ultimately show ?thesis
    unfolding g using foldl_bucket_insert [OF t0(1), of "concat (map rev ?bs)" k] by simp
qed (use assms in \<open>simp add: htbl_grow_def\<close>)

lemma htbl_grow_frame [simp]:
  "hash (htbl_grow ok t) = hash t" "eq (htbl_grow ok t) = eq t" "keyp (htbl_grow ok t) = keyp t"
  "tsize (htbl_grow ok t) = tsize t"
  using htbl_grow_foldl [of t] by (cases ok; simp add: htbl_grow_def)+

lemma tsize_update_frame [simp]:
  "chains_ok (t\<lparr>tsize := n\<rparr>) = chains_ok t" "objs (t\<lparr>tsize := n\<rparr>) k = objs t k"
  "all_objs (t\<lparr>tsize := n\<rparr>) = all_objs t"
  by (simp_all add: chains_ok_def objs_def all_objs_def bucket_of_def)

lemma htbl_insert_spec:
  assumes "htbl_wf kp t"
  shows "htbl_wf kp (htbl_insert ok t ob) \<and>
    mset (all_objs (htbl_insert ok t ob)) = add_mset ob (mset (all_objs t)) \<and>
    objs (htbl_insert ok t ob) k = (if kp ob = k then ob # objs t k else objs t k)"
proof -
  from assms have w: "eq t = (=)" "keyp t = kp" "tsize t = length (all_objs t)" "chains_ok t" "buckets t \<noteq> []"
    by (auto simp: htbl_wf_chains chains_ok_def)
  let ?t2 = "(bucket_insert t ob)\<lparr>tsize := tsize t + 1\<rparr>"
  have "chains_ok ?t2" using bucket_insert_chains [OF w(4)] by simp
  note g = htbl_grow_spec [OF this]
  have m: "mset (all_objs ?t2) = add_mset ob (mset (all_objs t))" using w by (simp add: bucket_insert_all)
  have "htbl_insert ok t ob = ?t2 \<or> htbl_insert ok t ob = htbl_grow ok ?t2"
    by (simp add: htbl_insert_def Let_def)
  then obtain t3 where t3: "htbl_insert ok t ob = t3" "chains_ok t3" "mset (all_objs t3) = mset (all_objs ?t2)"
    "objs t3 k = objs ?t2 k" "eq t3 = eq t" "keyp t3 = keyp t" "tsize t3 = tsize t + 1"
    using g \<open>chains_ok ?t2\<close> by fastforce
  from t3(3) m have "length (all_objs t3) = Suc (length (all_objs t))"
    by (metis size_mset size_add_mset)
  with t3 w m show ?thesis by (simp add: htbl_wf_chains bucket_insert_objs)
qed

lemma find_chain_filter: "find_chain (=) kp k ch = q_first (filter (\<lambda>ob. kp ob = k) ch)"
  by (induction ch) simp_all

lemma htbl_find_spec: "htbl_wf kp t \<Longrightarrow> htbl_find t k = q_first (objs t k)"
  by (simp add: htbl_find_def htbl_wf_def objs_def find_chain_filter)

lemma chains_ok_update:
  assumes "chains_ok t" "bi < length (buckets t)" "set ch \<subseteq> set (buckets t ! bi)"
    "buckets t' = (buckets t)[bi := ch]" "hash t' = hash t" "keyp t' = keyp t"
  shows "chains_ok t'"
proof -
  have "bucket_of t' k = bucket_of t k" for k using assms by (simp add: bucket_of_def)
  moreover have "x \<in> set (buckets t ! i)" if "x \<in> set ((buckets t)[bi := ch] ! i)" for x i
    using that assms(2,3) by (cases "i = bi") auto
  ultimately show ?thesis using assms unfolding chains_ok_def by simp
qed

lemma unlink_chain_result:
  "unlink_chain (=) kp k ch = (r, ch') \<Longrightarrow> r = q_first (filter (\<lambda>ob. kp ob = k) ch)"
  by (induction ch arbitrary: r ch') (auto split: prod.splits if_splits)

lemma unlink_chain_filter:
  "unlink_chain (=) kp k ch = (r, ch') \<Longrightarrow> filter (\<lambda>ob. kp ob = k') ch' =
     (if k' = k then tl (filter (\<lambda>ob. kp ob = k) ch) else filter (\<lambda>ob. kp ob = k') ch)"
  by (induction ch arbitrary: r ch') (auto split: prod.splits if_splits)

lemma unlink_chain_mset:
  "unlink_chain (=) kp k ch = (r, ch') \<Longrightarrow>
     case r of None \<Rightarrow> ch' = ch | Some ob \<Rightarrow> mset ch = add_mset ob (mset ch')"
  by (induction ch arbitrary: r ch') (fastforce split: prod.splits if_splits option.splits)+

lemma htbl_remove_spec:
  assumes "htbl_wf kp t" "htbl_remove t k = (r, t')"
  shows "htbl_wf kp t' \<and> r = q_first (objs t k) \<and>
    objs t' k' = (if k' = k then tl (objs t k) else objs t k') \<and>
    mset (all_objs t) = mset (all_objs t') + (case r of None \<Rightarrow> {#} | Some ob \<Rightarrow> {#ob#})"
proof -
  let ?bi = "bucket_of t k"
  obtain r' ch' where u: "unlink_chain (=) kp k (buckets t ! ?bi) = (r', ch')" by force
  note sp = unlink_chain_result [OF u] unlink_chain_filter [OF u] unlink_chain_mset [OF u]
  from assms(1) have w: "eq t = (=)" "keyp t = kp" "tsize t = length (all_objs t)" "chains_ok t" "?bi < length (buckets t)"
    by (auto simp: htbl_wf_chains chains_ok_def)
  show ?thesis
  proof (cases r')
    case None
    with u assms(2) w have "r = None" "t' = t" by (auto simp: htbl_remove_def Let_def)
    moreover from sp(1) None have "objs t k = []" by (simp add: objs_def w)
    ultimately show ?thesis using assms(1) by simp
  next
    case (Some ob)
    with u assms(2) w have r: "r = Some ob" "t' = t\<lparr>buckets := (buckets t)[?bi := ch'], tsize := tsize t - 1\<rparr>"
      by (auto simp: htbl_remove_def Let_def)
    have bo: "bucket_of t' k'' = bucket_of t k''" for k'' using r by (simp add: bucket_of_def)
    from Some sp(3) have mb: "mset (buckets t ! ?bi) = add_mset ob (mset ch')" by simp
    then have sub: "set ch' \<subseteq> set (buckets t ! ?bi)" by (metis set_mset_mset set_mset_add_mset_insert subset_insertI)
    have m: "mset (all_objs t) = add_mset ob (mset (all_objs t'))"
      using mset_concat_update [OF w(5), of ch'] mb r by (simp add: all_objs_def)
    then have "length (all_objs t) = Suc (length (all_objs t'))" by (metis size_mset size_add_mset)
    moreover have "chains_ok t'"
      by (rule chains_ok_update [OF w(4,5) sub]) (use r in simp_all)
    ultimately have "htbl_wf kp t'" using w r by (simp add: htbl_wf_chains)
    moreover have "objs t' k' = (if k' = k then tl (objs t k) else objs t k')"
    proof (cases "bucket_of t k' = ?bi")
      case True
      with r w(5) bo have "objs t' k' = filter (\<lambda>ob. keyp t ob = k') ch'" by (simp add: objs_def)
      with sp(2) [of k'] True show ?thesis by (simp add: objs_def w)
    next
      case False
      with r bo have "objs t' k' = objs t k'" by (simp add: objs_def)
      with False show ?thesis by auto
    qed
    moreover have "q_first (objs t k) = Some ob" using sp(1) Some r(1) by (simp add: objs_def w)
    ultimately show ?thesis using m r(1) by simp
  qed
qed

lemma htbl_create_spec:
  "htbl_create ok rt (=) h kp = Some t \<Longrightarrow> htbl_wf kp t \<and> objs t k = [] \<and> all_objs t = []"
  by (auto simp: htbl_create_def htbl_wf_def objs_def all_objs_def bucket_of_def split: if_splits)

section \<open>The interface: a dictionary of stacks\<close>

text \<open>
  The contract of the table: under every key there is a stack of objects, insertion pushes, removal
  pops, a lookup reads the top. A client that inserts only objects whose key is not in use has a
  finite map.
\<close>

locale dict =
  fixes inv :: "'t \<Rightarrow> bool"
    and key :: "'o \<Rightarrow> 'k"
    and stack :: "'t \<Rightarrow> 'k \<Rightarrow> 'o list"
    and find :: "'t \<Rightarrow> 'k \<Rightarrow> 'o option"
    and ins :: "'t \<Rightarrow> 'o \<Rightarrow> 't"
    and rem :: "'t \<Rightarrow> 'k \<Rightarrow> 'o option \<times> 't"
  assumes ins_inv: "inv t \<Longrightarrow> inv (ins t x)"
    and ins_stack: "inv t \<Longrightarrow> stack (ins t x) k = (if key x = k then x # stack t k else stack t k)"
    and find_top: "inv t \<Longrightarrow> find t k = q_first (stack t k)"
    and rem_inv: "inv t \<Longrightarrow> rem t k = (r, t') \<Longrightarrow> inv t'"
    and rem_res: "inv t \<Longrightarrow> rem t k = (r, t') \<Longrightarrow> r = find t k"
    and rem_stack: "inv t \<Longrightarrow> rem t k = (r, t') \<Longrightarrow>
      stack t' k' = (if k' = k then tl (stack t k) else stack t k')"
begin

definition unique :: "'t \<Rightarrow> bool" where
  "unique t \<longleftrightarrow> (\<forall>k. length (stack t k) \<le> 1)"

lemma find_ins: "inv t \<Longrightarrow> find (ins t x) k = (if key x = k then Some x else find t k)"
  by (simp add: find_top ins_inv ins_stack)

lemma unique_ins: "inv t \<Longrightarrow> unique t \<Longrightarrow> find t (key x) = None \<Longrightarrow> unique (ins t x)"
  by (simp add: unique_def ins_stack find_top)

lemma unique_rem: "inv t \<Longrightarrow> unique t \<Longrightarrow> rem t k = (r, t') \<Longrightarrow> unique t'"
  unfolding unique_def
proof
  fix k' assume "inv t" "\<forall>k. length (stack t k) \<le> 1" "rem t k = (r, t')"
  then show "length (stack t' k') \<le> 1" using rem_stack [of t k r t' k'] le_diff_conv
    by (simp add: trans_le_add1)
qed

lemma find_rem:
  assumes "inv t" "unique t" "rem t k = (r, t')"
  shows "find t' k' = (if k' = k then None else find t k')"
proof -
  have "length (stack t k) \<le> 1" using assms(2) by (simp add: unique_def)
  then have "tl (stack t k) = []" by (cases "stack t k") auto
  then show ?thesis
    using rem_inv [OF assms(1,3)] rem_stack [OF assms(1,3), of k'] assms(1) by (simp add: find_top)
qed

lemma ins_upd: "inv t \<Longrightarrow> find (ins t x) = (find t)(key x \<mapsto> x)"
  by (rule ext) (simp add: find_ins)

lemma rem_upd: "inv t \<Longrightarrow> unique t \<Longrightarrow> rem t k = (r, t') \<Longrightarrow> find t' = (find t)(k := None)"
  by (rule ext) (simp add: find_rem)

end

interpretation ht: dict "htbl_wf kp" kp objs htbl_find "htbl_insert ok" htbl_remove for kp ok
proof unfold_locales
  fix t t' x k k' r
  assume wf: "htbl_wf kp t"
  show "htbl_wf kp (htbl_insert ok t x)" "objs (htbl_insert ok t x) k = (if kp x = k then x # objs t k else objs t k)"
    using htbl_insert_spec [OF wf] by simp_all
  show "htbl_find t k = q_first (objs t k)" by (rule htbl_find_spec [OF wf])
  assume r: "htbl_remove t k = (r, t')"
  show "htbl_wf kp t'" "r = htbl_find t k" "objs t' k' = (if k' = k then tl (objs t k) else objs t k')"
    using htbl_remove_spec [OF wf r] htbl_find_spec [OF wf] by simp_all
qed

section \<open>Iteration\<close>

lemma iter_next_bucket_spec:
  "concat (drop bi bs) \<noteq> [] \<Longrightarrow> \<exists>bi'. iter_next_bucket bs bi = Some bi' \<and> bi \<le> bi' \<and> bi' < length bs \<and>
     bs ! bi' \<noteq> [] \<and> concat (drop bi bs) = concat (drop bi' bs) \<and>
     concat (take bi' bs) = concat (take bi bs)"
proof (induction bs bi rule: iter_next_bucket.induct)
  case (1 bs bi)
  have lt: "bi < length bs" using "1.prems" by (rule contrapos_np) simp
  show ?case
  proof (cases "bs ! bi = []")
    case True
    with lt have d: "concat (drop bi bs) = concat (drop (bi + 1) bs)" "concat (take (bi + 1) bs) = concat (take bi bs)"
      by (simp_all add: drop_nth_Cons take_Suc_conv_app_nth)
    with "1.IH" [OF lt True] "1.prems" obtain bi' where
      "iter_next_bucket bs (bi + 1) = Some bi' \<and> bi + 1 \<le> bi' \<and> bi' < length bs \<and>
       bs ! bi' \<noteq> [] \<and> concat (drop (bi + 1) bs) = concat (drop bi' bs) \<and>
       concat (take bi' bs) = concat (take (bi + 1) bs)" by auto
    then show ?thesis using lt True d by (subst iter_next_bucket.simps) (intro exI [of _ bi'], simp)
  next
    case False
    with lt show ?thesis by (subst iter_next_bucket.simps) simp
  qed
qed

text \<open>
  \<open>iter_at t it xs ys\<close>: the iterator stands on the first object of \<open>ys\<close>, it has passed \<open>xs\<close>, and
  both make up the table.
\<close>

definition iter_at :: "('k, 'o) htbl \<Rightarrow> htbl_iter \<Rightarrow> 'o list \<Rightarrow> 'o list \<Rightarrow> bool" where
  "iter_at t it xs ys \<longleftrightarrow> it_bi it < length (buckets t) \<and> it_pos it < length (buckets t ! it_bi it) \<and>
     xs = concat (take (it_bi it) (buckets t)) @ take (it_pos it) (buckets t ! it_bi it) \<and>
     ys = drop (it_pos it) (buckets t ! it_bi it) @ concat (drop (it_bi it + 1) (buckets t)) \<and>
     it_cnt it = length xs + 1 \<and> tsize t = length xs + length ys"

lemma iter_at_obj: "iter_at t it xs ys \<Longrightarrow> \<exists>r. ys = iter_obj t it # r"
  by (auto simp: iter_at_def iter_obj_def drop_nth_Cons)

lemma iter_at_all: "iter_at t it xs ys \<Longrightarrow> all_objs t = xs @ ys"
  using id_take_nth_drop [of "it_bi it" "buckets t"]
  by (auto simp: iter_at_def all_objs_def) (metis append_take_drop_id concat.simps(2) concat_append append_assoc)

lemma iter_at_bucket:
  assumes "bi < length (buckets t)" "buckets t ! bi \<noteq> []" "xs = concat (take bi (buckets t))"
    "ys = concat (drop bi (buckets t))" "tsize t = length xs + length ys" "n = length xs + 1"
  shows "iter_at t \<lparr>it_bi = bi, it_cnt = n, it_pos = 0\<rparr> xs ys"
  using assms by (simp add: iter_at_def drop_nth_Cons)

lemma htbl_iter_first_spec:
  assumes "htbl_wf kp t"
  shows "if all_objs t = [] then htbl_iter_first t = Some None
    else \<exists>it. htbl_iter_first t = Some (Some (iter_obj t it, it)) \<and> iter_at t it [] (all_objs t)"
proof (cases "all_objs t = []")
  case True
  with assms show ?thesis by (simp add: htbl_iter_first_def htbl_wf_chains)
next
  case False
  then have "concat (drop 0 (buckets t)) \<noteq> []" by (simp add: all_objs_def)
  from iter_next_bucket_spec [OF this] obtain bi where bi: "iter_next_bucket (buckets t) 0 = Some bi"
    "bi < length (buckets t)" "buckets t ! bi \<noteq> []" "all_objs t = concat (drop bi (buckets t))"
    "concat (take bi (buckets t)) = []" by (auto simp: all_objs_def)
  let ?it = "\<lparr>it_bi = bi, it_cnt = 1, it_pos = 0\<rparr>"
  have "iter_at t ?it [] (all_objs t)"
    by (rule iter_at_bucket [OF bi(2,3)]) (use bi assms in \<open>simp_all add: htbl_wf_chains\<close>)
  then show ?thesis using False bi assms by (auto simp: htbl_iter_first_def htbl_wf_chains Let_def)
qed

lemma htbl_iter_next_spec:
  assumes "iter_at t it xs (y # ys)"
  shows "if ys = [] then htbl_iter_next t it = Some None
    else \<exists>it'. htbl_iter_next t it = Some (Some (iter_obj t it', it')) \<and> iter_at t it' (xs @ [y]) ys"
proof (cases "ys = []")
  case True
  with assms show ?thesis by (simp add: htbl_iter_next_def iter_at_def)
next
  case False
  let ?b = "buckets t ! it_bi it"
  from assms False have cnt: "it_cnt it \<noteq> tsize t" by (simp add: iter_at_def)
  show ?thesis
  proof (cases "it_pos it + 1 < length ?b")
    case True
    with assms have "iter_at t \<lparr>it_bi = it_bi it, it_cnt = it_cnt it + 1, it_pos = it_pos it + 1\<rparr> (xs @ [y]) ys"
      by (auto simp: iter_at_def drop_nth_Cons take_Suc_conv_app_nth)
    with True cnt False show ?thesis by (auto simp: htbl_iter_next_def Let_def)
  next
    case end': False
    from assms end' have e: "drop (it_pos it) ?b = [y]" "ys = concat (drop (it_bi it + 1) (buckets t))"
      by (auto simp: iter_at_def drop_nth_Cons)
    from iter_next_bucket_spec [of "it_bi it + 1" "buckets t"] e False obtain bi where
      bi: "iter_next_bucket (buckets t) (it_bi it + 1) = Some bi" "bi < length (buckets t)"
      "buckets t ! bi \<noteq> []" "ys = concat (drop bi (buckets t))"
      "concat (take bi (buckets t)) = concat (take (it_bi it + 1) (buckets t))" by auto
    have "?b = take (it_pos it) ?b @ [y]" using e(1) by (metis append_take_drop_id)
    then have "concat (take bi (buckets t)) = xs @ [y]"
      using assms bi(5) by (simp add: iter_at_def take_Suc_conv_app_nth)
    then have "iter_at t \<lparr>it_bi = bi, it_cnt = it_cnt it + 1, it_pos = 0\<rparr> (xs @ [y]) ys"
      using bi assms by (intro iter_at_bucket) (auto simp: iter_at_def)
    with end' cnt False bi show ?thesis by (auto simp: htbl_iter_next_def Let_def)
  qed
qed

lemma concat_list_update:
  "i < length bs \<Longrightarrow> concat (bs[i := b]) = concat (take i bs) @ b @ concat (drop (i + 1) bs)"
  by (simp add: upd_conv_take_nth_drop)

text \<open>\<open>cut_bucket\<close>: the table after the object under the iterator has been unlinked.\<close>

lemma cut_bucket:
  assumes "iter_at t it xs (y # ys)" "htbl_wf kp t"
    "t' = t\<lparr>buckets := (buckets t)[it_bi it := take (it_pos it) (buckets t ! it_bi it) @ drop (it_pos it + 1) (buckets t ! it_bi it)],
           tsize := tsize t - 1\<rparr>"
  shows "htbl_wf kp t' \<and> all_objs t' = xs @ ys"
proof -
  let ?b = "buckets t ! it_bi it"
  from assms(1) have bi: "it_bi it < length (buckets t)" and pos: "it_pos it < length ?b" by (auto simp: iter_at_def)
  have ys: "ys = drop (it_pos it + 1) ?b @ concat (drop (it_bi it + 1) (buckets t))"
    using assms(1) pos by (simp add: iter_at_def drop_nth_Cons)
  have all: "all_objs t' = xs @ ys"
    using assms(1,3) bi ys by (simp add: all_objs_def concat_list_update iter_at_def)
  have sub: "set (take (it_pos it) ?b @ drop (it_pos it + 1) ?b) \<subseteq> set ?b"
    using set_take_subset set_drop_subset by fastforce
  have "chains_ok t" using assms(2) by (simp add: htbl_wf_chains)
  then have "chains_ok t'"
    by (rule chains_ok_update [OF _ bi sub]) (simp_all add: assms(3))
  moreover have "tsize t' = length (all_objs t')" using all assms by (simp add: iter_at_def)
  ultimately show ?thesis using all assms(2,3) by (simp add: htbl_wf_chains)
qed

lemma htbl_iter_del_spec:
  assumes "iter_at t it xs (y # ys)" "htbl_wf kp t"
  shows "\<exists>res t'. htbl_iter_del t it = Some (res, t') \<and> htbl_wf kp t' \<and> all_objs t' = xs @ ys \<and>
    (if ys = [] then res = None else \<exists>it'. res = Some (iter_obj t' it', it') \<and> iter_at t' it' xs ys)"
proof -
  let ?b = "buckets t ! it_bi it"
  let ?t' = "t\<lparr>buckets := (buckets t)[it_bi it := take (it_pos it) ?b @ drop (it_pos it + 1) ?b], tsize := tsize t - 1\<rparr>"
  note cut = cut_bucket [OF assms refl]
  from assms(1) have bi: "it_bi it < length (buckets t)" and pos: "it_pos it < length ?b"
    and sz: "tsize t = length xs + length ys + 1" and cnt: "it_cnt it = length xs + 1"
    and yys: "y # ys = drop (it_pos it) ?b @ concat (drop (it_bi it + 1) (buckets t))"
    and xs: "xs = concat (take (it_bi it) (buckets t)) @ take (it_pos it) ?b"
    by (auto simp: iter_at_def)
  from yys pos have ys: "ys = drop (it_pos it + 1) ?b @ concat (drop (it_bi it + 1) (buckets t))"
    by (simp add: drop_nth_Cons)
  show ?thesis
  proof (cases "ys = []")
    case True
    with ys have "drop (it_pos it + 1) ?b = []" by simp
    then have "htbl_iter_del t it = Some (None, ?t')" using True sz cnt by (simp add: htbl_iter_del_def Let_def)
    with cut True show ?thesis by simp
  next
    case ne: False
    then have gt: "\<not> it_cnt it > tsize t - 1" using sz cnt by (cases ys) auto
    show ?thesis
    proof (cases "it_pos it + 1 < length ?b")
      case True
      then have "htbl_iter_del t it = Some (Some (iter_obj ?t' it, it), ?t')"
        using gt by (simp add: htbl_iter_del_def Let_def)
      moreover have "iter_at ?t' it xs ys"
        using bi pos sz cnt xs ys True by (simp add: iter_at_def)
      ultimately show ?thesis using cut ne by auto
    next
      case False
      then have d: "drop (it_pos it + 1) ?b = []" by simp
      with ys ne have c: "concat (drop (it_bi it + 1) (buckets ?t')) \<noteq> []" by simp
      from iter_next_bucket_spec [OF c] obtain bi' where bi':
        "iter_next_bucket (buckets ?t') (it_bi it + 1) = Some bi'" "bi' < length (buckets ?t')"
        "buckets ?t' ! bi' \<noteq> []" "concat (drop (it_bi it + 1) (buckets ?t')) = concat (drop bi' (buckets ?t'))"
        "concat (take bi' (buckets ?t')) = concat (take (it_bi it + 1) (buckets ?t'))" by blast
      let ?it = "\<lparr>it_bi = bi', it_cnt = it_cnt it, it_pos = 0\<rparr>"
      have "htbl_iter_del t it = Some (Some (iter_obj ?t' ?it, ?it), ?t')"
        using gt False d bi'(1) by (simp add: htbl_iter_del_def Let_def)
      moreover have "iter_at ?t' ?it xs ys"
      proof (rule iter_at_bucket [OF bi'(2,3)])
        show "xs = concat (take bi' (buckets ?t'))"
          using bi'(5) xs bi d by (simp add: take_Suc_conv_app_nth)
        show "ys = concat (drop bi' (buckets ?t'))" using bi'(4) ys d by simp
      qed (use sz cnt in simp_all)
      ultimately show ?thesis using cut ne by auto
    qed
  qed
qed

text \<open>The loop over a table, \<^verbatim>\<open>for (o = first; o != NULL; o = next)\<close>, with a bound on its rounds.\<close>

fun iter_loop :: "('k, 'o) htbl \<Rightarrow> nat \<Rightarrow> ('o \<times> htbl_iter) option \<Rightarrow> 'o list option" where
  "iter_loop t n None = Some []"
| "iter_loop t 0 (Some c) = None"
| "iter_loop t (Suc n) (Some (ob, it)) =
     do { r \<leftarrow> htbl_iter_next t it; v \<leftarrow> iter_loop t n r; Some (ob # v) }"

definition htbl_iterate :: "('k, 'o) htbl \<Rightarrow> 'o list option" where
  "htbl_iterate t = do { r \<leftarrow> htbl_iter_first t; iter_loop t (tsize t) r }"

lemma iter_loop_spec:
  "iter_at t it xs ys \<Longrightarrow> length ys \<le> n \<Longrightarrow> iter_loop t n (Some (iter_obj t it, it)) = Some ys"
proof (induction ys arbitrary: it xs n)
  case Nil
  then show ?case using iter_at_obj by fastforce
next
  case (Cons y ys)
  from iter_at_obj [OF Cons.prems(1)] have y: "iter_obj t it = y" by simp
  from Cons.prems(2) obtain m where n: "n = Suc m" "length ys \<le> m" by (cases n) auto
  note nx = htbl_iter_next_spec [OF Cons.prems(1)]
  show ?case
  proof (cases "ys = []")
    case True
    with nx y n show ?thesis by simp
  next
    case False
    with nx obtain it' where "htbl_iter_next t it = Some (Some (iter_obj t it', it'))"
      "iter_at t it' (xs @ [y]) ys" by auto
    with Cons.IH [OF this(2) n(2)] y n show ?thesis by simp
  qed
qed

lemma htbl_iterate_all: "htbl_wf kp t \<Longrightarrow> htbl_iterate t = Some (all_objs t)"
  using htbl_iter_first_spec [of kp t] iter_loop_spec [of t _ "[]" "all_objs t" "tsize t"]
  by (auto simp: htbl_iterate_def htbl_wf_chains split: if_splits)

lemma fillv_loop_spec:
  "bi < length bs \<Longrightarrow> n \<le> length (ch @ concat (drop (bi + 1) bs)) \<Longrightarrow>
     fillv_loop bs n bi ch = Some (take n (ch @ concat (drop (bi + 1) bs)))"
proof (induction bs n bi ch rule: fillv_loop.induct)
  case (1 bs n bi ch)
  show ?case
  proof (cases "n = 0 \<or> ch \<noteq> []")
    case True
    with 1 show ?thesis by (subst fillv_loop.simps) (cases n; auto split: list.splits)
  next
    case False
    with "1.prems" have bi: "bi + 1 < length bs" by (rule_tac ccontr) auto
    then have "concat (drop (bi + 1) bs) = bs ! (bi + 1) @ concat (drop (bi + 1 + 1) bs)"
      by (simp add: drop_nth_Cons)
    with False bi "1.IH"(1) "1.prems" show ?thesis by (subst fillv_loop.simps) auto
  qed
qed

lemma htbl_fillv_all: "htbl_wf kp t \<Longrightarrow> htbl_fillv t = Some (all_objs t)"
proof -
  assume wf: "htbl_wf kp t"
  then obtain b bs where b: "buckets t = b # bs" by (cases "buckets t") (auto simp: htbl_wf_def)
  with wf show ?thesis using fillv_loop_spec [of 0 "buckets t" "tsize t" b]
    by (simp add: htbl_fillv_def htbl_wf_def all_objs_def)
qed

section \<open>Properties\<close>

text \<open>C27. A hash table whose keys are distinct is a finite map: a lookup after an insertion and after a
  removal is the update of the map, through any growth of the table, and both keep the table
  well formed and its keys distinct.\<close>

theorem htbl_is_finite_map:
  assumes "htbl_wf kp t" "ht.unique t" "htbl_find t (kp x) = None" "htbl_remove t k = (r, t')"
  shows "htbl_find (htbl_insert ok t x) = (htbl_find t)(kp x \<mapsto> x) \<and>
    htbl_wf kp (htbl_insert ok t x) \<and> ht.unique (htbl_insert ok t x) \<and>
    r = htbl_find t k \<and> htbl_find t' = (htbl_find t)(k := None) \<and> htbl_wf kp t' \<and> ht.unique t'"
  using ht.ins_upd [OF assms(1)] ht.ins_inv [OF assms(1)] ht.unique_ins [OF assms(1-3)]
    ht.rem_upd [OF assms(1,2,4)] ht.rem_res [OF assms(1,4)] ht.rem_inv [OF assms(1,4)]
    ht.unique_rem [OF assms(1,2,4)]
  by simp

text \<open>A table with one bucket holding the object 5, keyed by its remainder modulo 4.\<close>

definition sample_htbl :: "(nat, nat) htbl" where
  "sample_htbl = \<lparr>eq = (=), hash = of_nat, keyp = (\<lambda>n. n mod 4), buckets = [[5]], tsize = 1, ratio = 1\<rparr>"

lemma sample_htbl_wf: "htbl_wf (\<lambda>n. n mod 4) sample_htbl" "ht.unique sample_htbl"
  by (auto simp: htbl_wf_def sample_htbl_def bucket_of_def ht.unique_def objs_def)

theorem htbl_is_finite_map_witness:
  "htbl_find (htbl_insert True sample_htbl 6) = (htbl_find sample_htbl)(6 mod 4 \<mapsto> 6) \<and>
    htbl_wf (\<lambda>n. n mod 4) (htbl_insert True sample_htbl 6) \<and> ht.unique (htbl_insert True sample_htbl 6) \<and>
    Some 5 = htbl_find sample_htbl 1 \<and>
    htbl_find (sample_htbl\<lparr>buckets := [[]], tsize := 0\<rparr>) = (htbl_find sample_htbl)(1 := None) \<and>
    htbl_wf (\<lambda>n. n mod 4) (sample_htbl\<lparr>buckets := [[]], tsize := 0\<rparr>) \<and>
    ht.unique (sample_htbl\<lparr>buckets := [[]], tsize := 0\<rparr>)"
  by (rule htbl_is_finite_map [OF sample_htbl_wf])
    (simp_all add: sample_htbl_def htbl_find_def htbl_remove_def bucket_of_def)

text \<open>C37. Iterating over a table, and filling a vector from it, visits every object exactly once, in
  bucket order, ends, and never reads past the last bucket.\<close>

theorem htbl_iteration_visits_all:
  assumes "htbl_wf kp t"
  shows "htbl_iterate t = Some (all_objs t) \<and> htbl_fillv t = Some (all_objs t)"
  using htbl_iterate_all [OF assms] htbl_fillv_all [OF assms] by simp

theorem htbl_iteration_visits_all_witness:
  "htbl_iterate sample_htbl = Some (all_objs sample_htbl) \<and> htbl_fillv sample_htbl = Some (all_objs sample_htbl)"
  by (rule htbl_iteration_visits_all [OF sample_htbl_wf(1)])

text \<open>C36. Deleting through an iterator removes exactly the object under it, keeps the table well
  formed, and leaves the iterator on the object that followed.\<close>

theorem htbl_iter_del_removes_current:
  assumes "htbl_wf kp t" "iter_at t it xs (y # ys)"
  shows "\<exists>res t'. htbl_iter_del t it = Some (res, t') \<and> htbl_wf kp t' \<and> all_objs t' = xs @ ys \<and>
    (if ys = [] then res = None else \<exists>it'. res = Some (iter_obj t' it', it') \<and> iter_at t' it' xs ys)"
  by (rule htbl_iter_del_spec [OF assms(2,1)])

theorem htbl_iter_del_removes_current_witness:
  "\<exists>res t'. htbl_iter_del sample_htbl \<lparr>it_bi = 0, it_cnt = 1, it_pos = 0\<rparr> = Some (res, t') \<and>
    htbl_wf (\<lambda>n. n mod 4) t' \<and> all_objs t' = [] @ [] \<and>
    (if [] = ([] :: nat list) then res = None else \<exists>it'. res = Some (iter_obj t' it', it') \<and> iter_at t' it' [] [])"
  by (rule htbl_iter_del_removes_current [OF sample_htbl_wf(1), of _ _ 5])
    (simp add: iter_at_def sample_htbl_def)

text \<open>The vector of \<^verbatim>\<open>_htbl_tov\<close> is too small for a table of two objects.\<close>

lemma htbl_tov_overflows:
  "htbl_tov True (htbl_insert True sample_htbl 6) = None"
proof -
  have "htbl_wf (\<lambda>n. n mod 4) (htbl_insert True sample_htbl 6)" by (rule ht.ins_inv [OF sample_htbl_wf(1)])
  then have "htbl_fillv (htbl_insert True sample_htbl 6) = Some (all_objs (htbl_insert True sample_htbl 6))"
    by (rule htbl_fillv_all)
  moreover have "length (all_objs (htbl_insert True sample_htbl 6)) = 2"
  proof -
    have "mset (all_objs (htbl_insert True sample_htbl 6)) = {#6, 5#}"
      using htbl_insert_spec [OF sample_htbl_wf(1), of True 6] by (simp add: all_objs_def sample_htbl_def)
    then show ?thesis by (metis size_mset size_add_mset size_empty One_nat_def numeral_2_eq_2)
  qed
  ultimately show ?thesis by (simp add: htbl_tov_def)
qed

end
