(* ===== verification/Timeheap.thy ===== *)
theory Timeheap
  imports Prelude
begin

text \<open>
  \<^verbatim>\<open>evloop/timeheap.c\<close>: the binary heap of pending timers. An entry points to the handle of its
  owner and the handle holds the index of the entry, so entries can be moved and removed from the
  middle. The entries in use are the list \<open>heap\<close> (\<^verbatim>\<open>heap_use\<close> is its length); \<open>hidx\<close> is the field
  \<^verbatim>\<open>i\<close> of every handle.
\<close>

section \<open>Times\<close>

datatype timespec = TS (tv_sec: int) (tv_nsec: int)

definition cmptime_lt :: "timespec \<Rightarrow> timespec \<Rightarrow> bool" where
  "cmptime_lt a b =
     (if tv_sec a = tv_sec b then tv_nsec a < tv_nsec b else tv_sec a < tv_sec b)"

text \<open>The comparison of the code is a linear order, which makes the library's order lemmas apply.\<close>

instantiation timespec :: linorder
begin

definition less_timespec_def: "(a :: timespec) < b \<longleftrightarrow> cmptime_lt a b"

definition less_eq_timespec_def: "(a :: timespec) \<le> b \<longleftrightarrow> a = b \<or> cmptime_lt a b"

instance
  by standard (auto simp: less_timespec_def less_eq_timespec_def cmptime_lt_def timespec.expand split: if_splits)

end

section \<open>Heap operations\<close>

record 'h th_entry =
  te_t :: timespec
  te_h :: 'h

type_synonym 'h th_core = "'h th_entry list \<times> ('h \<Rightarrow> int)"

record 'h theap =
  heap :: "'h th_entry list"
  heap_cap :: nat
  hidx :: "'h \<Rightarrow> int"

definition cmpentry_lt :: "'h th_entry list \<Rightarrow> nat \<Rightarrow> nat \<Rightarrow> bool" where
  "cmpentry_lt es a b = cmptime_lt (te_t (es ! a)) (te_t (es ! b))"

definition swap_entries :: "'h th_core \<Rightarrow> nat \<Rightarrow> nat \<Rightarrow> 'h th_core" where
  "swap_entries c i j = (case c of (es, ix) \<Rightarrow>
     (es[i := es ! j, j := es ! i], ix(te_h (es ! j) := int i, te_h (es ! i) := int j)))"

fun bubble_up :: "'h th_core \<Rightarrow> nat \<Rightarrow> 'h th_core" where
  "bubble_up c 0 = c"
| "bubble_up c (Suc k) =
     (let p = k div 2 in
      if cmpentry_lt (fst c) (Suc k) p then bubble_up (swap_entries c (Suc k) p) p else c)"

function bubble_down :: "'h th_core \<Rightarrow> nat \<Rightarrow> 'h th_core" where
  "bubble_down c i =
     (let li = 2 * i + 1; ri = 2 * i + 2; n = length (fst c) in
      if ri < n
      then (let ci = (if cmpentry_lt (fst c) li ri then li else ri) in
            if cmpentry_lt (fst c) ci i then bubble_down (swap_entries c i ci) ci else c)
      else if li < n
      then (if cmpentry_lt (fst c) li i then bubble_down (swap_entries c i li) li else c)
      else c)"
  by pat_completeness auto
termination
  by (relation "measure (\<lambda>(c, i). length (fst c) - i)")
    (auto simp: swap_entries_def split: prod.splits)

declare bubble_down.simps [simp del]

definition timeheap_init :: "bool \<Rightarrow> ('h \<Rightarrow> int) \<Rightarrow> 'h theap option" where
  "timeheap_init ok ix = (if ok then Some \<lparr>heap = [], heap_cap = 10, hidx = ix\<rparr> else None)"

definition timeheap_size :: "'h theap \<Rightarrow> nat" where
  "timeheap_size st = length (heap st)"

definition put_core :: "'h theap \<Rightarrow> 'h th_core \<Rightarrow> 'h theap" where
  "put_core st c = st\<lparr>heap := fst c, hidx := snd c\<rparr>"

text \<open>\<open>ok\<close> is the answer of \<^verbatim>\<open>realloc\<close>; the result \<open>False\<close> is -1.\<close>

definition timeheap_insert :: "bool \<Rightarrow> 'h theap \<Rightarrow> 'h \<Rightarrow> timespec \<Rightarrow> bool \<times> 'h theap" where
  "timeheap_insert ok st h t =
     (if length (heap st) = heap_cap st \<and> \<not> ok then (False, st)
      else let st1 = (if length (heap st) = heap_cap st then st\<lparr>heap_cap := heap_cap st * 2\<rparr> else st);
               n = length (heap st)
           in (True, put_core st1 (bubble_up (heap st @ [\<lparr>te_t = t, te_h = h\<rparr>], (hidx st)(h := int n)) n)))"

text \<open>\<open>idx\<close> is the field \<^verbatim>\<open>i\<close> of the handle given, which for \<^verbatim>\<open>timeheap_remove_top\<close> is a local one.\<close>

definition timeheap_remove_idx :: "'h theap \<Rightarrow> int \<Rightarrow> 'h theap option" where
  "timeheap_remove_idx st idx =
     do {
       guard_opt (idx \<ge> 0 \<and> idx < int (length (heap st)));
       let n = length (heap st) - 1;
       let es = heap st;
       if n > 0 then do {
         let i = nat idx;
         let earlier = cmpentry_lt es n i;
         let c = (take n (es[i := es ! n]), (hidx st)(te_h (es ! n) := int i));
         Some (put_core st (if earlier then bubble_up c i else bubble_down c i)) }
       else Some (st\<lparr>heap := take n es\<rparr>) }"

definition timeheap_remove :: "'h theap \<Rightarrow> 'h \<Rightarrow> 'h theap option" where
  "timeheap_remove st h = timeheap_remove_idx st (hidx st h)"

definition timeheap_change :: "'h theap \<Rightarrow> 'h \<Rightarrow> timespec \<Rightarrow> 'h theap option" where
  "timeheap_change st h t =
     do {
       guard_opt (hidx st h \<ge> 0 \<and> hidx st h < int (length (heap st)));
       let i = nat (hidx st h);
       let earlier = cmptime_lt t (te_t (heap st ! i));
       let c = ((heap st)[i := (heap st ! i)\<lparr>te_t := t\<rparr>], hidx st);
       Some (put_core st (if earlier then bubble_up c i else bubble_down c i)) }"

text \<open>Reading entry 0 of an empty heap is undefined.\<close>

definition timeheap_top :: "'h theap \<Rightarrow> timespec option" where
  "timeheap_top st = do { guard_opt (heap st \<noteq> []); Some (te_t (heap st ! 0)) }"

definition timeheap_remove_top :: "'h theap \<Rightarrow> ('h \<times> 'h theap) option" where
  "timeheap_remove_top st =
     do { guard_opt (heap st \<noteq> []); st' \<leftarrow> timeheap_remove_idx st 0; Some (te_h (heap st ! 0), st') }"

section \<open>Invariants\<close>

abbreviation tkey :: "'h th_entry list \<Rightarrow> nat \<Rightarrow> timespec" where
  "tkey es k \<equiv> te_t (es ! k)"

definition parent :: "nat \<Rightarrow> nat" where
  "parent j = (j - 1) div 2"

lemma parent_Suc [simp]: "parent (Suc k) = k div 2"
  by (simp add: parent_def)

lemma parent_less: "0 < j \<Longrightarrow> parent j < j"
  by (auto simp: parent_def)

lemma children: "0 < j \<Longrightarrow> parent j = i \<longleftrightarrow> j = 2 * i + 1 \<or> j = 2 * i + 2"
  unfolding parent_def by presburger

definition heap_ok :: "'h th_entry list \<Rightarrow> bool" where
  "heap_ok es \<longleftrightarrow> (\<forall>j. 0 < j \<longrightarrow> j < length es \<longrightarrow> tkey es (parent j) \<le> tkey es j)"

definition idx_ok :: "'h th_core \<Rightarrow> bool" where
  "idx_ok c \<longleftrightarrow> (\<forall>k < length (fst c). snd c (te_h (fst c ! k)) = int k)"

text \<open>A heap in which only the entry at \<open>i\<close> may be too small for its parent, or too big for its children.\<close>

definition heap_but_up :: "'h th_entry list \<Rightarrow> nat \<Rightarrow> bool" where
  "heap_but_up es i \<longleftrightarrow>
     (\<forall>j. 0 < j \<longrightarrow> j < length es \<longrightarrow> j \<noteq> i \<longrightarrow> tkey es (parent j) \<le> tkey es j) \<and>
     (\<forall>j. 0 < j \<longrightarrow> j < length es \<longrightarrow> parent j = i \<longrightarrow> 0 < i \<longrightarrow> tkey es (parent i) \<le> tkey es j)"

definition heap_but_down :: "'h th_entry list \<Rightarrow> nat \<Rightarrow> bool" where
  "heap_but_down es i \<longleftrightarrow>
     (\<forall>j. 0 < j \<longrightarrow> j < length es \<longrightarrow> parent j \<noteq> i \<longrightarrow> tkey es (parent j) \<le> tkey es j) \<and>
     (\<forall>j. 0 < j \<longrightarrow> j < length es \<longrightarrow> parent j = i \<longrightarrow> 0 < i \<longrightarrow> tkey es (parent i) \<le> tkey es j)"

lemma heap_okD: "heap_ok es \<Longrightarrow> 0 < j \<Longrightarrow> j < length es \<Longrightarrow> tkey es (parent j) \<le> tkey es j"
  by (simp add: heap_ok_def)

lemma heap_root_least: "heap_ok es \<Longrightarrow> k < length es \<Longrightarrow> tkey es 0 \<le> tkey es k"
proof (induction k rule: less_induct)
  case (less k)
  show ?case
  proof (cases "k = 0")
    case False
    then have "parent k < k" by (simp add: parent_less)
    with less False have "tkey es 0 \<le> tkey es (parent k)" by simp
    also have "\<dots> \<le> tkey es k" using less.prems False heap_okD [of es k] by simp
    finally show ?thesis .
  qed simp
qed

lemma cmpentry_less: "cmpentry_lt es a b \<longleftrightarrow> tkey es a < tkey es b"
  by (simp add: cmpentry_lt_def less_timespec_def)

lemma swap_core:
  assumes "i < length (fst c)" "j < length (fst c)"
  shows "length (fst (swap_entries c i j)) = length (fst c)"
    and "mset (fst (swap_entries c i j)) = mset (fst c)"
    and "idx_ok c \<Longrightarrow> idx_ok (swap_entries c i j)"
    and "k < length (fst c) \<Longrightarrow> fst (swap_entries c i j) ! k =
      (if k = j then fst c ! i else if k = i then fst c ! j else fst c ! k)"
proof -
  obtain es ix where c: "c = (es, ix)" by force
  show "length (fst (swap_entries c i j)) = length (fst c)"
    "mset (fst (swap_entries c i j)) = mset (fst c)"
    "k < length (fst c) \<Longrightarrow> fst (swap_entries c i j) ! k =
      (if k = j then fst c ! i else if k = i then fst c ! j else fst c ! k)"
    using assms c by (simp_all add: swap_entries_def mset_swap nth_list_update)
  assume ok: "idx_ok c"
  have inj: "te_h (es ! a) = te_h (es ! b) \<longleftrightarrow> a = b" if "a < length es" "b < length es" for a b
    using ok that by (auto simp: idx_ok_def c) (metis of_nat_eq_iff)
  show "idx_ok (swap_entries c i j)"
    using ok assms by (auto simp: idx_ok_def c swap_entries_def nth_list_update inj)
qed

lemma bubble_up_core:
  "i < length (fst c) \<Longrightarrow> idx_ok c \<Longrightarrow>
     length (fst (bubble_up c i)) = length (fst c) \<and> mset (fst (bubble_up c i)) = mset (fst c) \<and>
     idx_ok (bubble_up c i)"
proof (induction c i rule: bubble_up.induct)
  case (2 c k)
  let ?p = "k div 2"
  have "?p < length (fst c)" using "2.prems"(1) by simp
  note sw = swap_core [OF "2.prems"(1) this]
  show ?case
    using "2.IH" [OF refl] "2.prems" sw(1,2) sw(3) [OF "2.prems"(2)] by (simp add: Let_def)
qed simp

lemma bubble_down_core:
  "i < length (fst c) \<Longrightarrow> idx_ok c \<Longrightarrow>
     length (fst (bubble_down c i)) = length (fst c) \<and> mset (fst (bubble_down c i)) = mset (fst c) \<and>
     idx_ok (bubble_down c i)"
proof (induction c i rule: bubble_down.induct)
  case (1 c i)
  have sw: "length (fst (swap_entries c i ci)) = length (fst c) \<and> mset (fst (swap_entries c i ci)) = mset (fst c)
      \<and> idx_ok (swap_entries c i ci)" if "ci < length (fst c)" for ci
    using swap_core [OF "1.prems"(1) that] "1.prems"(2) by simp
  show ?case
    using "1.IH"(1) [OF refl refl refl _ refl] "1.IH"(2) [OF refl refl refl] "1.prems" sw
    by (subst (1 2 3) bubble_down.simps) (auto simp: Let_def)
qed

text \<open>The handles outside the heap keep their index.\<close>

lemma bubble_up_other: "h \<notin> te_h ` set (fst c) \<Longrightarrow> i < length (fst c) \<Longrightarrow> snd (bubble_up c i) h = snd c h"
proof (induction c i rule: bubble_up.induct)
  case (2 c k)
  let ?p = "k div 2"
  have p: "?p < length (fst c)" using "2.prems"(2) by simp
  note sw = swap_core [OF "2.prems"(2) p]
  have "set (fst (swap_entries c (Suc k) ?p)) = set (fst c)" using sw(2) by (rule mset_eq_setD)
  moreover have "snd (swap_entries c (Suc k) ?p) h = snd c h"
    using 2 p by (auto simp: swap_entries_def split: prod.splits)
  ultimately show ?case using 2 sw(1) p by (simp add: Let_def)
qed simp

lemma bubble_down_other: "h \<notin> te_h ` set (fst c) \<Longrightarrow> i < length (fst c) \<Longrightarrow> snd (bubble_down c i) h = snd c h"
proof (induction c i rule: bubble_down.induct)
  case (1 c i)
  have sw: "set (fst (swap_entries c i ci)) = set (fst c) \<and> length (fst (swap_entries c i ci)) = length (fst c) \<and>
    snd (swap_entries c i ci) h = snd c h" if "ci < length (fst c)" for ci
    using swap_core(1) [OF "1.prems"(2) that] mset_eq_setD [OF swap_core(2) [OF "1.prems"(2) that]] "1.prems" that
    by (auto simp: swap_entries_def split: prod.splits)
  show ?case
    using "1.IH"(1) [OF refl refl refl _ refl] "1.IH"(2) [OF refl refl refl] "1.prems" sw
    by (subst bubble_down.simps) (auto simp: Let_def)
qed

lemma heap_but_up_swap:
  assumes h: "heap_but_up (fst c) (Suc k)" and k: "Suc k < length (fst c)"
    and lt: "tkey (fst c) (Suc k) < tkey (fst c) (k div 2)"
  shows "heap_but_up (fst (swap_entries c (Suc k) (k div 2))) (k div 2)"
proof -
  let ?p = "k div 2" and ?es = "fst c" and ?es' = "fst (swap_entries c (Suc k) (k div 2))"
  have p: "?p < length ?es" "?p \<noteq> Suc k" using k by simp_all
  note sw = swap_core [OF k p(1)]
  have nth: "tkey ?es' j = (if j = ?p then tkey ?es (Suc k) else if j = Suc k then tkey ?es ?p else tkey ?es j)"
    if "j < length ?es" for j using sw(4) [OF that] by simp
  have par: "tkey ?es (parent j) \<le> tkey ?es j" if "0 < j" "j < length ?es" "j \<noteq> Suc k" for j
    using h that by (simp add: heap_but_up_def)
  have child: "tkey ?es ?p \<le> tkey ?es j" if "0 < j" "j < length ?es" "parent j = Suc k" for j
    using h that by (simp add: heap_but_up_def)
  have "tkey ?es' (parent j) \<le> tkey ?es' j" if j: "0 < j" "j < length ?es" "j \<noteq> ?p" for j
  proof -
    have jp: "parent j < length ?es" using parent_less [OF j(1)] j(2) by simp
    consider "j = Suc k" | "j \<noteq> Suc k" "parent j = Suc k" | "j \<noteq> Suc k" "parent j = ?p"
      | "j \<noteq> Suc k" "parent j \<noteq> Suc k" "parent j \<noteq> ?p" by blast
    then show ?thesis
    proof cases
      case 1 then show ?thesis using nth [OF k] nth [OF p(1)] lt p(2) by simp
    next
      case 2 then show ?thesis using nth [OF j(2)] nth [OF jp] child [OF j(1,2)] j(3) p(2) by simp
    next
      case 3 then show ?thesis using nth [OF j(2)] nth [OF jp] par [OF j(1,2)] j(3) lt by simp
    next
      case 4 then show ?thesis using nth [OF j(2)] nth [OF jp] par [OF j(1,2)] j(3) by simp
    qed
  qed
  moreover have "tkey ?es' (parent ?p) \<le> tkey ?es' j"
    if j: "0 < j" "j < length ?es" "parent j = ?p" "0 < ?p" for j
  proof -
    have pp: "parent ?p < ?p" using parent_less [OF j(4)] .
    with p have ppl: "parent ?p < length ?es" "parent ?p \<noteq> ?p" "parent ?p \<noteq> Suc k" by auto
    have up: "tkey ?es (parent ?p) \<le> tkey ?es ?p" using par [OF j(4) p(1,2)] .
    have "j \<noteq> ?p" using parent_less [OF j(1)] j(3) by auto
    have n1: "tkey ?es' (parent ?p) = tkey ?es (parent ?p)" using nth [OF ppl(1)] ppl(2,3) by (simp only: if_False)
    show ?thesis
    proof (cases "j = Suc k")
      case True
      with nth [OF j(2)] \<open>j \<noteq> ?p\<close> have "tkey ?es' j = tkey ?es ?p" by simp
      with n1 up show ?thesis by (simp only:)
    next
      case False
      with nth [OF j(2)] \<open>j \<noteq> ?p\<close> have "tkey ?es' j = tkey ?es j" by (simp only: if_False)
      moreover have "tkey ?es ?p \<le> tkey ?es j" using par [OF j(1,2) False] unfolding j(3) .
      ultimately show ?thesis using n1 order_trans [OF up] by simp
    qed
  qed
  ultimately show ?thesis by (simp add: heap_but_up_def sw(1))
qed

lemma heap_but_up_done:
  assumes "heap_but_up es i" "i = 0 \<or> tkey es (parent i) \<le> tkey es i"
  shows "heap_ok es"
  unfolding heap_ok_def
proof (intro allI impI)
  fix j assume "0 < j" "j < length es"
  with assms show "tkey es (parent j) \<le> tkey es j" by (cases "j = i") (auto simp: heap_but_up_def)
qed

lemma bubble_up_heap:
  "i < length (fst c) \<Longrightarrow> heap_but_up (fst c) i \<Longrightarrow> heap_ok (fst (bubble_up c i))"
proof (induction c i rule: bubble_up.induct)
  case (1 c)
  then show ?case by (simp add: heap_but_up_done)
next
  case (2 c k)
  let ?p = "k div 2"
  have p: "?p < length (fst c)" using "2.prems"(1) by simp
  show ?case
  proof (cases "cmpentry_lt (fst c) (Suc k) ?p")
    case True
    then have "heap_but_up (fst (swap_entries c (Suc k) ?p)) ?p"
      using heap_but_up_swap [OF "2.prems"(2,1)] by (simp add: cmpentry_less)
    with "2.IH" [OF refl] True p swap_core(1) [OF "2.prems"(1) p] show ?thesis by (simp add: Let_def)
  next
    case False
    then have "tkey (fst c) (parent (Suc k)) \<le> tkey (fst c) (Suc k)" by (simp add: cmpentry_less)
    with heap_but_up_done [OF "2.prems"(2)] False show ?thesis by (simp add: Let_def)
  qed
qed

lemma heap_but_down_swap:
  assumes h: "heap_but_down (fst c) i" and i: "i < length (fst c)" and ci: "ci < length (fst c)" "0 < ci"
    "parent ci = i" and lt: "tkey (fst c) ci < tkey (fst c) i"
    and least: "\<forall>j. 0 < j \<longrightarrow> j < length (fst c) \<longrightarrow> parent j = i \<longrightarrow> tkey (fst c) ci \<le> tkey (fst c) j"
  shows "heap_but_down (fst (swap_entries c i ci)) ci"
proof -
  let ?es = "fst c" and ?es' = "fst (swap_entries c i ci)"
  note sw = swap_core [OF i ci(1)]
  have ne: "ci \<noteq> i" using parent_less [OF ci(2)] ci(3) by auto
  have nth: "tkey ?es' j = (if j = ci then tkey ?es i else if j = i then tkey ?es ci else tkey ?es j)"
    if "j < length ?es" for j using sw(4) [OF that] by simp
  have par: "tkey ?es (parent j) \<le> tkey ?es j" if "0 < j" "j < length ?es" "parent j \<noteq> i" for j
    using h that by (simp add: heap_but_down_def)
  have child: "tkey ?es (parent i) \<le> tkey ?es j" if "0 < j" "j < length ?es" "parent j = i" "0 < i" for j
    using h that by (simp add: heap_but_down_def)
  have "tkey ?es' (parent j) \<le> tkey ?es' j" if j: "0 < j" "j < length ?es" "parent j \<noteq> ci" for j
  proof -
    have jp: "parent j < length ?es" "parent j \<noteq> j" using parent_less [OF j(1)] j(2) by auto
    consider "parent j = i" | "parent j \<noteq> i" "j = i" | "parent j \<noteq> i" "j \<noteq> i" by blast
    then show ?thesis
    proof cases
      case 1 then show ?thesis
        using nth [OF j(2)] nth [OF jp(1)] least j ne lt jp(2) by auto
    next
      case 2
      then have "tkey ?es (parent j) \<le> tkey ?es ci" using child [OF ci(2,1,3)] j(1) by simp
      then show ?thesis using 2 nth [OF j(2)] nth [OF jp(1)] j(3) ne by simp
    next
      case 3
      then have "j \<noteq> ci" using ci(3) by auto
      then show ?thesis using 3 nth [OF j(2)] nth [OF jp(1)] par [OF j(1,2)] j(3) by simp
    qed
  qed
  moreover have "tkey ?es' (parent ci) \<le> tkey ?es' j"
    if j: "0 < j" "j < length ?es" "parent j = ci" for j
  proof -
    have "j \<noteq> i" "j \<noteq> ci" using parent_less [OF j(1)] parent_less [OF ci(2)] j(3) ci(3) by auto
    then show ?thesis using nth [OF j(2)] nth [OF i] par [OF j(1,2)] j(3) ci(3) ne by simp
  qed
  ultimately show ?thesis by (simp add: heap_but_down_def sw(1))
qed

lemma heap_but_down_done:
  assumes "heap_but_down es i" "\<forall>j. 0 < j \<longrightarrow> j < length es \<longrightarrow> parent j = i \<longrightarrow> tkey es i \<le> tkey es j"
  shows "heap_ok es"
  using assms unfolding heap_but_down_def heap_ok_def by metis

lemma bubble_down_heap:
  "i < length (fst c) \<Longrightarrow> heap_but_down (fst c) i \<Longrightarrow> heap_ok (fst (bubble_down c i))"
proof (induction c i rule: bubble_down.induct)
  case (1 c i)
  let ?n = "length (fst c)" and ?li = "2 * i + 1" and ?ri = "2 * i + 2"
  note i = "1.prems"(1) and h = "1.prems"(2)
  have li: "0 < ?li" "parent ?li = i" and ri: "0 < ?ri" "parent ?ri = i" by simp_all
  show ?case
  proof (cases "?ri < ?n")
    case True
    define ci where "ci = (if cmpentry_lt (fst c) ?li ?ri then ?li else ?ri)"
    have ci: "ci < ?n" "0 < ci" "parent ci = i" using True by (auto simp: ci_def)
    have least: "\<forall>j. 0 < j \<longrightarrow> j < ?n \<longrightarrow> parent j = i \<longrightarrow> tkey (fst c) ci \<le> tkey (fst c) j"
    proof (intro allI impI)
      fix j assume "0 < j" "j < ?n" "parent j = i"
      then have "j = ?li \<or> j = ?ri" by (simp add: children)
      then show "tkey (fst c) ci \<le> tkey (fst c) j" by (auto simp: ci_def cmpentry_less)
    qed
    show ?thesis
    proof (cases "cmpentry_lt (fst c) ci i")
      case lt: True
      have "heap_but_down (fst (swap_entries c i ci)) ci"
        by (rule heap_but_down_swap [OF h i ci _ least]) (use lt in \<open>simp add: cmpentry_less\<close>)
      then have "heap_ok (fst (bubble_down (swap_entries c i ci) ci))"
        using "1.IH"(1) [OF refl refl refl True ci_def lt] swap_core(1) [OF i ci(1)] ci(1) by simp
      then show ?thesis using True lt by (subst bubble_down.simps) (simp add: Let_def ci_def split: if_splits)
    next
      case False
      then have "tkey (fst c) i \<le> tkey (fst c) ci" by (simp add: cmpentry_less)
      with least have "\<forall>j. 0 < j \<longrightarrow> j < ?n \<longrightarrow> parent j = i \<longrightarrow> tkey (fst c) i \<le> tkey (fst c) j"
        using order_trans by blast
      then have "heap_ok (fst c)" by (rule heap_but_down_done [OF h])
      then show ?thesis using True False by (subst bubble_down.simps) (simp add: Let_def ci_def split: if_splits)
    qed
  next
    case nri: False
    show ?thesis
    proof (cases "?li < ?n \<and> cmpentry_lt (fst c) ?li i")
      case True
      have "heap_but_down (fst (swap_entries c i ?li)) ?li"
        by (rule heap_but_down_swap [OF h i _ li]) (use True nri in \<open>auto simp: cmpentry_less children\<close>)
      then have "heap_ok (fst (bubble_down (swap_entries c i ?li) ?li))"
        using "1.IH"(2) [OF refl refl refl nri] True swap_core(1) [OF i, of ?li] by simp
      then show ?thesis using True nri by (subst bubble_down.simps) (simp add: Let_def)
    next
      case False
      have "heap_ok (fst c)"
        by (rule heap_but_down_done [OF h]) (use False nri in \<open>auto simp: cmpentry_less children\<close>)
      then show ?thesis using False nri by (subst bubble_down.simps) (auto simp: Let_def)
    qed
  qed
qed

section \<open>The operations\<close>

definition theap_wf :: "'h theap \<Rightarrow> bool" where
  "theap_wf st \<longleftrightarrow> heap_ok (heap st) \<and> idx_ok (heap st, hidx st) \<and>
     length (heap st) \<le> heap_cap st \<and> 0 < heap_cap st"

text \<open>The abstraction: which handle expires when.\<close>

definition timers :: "'h theap \<Rightarrow> 'h \<Rightarrow> timespec option" where
  "timers st = map_of (map (\<lambda>e. (te_h e, te_t e)) (heap st))"

lemma entry_eta [simp]: "\<lparr>te_t = te_t x, te_h = te_h x\<rparr> = (x :: 'h th_entry)"
  by (cases x) simp

lemma idx_ok_inj: "idx_ok c \<Longrightarrow> a < length (fst c) \<Longrightarrow> b < length (fst c) \<Longrightarrow>
    te_h (fst c ! a) = te_h (fst c ! b) \<Longrightarrow> a = b"
  unfolding idx_ok_def by (metis of_nat_eq_iff)

lemma idx_ok_distinct: "idx_ok c \<Longrightarrow> distinct (map te_h (fst c))"
  unfolding distinct_conv_nth by (auto dest: idx_ok_inj)

lemma timers_iff:
  assumes "idx_ok (heap st, hidx st)"
  shows "timers st h = Some t \<longleftrightarrow> \<lparr>te_t = t, te_h = h\<rparr> \<in> set (heap st)"
proof -
  have "distinct (map fst (map (\<lambda>e. (te_h e, te_t e)) (heap st)))"
    using idx_ok_distinct [OF assms] by (simp add: comp_def)
  then have "timers st h = Some t \<longleftrightarrow> (h, t) \<in> set (map (\<lambda>e. (te_h e, te_t e)) (heap st))"
    unfolding timers_def by (rule map_of_eq_Some_iff)
  also have "(h, t) \<in> set (map (\<lambda>e. (te_h e, te_t e)) (heap st)) \<longleftrightarrow> \<lparr>te_t = t, te_h = h\<rparr> \<in> set (heap st)"
    by (auto simp: image_iff intro: bexI [of _ "\<lparr>te_t = t, te_h = h\<rparr>"])
  finally show ?thesis .
qed

lemma timers_None: "timers st h = None \<longleftrightarrow> h \<notin> te_h ` set (heap st)"
  by (auto simp: timers_def map_of_eq_None_iff image_image)

lemma timers_index:
  assumes "idx_ok (heap st, hidx st)" "timers st h \<noteq> None"
  obtains i where "i < length (heap st)" "hidx st h = int i" "te_h (heap st ! i) = h"
    "timers st h = Some (te_t (heap st ! i))"
proof -
  from assms(2) obtain t where t: "timers st h = Some t" by auto
  then have "\<lparr>te_t = t, te_h = h\<rparr> \<in> set (heap st)" by (simp add: timers_iff [OF assms(1)])
  then obtain i where i: "i < length (heap st)" "heap st ! i = \<lparr>te_t = t, te_h = h\<rparr>"
    by (auto simp: in_set_conv_nth)
  from assms(1) i(1) have "hidx st (te_h (heap st ! i)) = int i" by (simp add: idx_ok_def)
  with i t show ?thesis using that [OF i(1)] by simp
qed

lemma put_core_simps [simp]:
  "heap (put_core st c) = fst c" "hidx (put_core st c) = snd c" "heap_cap (put_core st c) = heap_cap st"
  by (simp_all add: put_core_def)

text \<open>Both repairs restore the invariants and only permute the entries.\<close>

definition repaired :: "'h th_core \<Rightarrow> 'h th_core \<Rightarrow> bool" where
  "repaired c c' \<longleftrightarrow> heap_ok (fst c') \<and> idx_ok c' \<and> mset (fst c') = mset (fst c) \<and>
     (\<forall>h. h \<notin> te_h ` set (fst c) \<longrightarrow> snd c' h = snd c h)"

lemma repaired_up: "i < length (fst c) \<Longrightarrow> idx_ok c \<Longrightarrow> heap_but_up (fst c) i \<Longrightarrow> repaired c (bubble_up c i)"
  by (simp add: repaired_def bubble_up_core bubble_up_heap bubble_up_other)

lemma repaired_down: "i < length (fst c) \<Longrightarrow> idx_ok c \<Longrightarrow> heap_but_down (fst c) i \<Longrightarrow> repaired c (bubble_down c i)"
  by (simp add: repaired_def bubble_down_core bubble_down_heap bubble_down_other)

lemma repaired_wf:
  "repaired c c' \<Longrightarrow> length (fst c) \<le> heap_cap st \<Longrightarrow> 0 < heap_cap st \<Longrightarrow> theap_wf (put_core st c')"
  by (auto simp: repaired_def theap_wf_def dest: mset_eq_length)

lemma repaired_set: "repaired c c' \<Longrightarrow> set (fst c') = set (fst c)"
  by (auto simp: repaired_def dest: mset_eq_setD)

lemma repaired_other: "repaired c c' \<Longrightarrow> h \<notin> te_h ` set (fst c) \<Longrightarrow> snd c' h = snd c h"
  by (simp add: repaired_def)

text \<open>Putting another time at index \<open>i\<close> of a heap, smaller or not, is what the repairs start from.\<close>

lemma heap_replace_up:
  assumes "heap_ok es" "i < length es" "te_t e \<le> tkey es i"
  shows "heap_but_up (es[i := e]) i"
  unfolding heap_but_up_def
proof (intro conjI allI impI)
  fix j assume j: "0 < j" "j < length (es[i := e])" "j \<noteq> i"
  have "tkey es (parent j) \<le> tkey es j" using heap_okD [OF assms(1), of j] j by simp
  then show "tkey (es[i := e]) (parent j) \<le> tkey (es[i := e]) j"
    using j assms by (cases "parent j = i") auto
next
  fix j assume j: "0 < j" "j < length (es[i := e])" "parent j = i" "0 < i"
  then have "i \<noteq> j" "parent i \<noteq> i" using parent_less [of j] parent_less [of i] by auto
  moreover have "tkey es (parent i) \<le> tkey es i" "tkey es (parent j) \<le> tkey es j"
    using heap_okD [OF assms(1)] j assms(2) by auto
  ultimately show "tkey (es[i := e]) (parent i) \<le> tkey (es[i := e]) j" using j by auto
qed

lemma heap_replace_down:
  assumes "heap_ok es" "i < length es" "tkey es i \<le> te_t e"
  shows "heap_but_down (es[i := e]) i"
  unfolding heap_but_down_def
proof (intro conjI allI impI)
  fix j assume j: "0 < j" "j < length (es[i := e])" "parent j \<noteq> i"
  have "tkey es (parent j) \<le> tkey es j" using heap_okD [OF assms(1), of j] j by simp
  then show "tkey (es[i := e]) (parent j) \<le> tkey (es[i := e]) j"
    using j assms by (cases "j = i") auto
next
  fix j assume j: "0 < j" "j < length (es[i := e])" "parent j = i" "0 < i"
  then have "i \<noteq> j" "parent i \<noteq> i" using parent_less [of j] parent_less [of i] by auto
  moreover have "tkey es (parent i) \<le> tkey es i" "tkey es (parent j) \<le> tkey es j"
    using heap_okD [OF assms(1)] j assms(2) by auto
  ultimately show "tkey (es[i := e]) (parent i) \<le> tkey (es[i := e]) j" using j by auto
qed

lemma heap_take: "heap_ok es \<Longrightarrow> heap_ok (take n es)"
  unfolding heap_ok_def
proof (intro allI impI)
  fix j assume h: "\<forall>j. 0 < j \<longrightarrow> j < length es \<longrightarrow> tkey es (parent j) \<le> tkey es j"
    and j: "0 < j" "j < length (take n es)"
  then have "parent j < n" using parent_less [of j] by simp
  with h j show "tkey (take n es) (parent j) \<le> tkey (take n es) j" by simp
qed

lemma heap_append_up:
  assumes "heap_ok es"
  shows "heap_but_up (es @ [e]) (length es)"
  unfolding heap_but_up_def
proof (intro conjI allI impI)
  fix j assume j: "0 < j" "j < length (es @ [e])" "j \<noteq> length es"
  then have "j < length es" "parent j < length es" using parent_less [of j] by auto
  then show "tkey (es @ [e]) (parent j) \<le> tkey (es @ [e]) j"
    using heap_okD [OF assms j(1)] by (simp add: nth_append)
next
  fix j assume "0 < j" "j < length (es @ [e])" "parent j = length es"
  then show "tkey (es @ [e]) (parent (length es)) \<le> tkey (es @ [e]) j" using parent_less [of j] by simp
qed

lemma timeheap_insert_core:
  assumes "theap_wf st" "timers st h = None" "timeheap_insert ok st h t = (True, st')"
  shows "theap_wf st' \<and> set (heap st') = insert \<lparr>te_t = t, te_h = h\<rparr> (set (heap st)) \<and>
    (\<forall>h'. timers st h' = None \<longrightarrow> h' \<noteq> h \<longrightarrow> hidx st' h' = hidx st h')"
proof -
  let ?n = "length (heap st)"
  let ?c = "(heap st @ [\<lparr>te_t = t, te_h = h\<rparr>], (hidx st)(h := int ?n))"
  from assms(1) have wf: "heap_ok (heap st)" "idx_ok (heap st, hidx st)" "?n \<le> heap_cap st" "0 < heap_cap st"
    by (auto simp: theap_wf_def)
  have "h \<noteq> te_h (heap st ! k)" if "k < ?n" for k using assms(2) that by (auto simp: timers_None)
  then have "idx_ok ?c" using wf(2) by (auto simp: idx_ok_def nth_append less_Suc_eq)
  then have r: "repaired ?c (bubble_up ?c ?n)"
    using heap_append_up [OF wf(1)] by (intro repaired_up) simp_all
  obtain st1 where st1: "st' = put_core st1 (bubble_up ?c ?n)" "?n < heap_cap st1" "hidx st1 = hidx st"
    using assms(3) wf(3,4) by (auto simp: timeheap_insert_def Let_def split: if_splits)
  have "theap_wf st'" using repaired_wf [OF r, of st1] st1 by simp
  moreover have "set (heap st') = insert \<lparr>te_t = t, te_h = h\<rparr> (set (heap st))"
    using repaired_set [OF r] st1 by simp
  moreover have "hidx st' h' = hidx st h'" if "timers st h' = None" "h' \<noteq> h" for h'
    using r that st1 by (simp add: repaired_def timers_None)
  ultimately show ?thesis by blast
qed

lemma take_update_last:
  assumes "i < length es" "n = length es - 1"
  shows "mset (take n (es[i := es ! n])) + {#es ! i#} = mset es"
proof -
  from assms have n: "n < length es" by auto
  have split: "es = take n es @ [es ! n]"
    using take_Suc_conv_app_nth [OF n] assms(2) n by simp
  show ?thesis
  proof (cases "i = n")
    case True
    then have "mset (take n (es[i := es ! n])) + {#es ! i#} = mset (take n es @ [es ! n])" by simp
    then show ?thesis using split by simp
  next
    case False
    with assms have i: "i < length (take n es)" by simp
    have x: "take n es ! i = es ! i" using i by simp
    have "take n (es[i := es ! n]) = (take n es)[i := es ! n]" by (rule take_update_swap)
    then have "mset (take n (es[i := es ! n])) = add_mset (es ! n) (mset (take n es) - {#es ! i#})"
      using mset_update [OF i, of "es ! n"] x by (simp only:)
    moreover have "es ! i \<in># mset (take n es)" using i x by (metis nth_mem_mset)
    moreover have "mset es = add_mset (es ! n) (mset (take n es))"
      using arg_cong [OF split, of mset] by simp
    ultimately show ?thesis by (metis add_mset_add_single add_mset_commute insert_DiffM)
  qed
qed

lemma timeheap_remove_idx_core:
  assumes "theap_wf st" "i < length (heap st)"
  shows "\<exists>st'. timeheap_remove_idx st (int i) = Some st' \<and> theap_wf st' \<and>
    add_mset (heap st ! i) (mset (heap st')) = mset (heap st) \<and>
    (\<forall>h. h \<notin> te_h ` set (heap st') \<longrightarrow> hidx st' h = hidx st h)"
proof -
  let ?es = "heap st" and ?n = "length (heap st) - 1"
  from assms(1) have wf: "heap_ok ?es" "idx_ok (?es, hidx st)" "length ?es \<le> heap_cap st" "0 < heap_cap st"
    by (auto simp: theap_wf_def)
  have ms: "add_mset (?es ! i) (mset (take ?n (?es[i := ?es ! ?n]))) = mset ?es"
    using take_update_last [OF assms(2) refl] by simp
  show ?thesis
  proof (cases "?n > 0")
    case False
    with assms(2) have "?n = 0" "i = 0" "length ?es = 1" by auto
    then obtain e where es: "?es = [e]" by (cases ?es) auto
    then have "timeheap_remove_idx st (int i) = Some (st\<lparr>heap := []\<rparr>)"
      using \<open>i = 0\<close> by (simp add: timeheap_remove_idx_def Let_def)
    moreover have "theap_wf (st\<lparr>heap := []\<rparr>)" using wf by (simp add: theap_wf_def heap_ok_def idx_ok_def)
    ultimately show ?thesis using es \<open>i = 0\<close> by simp
  next
    case n: True
    let ?c = "(take ?n (?es[i := ?es ! ?n]), (hidx st)(te_h (?es ! ?n) := int i))"
    let ?c' = "if cmpentry_lt ?es ?n i then bubble_up ?c i else bubble_down ?c i"
    have res: "timeheap_remove_idx st (int i) = Some (put_core st ?c')"
      using assms(2) n by (simp add: timeheap_remove_idx_def Let_def)
    have up: "take ?n (?es[i := ?es ! ?n]) = (take ?n ?es)[i := ?es ! ?n]" by (rule take_update_swap)
    have rep: "repaired ?c ?c'"
    proof (cases "i = ?n")
      case True
      then have "cmpentry_lt ?es ?n i = False" by (simp add: cmpentry_less)
      moreover have "bubble_down ?c i = ?c" using True by (subst bubble_down.simps) simp
      moreover have "heap_ok (fst ?c)" using True heap_take [OF wf(1)] by simp
      moreover have "hidx st (te_h (?es ! ?n)) = int i" using wf(2) True n by (simp add: idx_ok_def)
      then have "(hidx st)(te_h (?es ! ?n) := int i) = hidx st" by (rule fun_upd_idem)
      then have "idx_ok ?c" using wf(2) True n by (simp add: idx_ok_def)
      ultimately show ?thesis by (simp add: repaired_def)
    next
      case False
      with assms(2) have i: "i < length (take ?n ?es)" by simp
      have "idx_ok ?c"
        unfolding idx_ok_def
      proof (intro allI impI)
        fix k assume "k < length (fst ?c)"
        then have k: "k < ?n" by simp
        show "snd ?c (te_h (fst ?c ! k)) = int k"
        proof (cases "k = i")
          case True
          with k assms(2) show ?thesis by simp
        next
          case False
          with k have "fst ?c ! k = ?es ! k" by simp
          moreover have "?n < length ?es" using n by simp
          then have "te_h (?es ! k) \<noteq> te_h (?es ! ?n)"
            using idx_ok_inj [OF wf(2), of k ?n] k by auto
          ultimately show ?thesis using wf(2) k by (simp add: idx_ok_def)
        qed
      qed
      moreover have "i < length (fst ?c)" using i by simp
      moreover have "tkey (take ?n ?es) i = tkey ?es i" using i by simp
      ultimately show ?thesis
        using heap_replace_up [OF heap_take [OF wf(1)] i, of "?es ! ?n"]
          heap_replace_down [OF heap_take [OF wf(1)] i, of "?es ! ?n"]
          repaired_up [of i ?c] repaired_down [of i ?c] up
        by (auto simp: cmpentry_less)
    qed
    have len: "length (fst ?c) \<le> heap_cap st" using wf(3) by simp
    have "mset (fst ?c') = mset (fst ?c)" using rep by (simp only: repaired_def)
    with ms have m: "add_mset (?es ! i) (mset (fst ?c')) = mset ?es" by simp
    have "hidx (put_core st ?c') h = hidx st h" if "h \<notin> te_h ` set (fst ?c')" for h
    proof -
      have "h \<notin> te_h ` set (fst ?c)" using that unfolding repaired_set [OF rep] .
      then have "snd ?c' h = snd ?c h" by (rule repaired_other [OF rep])
      moreover have "snd ?c h = hidx st h"
      proof (cases "i = ?n")
        case True
        then show ?thesis using wf(2) n by (auto simp: idx_ok_def)
      next
        case False
        with assms(2) have "i < length ((take ?n ?es)[i := ?es ! ?n])" by simp
        then have "?es ! ?n \<in> set (fst ?c)" using set_update_memI [of i "take ?n ?es"] up by simp
        with \<open>h \<notin> te_h ` set (fst ?c)\<close> show ?thesis by auto
      qed
      ultimately show ?thesis by simp
    qed
    then have "\<forall>h. h \<notin> te_h ` set (heap (put_core st ?c')) \<longrightarrow> hidx (put_core st ?c') h = hidx st h"
      unfolding put_core_simps by blast
    moreover have "add_mset (?es ! i) (mset (heap (put_core st ?c'))) = mset ?es"
      using m unfolding put_core_simps .
    ultimately show ?thesis using res repaired_wf [OF rep len wf(4)] by blast
  qed
qed

lemma timeheap_change_core:
  assumes "theap_wf st" "timers st h \<noteq> None"
  shows "\<exists>st' e. timeheap_change st h t = Some st' \<and> theap_wf st' \<and> e \<in> set (heap st) \<and> te_h e = h \<and>
    mset (heap st') = add_mset \<lparr>te_t = t, te_h = h\<rparr> (mset (heap st) - {#e#}) \<and>
    (\<forall>h. h \<notin> te_h ` set (heap st') \<longrightarrow> hidx st' h = hidx st h)"
proof -
  let ?es = "heap st"
  from assms(1) have wf: "heap_ok ?es" "idx_ok (?es, hidx st)" "length ?es \<le> heap_cap st" "0 < heap_cap st"
    by (auto simp: theap_wf_def)
  obtain i where i: "i < length ?es" "hidx st h = int i" "te_h (?es ! i) = h"
    by (rule timers_index [OF wf(2) assms(2)])
  let ?e = "(?es ! i)\<lparr>te_t := t\<rparr>" and ?c = "(?es[i := (?es ! i)\<lparr>te_t := t\<rparr>], hidx st)"
  let ?c' = "if cmptime_lt t (tkey ?es i) then bubble_up ?c i else bubble_down ?c i"
  have res: "timeheap_change st h t = Some (put_core st ?c')"
    using i by (simp add: timeheap_change_def Let_def)
  have "te_h (fst ?c ! k) = te_h (?es ! k)" if "k < length ?es" for k
    using that i(1) by (cases "k = i") simp_all
  then have "idx_ok ?c" using wf(2) by (simp add: idx_ok_def)
  then have rep: "repaired ?c ?c'"
    using heap_replace_up [OF wf(1) i(1), of ?e] heap_replace_down [OF wf(1) i(1), of ?e] i(1)
      repaired_up [of i ?c] repaired_down [of i ?c]
    by (auto simp flip: less_timespec_def)
  have e: "?e = \<lparr>te_t = t, te_h = h\<rparr>" using i(3) by simp
  have "mset (fst ?c') = mset (fst ?c)" using rep by (simp only: repaired_def)
  also have "\<dots> = add_mset ?e (mset ?es - {#?es ! i#})" using mset_update [OF i(1)] by simp
  finally have m: "mset (heap (put_core st ?c')) = add_mset \<lparr>te_t = t, te_h = h\<rparr> (mset ?es - {#?es ! i#})"
    unfolding e by simp
  have "\<forall>h. h \<notin> te_h ` set (heap (put_core st ?c')) \<longrightarrow> hidx (put_core st ?c') h = hidx st h"
    using rep repaired_set [OF rep] by (simp add: repaired_def)
  moreover have "length (fst ?c) \<le> heap_cap st" using wf(3) by simp
  ultimately show ?thesis
    using res repaired_wf [OF rep _ wf(4)] m i nth_mem [OF i(1)] by blast
qed

section \<open>The operations on the map of timers\<close>

lemma timers_eqI:
  assumes "idx_ok (heap st, hidx st)"
    "\<And>h t. \<lparr>te_t = t, te_h = h\<rparr> \<in> set (heap st) \<longleftrightarrow> m h = Some t"
  shows "timers st = m"
proof
  fix h
  have "timers st h = Some t \<longleftrightarrow> m h = Some t" for t using timers_iff [OF assms(1)] assms(2) by simp
  then show "timers st h = m h" by (metis not_Some_eq)
qed

lemma theap_wf_idx: "theap_wf st \<Longrightarrow> idx_ok (heap st, hidx st)"
  by (simp add: theap_wf_def)

lemma timers_unique:
  "theap_wf st \<Longrightarrow> e \<in> set (heap st) \<Longrightarrow> e' \<in> set (heap st) \<Longrightarrow> te_h e = te_h e' \<Longrightarrow> e = e'"
  using idx_ok_distinct [OF theap_wf_idx, of st] by (simp add: distinct_map inj_on_def)

lemma remove_entry_set:
  assumes "theap_wf st" "e \<in> set (heap st)"
  shows "x \<in># mset (heap st) - {#e#} \<longleftrightarrow> x \<in> set (heap st) \<and> te_h x \<noteq> te_h e"
proof -
  have "distinct (heap st)"
    using idx_ok_distinct [OF theap_wf_idx [OF assms(1)]] by (simp add: distinct_map)
  then have "x \<in># mset (heap st) - {#e#} \<longleftrightarrow> x \<in> set (heap st) \<and> x \<noteq> e"
    by (simp flip: mset_remove1 add: set_mset_mset)
  with timers_unique [OF assms(1) _ assms(2)] show ?thesis by auto
qed

lemma timers_insert:
  assumes "theap_wf st" "timers st h = None" "timeheap_insert ok st h t = (True, st')"
  shows "timers st' = (timers st)(h \<mapsto> t)"
proof (rule timers_eqI)
  note c = timeheap_insert_core [OF assms]
  show "idx_ok (heap st', hidx st')" using c by (simp add: theap_wf_idx)
  fix h' t'
  show "\<lparr>te_t = t', te_h = h'\<rparr> \<in> set (heap st') \<longleftrightarrow> ((timers st)(h \<mapsto> t)) h' = Some t'"
    using c assms(2) timers_iff [OF theap_wf_idx [OF assms(1)], of h' t'] by (cases "h' = h") auto
qed

lemma timers_removed:
  assumes "theap_wf st" "theap_wf st'" "e \<in> set (heap st)" "add_mset e (mset (heap st')) = mset (heap st)"
  shows "timers st' = (timers st)(te_h e := None)"
proof (rule timers_eqI)
  show "idx_ok (heap st', hidx st')" using assms(2) by (rule theap_wf_idx)
  fix h t
  have "mset (heap st') = mset (heap st) - {#e#}" using assms(4) by (metis add_mset_remove_trivial)
  then have "set (heap st') = {x \<in> set (heap st). te_h x \<noteq> te_h e}"
    using remove_entry_set [OF assms(1,3)] by (auto simp flip: set_mset_mset)
  then show "\<lparr>te_t = t, te_h = h\<rparr> \<in> set (heap st') \<longleftrightarrow> ((timers st)(te_h e := None)) h = Some t"
    using timers_iff [OF theap_wf_idx [OF assms(1)], of h t] by auto
qed

lemma timers_remove:
  assumes "theap_wf st" "timers st h \<noteq> None"
  shows "\<exists>st'. timeheap_remove st h = Some st' \<and> theap_wf st' \<and> timers st' = (timers st)(h := None) \<and>
    (\<forall>h'. timers st' h' = None \<longrightarrow> hidx st' h' = hidx st h')"
proof -
  obtain i where i: "i < length (heap st)" "hidx st h = int i" "te_h (heap st ! i) = h"
    by (rule timers_index [OF theap_wf_idx [OF assms(1)] assms(2)])
  from timeheap_remove_idx_core [OF assms(1) i(1)] obtain st' where st':
    "timeheap_remove_idx st (int i) = Some st'" "theap_wf st'"
    "add_mset (heap st ! i) (mset (heap st')) = mset (heap st)"
    "\<forall>h. h \<notin> te_h ` set (heap st') \<longrightarrow> hidx st' h = hidx st h" by blast
  from timers_removed [OF assms(1) st'(2) _ st'(3)] i st' show ?thesis
    by (auto simp: timeheap_remove_def timers_None)
qed

lemma timers_pop:
  assumes "theap_wf st" "heap st \<noteq> []"
  shows "\<exists>t h st'. timeheap_top st = Some t \<and> timeheap_remove_top st = Some (h, st') \<and> timers st h = Some t \<and>
    (\<forall>h' t'. timers st h' = Some t' \<longrightarrow> t \<le> t') \<and> theap_wf st' \<and> timers st' = (timers st)(h := None) \<and>
    (\<forall>h'. timers st' h' = None \<longrightarrow> hidx st' h' = hidx st h')"
proof -
  let ?e = "heap st ! 0"
  from assms(2) have l: "0 < length (heap st)" by simp
  from timeheap_remove_idx_core [OF assms(1) l] obtain st' where st':
    "timeheap_remove_idx st 0 = Some st'" "theap_wf st'"
    "add_mset ?e (mset (heap st')) = mset (heap st)"
    "\<forall>h. h \<notin> te_h ` set (heap st') \<longrightarrow> hidx st' h = hidx st h" by auto
  have iff: "timers st h = Some t \<longleftrightarrow> \<lparr>te_t = t, te_h = h\<rparr> \<in> set (heap st)" for h t
    by (rule timers_iff [OF theap_wf_idx [OF assms(1)]])
  have "te_t ?e \<le> t'" if "timers st h' = Some t'" for h' t'
  proof -
    from that iff obtain k where k: "k < length (heap st)" "heap st ! k = \<lparr>te_t = t', te_h = h'\<rparr>"
      by (auto simp: in_set_conv_nth)
    have "tkey (heap st) 0 \<le> tkey (heap st) k"
      using assms(1) heap_root_least [OF _ k(1)] by (simp add: theap_wf_def)
    with k show ?thesis by simp
  qed
  moreover have "timers st (te_h ?e) = Some (te_t ?e)" using l by (simp add: iff)
  ultimately show ?thesis
    using st' timers_removed [OF assms(1) st'(2) _ st'(3)] l assms(2)
    by (auto simp: timeheap_top_def timeheap_remove_top_def timers_None)
qed

lemma timers_change:
  assumes "theap_wf st" "timers st h \<noteq> None"
  shows "\<exists>st'. timeheap_change st h t = Some st' \<and> theap_wf st' \<and> timers st' = (timers st)(h \<mapsto> t) \<and>
    (\<forall>h'. timers st' h' = None \<longrightarrow> hidx st' h' = hidx st h')"
proof -
  from timeheap_change_core [OF assms] obtain st' e where st':
    "timeheap_change st h t = Some st'" "theap_wf st'" "e \<in> set (heap st)" "te_h e = h"
    "mset (heap st') = add_mset \<lparr>te_t = t, te_h = h\<rparr> (mset (heap st) - {#e#})"
    "\<forall>h. h \<notin> te_h ` set (heap st') \<longrightarrow> hidx st' h = hidx st h" by blast
  have "set (heap st') = insert \<lparr>te_t = t, te_h = h\<rparr> {x \<in> set (heap st). te_h x \<noteq> te_h e}"
    using st'(5) remove_entry_set [OF assms(1) st'(3)] by (auto simp flip: set_mset_mset)
  then have "timers st' = (timers st)(h \<mapsto> t)"
    using timers_iff [OF theap_wf_idx [OF assms(1)]] st'(4)
    by (intro timers_eqI theap_wf_idx st'(2)) auto
  with st' show ?thesis by (auto simp: timers_None)
qed

section \<open>The interface: a queue of timers\<close>

text \<open>
  What \<^verbatim>\<open>evloop/timer.c\<close> relies on: a finite map from handles to times that can be extended,
  changed and shrunk at any handle, and that gives up its earliest entry.
\<close>

locale timer_queue =
  fixes inv :: "'s \<Rightarrow> bool"
    and lookup :: "'s \<Rightarrow> 'h \<Rightarrow> 't::linorder option"
    and size :: "'s \<Rightarrow> nat"
    and del :: "'s \<Rightarrow> 'h \<Rightarrow> 's option"
    and chg :: "'s \<Rightarrow> 'h \<Rightarrow> 't \<Rightarrow> 's option"
    and top :: "'s \<Rightarrow> 't option"
    and pop :: "'s \<Rightarrow> ('h \<times> 's) option"
  assumes size_card: "inv s \<Longrightarrow> finite (dom (lookup s)) \<and> size s = card (dom (lookup s))"
    and del_ok: "inv s \<Longrightarrow> lookup s h \<noteq> None \<Longrightarrow>
      \<exists>s'. del s h = Some s' \<and> inv s' \<and> lookup s' = (lookup s)(h := None)"
    and chg_ok: "inv s \<Longrightarrow> lookup s h \<noteq> None \<Longrightarrow>
      \<exists>s'. chg s h t = Some s' \<and> inv s' \<and> lookup s' = (lookup s)(h \<mapsto> t)"
    and pop_ok: "inv s \<Longrightarrow> 0 < size s \<Longrightarrow> \<exists>t h s'. top s = Some t \<and> pop s = Some (h, s') \<and>
      lookup s h = Some t \<and> (\<forall>h' t'. lookup s h' = Some t' \<longrightarrow> t \<le> t') \<and> inv s' \<and> lookup s' = (lookup s)(h := None)"
begin

text \<open>Taking the top until nothing is left.\<close>

primrec drain :: "nat \<Rightarrow> 's \<Rightarrow> ('h \<times> 't) list option" where
  "drain 0 s = Some []"
| "drain (Suc n) s = do { t \<leftarrow> top s; (h, s') \<leftarrow> pop s; r \<leftarrow> drain n s'; Some ((h, t) # r) }"

lemma drain_sorted:
  "inv s \<Longrightarrow> n = size s \<Longrightarrow> \<exists>l. drain n s = Some l \<and> sorted (map snd l) \<and> distinct (map fst l) \<and>
     (\<forall>h t. (h, t) \<in> set l \<longleftrightarrow> lookup s h = Some t)"
proof (induction n arbitrary: s)
  case 0
  then have "dom (lookup s) = {}" using size_card [OF 0(1)] by simp
  then show ?case by simp
next
  case (Suc n)
  obtain t h s' where p: "top s = Some t" "pop s = Some (h, s')" "lookup s h = Some t"
    "\<forall>h' t'. lookup s h' = Some t' \<longrightarrow> t \<le> t'" "inv s'" "lookup s' = (lookup s)(h := None)"
    using pop_ok [OF Suc.prems(1)] Suc.prems(2) by auto
  have "dom (lookup s') = dom (lookup s) - {h}" "h \<in> dom (lookup s)" using p(3,6) by auto
  then have "n = size s'"
    using size_card [OF Suc.prems(1)] size_card [OF p(5)] Suc.prems(2) by simp
  from Suc.IH [OF p(5) this] obtain l where l: "drain n s' = Some l" "sorted (map snd l)"
    "distinct (map fst l)" "\<forall>h t. (h, t) \<in> set l \<longleftrightarrow> lookup s' h = Some t" by blast
  have "h \<notin> fst ` set l" using l(4) p(6) by auto
  moreover have "t \<le> t'" if "(h', t') \<in> set l" for h' t'
  proof -
    have "lookup s h' = Some t'" using l(4) that p(6) by (auto split: if_splits)
    with p(4) show ?thesis by blast
  qed
  ultimately have "sorted (map snd ((h, t) # l))" "distinct (map fst ((h, t) # l))" using l(2,3) by auto
  moreover have "(h', t') \<in> set ((h, t) # l) \<longleftrightarrow> lookup s h' = Some t'" for h' t'
    using l(4) p(3,6) by auto
  ultimately show ?case using p(1,2) l(1) by (intro exI [of _ "(h, t) # l"]) auto
qed

end

lemma timers_card:
  assumes "theap_wf st"
  shows "finite (dom (timers st)) \<and> timeheap_size st = card (dom (timers st))"
proof -
  have d: "dom (timers st) = set (map te_h (heap st))"
    by (auto simp: timers_def dom_map_of_conv_image_fst image_image)
  have "distinct (map te_h (heap st))" using idx_ok_distinct [OF theap_wf_idx [OF assms]] by simp
  then show ?thesis unfolding d timeheap_size_def using distinct_card by fastforce
qed

interpretation tq: timer_queue theap_wf timers timeheap_size timeheap_remove timeheap_change
    timeheap_top timeheap_remove_top
proof unfold_locales
  fix st :: "'h theap" and h t
  assume wf: "theap_wf st"
  show "finite (dom (timers st)) \<and> timeheap_size st = card (dom (timers st))" by (rule timers_card [OF wf])
  { assume h: "timers st h \<noteq> None"
    show "\<exists>s'. timeheap_remove st h = Some s' \<and> theap_wf s' \<and> timers s' = (timers st)(h := None)"
      using timers_remove [OF wf h] by blast
    show "\<exists>s'. timeheap_change st h t = Some s' \<and> theap_wf s' \<and> timers s' = (timers st)(h \<mapsto> t)"
      using timers_change [OF wf h] by blast }
  assume "0 < timeheap_size st"
  then have "heap st \<noteq> []" by (auto simp: timeheap_size_def)
  from timers_pop [OF wf this] show "\<exists>t h s'. timeheap_top st = Some t \<and> timeheap_remove_top st = Some (h, s') \<and>
      timers st h = Some t \<and> (\<forall>h' t'. timers st h' = Some t' \<longrightarrow> t \<le> t') \<and> theap_wf s' \<and>
      timers s' = (timers st)(h := None)" by blast
qed

section \<open>Properties\<close>

definition sample_heap :: "nat theap" where
  "sample_heap = \<lparr>heap = [\<lparr>te_t = TS 1 0, te_h = 7\<rparr>, \<lparr>te_t = TS 3 5, te_h = 8\<rparr>], heap_cap = 10,
     hidx = (\<lambda>h. if h = 7 then 0 else if h = 8 then 1 else - 1)\<rparr>"

lemma sample_heap_wf: "theap_wf sample_heap"
proof -
  have "j = 1" if "0 < j" "j < Suc (Suc 0)" for j :: nat using that by simp
  then show ?thesis
    by (auto simp: theap_wf_def sample_heap_def heap_ok_def idx_ok_def parent_def nth_Cons'
        less_eq_timespec_def cmptime_lt_def)
qed

lemma sample_heap_timers:
  "timers sample_heap 8 = Some (TS 3 5)" "timers sample_heap 9 = None" "timeheap_size sample_heap = 2"
  by (simp_all add: timers_def sample_heap_def timeheap_size_def)

text \<open>C25. Inserting, changing and removing timers keep the heap well formed (ordered, and every handle
  knowing the place of its entry) and act on the map from handles to times as an update at one
  handle; a remove or change of a pending timer never fails its assertion.\<close>

theorem timeheap_refines_map:
  assumes "theap_wf st"
  shows "(timers st h = None \<and> timeheap_insert ok st h t = (True, st') \<longrightarrow>
      theap_wf st' \<and> timers st' = (timers st)(h \<mapsto> t)) \<and>
    (timers st h \<noteq> None \<longrightarrow>
      (\<exists>s. timeheap_remove st h = Some s \<and> theap_wf s \<and> timers s = (timers st)(h := None)) \<and>
      (\<exists>s. timeheap_change st h t = Some s \<and> theap_wf s \<and> timers s = (timers st)(h \<mapsto> t)))"
  using timeheap_insert_core [OF assms] timers_insert [OF assms] tq.del_ok [OF assms] tq.chg_ok [OF assms]
  by blast

theorem timeheap_refines_map_witness:
  "(\<exists>s. timeheap_insert True sample_heap 9 (TS 0 1) = (True, s) \<and> theap_wf s \<and>
      timers s = (timers sample_heap)(9 \<mapsto> TS 0 1)) \<and>
   (\<exists>s. timeheap_remove sample_heap 8 = Some s \<and> theap_wf s \<and> timers s = (timers sample_heap)(8 := None)) \<and>
   (\<exists>s. timeheap_change sample_heap 8 (TS 0 1) = Some s \<and> theap_wf s \<and>
      timers s = (timers sample_heap)(8 \<mapsto> TS 0 1))"
proof -
  note r = timeheap_refines_map [OF sample_heap_wf]
  obtain s where s: "timeheap_insert True sample_heap 9 (TS 0 1) = (True, s)"
    by (simp add: timeheap_insert_def sample_heap_def Let_def)
  show ?thesis
    using r [of 9 True "TS 0 1" s] r [of 8 True "TS 0 1" s] s sample_heap_timers by simp
qed

text \<open>C33. Taking the top of the heap until it is empty delivers every pending timer exactly once, with
  its time, in order of time.\<close>

theorem timeheap_drains_in_order:
  assumes "theap_wf st"
  shows "\<exists>l. tq.drain (timeheap_size st) st = Some l \<and> sorted (map snd l) \<and> distinct (map fst l) \<and>
    (\<forall>h t. (h, t) \<in> set l \<longleftrightarrow> timers st h = Some t)"
  by (rule tq.drain_sorted [OF assms refl])

theorem timeheap_drains_in_order_witness:
  "\<exists>l. tq.drain (timeheap_size sample_heap) sample_heap = Some l \<and> sorted (map snd l) \<and> distinct (map fst l) \<and>
    (\<forall>h t. (h, t) \<in> set l \<longleftrightarrow> timers sample_heap h = Some t)"
  by (rule timeheap_drains_in_order [OF sample_heap_wf])

end
