(* ===== verification/Timer.thy ===== *)
theory Timer
  imports Timeheap
begin

text \<open>
  \<^verbatim>\<open>evloop/timer.c\<close>: timeouts over the heap of \<^verbatim>\<open>timeheap.c\<close>. A \<^verbatim>\<open>struct timeout\<close> is named by its
  handle; \<open>now\<close> is the answer of the monotonic clock. The index -1 marks a timeout that is not
  pending. Seconds and nanoseconds are mathematical integers: the clock counts from the start of
  the machine and the delays of the program are constants of a few minutes.
\<close>

definition addtime :: "timespec \<Rightarrow> timespec \<Rightarrow> timespec" where
  "addtime a b =
     (let s = tv_sec a + tv_sec b; n = tv_nsec a + tv_nsec b in
      if n \<ge> 1000000000 then TS (s + 1) (n - 1000000000) else TS s n)"

definition subtime :: "timespec \<Rightarrow> timespec \<Rightarrow> timespec" where
  "subtime a b =
     (let s = tv_sec a - tv_sec b; n = tv_nsec a - tv_nsec b in
      if n < 0 then TS (s - 1) (n + 1000000000) else TS s n)"

definition evtimer_init :: "'h theap \<Rightarrow> 'h \<Rightarrow> 'h theap" where
  "evtimer_init st h = st\<lparr>hidx := (hidx st)(h := - 1)\<rparr>"

definition evtimer_add :: "bool \<Rightarrow> timespec \<Rightarrow> 'h theap \<Rightarrow> 'h \<Rightarrow> timespec \<Rightarrow> (bool \<times> 'h theap) option" where
  "evtimer_add ok now st h t =
     (let sum = addtime now t in
      if hidx st h = - 1 then Some (timeheap_insert ok st h sum)
      else do { st' \<leftarrow> timeheap_change st h sum; Some (True, st') })"

definition evtimer_del :: "'h theap \<Rightarrow> 'h \<Rightarrow> 'h theap option" where
  "evtimer_del st h =
     (if hidx st h \<ge> 0
      then do { st' \<leftarrow> timeheap_remove st h; Some (st'\<lparr>hidx := (hidx st')(h := - 1)\<rparr>) }
      else Some st)"

text \<open>A timer within a millisecond of the current time is run.\<close>

definition due :: "timespec \<Rightarrow> timespec \<Rightarrow> bool" where
  "due now t = (let diff = subtime t now in
     tv_sec diff < 0 \<or> tv_sec diff = 0 \<and> tv_nsec diff < 1000000)"

text \<open>
  The callbacks are the program's; \<open>cb h st\<close> is the state of the timers after the callback of \<open>h\<close>.
  The loop runs as long as the callbacks keep adding due timers, so it has a bound on its rounds.
  The result lists the timers that were run, in order.
\<close>

fun evtimers_run :: "nat \<Rightarrow> timespec \<Rightarrow> ('h \<Rightarrow> 'h theap \<Rightarrow> 'h theap option) \<Rightarrow> 'h theap \<Rightarrow> ('h list \<times> 'h theap) option" where
  "evtimers_run n now cb st =
     (if timeheap_size st > 0
      then do {
        t \<leftarrow> timeheap_top st;
        if due now t
        then (case n of 0 \<Rightarrow> None
              | Suc m \<Rightarrow> do {
                  (h, st1) \<leftarrow> timeheap_remove_top st;
                  st2 \<leftarrow> cb h (st1\<lparr>hidx := (hidx st1)(h := - 1)\<rparr>);
                  (fired, st3) \<leftarrow> evtimers_run m now cb st2;
                  Some (h # fired, st3) })
        else Some ([], st) }
      else Some ([], st))"

declare evtimers_run.simps [simp del]

definition evtimer_delay :: "timespec \<Rightarrow> 'h theap \<Rightarrow> timespec option" where
  "evtimer_delay now st =
     (if timeheap_size st = 0 then Some (TS (- 1) 0)
      else do {
        t \<leftarrow> timeheap_top st;
        let diff = subtime t now;
        Some (if tv_sec diff < 0 then TS 0 0 else diff) })"

section \<open>Times in nanoseconds\<close>

definition normal :: "timespec \<Rightarrow> bool" where
  "normal t \<longleftrightarrow> 0 \<le> tv_nsec t \<and> tv_nsec t < 1000000000"

definition nanos :: "timespec \<Rightarrow> int" where
  "nanos t = tv_sec t * 1000000000 + tv_nsec t"

lemma addtime_nanos: "normal a \<Longrightarrow> normal b \<Longrightarrow> normal (addtime a b) \<and> nanos (addtime a b) = nanos a + nanos b"
  by (auto simp: addtime_def normal_def nanos_def Let_def algebra_simps)

lemma subtime_nanos: "normal a \<Longrightarrow> normal b \<Longrightarrow> normal (subtime a b) \<and> nanos (subtime a b) = nanos a - nanos b"
  by (auto simp: subtime_def normal_def nanos_def Let_def algebra_simps)

lemma nanos_less: "normal a \<Longrightarrow> normal b \<Longrightarrow> a < b \<longleftrightarrow> nanos a < nanos b"
  unfolding less_timespec_def cmptime_lt_def normal_def nanos_def by auto

lemma nanos_le: "normal a \<Longrightarrow> normal b \<Longrightarrow> a \<le> b \<longleftrightarrow> nanos a \<le> nanos b"
  using nanos_less [of b a] by (metis linorder_not_le)

lemma due_nanos: "normal now \<Longrightarrow> normal t \<Longrightarrow> due now t \<longleftrightarrow> nanos t - nanos now < 1000000"
proof -
  assume "normal now" "normal t"
  then have d: "normal (subtime t now)" "nanos (subtime t now) = nanos t - nanos now"
    using subtime_nanos by auto
  have "tv_sec d < 0 \<or> tv_sec d = 0 \<and> tv_nsec d < 1000000 \<longleftrightarrow> nanos d < 1000000" if "normal d" for d
    using that unfolding normal_def nanos_def by auto
  with d show ?thesis by (simp add: due_def)
qed

section \<open>The invariant of timeouts\<close>

definition timer_wf :: "'h theap \<Rightarrow> bool" where
  "timer_wf st \<longleftrightarrow> theap_wf st \<and> (\<forall>h. timers st h = None \<longrightarrow> hidx st h = - 1) \<and>
     (\<forall>h t. timers st h = Some t \<longrightarrow> normal t)"

lemma timer_wf_theap: "timer_wf st \<Longrightarrow> theap_wf st"
  by (simp add: timer_wf_def)

lemma timer_wf_index: "timer_wf st \<Longrightarrow> hidx st h = - 1 \<longleftrightarrow> timers st h = None"
proof
  assume "timer_wf st" "hidx st h = - 1"
  then show "timers st h = None"
    using timers_index [OF theap_wf_idx [OF timer_wf_theap], of st h] by (metis of_nat_0_le_iff not_one_le_zero neg_0_le_iff_le one_neq_zero zero_le_one le_minus_one_simps(4))
qed (simp add: timer_wf_def)

lemma timer_wf_nonneg: "timer_wf st \<Longrightarrow> 0 \<le> hidx st h \<longleftrightarrow> timers st h \<noteq> None"
proof -
  assume wf: "timer_wf st"
  have "0 \<le> hidx st h" if "timers st h \<noteq> None"
    using timers_index [OF theap_wf_idx [OF timer_wf_theap [OF wf]] that] by (metis of_nat_0_le_iff)
  then show ?thesis using timer_wf_index [OF wf, of h] by force
qed

lemma hidx_update_frame:
  "timers (st\<lparr>hidx := ix\<rparr>) = timers st" "heap (st\<lparr>hidx := ix\<rparr>) = heap st"
  by (simp_all add: timers_def)

lemma theap_wf_hidx:
  "theap_wf st \<Longrightarrow> timers st h = None \<Longrightarrow> theap_wf (st\<lparr>hidx := (hidx st)(h := v)\<rparr>)"
  by (auto simp: theap_wf_def idx_ok_def timers_None)

lemma evtimer_add_spec:
  assumes "timer_wf st" "normal now" "normal t" "evtimer_add ok now st h t = Some (True, st')"
  shows "timer_wf st' \<and> timers st' = (timers st)(h \<mapsto> addtime now t)"
proof -
  note wf = timer_wf_theap [OF assms(1)]
  have n: "normal (addtime now t)" using addtime_nanos assms by blast
  show ?thesis
  proof (cases "hidx st h = - 1")
    case True
    with assms(1) have none: "timers st h = None" by (simp add: timer_wf_index)
    from True assms(4) have ins: "timeheap_insert ok st h (addtime now t) = (True, st')"
      by (simp add: evtimer_add_def)
    note c = timeheap_insert_core [OF wf none ins] timers_insert [OF wf none ins]
    then show ?thesis using assms(1) n by (auto simp: timer_wf_def)
  next
    case False
    with assms(1) have some: "timers st h \<noteq> None" by (simp add: timer_wf_index)
    from False assms(4) have "timeheap_change st h (addtime now t) = Some st'"
      by (auto simp: evtimer_add_def bind_Some_iff)
    with timers_change [OF wf some, of "addtime now t"] assms(1) n show ?thesis
      by (auto simp: timer_wf_def)
  qed
qed

lemma evtimer_add_total:
  assumes "timer_wf st"
  shows "evtimer_add ok now st h t \<noteq> None"
proof (cases "hidx st h = - 1")
  case False
  then have "timers st h \<noteq> None" using assms by (simp add: timer_wf_index)
  from timers_change [OF timer_wf_theap [OF assms] this, of "addtime now t"] False
  show ?thesis by (auto simp: evtimer_add_def)
qed (simp add: evtimer_add_def)

lemma evtimer_del_spec:
  assumes "timer_wf st"
  shows "\<exists>st'. evtimer_del st h = Some st' \<and> timer_wf st' \<and> timers st' = (timers st)(h := None)"
proof (cases "timers st h = None")
  case True
  then have "(timers st)(h := None) = timers st" by auto
  with True assms show ?thesis by (simp add: evtimer_del_def timer_wf_nonneg)
next
  case False
  from timers_remove [OF timer_wf_theap [OF assms] False] obtain st1 where st1:
    "timeheap_remove st h = Some st1" "theap_wf st1" "timers st1 = (timers st)(h := None)"
    "\<forall>h'. timers st1 h' = None \<longrightarrow> hidx st1 h' = hidx st h'" by blast
  let ?st' = "st1\<lparr>hidx := (hidx st1)(h := - 1)\<rparr>"
  have "theap_wf ?st'" by (rule theap_wf_hidx [OF st1(2)]) (simp add: st1(3))
  moreover have "hidx ?st' h' = - 1" if "timers ?st' h' = None" for h'
    using that st1(3,4) assms by (auto simp: timer_wf_def hidx_update_frame split: if_splits)
  ultimately have "timer_wf ?st'" using assms st1(3) by (auto simp: timer_wf_def hidx_update_frame)
  with st1 False assms show ?thesis by (simp add: evtimer_del_def timer_wf_nonneg hidx_update_frame)
qed

section \<open>Running the due timers\<close>

definition due_set :: "timespec \<Rightarrow> 'h theap \<Rightarrow> 'h set" where
  "due_set now st = {h. \<exists>t. timers st h = Some t \<and> due now t}"

text \<open>The contract of a callback: it leaves the timers well formed and starts none that is due already.\<close>

definition cb_ok :: "timespec \<Rightarrow> ('h \<Rightarrow> 'h theap \<Rightarrow> 'h theap option) \<Rightarrow> bool" where
  "cb_ok now cb \<longleftrightarrow> (\<forall>h st. timer_wf st \<longrightarrow> (\<exists>st'. cb h st = Some st' \<and> timer_wf st' \<and>
     (\<forall>h' t. timers st' h' = Some t \<longrightarrow> due now t \<longrightarrow> timers st h' = Some t)))"

lemma due_set_finite: "timer_wf st \<Longrightarrow> finite (due_set now st)"
  by (rule finite_subset [of _ "dom (timers st)"])
    (auto simp: due_set_def dest: timer_wf_theap tq.size_card)

lemma evtimers_run_spec:
  assumes "timer_wf st" "cb_ok now cb" "normal now" "card (due_set now st) \<le> n"
  shows "\<exists>fired st'. evtimers_run n now cb st = Some (fired, st') \<and> timer_wf st' \<and> due_set now st' = {} \<and>
    distinct fired \<and> set fired \<subseteq> due_set now st \<and> sorted (map (\<lambda>h. the (timers st h)) fired)"
  using assms(1,4)
proof (induction n arbitrary: st)
  case (0 st)
  then have none: "due_set now st = {}" using due_set_finite [OF 0(1), of now] by simp
  show ?case
  proof (cases "0 < timeheap_size st")
    case True
    from tq.pop_ok [OF timer_wf_theap [OF 0(1)] True] obtain t h where
      "timeheap_top st = Some t" "timers st h = Some t" by blast
    with none True 0(1) show ?thesis by (subst evtimers_run.simps) (auto simp: due_set_def)
  next
    case False
    with none 0(1) show ?thesis by (subst evtimers_run.simps) auto
  qed
next
  case (Suc n st)
  note wf = timer_wf_theap [OF Suc.prems(1)]
  show ?case
  proof (cases "0 < timeheap_size st")
    case False
    with tq.size_card [OF wf] have "due_set now st = {}" by (auto simp: due_set_def)
    with False Suc.prems(1) show ?thesis by (subst evtimers_run.simps) auto
  next
    case True
    then have ne: "heap st \<noteq> []" by (auto simp: timeheap_size_def)
    from timers_pop [OF wf ne] obtain t h st1 where p: "timeheap_top st = Some t"
      "timeheap_remove_top st = Some (h, st1)" "timers st h = Some t"
      "\<forall>h' t'. timers st h' = Some t' \<longrightarrow> t \<le> t'" "theap_wf st1" "timers st1 = (timers st)(h := None)"
      "\<forall>h'. timers st1 h' = None \<longrightarrow> hidx st1 h' = hidx st h'" by blast
    have nt: "normal t'" if "timers st h' = Some t'" for h' t' using Suc.prems(1) that by (auto simp: timer_wf_def)
    show ?thesis
    proof (cases "due now t")
      case False
      have "due_set now st = {}"
      proof -
        have "\<not> due now t'" if "timers st h' = Some t'" for h' t'
          using False p(3,4) that nt [OF p(3)] nt [OF that] assms(3) nanos_le [of t t'] due_nanos by fastforce
        then show ?thesis by (auto simp: due_set_def)
      qed
      with False True p(1) Suc.prems(1) show ?thesis by (subst evtimers_run.simps) auto
    next
      case d: True
      let ?st1 = "st1\<lparr>hidx := (hidx st1)(h := - 1)\<rparr>"
      have "theap_wf ?st1" by (rule theap_wf_hidx [OF p(5)]) (simp add: p(6))
      moreover have "hidx ?st1 h' = - 1" if "timers ?st1 h' = None" for h'
        using that p(6,7) Suc.prems(1) by (auto simp: timer_wf_def hidx_update_frame split: if_splits)
      ultimately have wf1: "timer_wf ?st1" using nt p(6) by (auto simp: timer_wf_def hidx_update_frame split: if_splits)
      with assms(2) obtain st2 where st2: "cb h ?st1 = Some st2" "timer_wf st2"
        "\<forall>h' t. timers st2 h' = Some t \<longrightarrow> due now t \<longrightarrow> timers ?st1 h' = Some t" unfolding cb_ok_def by meson
      have sub: "due_set now st2 \<subseteq> due_set now st - {h}"
        using st2(3) p(6) by (fastforce simp: due_set_def hidx_update_frame split: if_splits)
      have "h \<in> due_set now st" using d p(3) by (auto simp: due_set_def)
      then have "card (due_set now st - {h}) \<le> n"
        using Suc.prems(2) due_set_finite [OF Suc.prems(1)] by (simp add: card_Diff_singleton)
      then have "card (due_set now st2) \<le> n"
        using card_mono [OF _ sub] due_set_finite [OF Suc.prems(1)] by (meson finite_Diff le_trans)
      from Suc.IH [OF st2(2) this] obtain fired st' where r:
        "evtimers_run n now cb st2 = Some (fired, st')" "timer_wf st'" "due_set now st' = {}"
        "distinct fired" "set fired \<subseteq> due_set now st2" "sorted (map (\<lambda>h. the (timers st2 h)) fired)" by blast
      have same: "timers st2 h' = timers st h' \<and> timers st h' \<noteq> None" if "h' \<in> set fired" for h'
        using that r(5) st2(3) p(6) by (fastforce simp: due_set_def hidx_update_frame split: if_splits)
      then have "map (\<lambda>h. the (timers st2 h)) fired = map (\<lambda>h. the (timers st h)) fired" by simp
      with r(6) have "sorted (map (\<lambda>h. the (timers st h)) fired)" by (simp only:)
      moreover have "t \<le> the (timers st h')" if "h' \<in> set fired" for h' using same [OF that] p(4) by auto
      ultimately have "sorted (map (\<lambda>h. the (timers st h)) (h # fired))" using p(3) by simp
      moreover have "evtimers_run (Suc n) now cb st = Some (h # fired, st')"
        using True p(1,2) d st2(1) r(1) by (subst evtimers_run.simps) simp
      ultimately show ?thesis using r sub \<open>h \<in> due_set now st\<close> by (intro exI [of _ "h # fired"]) auto
    qed
  qed
qed

section \<open>Properties\<close>

text \<open>C35. Starting a timeout schedules it for the current time plus the delay, whether or not it was
  pending, cancelling it removes it and nothing else, and neither can fail an assertion.\<close>

theorem evtimer_add_del:
  assumes "timer_wf st" "normal now" "normal t"
  shows "(\<exists>r st'. evtimer_add ok now st h t = Some (r, st') \<and>
      (r \<longrightarrow> timer_wf st' \<and> timers st' = (timers st)(h \<mapsto> addtime now t) \<and>
        nanos (addtime now t) = nanos now + nanos t)) \<and>
    (\<exists>st'. evtimer_del st h = Some st' \<and> timer_wf st' \<and> timers st' = (timers st)(h := None))"
proof -
  obtain r st' where e: "evtimer_add ok now st h t = Some (r, st')"
    using evtimer_add_total [OF assms(1), of ok now h t] by auto
  show ?thesis
    using e evtimer_add_spec [OF assms, of ok h st'] addtime_nanos [OF assms(2,3)]
      evtimer_del_spec [OF assms(1), of h] by (cases r) auto
qed

lemma sample_timer_wf: "timer_wf sample_heap"
  using sample_heap_wf by (auto simp: timer_wf_def timers_def sample_heap_def normal_def split: if_splits)

theorem evtimer_add_del_witness:
  "(\<exists>r st'. evtimer_add True (TS 2 0) sample_heap 8 (TS 1 0) = Some (r, st') \<and>
      (r \<longrightarrow> timer_wf st' \<and> timers st' = (timers sample_heap)(8 \<mapsto> addtime (TS 2 0) (TS 1 0)) \<and>
        nanos (addtime (TS 2 0) (TS 1 0)) = nanos (TS 2 0) + nanos (TS 1 0))) \<and>
    (\<exists>st'. evtimer_del sample_heap 8 = Some st' \<and> timer_wf st' \<and> timers st' = (timers sample_heap)(8 := None))"
  by (rule evtimer_add_del [OF sample_timer_wf]) (simp_all add: normal_def)



end
