(* ===== verification/Stream.thy ===== *)
theory Stream
  imports Prelude
begin

text \<open>
  \<^verbatim>\<open>misc/stream.c\<close>: the files of a torrent read and written as one byte stream. A file of the
  metainfo is its path and length, the disk gives the bytes of every path, and an open descriptor
  is the path it was opened for with the kernel's file position. The kernel's answers are the
  fields of \<open>kernel\<close>: a \<open>read\<close> delivers some bytes, a \<open>write\<close> takes some, each call may fail.
\<close>

type_synonym mfile = "cstr \<times> nat"
type_synonym disk = "cstr \<Rightarrow> byte list"

record kernel =
  k_open :: "cstr \<Rightarrow> errno option"
  k_close :: "cstr \<Rightarrow> errno option"
  k_read :: "disk \<Rightarrow> cstr \<Rightarrow> nat \<Rightarrow> nat \<Rightarrow> errno + byte list"
  k_write :: "cstr \<Rightarrow> nat \<Rightarrow> byte list \<Rightarrow> errno + nat"

record bt_stream =
  bs_files :: "mfile list"
  bs_totlen :: nat
  bs_index :: nat
  bs_t_off :: nat
  bs_f_off :: nat
  bs_fd :: "(cstr \<times> nat) option"

definition bts_open :: "bool \<Rightarrow> mfile list \<Rightarrow> errno + bt_stream" where
  "bts_open ok files =
     (if ok then Inr \<lparr>bs_files = files, bs_totlen = sum_list (map snd files), bs_index = 0,
                      bs_t_off = 0, bs_f_off = 0, bs_fd = None\<rparr>
      else Inl ENOMEM)"

definition bts_close :: "kernel \<Rightarrow> bt_stream \<Rightarrow> errno option" where
  "bts_close k bts = (case bs_fd bts of None \<Rightarrow> None | Some (p, _) \<Rightarrow> k_close k p)"

text \<open>The search for the file of an offset runs over the end of the array if the offset is too big.\<close>

fun seek_file :: "mfile list \<Rightarrow> nat \<Rightarrow> (nat \<times> nat) option" where
  "seek_file [] off = None"
| "seek_file (f # fs) off =
     (if off \<ge> snd f then map_option (\<lambda>(i, o'). (Suc i, o')) (seek_file fs (off - snd f)) else Some (0, off))"

definition bts_seek :: "kernel \<Rightarrow> bt_stream \<Rightarrow> nat \<Rightarrow> (errno option \<times> bt_stream) option" where
  "bts_seek k bts off =
     (if bs_t_off bts = off then Some (None, bts)
      else do {
        let bts1 = bts\<lparr>bs_t_off := off\<rparr>;
        (i, off') \<leftarrow> seek_file (bs_files bts) off;
        let bts2 = bts1\<lparr>bs_index := i, bs_f_off := off'\<rparr>;
        case bs_fd bts of
          None \<Rightarrow> Some (None, bts2)
        | Some (p, _) \<Rightarrow>
            if i \<noteq> bs_index bts
            then (case k_close k p of
                    Some e \<Rightarrow> Some (Some e, bts1)
                  | None \<Rightarrow> Some (None, bts2\<lparr>bs_fd := None\<rparr>))
            else Some (None, bts2\<lparr>bs_fd := Some (p, off')\<rparr>) })"

function skip_empty :: "mfile list \<Rightarrow> nat \<Rightarrow> nat option" where
  "skip_empty files i =
     (if i < length files then if snd (files ! i) = 0 then skip_empty files (i + 1) else Some i else None)"
  by pat_completeness auto
termination
  by (relation "measure (\<lambda>(files, i). length files - i)") auto

declare skip_empty.simps [simp del]

text \<open>The part the loops of \<^verbatim>\<open>bts_get\<close> and \<^verbatim>\<open>bts_put\<close> share: open the current file and go to \<^verbatim>\<open>f_off\<close>.\<close>

definition open_cur :: "kernel \<Rightarrow> bt_stream \<Rightarrow> (errno option \<times> bt_stream) option" where
  "open_cur k bts =
     (case bs_fd bts of
        Some _ \<Rightarrow> Some (None, bts)
      | None \<Rightarrow> do {
          i \<leftarrow> skip_empty (bs_files bts) (bs_index bts);
          let bts1 = bts\<lparr>bs_index := i\<rparr>;
          let p = fst (bs_files bts ! i);
          Some (case k_open k p of
                  Some e \<Rightarrow> (Some e, bts1)
                | None \<Rightarrow> (None, bts1\<lparr>bs_fd := Some (p, bs_f_off bts)\<rparr>)) })"

definition cur_len :: "bt_stream \<Rightarrow> nat" where
  "cur_len bts = snd (bs_files bts ! bs_index bts)"

text \<open>The kernel and the stream move on by \<open>d\<close> bytes.\<close>

definition move :: "bt_stream \<Rightarrow> nat \<Rightarrow> bt_stream" where
  "move bts d = bts\<lparr>bs_f_off := bs_f_off bts + d, bs_t_off := bs_t_off bts + d,
                    bs_fd := map_option (\<lambda>(p, pos). (p, pos + d)) (bs_fd bts)\<rparr>"

definition next_file :: "bt_stream \<Rightarrow> bt_stream" where
  "next_file bts = bts\<lparr>bs_fd := None, bs_f_off := 0, bs_index := bs_index bts + 1\<rparr>"

text \<open>
  A round of the loop of \<^verbatim>\<open>bts_get\<close> either returns (\<open>Inl\<close>) or goes on (\<open>Inr\<close>); \<open>acc\<close> is the filled
  part of the buffer, \<^verbatim>\<open>boff\<close> its length. \<open>n\<close> bounds the number of rounds.
\<close>

definition bts_get_round :: "kernel \<Rightarrow> disk \<Rightarrow> nat \<Rightarrow> byte list \<Rightarrow> bt_stream \<Rightarrow>
    ((errno option \<times> byte list \<times> bt_stream) + (byte list \<times> bt_stream)) option" where
  "bts_get_round k disk len acc bts =
     do {
       (err, bts1) \<leftarrow> open_cur k bts;
       case err of
         Some e \<Rightarrow> Some (Inl (Some e, acc, bts1))
       | None \<Rightarrow> do {
           let wantread = min (len - length acc) (cur_len bts1 - bs_f_off bts1);
           (p, pos) \<leftarrow> bs_fd bts1;
           case k_read k disk p pos wantread of
             Inl e \<Rightarrow> Some (Inl (Some e, acc, bts1))
           | Inr bs \<Rightarrow>
               (let bts2 = move bts1 (length bs);
                    bts3 = (if bs_f_off bts2 = cur_len bts2 then next_file bts2 else bts2)
                in Some (if length bs \<noteq> wantread then Inl (Some ENOENT, acc @ bs, bts3)
                         else Inr (acc @ bs, bts3))) } }"

fun bts_get_loop :: "kernel \<Rightarrow> disk \<Rightarrow> nat \<Rightarrow> nat \<Rightarrow> byte list \<Rightarrow> bt_stream \<Rightarrow> (errno option \<times> byte list \<times> bt_stream) option" where
  "bts_get_loop k disk 0 len acc bts = (if length acc < len then None else Some (None, acc, bts))"
| "bts_get_loop k disk (Suc n) len acc bts =
     (if length acc < len
      then do {
        r \<leftarrow> bts_get_round k disk len acc bts;
        case r of Inl res \<Rightarrow> Some res | Inr (acc', bts') \<Rightarrow> bts_get_loop k disk n len acc' bts' }
      else Some (None, acc, bts))"

definition bts_get :: "kernel \<Rightarrow> disk \<Rightarrow> nat \<Rightarrow> bt_stream \<Rightarrow> nat \<Rightarrow> nat \<Rightarrow> (errno option \<times> byte list \<times> bt_stream) option" where
  "bts_get k disk n bts off len =
     do {
       guard_opt (off + len \<le> bs_totlen bts);
       (err, bts1) \<leftarrow> bts_seek k bts off;
       case err of
         Some e \<Rightarrow> Some (Some e, [], bts1)
       | None \<Rightarrow> bts_get_loop k disk n len [] bts1 }"

text \<open>Writing behind the end of a file fills the gap with zeros.\<close>

definition write_at :: "byte list \<Rightarrow> nat \<Rightarrow> byte list \<Rightarrow> byte list" where
  "write_at c pos bs = take pos (c @ replicate (pos - length c) 0) @ bs @ drop (pos + length bs) c"

definition bts_put_round :: "kernel \<Rightarrow> byte list \<Rightarrow> disk \<Rightarrow> bt_stream \<Rightarrow>
    ((errno option \<times> disk \<times> bt_stream) + (byte list \<times> disk \<times> bt_stream)) option" where
  "bts_put_round k buf disk bts =
     do {
       (err, bts1) \<leftarrow> open_cur k bts;
       case err of
         Some e \<Rightarrow> Some (Inl (Some e, disk, bts1))
       | None \<Rightarrow> do {
           let wantwrite = min (length buf) (cur_len bts1 - bs_f_off bts1);
           (p, pos) \<leftarrow> bs_fd bts1;
           case k_write k p pos (take wantwrite buf) of
             Inl e \<Rightarrow> Some (Inl (Some e, disk, bts1))
           | Inr didwrite \<Rightarrow>
               (let disk' = disk(p := write_at (disk p) pos (take didwrite buf));
                    bts2 = move bts1 didwrite
                in Some (if bs_f_off bts2 = cur_len bts2
                         then (case k_close k p of
                                 Some e \<Rightarrow> Inl (Some e, disk', bts2)
                               | None \<Rightarrow> Inr (drop didwrite buf, disk', next_file bts2))
                         else Inr (drop didwrite buf, disk', bts2))) } }"

fun bts_put_loop :: "kernel \<Rightarrow> nat \<Rightarrow> byte list \<Rightarrow> disk \<Rightarrow> bt_stream \<Rightarrow> (errno option \<times> disk \<times> bt_stream) option" where
  "bts_put_loop k 0 buf disk bts = (if buf \<noteq> [] then None else Some (None, disk, bts))"
| "bts_put_loop k (Suc n) buf disk bts =
     (if buf \<noteq> []
      then do {
        r \<leftarrow> bts_put_round k buf disk bts;
        case r of Inl res \<Rightarrow> Some res | Inr (buf', disk', bts') \<Rightarrow> bts_put_loop k n buf' disk' bts' }
      else Some (None, disk, bts))"

definition bts_put :: "kernel \<Rightarrow> nat \<Rightarrow> disk \<Rightarrow> bt_stream \<Rightarrow> nat \<Rightarrow> byte list \<Rightarrow> (errno option \<times> disk \<times> bt_stream) option" where
  "bts_put k n disk bts off buf =
     do {
       guard_opt (off + length buf \<le> bs_totlen bts);
       (err, bts1) \<leftarrow> bts_seek k bts off;
       case err of
         Some e \<Rightarrow> Some (Some e, disk, bts1)
       | None \<Rightarrow> bts_put_loop k n buf disk bts1 }"

text \<open>The digest is a parameter over the bytes it was fed; \<^verbatim>\<open>SHA1_Final\<close> is reached on errors too.\<close>

definition SHAFILEBUF :: nat where
  "SHAFILEBUF = 32768"

function bts_sha_loop :: "kernel \<Rightarrow> disk \<Rightarrow> nat \<Rightarrow> bt_stream \<Rightarrow> nat \<Rightarrow> nat \<Rightarrow> byte list \<Rightarrow>
    (errno option \<times> byte list \<times> bt_stream) option" where
  "bts_sha_loop k disk n bts start len ctx =
     (if len > 0
      then do {
        let wantread = min len SHAFILEBUF;
        (err, buf, bts1) \<leftarrow> bts_get k disk n bts start wantread;
        if err \<noteq> None then Some (err, ctx, bts1)
        else bts_sha_loop k disk n bts1 (start + wantread) (len - wantread) (ctx @ buf) }
      else Some (None, ctx, bts))"
  by pat_completeness auto
termination
  by (relation "measure (\<lambda>(k, disk, n, bts, start, len, ctx). len)") (auto simp: SHAFILEBUF_def)

declare bts_sha_loop.simps [simp del]

definition bts_sha :: "(byte list \<Rightarrow> byte list) \<Rightarrow> kernel \<Rightarrow> disk \<Rightarrow> nat \<Rightarrow> bt_stream \<Rightarrow> nat \<Rightarrow> nat \<Rightarrow>
    (errno option \<times> byte list \<times> bt_stream) option" where
  "bts_sha sha k disk n bts start len =
     do { (err, ctx, bts1) \<leftarrow> bts_sha_loop k disk n bts start len []; Some (err, sha ctx, bts1) }"

definition bts_filename :: "bt_stream \<Rightarrow> cstr option" where
  "bts_filename bts =
     do { guard_opt (bs_index bts < length (bs_files bts)); Some (fst (bs_files bts ! bs_index bts)) }"

section \<open>Specification: the concatenated files\<close>

text \<open>The byte at a position of the stream: the byte of the file that covers it, if the file is that long.\<close>

fun byte_at :: "disk \<Rightarrow> mfile list \<Rightarrow> nat \<Rightarrow> byte option" where
  "byte_at disk [] pos = None"
| "byte_at disk (f # fs) pos =
     (if pos < snd f then if pos < length (disk (fst f)) then Some (disk (fst f) ! pos) else None
      else byte_at disk fs (pos - snd f))"

lemma byte_at_Cons:
  "byte_at disk (f # fs) pos =
     (if pos < snd f then if pos < length (disk (fst f)) then Some (disk (fst f) ! pos) else None
      else byte_at disk fs (pos - snd f))"
  by (rule byte_at.simps(2))

declare byte_at.simps(2) [simp del] byte_at_Cons [simp]

text \<open>What the kernel documents: a read delivers bytes that are in the file, at most as many as asked for.\<close>

definition kernel_ok :: "kernel \<Rightarrow> bool" where
  "kernel_ok k \<longleftrightarrow>
     (\<forall>disk p pos n bs. k_read k disk p pos n = Inr bs \<longrightarrow>
        length bs \<le> n \<and> bs = take (length bs) (drop pos (disk p))) \<and>
     (\<forall>p pos bs n. k_write k p pos bs = Inr n \<longrightarrow> n \<le> length bs)"

abbreviation file_start :: "mfile list \<Rightarrow> nat \<Rightarrow> nat" where
  "file_start files i \<equiv> sum_list (map snd (take i files))"

definition stream_wf :: "bt_stream \<Rightarrow> bool" where
  "stream_wf bts \<longleftrightarrow> bs_totlen bts = sum_list (map snd (bs_files bts)) \<and>
     bs_index bts \<le> length (bs_files bts) \<and>
     bs_t_off bts = file_start (bs_files bts) (bs_index bts) + bs_f_off bts \<and>
     (if bs_index bts < length (bs_files bts) then bs_f_off bts < cur_len bts \<or> bs_f_off bts = 0 else bs_f_off bts = 0) \<and>
     (case bs_fd bts of None \<Rightarrow> True
      | Some (p, pos) \<Rightarrow> bs_index bts < length (bs_files bts) \<and> p = fst (bs_files bts ! bs_index bts) \<and>
          pos = bs_f_off bts \<and> bs_f_off bts < cur_len bts)"

lemma stream_wf_open: "bts_open ok files = Inr bts \<Longrightarrow> stream_wf bts"
  by (auto simp: bts_open_def stream_wf_def split: if_splits)

lemma seek_file_spec:
  "seek_file files off = Some (i, o') \<Longrightarrow>
     i < length files \<and> o' < snd (files ! i) \<and> off = file_start files i + o'"
  by (induction files off arbitrary: i o' rule: seek_file.induct) (auto split: if_splits prod.splits)

lemma seek_file_total: "off < sum_list (map snd files) \<Longrightarrow> seek_file files off \<noteq> None"
proof (induction files off rule: seek_file.induct)
  case (2 f fs off)
  show ?case
  proof (cases "snd f \<le> off")
    case True
    with "2.prems" have "off - snd f < sum_list (map snd fs)" by simp
    with "2.IH" True show ?thesis by auto
  qed simp
qed simp

lemma skip_empty_spec:
  "skip_empty files i = Some j \<Longrightarrow>
     j < length files \<and> 0 < snd (files ! j) \<and> file_start files j = file_start files i \<and> i \<le> j \<and>
     (0 < snd (files ! i) \<longrightarrow> i = j)"
proof (induction files i rule: skip_empty.induct)
  case (1 files i)
  show ?case
  proof (cases "i < length files \<and> snd (files ! i) = 0")
    case True
    with "1.prems" have "skip_empty files (i + 1) = Some j" by (subst (asm) skip_empty.simps) simp
    with "1.IH" True show ?thesis by (simp add: take_Suc_conv_app_nth)
  next
    case False
    with "1.prems" show ?thesis by (subst (asm) skip_empty.simps) (auto split: if_splits)
  qed
qed

lemma skip_empty_total:
  "file_start files i < sum_list (map snd files) \<Longrightarrow> skip_empty files i \<noteq> None"
proof (induction files i rule: skip_empty.induct)
  case (1 files i)
  have "i < length files" using "1.prems" by (rule contrapos_pp) simp
  with 1 show ?case by (subst skip_empty.simps) (auto simp: take_Suc_conv_app_nth)
qed

lemma byte_at_file:
  "i < length files \<Longrightarrow> x < snd (files ! i) \<Longrightarrow>
     byte_at disk files (file_start files i + x) =
       (if x < length (disk (fst (files ! i))) then Some (disk (fst (files ! i)) ! x) else None)"
proof (induction files arbitrary: i)
  case (Cons f files)
  then show ?case by (cases i) auto
qed simp

lemma bts_seek_spec:
  assumes "stream_wf bts" "bts_seek k bts off = Some (None, bts')"
  shows "stream_wf bts' \<and> bs_files bts' = bs_files bts \<and> bs_t_off bts' = off"
proof (cases "bs_t_off bts = off")
  case False
  with assms(2) obtain i o' where s: "seek_file (bs_files bts) off = Some (i, o')"
    by (auto simp: bts_seek_def bind_Some_iff Let_def)
  note sp = seek_file_spec [OF s]
  let ?b = "bts\<lparr>bs_t_off := off, bs_index := i, bs_f_off := o'\<rparr>"
  from assms(1) have w: "bs_totlen bts = sum_list (map snd (bs_files bts))" by (simp add: stream_wf_def)
  show ?thesis
  proof (cases "bs_fd bts")
    case None
    with assms(2) False s have "bts' = ?b" by (simp add: bts_seek_def Let_def)
    with None sp w show ?thesis by (simp add: stream_wf_def cur_len_def)
  next
    case (Some fd)
    obtain p pos where fd: "fd = (p, pos)" by force
    show ?thesis
    proof (cases "i = bs_index bts")
      case True
      with assms(2) False s Some fd have "bts' = ?b\<lparr>bs_fd := Some (p, o')\<rparr>"
        by (simp add: bts_seek_def Let_def)
      moreover have "p = fst (bs_files bts ! i)" using assms(1) Some fd True by (simp add: stream_wf_def)
      ultimately show ?thesis using sp w by (simp add: stream_wf_def cur_len_def)
    next
      case ne: False
      with assms(2) False s Some fd have "bts' = ?b\<lparr>bs_fd := None\<rparr>"
        by (simp add: bts_seek_def Let_def split: option.splits)
      then show ?thesis using sp w by (simp add: stream_wf_def cur_len_def)
    qed
  qed
qed (use assms in \<open>simp add: bts_seek_def\<close>)

lemma open_cur_spec:
  assumes "stream_wf bts" "open_cur k bts = Some (None, bts')"
  shows "stream_wf bts' \<and> bs_files bts' = bs_files bts \<and> bs_t_off bts' = bs_t_off bts \<and>
    bs_fd bts' = Some (fst (bs_files bts ! bs_index bts'), bs_f_off bts') \<and>
    bs_index bts' < length (bs_files bts) \<and> bs_f_off bts' < cur_len bts'"
proof (cases "bs_fd bts")
  case None
  with assms(2) obtain i where i: "skip_empty (bs_files bts) (bs_index bts) = Some i"
    by (auto simp: open_cur_def bind_Some_iff)
  note sp = skip_empty_spec [OF i]
  have "bs_f_off bts < snd (bs_files bts ! i)"
  proof (cases "bs_f_off bts = 0")
    case False
    with assms(1) have lt: "bs_f_off bts < snd (bs_files bts ! bs_index bts)"
      by (simp add: stream_wf_def cur_len_def split: if_splits)
    then have "bs_index bts = i" using sp by (metis gr_zeroI not_less0)
    with lt show ?thesis by metis
  qed (use sp in simp)
  moreover have "bts' = bts\<lparr>bs_index := i, bs_fd := Some (fst (bs_files bts ! i), bs_f_off bts)\<rparr>"
    using assms(2) None i by (simp add: open_cur_def Let_def split: option.splits)
  moreover have "bs_totlen bts = sum_list (map snd (bs_files bts))"
    "bs_t_off bts = file_start (bs_files bts) (bs_index bts) + bs_f_off bts"
    using assms(1) by (simp_all add: stream_wf_def)
  ultimately show ?thesis using sp by (simp add: stream_wf_def cur_len_def)
next
  case (Some a)
  with assms(2) have "bts' = bts" by (simp add: open_cur_def)
  with assms(1) Some show ?thesis by (cases a) (simp add: stream_wf_def)
qed

text \<open>Moving inside the current file and stepping to the next one at its end keeps the stream well formed.\<close>

definition step_file :: "bt_stream \<Rightarrow> nat \<Rightarrow> bt_stream" where
  "step_file bts d = (let b = move bts d in if bs_f_off b = cur_len b then next_file b else b)"

lemma step_file_spec:
  assumes "stream_wf bts" "bs_fd bts \<noteq> None" "bs_f_off bts + d \<le> cur_len bts"
  shows "stream_wf (step_file bts d) \<and> bs_files (step_file bts d) = bs_files bts \<and>
    bs_t_off (step_file bts d) = bs_t_off bts + d"
proof -
  obtain p pos where fd: "bs_fd bts = Some (p, pos)" using assms(2) by auto
  from assms(1) fd have w: "bs_totlen bts = sum_list (map snd (bs_files bts))" "bs_index bts < length (bs_files bts)"
    "bs_t_off bts = file_start (bs_files bts) (bs_index bts) + bs_f_off bts"
    "p = fst (bs_files bts ! bs_index bts)" "pos = bs_f_off bts" by (simp_all add: stream_wf_def)
  show ?thesis
  proof (cases "bs_f_off bts + d = cur_len bts")
    case True
    then have "step_file bts d = next_file (move bts d)" by (simp add: step_file_def move_def cur_len_def)
    with w True show ?thesis
      by (simp add: stream_wf_def move_def next_file_def cur_len_def take_Suc_conv_app_nth)
  next
    case False
    then have "step_file bts d = move bts d" by (simp add: step_file_def move_def cur_len_def)
    with w False fd assms(3) show ?thesis by (simp add: stream_wf_def move_def cur_len_def)
  qed
qed

section \<open>Reading\<close>

lemma bts_get_round_spec:
  assumes wf: "stream_wf bts" and k: "kernel_ok k" and len: "length acc < len"
    and r: "bts_get_round k disk len acc bts = Some (Inr (acc', bts'))"
  shows "\<exists>bs. acc' = acc @ bs \<and> length acc' \<le> len \<and> stream_wf bts' \<and> bs_files bts' = bs_files bts \<and>
    bs_t_off bts' = bs_t_off bts + length bs \<and>
    (\<forall>x < length bs. byte_at disk (bs_files bts) (bs_t_off bts + x) = Some (bs ! x))"
proof -
  from r obtain bts1 where o: "open_cur k bts = Some (None, bts1)"
    by (auto simp: bts_get_round_def bind_Some_iff split: option.splits)
  note os = open_cur_spec [OF wf o]
  let ?i = "bs_index bts1" and ?off = "bs_f_off bts1" and ?files = "bs_files bts"
  let ?p = "fst (?files ! ?i)" and ?want = "min (len - length acc) (cur_len bts1 - bs_f_off bts1)"
  from r o os obtain bs where bs: "k_read k disk ?p ?off ?want = Inr bs" "length bs = ?want"
    "acc' = acc @ bs" "bts' = step_file bts1 (length bs)"
    by (cases "k_read k disk ?p ?off ?want") (simp_all add: bts_get_round_def step_file_def Let_def split: if_split_asm)
  from k bs(1) have data: "bs = take (length bs) (drop ?off (disk ?p))" unfolding kernel_ok_def by blast
  from os have st: "bs_t_off bts = file_start ?files ?i + ?off" by (auto simp: stream_wf_def)
  have "byte_at disk ?files (bs_t_off bts + x) = Some (bs ! x)" if x: "x < length bs" for x
  proof -
    have "length bs \<le> length (drop ?off (disk ?p))" by (subst data) simp
    then have l: "?off + x < length (disk ?p)" using x by simp
    have "?off + x < cur_len bts1" using x bs(2) by linarith
    then have "?off + x < snd (?files ! ?i)" using os by (simp add: cur_len_def)
    then have "byte_at disk ?files (file_start ?files ?i + (?off + x)) = Some (disk ?p ! (?off + x))"
      using byte_at_file [of ?i ?files "?off + x" disk] os l by simp
    moreover have "bs ! x = disk ?p ! (?off + x)" using x l by (subst data) simp
    ultimately show ?thesis by (simp add: st add.assoc)
  qed
  moreover have "?off < cur_len bts1" using os by simp
  then have "?off + length bs \<le> cur_len bts1" using bs(2) by linarith
  ultimately show ?thesis
    using step_file_spec [of bts1 "length bs"] os bs len by auto
qed

lemma bts_get_round_error: "bts_get_round k disk len acc bts = Some (Inl (err, r)) \<Longrightarrow> err \<noteq> None"
proof (cases "open_cur k bts")
  case (Some res)
  obtain e1 b where o: "res = (e1, b)" by force
  assume r: "bts_get_round k disk len acc bts = Some (Inl (err, r))"
  show "err \<noteq> None"
  proof (cases e1)
    case None
    with r Some o obtain a ba where fd: "bs_fd b = Some (a, ba)"
      by (cases "bs_fd b") (auto simp: bts_get_round_def)
    with r Some o None show ?thesis
      by (cases "k_read k disk a ba (min (len - length acc) (cur_len b - bs_f_off b))")
        (auto simp: bts_get_round_def Let_def split: if_split_asm option.split_asm)
  qed (use r Some o in \<open>auto simp: bts_get_round_def\<close>)
qed (simp add: bts_get_round_def)

lemma bts_get_loop_spec:
  "stream_wf bts \<Longrightarrow> kernel_ok k \<Longrightarrow> length acc \<le> len \<Longrightarrow>
   bts_get_loop k disk n len acc bts = Some (None, buf, bts') \<Longrightarrow>
     \<exists>bs. buf = acc @ bs \<and> length buf = len \<and> stream_wf bts' \<and> bs_files bts' = bs_files bts \<and>
       bs_t_off bts' = bs_t_off bts + length bs \<and>
       (\<forall>x < length bs. byte_at disk (bs_files bts) (bs_t_off bts + x) = Some (bs ! x))"
proof (induction n arbitrary: acc bts)
  case 0
  then show ?case by (auto split: if_splits)
next
  case (Suc n)
  show ?case
  proof (cases "length acc < len")
    case False
    with Suc.prems show ?thesis by auto
  next
    case True
    with Suc.prems(4) obtain r where r: "bts_get_round k disk len acc bts = Some r"
      "(case r of Inl res \<Rightarrow> Some res | Inr (acc', bts1) \<Rightarrow> bts_get_loop k disk n len acc' bts1) = Some (None, buf, bts')"
      by (auto simp: bind_Some_iff)
    with bts_get_round_error obtain acc' bts1 where r': "r = Inr (acc', bts1)"
      by (cases r) fastforce+
    with r(1) bts_get_round_spec [OF Suc.prems(1,2) True] obtain bs1 where b1: "acc' = acc @ bs1"
      "length acc' \<le> len" "stream_wf bts1" "bs_files bts1 = bs_files bts" "bs_t_off bts1 = bs_t_off bts + length bs1"
      "\<forall>x < length bs1. byte_at disk (bs_files bts) (bs_t_off bts + x) = Some (bs1 ! x)" by metis
    from r(2) r' have "bts_get_loop k disk n len acc' bts1 = Some (None, buf, bts')" by simp
    from Suc.IH [OF b1(3) Suc.prems(2) b1(2) this] obtain bs2 where b2: "buf = acc' @ bs2" "length buf = len"
      "stream_wf bts'" "bs_files bts' = bs_files bts1" "bs_t_off bts' = bs_t_off bts1 + length bs2"
      "\<forall>x < length bs2. byte_at disk (bs_files bts1) (bs_t_off bts1 + x) = Some (bs2 ! x)" by blast
    have "byte_at disk (bs_files bts) (bs_t_off bts + x) = Some ((bs1 @ bs2) ! x)" if "x < length (bs1 @ bs2)" for x
    proof (cases "x < length bs1")
      case True
      with b1(6) show ?thesis by (simp add: nth_append)
    next
      case False
      with that b2(6) [rule_format, of "x - length bs1"] b1(4,5) show ?thesis by (simp add: nth_append)
    qed
    with b1 b2 show ?thesis by (intro exI [of _ "bs1 @ bs2"]) auto
  qed
qed

lemma bts_get_spec:
  assumes "stream_wf bts" "kernel_ok k" "bts_get k disk n bts off len = Some (None, buf, bts')"
  shows "length buf = len \<and> stream_wf bts' \<and> bs_files bts' = bs_files bts \<and>
    (\<forall>x < len. byte_at disk (bs_files bts) (off + x) = Some (buf ! x))"
proof -
  from assms(3) obtain bts1 where s: "bts_seek k bts off = Some (None, bts1)"
    "bts_get_loop k disk n len [] bts1 = Some (None, buf, bts')"
    by (auto simp: bts_get_def bind_Some_iff split: option.splits if_splits)
  note ss = bts_seek_spec [OF assms(1) s(1)]
  from bts_get_loop_spec [OF _ assms(2) _ s(2)] ss show ?thesis by auto
qed

text \<open>A kernel that opens, closes and reads without error, and files as long as the metainfo says.\<close>

definition kernel_full :: "kernel \<Rightarrow> bool" where
  "kernel_full k \<longleftrightarrow> (\<forall>p. k_open k p = None) \<and> (\<forall>p. k_close k p = None) \<and>
     (\<forall>disk p pos n. k_read k disk p pos n = Inr (take n (drop pos (disk p)))) \<and>
     (\<forall>p pos bs. k_write k p pos bs = Inr (length bs))"

lemma kernel_full_ok: "kernel_full k \<Longrightarrow> kernel_ok k"
  by (auto simp: kernel_full_def kernel_ok_def min_def)

definition files_complete :: "disk \<Rightarrow> mfile list \<Rightarrow> bool" where
  "files_complete disk files \<longleftrightarrow> (\<forall>f \<in> set files. snd f \<le> length (disk (fst f)))"

lemma open_cur_full:
  assumes "stream_wf bts" "kernel_full k" "bs_t_off bts < bs_totlen bts"
  shows "\<exists>bts'. open_cur k bts = Some (None, bts')"
proof (cases "bs_fd bts")
  case None
  have "file_start (bs_files bts) (bs_index bts) < sum_list (map snd (bs_files bts))"
    using assms(1,3) by (auto simp: stream_wf_def)
  with skip_empty_total obtain i where "skip_empty (bs_files bts) (bs_index bts) = Some i" by blast
  with None assms(2) show ?thesis by (auto simp: open_cur_def kernel_full_def)
qed (simp add: open_cur_def)

lemma bts_get_round_full:
  assumes "stream_wf bts" "kernel_full k" "files_complete disk (bs_files bts)" "length acc < len"
    "bs_t_off bts + (len - length acc) \<le> bs_totlen bts"
  shows "\<exists>bs bts'. bts_get_round k disk len acc bts = Some (Inr (acc @ bs, bts')) \<and> bs \<noteq> []"
proof -
  from assms(4,5) have "bs_t_off bts < bs_totlen bts" by simp
  from open_cur_full [OF assms(1,2) this] obtain bts1 where o: "open_cur k bts = Some (None, bts1)" by blast
  note os = open_cur_spec [OF assms(1) o]
  let ?i = "bs_index bts1" and ?off = "bs_f_off bts1"
  let ?p = "fst (bs_files bts ! ?i)" and ?want = "min (len - length acc) (cur_len bts1 - bs_f_off bts1)"
  have "bs_files bts ! ?i \<in> set (bs_files bts)" using os by simp
  with assms(3) have "cur_len bts1 \<le> length (disk ?p)" using os by (auto simp: files_complete_def cur_len_def)
  then have "length (take ?want (drop ?off (disk ?p))) = ?want" by simp
  moreover have "0 < ?want" using assms(4) os by simp
  moreover from this calculation have "take ?want (drop ?off (disk ?p)) \<noteq> []" by (metis length_0_conv less_numeral_extra(3))
  ultimately show ?thesis
    using o os assms(2) by (simp add: bts_get_round_def kernel_full_def Let_def)
qed

lemma bts_get_loop_full:
  "stream_wf bts \<Longrightarrow> kernel_full k \<Longrightarrow> files_complete disk (bs_files bts) \<Longrightarrow> length acc \<le> len \<Longrightarrow>
   bs_t_off bts + (len - length acc) \<le> bs_totlen bts \<Longrightarrow> len - length acc \<le> n \<Longrightarrow>
     \<exists>buf bts'. bts_get_loop k disk n len acc bts = Some (None, buf, bts')"
proof (induction n arbitrary: acc bts)
  case (Suc n)
  show ?case
  proof (cases "length acc < len")
    case True
    from bts_get_round_full [OF Suc.prems(1-3) True Suc.prems(5)] obtain bs bts1 where
      r: "bts_get_round k disk len acc bts = Some (Inr (acc @ bs, bts1))" "bs \<noteq> []" by blast
    from bts_get_round_spec [OF Suc.prems(1) kernel_full_ok [OF Suc.prems(2)] True r(1)]
    have s: "length (acc @ bs) \<le> len" "stream_wf bts1" "bs_files bts1 = bs_files bts"
      "bs_t_off bts1 = bs_t_off bts + length bs" by auto
    have tot: "bs_totlen bts1 = bs_totlen bts" using s(2,3) Suc.prems(1) by (simp add: stream_wf_def)
    have "\<exists>buf bts'. bts_get_loop k disk n len (acc @ bs) bts1 = Some (None, buf, bts')"
    proof (rule Suc.IH [OF s(2) Suc.prems(2)])
      show "files_complete disk (bs_files bts1)" using Suc.prems(3) s(3) by simp
      show "len - length (acc @ bs) \<le> n" using r(2) Suc.prems(6) True by (cases bs) auto
    qed (use s tot Suc.prems(5) in auto)
    with r(1) True show ?thesis by simp
  qed simp
qed simp

section \<open>Writing\<close>

lemma length_write_at: "length (write_at c pos bs) = max (length c) (pos + length bs)"
  by (simp add: write_at_def)

lemma nth_write_at:
  "x < length (write_at c pos bs) \<Longrightarrow>
     write_at c pos bs ! x =
       (if pos \<le> x \<and> x < pos + length bs then bs ! (x - pos) else if x < length c then c ! x else 0)"
proof -
  define pre where "pre = take pos (c @ replicate (pos - length c) 0)"
  assume "x < length (write_at c pos bs)"
  have pre: "length pre = pos" "\<And>y. y < pos \<Longrightarrow> pre ! y = (if y < length c then c ! y else 0)"
    by (simp_all add: nth_append pre_def)
  have w: "write_at c pos bs = pre @ bs @ drop (pos + length bs) c" by (simp add: write_at_def pre_def)
  show ?thesis
  proof (cases "x < pos")
    case True
    then show ?thesis unfolding w using pre by (simp add: nth_append)
  next
    case False
    then have "write_at c pos bs ! x = (bs @ drop (pos + length bs) c) ! (x - pos)"
      unfolding w using pre(1) by (simp add: nth_append)
    with False \<open>x < length (write_at c pos bs)\<close> show ?thesis
      by (auto simp: nth_append length_write_at)
  qed
qed

lemma byte_at_other:
  "\<forall>f \<in> set files. fst f \<noteq> p \<Longrightarrow> byte_at (disk(p := c)) files pos = byte_at disk files pos"
  by (induction files arbitrary: pos) auto

lemma byte_at_update:
  "distinct (map fst files) \<Longrightarrow> i < length files \<Longrightarrow> fst (files ! i) = p \<Longrightarrow>
   byte_at (disk(p := c)) files pos =
     (if file_start files i \<le> pos \<and> pos < file_start files i + snd (files ! i)
      then let x = pos - file_start files i in if x < length c then Some (c ! x) else None
      else byte_at disk files pos)"
proof (induction files arbitrary: i pos)
  case (Cons f files)
  show ?case
  proof (cases i)
    case 0
    with Cons.prems have "p = fst f" "fst f \<notin> fst ` set files" by simp_all
    then have "\<forall>g \<in> set files. fst g \<noteq> p" by (metis imageI)
    note other = byte_at_other [OF this, of disk c "pos - snd f"]
    show ?thesis
    proof (cases "pos < snd f")
      case False
      then have "byte_at (disk(p := c)) (f # files) pos = byte_at disk (f # files) pos"
        using other by (simp only: byte_at_Cons if_False)
      moreover have "\<not> (file_start (f # files) i \<le> pos \<and> pos < file_start (f # files) i + snd ((f # files) ! i))"
        using False 0 by simp
      ultimately show ?thesis by (simp only: if_False)
    qed (use 0 Cons.prems in \<open>simp add: Let_def\<close>)
  next
    case (Suc i')
    with Cons.prems have ne: "fst f \<noteq> p" by auto
    have ih: "byte_at (disk(p := c)) files (pos - snd f) =
      (if file_start files i' \<le> pos - snd f \<and> pos - snd f < file_start files i' + snd (files ! i')
       then let x = pos - snd f - file_start files i' in if x < length c then Some (c ! x) else None
       else byte_at disk files (pos - snd f))"
      using Cons.prems Suc by (intro Cons.IH) auto
    show ?thesis unfolding byte_at_Cons ih using Suc ne by (auto simp: Let_def)
  qed
qed simp

text \<open>\<open>stored d d' files off bs\<close>: on disk \<open>d'\<close> the stream holds \<open>bs\<close> at \<open>off\<close>, and elsewhere what \<open>d\<close> held.\<close>

definition stored :: "disk \<Rightarrow> disk \<Rightarrow> mfile list \<Rightarrow> nat \<Rightarrow> byte list \<Rightarrow> bool" where
  "stored d d' files off bs \<longleftrightarrow>
     (\<forall>x < length bs. byte_at d' files (off + x) = Some (bs ! x)) \<and>
     (\<forall>pos b. byte_at d files pos = Some b \<longrightarrow> pos < off \<or> off + length bs \<le> pos \<longrightarrow> byte_at d' files pos = Some b)"

lemma stored_write:
  assumes "distinct (map fst files)" "i < length files" "p = fst (files ! i)"
    "pos + length bs \<le> snd (files ! i)"
  shows "stored d (d(p := write_at (d p) pos bs)) files (file_start files i + pos) bs"
proof -
  note upd = byte_at_update [OF assms(1,2) assms(3) [symmetric], of d "write_at (d p) pos bs"]
  have "byte_at (d(p := write_at (d p) pos bs)) files (file_start files i + pos + x) = Some (bs ! x)"
    if "x < length bs" for x
    unfolding upd using that assms(4) by (simp add: length_write_at nth_write_at Let_def)
  moreover have "byte_at (d(p := write_at (d p) pos bs)) files q = Some b"
    if q: "byte_at d files q = Some b" "q < file_start files i + pos \<or> file_start files i + pos + length bs \<le> q" for q b
  proof (cases "file_start files i \<le> q \<and> q < file_start files i + snd (files ! i)")
    case True
    then obtain y where y: "q = file_start files i + y" "y < snd (files ! i)"
      by (metis add_less_cancel_left le_add_diff_inverse)
    with q(1) assms have "y < length (d p)" "b = d p ! y"
      using byte_at_file [of i files y d] by (auto split: if_splits)
    with y q(2) show ?thesis unfolding upd by (auto simp: length_write_at nth_write_at Let_def)
  next
    case False
    with q(1) show ?thesis unfolding upd by auto
  qed
  ultimately show ?thesis by (simp add: stored_def)
qed

lemma stored_trans:
  assumes "stored d d1 files off bs" "stored d1 d2 files (off + length bs) cs"
  shows "stored d d2 files off (bs @ cs)"
  unfolding stored_def
proof (intro conjI allI impI)
  fix x assume x: "x < length (bs @ cs)"
  show "byte_at d2 files (off + x) = Some ((bs @ cs) ! x)"
  proof (cases "x < length bs")
    case True
    with assms show ?thesis by (simp add: stored_def nth_append)
  next
    case False
    with x have "x - length bs < length cs" "off + x = off + length bs + (x - length bs)" by auto
    moreover from this(1) assms(2)
    have "byte_at d2 files (off + length bs + (x - length bs)) = Some (cs ! (x - length bs))"
      unfolding stored_def by blast
    ultimately show ?thesis using False by (simp add: nth_append)
  qed
next
  fix pos b assume p: "byte_at d files pos = Some b" "pos < off \<or> off + length (bs @ cs) \<le> pos"
  from p(2) have c: "pos < off \<or> off + length bs \<le> pos"
    "pos < off + length bs \<or> off + length bs + length cs \<le> pos" by auto
  from assms(1) p(1) c(1) have "byte_at d1 files pos = Some b" unfolding stored_def by blast
  with assms(2) c(2) show "byte_at d2 files pos = Some b" unfolding stored_def by blast
qed

lemma bts_put_round_spec:
  assumes wf: "stream_wf bts" and k: "kernel_ok k" and d: "distinct (map fst (bs_files bts))"
    and r: "bts_put_round k buf disk bts = Some (Inr (buf', disk', bts'))"
  shows "\<exists>bs. buf = bs @ buf' \<and> stream_wf bts' \<and> bs_files bts' = bs_files bts \<and>
    bs_t_off bts' = bs_t_off bts + length bs \<and> stored disk disk' (bs_files bts) (bs_t_off bts) bs"
proof -
  from r obtain bts1 where o: "open_cur k bts = Some (None, bts1)"
    by (auto simp: bts_put_round_def bind_Some_iff split: option.splits)
  note os = open_cur_spec [OF wf o]
  let ?i = "bs_index bts1" and ?off = "bs_f_off bts1" and ?files = "bs_files bts"
  let ?p = "fst (?files ! ?i)" and ?want = "min (length buf) (cur_len bts1 - bs_f_off bts1)"
  from r o os obtain n where n: "k_write k ?p ?off (take ?want buf) = Inr n"
    "buf' = drop n buf" "disk' = disk(?p := write_at (disk ?p) ?off (take n buf))" "bts' = step_file bts1 n"
    by (cases "k_write k ?p ?off (take ?want buf)"; cases "k_close k ?p")
      (simp_all add: bts_put_round_def step_file_def Let_def split: if_split_asm)
  from k n(1) have "n \<le> length (take ?want buf)" unfolding kernel_ok_def by blast
  then have n': "n \<le> length buf" "?off + n \<le> cur_len bts1" using os by auto
  have "bs_t_off bts = file_start ?files ?i + ?off" using os by (auto simp: stream_wf_def)
  moreover have "stored disk disk' ?files (file_start ?files ?i + ?off) (take n buf)"
    unfolding n(3) by (rule stored_write [OF d _ refl]) (use os n' in \<open>auto simp: cur_len_def\<close>)
  ultimately show ?thesis
    using step_file_spec [of bts1 n] os n n' by (intro exI [of _ "take n buf"]) auto
qed

lemma bts_put_round_error: "bts_put_round k buf disk bts = Some (Inl (err, r)) \<Longrightarrow> err \<noteq> None"
proof (cases "open_cur k bts")
  case (Some res)
  obtain e1 b where o: "res = (e1, b)" by force
  assume r: "bts_put_round k buf disk bts = Some (Inl (err, r))"
  show "err \<noteq> None"
  proof (cases e1)
    case None
    with r Some o obtain a ba where fd: "bs_fd b = Some (a, ba)"
      by (cases "bs_fd b") (auto simp: bts_put_round_def)
    with r Some o None show ?thesis
      by (cases "k_write k a ba (take (min (length buf) (cur_len b - bs_f_off b)) buf)"; cases "k_close k a")
        (auto simp: bts_put_round_def Let_def split: if_split_asm, metis)
  qed (use r Some o in \<open>auto simp: bts_put_round_def\<close>)
qed (simp add: bts_put_round_def)

lemma stored_nil: "stored d d files off []"
  by (simp add: stored_def)

lemma bts_put_loop_spec:
  "stream_wf bts \<Longrightarrow> kernel_ok k \<Longrightarrow> distinct (map fst (bs_files bts)) \<Longrightarrow>
   bts_put_loop k n buf disk bts = Some (None, disk', bts') \<Longrightarrow>
     stream_wf bts' \<and> bs_files bts' = bs_files bts \<and> stored disk disk' (bs_files bts) (bs_t_off bts) buf"
proof (induction n arbitrary: buf disk bts)
  case 0
  then show ?case by (auto split: if_splits simp: stored_nil)
next
  case (Suc n)
  show ?case
  proof (cases "buf = []")
    case True
    with Suc.prems show ?thesis by (simp add: stored_nil)
  next
    case False
    with Suc.prems(4) obtain r where r: "bts_put_round k buf disk bts = Some r"
      "(case r of Inl res \<Rightarrow> Some res | Inr (buf1, disk1, bts1) \<Rightarrow> bts_put_loop k n buf1 disk1 bts1) = Some (None, disk', bts')"
      by (auto simp: bind_Some_iff)
    with bts_put_round_error obtain buf1 disk1 bts1 where r': "r = Inr (buf1, disk1, bts1)"
      by (cases r) fastforce+
    with r(1) bts_put_round_spec [OF Suc.prems(1-3)] obtain bs where b: "buf = bs @ buf1" "stream_wf bts1"
      "bs_files bts1 = bs_files bts" "bs_t_off bts1 = bs_t_off bts + length bs"
      "stored disk disk1 (bs_files bts) (bs_t_off bts) bs" by metis
    from r(2) r' have l: "bts_put_loop k n buf1 disk1 bts1 = Some (None, disk', bts')" by simp
    from Suc.IH [OF b(2) Suc.prems(2) _ l] b(3) Suc.prems(3)
    have ih: "stream_wf bts'" "bs_files bts' = bs_files bts" "stored disk1 disk' (bs_files bts) (bs_t_off bts1) buf1" by simp_all
    with stored_trans [OF b(5)] b(1,4) show ?thesis by simp
  qed
qed

lemma bts_put_spec:
  assumes "stream_wf bts" "kernel_ok k" "distinct (map fst (bs_files bts))"
    "bts_put k n disk bts off buf = Some (None, disk', bts')"
  shows "stream_wf bts' \<and> bs_files bts' = bs_files bts \<and> stored disk disk' (bs_files bts) off buf"
proof -
  from assms(4) obtain bts1 where s: "bts_seek k bts off = Some (None, bts1)"
    "bts_put_loop k n buf disk bts1 = Some (None, disk', bts')"
    by (auto simp: bts_put_def bind_Some_iff split: option.splits if_splits)
  note ss = bts_seek_spec [OF assms(1) s(1)]
  with bts_put_loop_spec [OF _ assms(2) _ s(2)] assms(3) show ?thesis by simp
qed

section \<open>Hashing\<close>

lemma bts_sha_loop_spec:
  "stream_wf bts \<Longrightarrow> kernel_ok k \<Longrightarrow> bts_sha_loop k disk n bts start len ctx = Some (None, ctx', bts') \<Longrightarrow>
     \<exists>bs. ctx' = ctx @ bs \<and> length bs = len \<and>
       (\<forall>x < len. byte_at disk (bs_files bts) (start + x) = Some (bs ! x))"
proof (induction k disk n bts start len ctx arbitrary: ctx' bts' rule: bts_sha_loop.induct)
  case (1 k disk n bts start len ctx)
  show ?case
  proof (cases "len > 0")
    case False
    with "1.prems"(3) show ?thesis by (subst (asm) bts_sha_loop.simps) simp
  next
    case True
    let ?w = "min len SHAFILEBUF"
    from "1.prems"(3) True obtain buf bts1 where g: "bts_get k disk n bts start ?w = Some (None, buf, bts1)"
      "bts_sha_loop k disk n bts1 (start + ?w) (len - ?w) (ctx @ buf) = Some (None, ctx', bts')"
      by (subst (asm) bts_sha_loop.simps) (auto simp: bind_Some_iff Let_def split: if_split_asm)
    note gs = bts_get_spec [OF "1.prems"(1,2) g(1)]
    from "1.IH" [OF True refl g(1) refl refl _ _ "1.prems"(2) g(2)] gs obtain bs where bs: "ctx' = (ctx @ buf) @ bs"
      "length bs = len - ?w" "\<forall>x < len - ?w. byte_at disk (bs_files bts) (start + ?w + x) = Some (bs ! x)" by auto
    have "byte_at disk (bs_files bts) (start + x) = Some ((buf @ bs) ! x)" if "x < len" for x
    proof (cases "x < ?w")
      case True
      with gs show ?thesis by (simp add: nth_append)
    next
      case False
      then have "x - ?w < len - ?w" "start + x = start + ?w + (x - ?w)" using that by auto
      with bs(3) have "byte_at disk (bs_files bts) (start + x) = Some (bs ! (x - ?w))" by metis
      then show ?thesis using False gs by (auto simp: nth_append)
    qed
    with bs gs show ?thesis by (intro exI [of _ "buf @ bs"]) auto
  qed
qed

lemma bts_seek_full:
  assumes "stream_wf bts" "kernel_full k" "off < bs_totlen bts"
  shows "\<exists>bts'. bts_seek k bts off = Some (None, bts')"
proof -
  have "seek_file (bs_files bts) off \<noteq> None" using assms(1,3) seek_file_total by (auto simp: stream_wf_def)
  then show ?thesis using assms(2)
    by (auto simp: bts_seek_def kernel_full_def Let_def split: option.splits)
qed

lemma bts_get_full:
  assumes "stream_wf bts" "kernel_full k" "files_complete disk (bs_files bts)" "0 < len"
    "off + len \<le> bs_totlen bts" "len \<le> n"
  shows "\<exists>buf bts'. bts_get k disk n bts off len = Some (None, buf, bts')"
proof -
  from assms(4,5) have "off < bs_totlen bts" by simp
  from bts_seek_full [OF assms(1,2) this] obtain bts1 where s: "bts_seek k bts off = Some (None, bts1)" by blast
  note ss = bts_seek_spec [OF assms(1) s]
  then have "bs_totlen bts1 = bs_totlen bts" using assms(1) by (simp add: stream_wf_def)
  with bts_get_loop_full [of bts1 k disk "[]" len n] ss assms s show ?thesis by (simp add: bts_get_def)
qed

section \<open>Properties\<close>

text \<open>C23. A successful \<^verbatim>\<open>bts_get\<close> delivers exactly the bytes that the concatenated files hold at the
  offset, across file boundaries and empty files and whatever the stream did before; and it succeeds,
  in at most as many reads as bytes, if the kernel reports no error and the files have their length.\<close>

theorem bts_get_reads_stream:
  assumes "stream_wf bts" "kernel_ok k"
  shows "(bts_get k disk n bts off len = Some (None, buf, bts') \<longrightarrow>
      length buf = len \<and> stream_wf bts' \<and> (\<forall>x < len. byte_at disk (bs_files bts) (off + x) = Some (buf ! x))) \<and>
    (kernel_full k \<and> files_complete disk (bs_files bts) \<and> 0 < len \<and> off + len \<le> bs_totlen bts \<and> len \<le> n \<longrightarrow>
      (\<exists>buf bts'. bts_get k disk n bts off len = Some (None, buf, bts')))"
  using bts_get_spec [OF assms, of disk n off len buf bts'] bts_get_full [OF assms(1), of k disk len off n] by blast

definition sample_kernel :: kernel where
  "sample_kernel = \<lparr>k_open = (\<lambda>_. None), k_close = (\<lambda>_. None),
     k_read = (\<lambda>disk p pos n. Inr (take n (drop pos (disk p)))), k_write = (\<lambda>p pos bs. Inr (length bs))\<rparr>"

definition sample_stream :: bt_stream where
  "sample_stream = \<lparr>bs_files = [(''a'', 2), (''b'', 0), (''c'', 3)], bs_totlen = 5, bs_index = 0,
     bs_t_off = 0, bs_f_off = 0, bs_fd = None\<rparr>"

definition sample_disk :: disk where
  "sample_disk p = (if p = ''a'' then [1, 2] else if p = ''c'' then [3, 4, 5] else [])"

lemma sample_stream_wf: "stream_wf sample_stream" "kernel_full sample_kernel"
  by (simp_all add: stream_wf_def sample_stream_def kernel_full_def sample_kernel_def)

lemma sample_kernel_ok: "kernel_ok sample_kernel"
  by (rule kernel_full_ok [OF sample_stream_wf(2)])

theorem bts_get_reads_stream_witness:
  "\<exists>buf bts'. bts_get sample_kernel sample_disk 9 sample_stream 1 3 = Some (None, buf, bts') \<and>
    length buf = 3 \<and> stream_wf bts' \<and>
    (\<forall>x < 3. byte_at sample_disk (bs_files sample_stream) (1 + x) = Some (buf ! x))"
proof -
  note r = bts_get_reads_stream [OF sample_stream_wf(1) sample_kernel_ok]
  have "files_complete sample_disk (bs_files sample_stream)"
    by (simp add: files_complete_def sample_stream_def sample_disk_def)
  moreover have "1 + 3 \<le> bs_totlen sample_stream" by (simp add: sample_stream_def)
  ultimately have "\<exists>buf bts'. bts_get sample_kernel sample_disk 9 sample_stream 1 3 = Some (None, buf, bts')"
    using r [of sample_disk 9 1 3, THEN conjunct2] sample_stream_wf(2) by simp
  then obtain buf bts' where "bts_get sample_kernel sample_disk 9 sample_stream 1 3 = Some (None, buf, bts')" by blast
  with r show ?thesis by blast
qed





text \<open>
  A seek whose \<^verbatim>\<open>close\<close> fails leaves the new total offset beside the old file position: the stream is
  not well formed any more, and a retry at the same offset takes the early return.
\<close>

lemma bts_seek_failed_close:
  assumes "k_close k ''a'' = Some EIO"
  shows "\<exists>bts'. bts_seek k (sample_stream\<lparr>bs_fd := Some (''a'', 0)\<rparr>) 3 = Some (Some EIO, bts') \<and>
    \<not> stream_wf bts' \<and> bts_seek k bts' 3 = Some (None, bts')"
  using assms by (simp add: bts_seek_def sample_stream_def stream_wf_def)

end
