(* ===== verification/Metainfo.thy ===== *)
theory Metainfo
  imports BencGet Stream
begin

text \<open>
  \<^verbatim>\<open>misc/metainfo.c\<close>: what a torrent file says, and the test every torrent file has to pass. The
  buffer \<open>p\<close> is the whole file; a NULL pointer handed to an accessor of \<^verbatim>\<open>benc.c\<close> is dereferenced and
  gives \<open>None\<close>. Allocations are taken to succeed, so an inner \<open>None\<close> is a NULL that comes from the data.
  \<^verbatim>\<open>off_t\<close> is a signed 64 bit integer, and a sum that leaves its range is undefined.
\<close>

definition info_dct :: "cstr \<Rightarrow> cstr option" where
  "info_dct p = do { info \<leftarrow> benc_dget_dct p ''info''; info }"

definition off_add :: "int \<Rightarrow> int \<Rightarrow> int option" where
  "off_add a b = do { guard_opt (- (2 ^ 63) \<le> a + b \<and> a + b < 2 ^ 63); Some (a + b) }"

definition mi_hashes :: "cstr \<Rightarrow> cstr option option" where
  "mi_hashes p = do { info \<leftarrow> info_dct p; benc_dget_mema info ''pieces'' }"

definition mi_npieces :: "cstr \<Rightarrow> nat option" where
  "mi_npieces p =
     do { info \<leftarrow> info_dct p; m \<leftarrow> benc_dget_mem info ''pieces'';
          case m of None \<Rightarrow> None | Some (plen, _) \<Rightarrow> Some (plen div 20) }"

definition mi_simple :: "cstr \<Rightarrow> bool option" where
  "mi_simple p = do { info \<leftarrow> info_dct p; files \<leftarrow> benc_dget_lst info ''files''; Some (files = None) }"

definition mi_piece_length :: "cstr \<Rightarrow> int option" where
  "mi_piece_length p = do { info \<leftarrow> info_dct p; benc_dget_int info ''piece length'' }"

section \<open>Announce lists\<close>

text \<open>\<open>rnd i j n\<close> is the answer of \<^verbatim>\<open>rand_between(j, n - 1)\<close> for position \<open>j\<close> of tier \<open>i\<close>.\<close>

definition swap_url :: "cstr list \<Rightarrow> nat \<Rightarrow> nat \<Rightarrow> cstr list" where
  "swap_url urls j ri = urls[j := urls ! ri, ri := urls ! j]"

definition shuffle_tier :: "(nat \<Rightarrow> nat) \<Rightarrow> cstr list \<Rightarrow> cstr list" where
  "shuffle_tier r urls = foldl (\<lambda>us j. swap_url us j (r j)) urls [0..<length urls - 1]"

definition mi_shuffle_announce :: "(nat \<Rightarrow> nat \<Rightarrow> nat \<Rightarrow> nat) \<Rightarrow> cstr list list \<Rightarrow> cstr list list" where
  "mi_shuffle_announce rnd tiers =
     map (\<lambda>i. shuffle_tier (\<lambda>j. rnd i j (length (tiers ! i))) (tiers ! i)) [0..<length tiers]"

text \<open>The urls of a tier, and the tiers; an element of the wrong type gives the NULL of \<^verbatim>\<open>benc_str\<close>.\<close>

function tier_urls :: "cstr option \<Rightarrow> cstr list option option" where
  "tier_urls None = Some (Some [])"
| "tier_urls (Some url) =
     do { s \<leftarrow> benc_str url;
          case s of
            None \<Rightarrow> Some None
          | Some u \<Rightarrow> do { nx \<leftarrow> benc_next url; us \<leftarrow> tier_urls nx; Some (map_option (\<lambda>l. u # l) us) } }"
  by pat_completeness auto
termination
  by (relation "measure (\<lambda>x. case x of None \<Rightarrow> 0 | Some p \<Rightarrow> Suc (length p))")
    (auto dest!: benc_next_shrinks split: option.splits)

function announce_tiers :: "cstr option \<Rightarrow> cstr list list option option" where
  "announce_tiers None = Some (Some [])"
| "announce_tiers (Some ulst) =
     do { _ \<leftarrow> benc_nelems ulst; first \<leftarrow> benc_first ulst; us \<leftarrow> tier_urls first;
          case us of
            None \<Rightarrow> Some None
          | Some urls \<Rightarrow>
              do { nx \<leftarrow> benc_next ulst; ts \<leftarrow> announce_tiers nx; Some (map_option (\<lambda>l. urls # l) ts) } }"
  by pat_completeness auto
termination
  by (relation "measure (\<lambda>x. case x of None \<Rightarrow> 0 | Some p \<Rightarrow> Suc (length p))")
    (auto dest!: benc_next_shrinks split: option.splits)

definition mi_announce :: "(nat \<Rightarrow> nat \<Rightarrow> nat \<Rightarrow> nat) \<Rightarrow> cstr \<Rightarrow> cstr list list option option" where
  "mi_announce rnd p =
     do {
       alst \<leftarrow> benc_dget_lst p ''announce-list'';
       tiers \<leftarrow> (case alst of
           Some l \<Rightarrow> do { _ \<leftarrow> benc_nelems l; first \<leftarrow> benc_first l; announce_tiers first }
         | None \<Rightarrow> do { u \<leftarrow> benc_dget_str p ''announce''; Some (map_option (\<lambda>u. [[u]]) u) });
       Some (map_option (mi_shuffle_announce rnd) tiers) }"

section \<open>Lengths, hash, name\<close>

function sum_lengths :: "int \<Rightarrow> cstr option \<Rightarrow> int option" where
  "sum_lengths acc None = Some acc"
| "sum_lengths acc (Some fdct) =
     do { l \<leftarrow> benc_dget_int fdct ''length''; acc' \<leftarrow> off_add acc l; nx \<leftarrow> benc_next fdct; sum_lengths acc' nx }"
  by pat_completeness auto
termination
  by (relation "measure (\<lambda>(a, x). case x of None \<Rightarrow> 0 | Some p \<Rightarrow> Suc (length p))")
    (auto dest!: benc_next_shrinks split: option.splits)

definition mi_total_length :: "cstr \<Rightarrow> int option" where
  "mi_total_length p =
     do { info \<leftarrow> info_dct p; files \<leftarrow> benc_dget_lst info ''files'';
          case files of
            Some fl \<Rightarrow> do { first \<leftarrow> benc_first fl; sum_lengths 0 first }
          | None \<Rightarrow> benc_dget_int info ''length'' }"

definition mi_info_hash :: "(cstr \<Rightarrow> byte list) \<Rightarrow> cstr \<Rightarrow> byte list option" where
  "mi_info_hash sha1 p =
     do { info \<leftarrow> info_dct p; n \<leftarrow> benc_length info; guard_opt (n \<le> length info); Some (sha1 (take n info)) }"

definition mi_name :: "cstr \<Rightarrow> cstr option option" where
  "mi_name p = do { info \<leftarrow> info_dct p; benc_dget_str info ''name'' }"

definition mi_nfiles :: "cstr \<Rightarrow> nat option" where
  "mi_nfiles p =
     do { info \<leftarrow> info_dct p; files \<leftarrow> benc_dget_lst info ''files'';
          case files of Some fl \<Rightarrow> benc_nelems fl | None \<Rightarrow> Some 1 }"

section \<open>Files\<close>

text \<open>
  The components of a path list. On an element that is no string the loop of \<^verbatim>\<open>mi_filepath\<close> does not
  advance, and on an empty list it reads through NULL; both are \<open>None\<close>.
\<close>

function path_parts :: "cstr option \<Rightarrow> cstr list option" where
  "path_parts None = Some []"
| "path_parts (Some p) =
     do { m \<leftarrow> benc_mem p;
          case m of
            None \<Rightarrow> None
          | Some (len, str) \<Rightarrow>
              do { guard_opt (len \<le> length str); nx \<leftarrow> benc_mem_next p; r \<leftarrow> path_parts nx; Some (take len str # r) } }"
  by pat_completeness auto
termination
  by (relation "measure (\<lambda>x. case x of None \<Rightarrow> 0 | Some p \<Rightarrow> Suc (length p))")
    (auto dest!: benc_mem_next_shrinks split: option.splits)

fun join_slash :: "cstr list \<Rightarrow> cstr" where
  "join_slash [] = []"
| "join_slash [c] = c"
| "join_slash (c # cs) = c @ CHR ''/'' # join_slash cs"

definition mi_filepath :: "cstr \<Rightarrow> cstr option" where
  "mi_filepath plst =
     do { it \<leftarrow> benc_first plst; parts \<leftarrow> path_parts it; guard_opt (parts \<noteq> []); Some (join_slash parts) }"

function mi_files_loop :: "cstr option \<Rightarrow> (cstr \<times> int) list option" where
  "mi_files_loop None = Some []"
| "mi_files_loop (Some fdct) =
     do { l \<leftarrow> benc_dget_int fdct ''length''; pl \<leftarrow> benc_dget_lst fdct ''path''; plst \<leftarrow> pl;
          path \<leftarrow> mi_filepath plst; nx \<leftarrow> benc_next fdct; r \<leftarrow> mi_files_loop nx; Some ((path, l) # r) }"
  by pat_completeness auto
termination
  by (relation "measure (\<lambda>x. case x of None \<Rightarrow> 0 | Some p \<Rightarrow> Suc (length p))")
    (auto dest!: benc_next_shrinks split: option.splits)

definition mi_files :: "cstr \<Rightarrow> (cstr \<times> int) list option option" where
  "mi_files p =
     do { info \<leftarrow> info_dct p; files \<leftarrow> benc_dget_lst info ''files'';
          case files of
            Some fl \<Rightarrow> do { _ \<leftarrow> benc_nelems fl; first \<leftarrow> benc_first fl; fs \<leftarrow> mi_files_loop first; Some (Some fs) }
          | None \<Rightarrow> do { l \<leftarrow> benc_dget_int info ''length''; n \<leftarrow> benc_dget_str info ''name'';
                       Some (map_option (\<lambda>n. [(n, l)]) n) } }"

section \<open>The test\<close>

definition memchr :: "cstr \<Rightarrow> char \<Rightarrow> nat \<Rightarrow> bool option" where
  "memchr s c n = (if c \<in> set (take n s) then Some True else if n \<le> length s then Some False else None)"

definition mi_test_path :: "cstr \<Rightarrow> nat \<Rightarrow> bool option" where
  "mi_test_path path len =
     (if len = 0 then Some False
      else if len = 1 \<and> take 1 path = ''.'' then Some False
      else if len = 2 \<and> take 2 path = ''..'' then Some False
      else do { slash \<leftarrow> memchr path CHR ''/'' len; Some (\<not> slash) })"

function mi_test_paths :: "cstr option \<Rightarrow> nat \<Rightarrow> nat option option" where
  "mi_test_paths None pcount = Some (Some pcount)"
| "mi_test_paths (Some path) pcount =
     do { m \<leftarrow> benc_mem path;
          case m of
            None \<Rightarrow> Some None
          | Some (plen, pstr) \<Rightarrow>
              do { nx \<leftarrow> benc_mem_next path; ok \<leftarrow> mi_test_path pstr plen;
                   if ok then mi_test_paths nx (pcount + 1) else Some None } }"
  by pat_completeness auto
termination
  by (relation "measure (\<lambda>(x, n). case x of None \<Rightarrow> 0 | Some p \<Rightarrow> Suc (length p))")
    (auto dest!: benc_mem_next_shrinks split: option.splits)

function mi_test_files_loop :: "cstr option \<Rightarrow> nat \<Rightarrow> bool option" where
  "mi_test_files_loop None fcount = Some (fcount > 0)"
| "mi_test_files_loop (Some fdct) fcount =
     (if \<not> benc_isdct fdct then Some False
      else do {
        l \<leftarrow> benc_dget_int fdct ''length'';
        if l < 0 then Some False
        else do {
          pl \<leftarrow> benc_dget_lst fdct ''path'';
          case pl of
            None \<Rightarrow> Some False
          | Some plst \<Rightarrow> do {
              path \<leftarrow> benc_first plst; r \<leftarrow> mi_test_paths path 0;
              case r of
                None \<Rightarrow> Some False
              | Some pcount \<Rightarrow>
                  if pcount = 0 then Some False
                  else do { nx \<leftarrow> benc_next fdct; mi_test_files_loop nx (fcount + 1) } } } })"
  by pat_completeness auto
termination
  by (relation "measure (\<lambda>(x, n). case x of None \<Rightarrow> 0 | Some p \<Rightarrow> Suc (length p))")
    (auto dest!: benc_next_shrinks split: option.splits)

definition mi_test_files :: "cstr \<Rightarrow> bool option" where
  "mi_test_files files = do { fdct \<leftarrow> benc_first files; mi_test_files_loop fdct 0 }"

function count_strs :: "cstr option \<Rightarrow> nat \<Rightarrow> nat option" where
  "count_strs None n = Some n"
| "count_strs (Some s) n =
     (if benc_isstr s then do { nx \<leftarrow> benc_next s; count_strs nx (n + 1) } else Some n)"
  by pat_completeness auto
termination
  by (relation "measure (\<lambda>(x, n). case x of None \<Rightarrow> 0 | Some p \<Rightarrow> Suc (length p))")
    (auto dest!: benc_next_shrinks split: option.splits)

function test_announce_loop :: "cstr option \<Rightarrow> nat \<Rightarrow> bool option" where
  "test_announce_loop None lstcount = Some (lstcount > 0)"
| "test_announce_loop (Some t) lstcount =
     (if \<not> benc_islst t then Some (lstcount > 0)
      else do {
        s \<leftarrow> benc_first t; strcount \<leftarrow> count_strs s 0;
        if strcount = 0 then Some False
        else do { nx \<leftarrow> benc_next t; test_announce_loop nx (lstcount + 1) } })"
  by pat_completeness auto
termination
  by (relation "measure (\<lambda>(x, n). case x of None \<Rightarrow> 0 | Some p \<Rightarrow> Suc (length p))")
    (auto dest!: benc_next_shrinks split: option.splits)

definition mi_test_announce_list :: "cstr \<Rightarrow> bool option" where
  "mi_test_announce_list alst = do { t \<leftarrow> benc_first alst; test_announce_loop t 0 }"

definition mi_test_announce :: "cstr \<Rightarrow> bool option" where
  "mi_test_announce p =
     do { alst \<leftarrow> benc_dget_any p ''announce-list'';
          case alst of
            Some l \<Rightarrow> if \<not> benc_islst l then Some False else mi_test_announce_list l
          | None \<Rightarrow> do { m \<leftarrow> benc_dget_mem p ''announce''; Some (m \<noteq> None) } }"

text \<open>The length of the content, \<open>None\<close> inside where the test refuses.\<close>

definition mi_test_length :: "cstr \<Rightarrow> int option option" where
  "mi_test_length info =
     do { l \<leftarrow> benc_dget_int info ''length'';
          if l \<noteq> 0
          then do { any \<leftarrow> benc_dget_any info ''files''; Some (if l < 0 \<or> any \<noteq> None then None else Some l) }
          else do {
            files \<leftarrow> benc_dget_lst info ''files'';
            case files of
              None \<Rightarrow> Some None
            | Some fl \<Rightarrow> do {
                ok \<leftarrow> mi_test_files fl;
                if \<not> ok then Some None
                else do { fdct \<leftarrow> benc_first fl; s \<leftarrow> sum_lengths 0 fdct; Some (Some s) } } } }"

text \<open>
  The last comparison is between a \<^verbatim>\<open>size_t\<close> product and an \<^verbatim>\<open>off_t\<close>, which C converts to unsigned
  64 bit arithmetic.
\<close>

definition mi_test_bounds :: "int \<Rightarrow> nat \<Rightarrow> int \<Rightarrow> bool" where
  "mi_test_bounds len npieces piece_length =
     (let l = word_of_int len :: u64; n = of_nat npieces :: u64; pl = word_of_int piece_length :: u64 in
      \<not> (l < (n - 1) * pl \<or> l > n * pl))"

definition mi_test_info :: "cstr \<Rightarrow> bool option" where
  "mi_test_info info =
     do {
       name \<leftarrow> benc_dget_mem info ''name'';
       nameok \<leftarrow> (case name of None \<Rightarrow> Some True | Some (slen, s) \<Rightarrow> mi_test_path s slen);
       if \<not> nameok then Some False
       else do {
         piece_length \<leftarrow> benc_dget_int info ''piece length'';
         if piece_length \<le> 0 then Some False
         else do {
           pieces \<leftarrow> benc_dget_mem info ''pieces'';
           case pieces of
             None \<Rightarrow> Some False
           | Some (slen, _) \<Rightarrow>
               if slen mod 20 \<noteq> 0 then Some False
               else do {
                 len \<leftarrow> mi_test_length info;
                 case len of None \<Rightarrow> Some False | Some l \<Rightarrow> Some (mi_test_bounds l (slen div 20) piece_length) } } } }"

definition mi_test :: "cstr \<Rightarrow> bool option" where
  "mi_test p =
     (if benc_validate p \<noteq> None \<or> \<not> benc_isdct p then Some False
      else do {
        ann \<leftarrow> mi_test_announce p;
        if \<not> ann then Some False
        else do {
          info \<leftarrow> benc_dget_dct p ''info'';
          case info of None \<Rightarrow> Some False | Some i \<Rightarrow> mi_test_info i } })"

text \<open>\<open>file\<close> is the answer of \<^verbatim>\<open>read_file\<close>.\<close>

definition mi_load :: "errno + cstr \<Rightarrow> (errno + cstr) option" where
  "mi_load file_res =
     (case file_res of
        Inl e \<Rightarrow> Some (Inl e)
      | Inr res \<Rightarrow> do { ok \<leftarrow> mi_test res; Some (if ok then Inr res else Inl EINVAL) })"

section \<open>Safe paths\<close>

text \<open>A component that stays inside its directory, and a relative path of such components.\<close>

definition safe_comp :: "cstr \<Rightarrow> bool" where
  "safe_comp c \<longleftrightarrow> c \<noteq> [] \<and> c \<noteq> ''.'' \<and> c \<noteq> ''..'' \<and> CHR ''/'' \<notin> set c"

definition safe_path :: "cstr \<Rightarrow> bool" where
  "safe_path path \<longleftrightarrow> (\<exists>cs. cs \<noteq> [] \<and> path = join_slash cs \<and> (\<forall>c \<in> set cs. safe_comp c))"

lemma mi_test_path_safe:
  assumes "mi_test_path s n = Some True"
  shows "n \<le> length s \<and> safe_comp (take n s)"
proof -
  from assms have n: "n \<noteq> 0" "\<not> (n = 1 \<and> take 1 s = ''.'')" "\<not> (n = 2 \<and> take 2 s = ''..'')"
    and m: "memchr s CHR ''/'' n = Some False"
    by (auto simp: mi_test_path_def bind_Some_iff split: if_splits)
  from m have l: "n \<le> length s" "CHR ''/'' \<notin> set (take n s)" by (auto simp: memchr_def split: if_splits)
  then have len: "length (take n s) = n" by simp
  have "take n s \<noteq> ''.''"
  proof
    assume a: "take n s = ''.''"
    with len have "n = 1" by simp
    with a n(2) show False by simp
  qed
  moreover have "take n s \<noteq> ''..''"
  proof
    assume a: "take n s = ''..''"
    with len have "n = 2" by simp
    with a n(3) show False by simp
  qed
  moreover have "take n s \<noteq> []" using len n(1) by auto
  ultimately show ?thesis using l by (simp add: safe_comp_def)
qed

lemma benc_mem_next_bound:
  "benc_mem p = Some (Some (n, s)) \<Longrightarrow> benc_mem_next p = Some nx \<Longrightarrow> n < length s"
  by (auto simp: benc_mem_next_def split: list.splits if_splits)
    (metis Cons_nth_drop_Suc drop_eq_Nil list.discI not_le)+

lemma mi_test_paths_parts:
  "mi_test_paths it n = Some (Some m) \<Longrightarrow>
     \<exists>cs. path_parts it = Some cs \<and> m = n + length cs \<and> (\<forall>c \<in> set cs. safe_comp c)"
proof (induction it n rule: mi_test_paths.induct)
  case (2 path n)
  from "2.prems" obtain plen pstr nx where p: "benc_mem path = Some (Some (plen, pstr))"
    "benc_mem_next path = Some nx" "mi_test_path pstr plen = Some True"
    "mi_test_paths nx (n + 1) = Some (Some m)"
    by (auto simp: bind_Some_iff split: option.splits if_splits prod.splits)
  from "2.IH" [OF p(1) refl refl p(2,3) _ p(4)] obtain cs where
    "path_parts nx = Some cs" "m = n + 1 + length cs" "\<forall>c \<in> set cs. safe_comp c" by auto
  with p(1,2) mi_test_path_safe [OF p(3)] show ?case by auto
qed simp

lemma mi_test_files_loop_safe:
  "mi_test_files_loop it n = Some True \<Longrightarrow>
     \<exists>fs. mi_files_loop it = Some fs \<and> 0 < n + length fs \<and> (\<forall>(path, l) \<in> set fs. 0 \<le> l \<and> safe_path path)"
proof (induction it n rule: mi_test_files_loop.induct)
  case (2 fdct n)
  from "2.prems" obtain l plst path pcount nx where f: "benc_isdct fdct" "benc_dget_int fdct ''length'' = Some l"
    "\<not> l < 0" "benc_dget_lst fdct ''path'' = Some (Some plst)" "benc_first plst = Some path"
    "mi_test_paths path 0 = Some (Some pcount)" "pcount \<noteq> 0" "benc_next fdct = Some nx"
    "mi_test_files_loop nx (n + 1) = Some True"
    by (auto simp: bind_Some_iff split: option.splits if_splits)
  from mi_test_paths_parts [OF f(6)] obtain cs where cs: "path_parts path = Some cs" "pcount = length cs"
    "\<forall>c \<in> set cs. safe_comp c" by auto
  with f(5,7) have "mi_filepath plst = Some (join_slash cs)" "cs \<noteq> []" by (auto simp: mi_filepath_def)
  moreover from this(2) cs(3) have "safe_path (join_slash cs)" by (auto simp: safe_path_def)
  moreover from "2.IH" [OF _ f(2,3,4) refl f(5,6) refl f(7,8,9)] f(1) obtain fs where
    "mi_files_loop nx = Some fs" "\<forall>(path, l) \<in> set fs. 0 \<le> l \<and> safe_path path" by auto
  ultimately show ?case using f by auto
qed simp

lemma sum_lengths_files:
  "sum_lengths acc it = Some s \<Longrightarrow> mi_files_loop it = Some fs \<Longrightarrow> s = acc + sum_list (map snd fs)"
proof (induction acc it arbitrary: fs rule: sum_lengths.induct)
  case (2 acc fdct)
  then show ?case by (fastforce simp: bind_Some_iff off_add_def split: if_splits)
qed simp

lemma mi_files_loop_nelems: "mi_files_loop it = Some fs \<Longrightarrow> it = Some q \<Longrightarrow> benc_nelems_from q \<noteq> None"
proof (induction it arbitrary: fs q rule: mi_files_loop.induct)
  case (2 fdct)
  then obtain nx r where nx: "benc_next fdct = Some nx" "mi_files_loop nx = Some r" by (auto simp: bind_Some_iff)
  show ?case
  proof (cases nx)
    case None
    with nx 2 show ?thesis by (subst benc_nelems_from.simps) simp
  next
    case (Some q')
    from "2.prems"(1) obtain l pl plst path where
      "benc_dget_int fdct ''length'' = Some l" "benc_dget_lst fdct ''path'' = Some pl" "pl = Some plst"
      "mi_filepath plst = Some path" by (auto simp: bind_Some_iff)
    from "2.IH" [OF this nx(1) nx(2) Some] nx Some "2.prems"(2) show ?thesis
      by (subst benc_nelems_from.simps) auto
  qed
qed simp

text \<open>What the test establishes about the info dictionary.\<close>

lemma mi_test_infoD:
  assumes "mi_test p = Some True"
  obtains info l np pl s where "info_dct p = Some info" "benc_dget_int info ''piece length'' = Some pl" "0 < pl"
    "benc_dget_mem info ''pieces'' = Some (Some (np, s))" "np mod 20 = 0"
    "mi_test_length info = Some (Some l)" "mi_test_bounds l (np div 20) pl"
    "case the (benc_dget_mem info ''name'') of None \<Rightarrow> True | Some (n, s) \<Rightarrow> mi_test_path s n = Some True"
    "benc_dget_mem info ''name'' \<noteq> None"
proof -
  from assms obtain info where i: "info_dct p = Some info" "mi_test_info info = Some True"
    by (auto simp: mi_test_def info_dct_def bind_Some_iff split: if_splits option.splits)
  from i(2) obtain name nameok where n: "benc_dget_mem info ''name'' = Some name"
    "(case name of None \<Rightarrow> Some True | Some (slen, s) \<Rightarrow> mi_test_path s slen) = Some nameok" "nameok"
    by (auto simp: mi_test_info_def bind_Some_iff split: if_splits)
  from i(2) n obtain pl np s l where r: "benc_dget_int info ''piece length'' = Some pl" "0 < pl"
    "benc_dget_mem info ''pieces'' = Some (Some (np, s))" "np mod 20 = 0"
    "mi_test_length info = Some (Some l)" "mi_test_bounds l (np div 20) pl"
    by (auto simp: mi_test_info_def bind_Some_iff split: if_splits option.splits)
  show thesis by (rule that [OF i(1) r]) (use n in \<open>auto split: option.splits\<close>)
qed

lemma benc_dget_lst_None: "benc_dget_any p k = Some None \<Longrightarrow> benc_dget_lst p k = Some None"
  by (simp add: benc_dget_lst_def)

lemma benc_dget_mem_str:
  "benc_dget_mem p k = Some m \<Longrightarrow> (case m of None \<Rightarrow> True | Some (n, s) \<Rightarrow> n \<le> length s) \<Longrightarrow>
     benc_dget_str p k = Some (map_option (\<lambda>(n, s). take n s) m)"
proof -
  assume m: "benc_dget_mem p k = Some m" and ok: "case m of None \<Rightarrow> True | Some (n, s) \<Rightarrow> n \<le> length s"
  from m obtain str where s: "benc_dget_any p k = Some str"
    "(case str of Some q \<Rightarrow> if benc_isstr q then benc_mem q else Some None | None \<Rightarrow> Some None) = Some m"
    by (auto simp: benc_dget_mem_def bind_Some_iff)
  show ?thesis
  proof (cases "\<exists>q. str = Some q \<and> benc_isstr q")
    case True
    with s obtain q where "str = Some q" "benc_isstr q" "benc_mem q = Some m" by auto
    with s(1) ok show ?thesis
      by (cases m) (auto simp: benc_dget_str_def benc_str_def benc_copy_def)
  next
    case False
    with s have "m = None" by (auto split: option.split_asm if_split_asm)
    with s(1) False show ?thesis by (auto simp: benc_dget_str_def split: option.split)
  qed
qed

lemma mi_test_files_result:
  assumes t: "mi_test p = Some True"
  shows "\<exists>r tot. mi_files p = Some r \<and> mi_total_length p = Some tot \<and>
    (case r of
       None \<Rightarrow> mi_name p = Some None \<and> mi_simple p = Some True
     | Some fs \<Rightarrow> fs \<noteq> [] \<and> (\<forall>(path, l) \<in> set fs. 0 \<le> l \<and> safe_path path) \<and> tot = sum_list (map snd fs)) \<and>
    0 \<le> tot \<and> (\<exists>info. info_dct p = Some info \<and> mi_test_length info = Some (Some tot))"
proof -
  obtain info l np pl s where i: "info_dct p = Some info" "mi_test_length info = Some (Some l)"
    "benc_dget_mem info ''name'' \<noteq> None"
    "case the (benc_dget_mem info ''name'') of None \<Rightarrow> True | Some (n, s) \<Rightarrow> mi_test_path s n = Some True"
    using mi_test_infoD [OF t] by metis
  from i(2) obtain l0 where l0: "benc_dget_int info ''length'' = Some l0" by (auto simp: mi_test_length_def bind_Some_iff)
  show ?thesis
  proof (cases "l0 = 0")
    case False
    with i(2) l0 have a: "0 \<le> l0" "l = l0" "benc_dget_any info ''files'' = Some None"
      by (auto simp: mi_test_length_def bind_Some_iff split: if_splits)
    note fl = benc_dget_lst_None [OF a(3)]
    obtain m where m: "benc_dget_mem info ''name'' = Some m" using i(3) by auto
    with i(4) have ok: "case m of None \<Rightarrow> True | Some (n, s) \<Rightarrow> n \<le> length s \<and> safe_comp (take n s)"
      using mi_test_path_safe by (auto split: option.splits)
    then have str: "benc_dget_str info ''name'' = Some (map_option (\<lambda>(n, s). take n s) m)"
      by (intro benc_dget_mem_str [OF m]) (auto split: option.splits)
    have sp: "safe_path c" if "safe_comp c" for c
      unfolding safe_path_def using that by (intro exI [of _ "[c]"]) simp
    show ?thesis using i(1,2) a fl str l0 ok sp
      by (auto simp: mi_files_def mi_total_length_def mi_name_def mi_simple_def split: option.splits)
  next
    case True
    with i(2) l0 obtain fl fdct where f: "benc_dget_lst info ''files'' = Some (Some fl)" "mi_test_files fl = Some True"
      "benc_first fl = Some fdct" "sum_lengths 0 fdct = Some l"
      by (auto simp: mi_test_length_def bind_Some_iff split: if_splits option.splits)
    from f(2,3) have "mi_test_files_loop fdct 0 = Some True" by (simp add: mi_test_files_def)
    from mi_test_files_loop_safe [OF this] obtain fs where fs: "mi_files_loop fdct = Some fs" "fs \<noteq> []"
      "\<forall>(path, l) \<in> set fs. 0 \<le> l \<and> safe_path path" by auto
    have l: "l = sum_list (map snd fs)" using sum_lengths_files [OF f(4) fs(1)] by simp
    have "0 \<le> l" unfolding l using fs(3) by (intro sum_list_nonneg) auto
    moreover have "benc_nelems fl \<noteq> None"
      using f(3) mi_files_loop_nelems [OF fs(1)] by (auto simp: benc_nelems_def split: option.splits)
    ultimately show ?thesis using i f fs l
      by (auto simp: mi_files_def mi_total_length_def)
  qed
qed

section \<open>Bounds\<close>

lemma strtoll_range: "strtoll p = (v, q) \<Longrightarrow> - (2 ^ 63) \<le> v \<and> v < 2 ^ 63"
  by (auto simp: strtoll_def Let_def split: if_splits)

lemma benc_dget_int_range: "benc_dget_int p k = Some v \<Longrightarrow> - (2 ^ 63) \<le> v \<and> v < 2 ^ 63"
proof -
  assume "benc_dget_int p k = Some v"
  then consider "v = 0" | q where "benc_int q = Some v"
    by (auto simp: benc_dget_int_def bind_Some_iff split: option.split_asm if_split_asm)
  then show ?thesis
  proof cases
    case 2
    obtain res endp where s: "strtoll (tl q) = (res, endp)" by force
    with 2 have "v = 0 \<or> v = res" by (auto simp: benc_int_def split: if_split_asm list.split_asm)
    then show ?thesis using strtoll_range [OF s] by auto
  qed simp
qed

lemma sum_lengths_range: "sum_lengths acc it = Some s \<Longrightarrow> s < 2 ^ 63 \<or> s = acc"
proof (induction acc it rule: sum_lengths.induct)
  case (2 acc fdct)
  then obtain l acc' nx where a: "benc_dget_int fdct ''length'' = Some l" "off_add acc l = Some acc'"
    "benc_next fdct = Some nx" "sum_lengths acc' nx = Some s" by (auto simp: bind_Some_iff)
  from a(2) have "acc' < 2 ^ 63" by (auto simp: off_add_def split: if_splits)
  with "2.IH" [OF a(1,2,3,4)] show ?case by auto
qed simp

lemma mi_test_length_range: "mi_test_length info = Some (Some l) \<Longrightarrow> l < 2 ^ 63"
  using benc_dget_int_range sum_lengths_range
  by (fastforce simp: mi_test_length_def bind_Some_iff split: if_split_asm option.split_asm)

lemma mi_test_bounds_int:
  assumes "mi_test_bounds l n pl" "0 \<le> l" "l < 2 ^ 63" "0 < pl" "pl < 2 ^ 63" "int n * pl < 2 ^ 64"
  shows "1 \<le> n \<and> (int n - 1) * pl \<le> l \<and> l \<le> int n * pl"
proof -
  have "int n * 1 \<le> int n * pl" using assms(4) by (intro mult_left_mono) auto
  then have n: "int n < 2 ^ 64" using assms(6) by simp
  have ul: "uint (word_of_int l :: u64) = l" and up: "uint (word_of_int pl :: u64) = pl"
    using assms by (simp_all add: uint_word_of_int)
  have un: "uint (of_nat n :: u64) = int n" using n by (simp add: unsigned_of_nat take_bit_nat_eq_self_iff take_bit_int_eq_self_iff unsigned_of_int flip: of_nat_take_bit)
  show ?thesis
  proof (cases "n = 0")
    case True
    have "uint (- word_of_int pl :: u64) = 2 ^ 64 - pl"
      using assms(4,5) by (simp add: uint_word_ariths up zmod_zminus1_eq_if)
    with True assms(1,3,5) ul show ?thesis by (simp add: mi_test_bounds_def word_less_def Let_def)
  next
    case False
    then have "int n * pl - pl < 2 ^ 64" "0 \<le> int n * pl - pl" using assms(4,6)
      by (auto simp: mult_le_cancel_right1 algebra_simps)
    moreover have "(of_nat n - 1 :: u64) = of_nat (n - 1)" using False by (simp add: of_nat_diff)
    moreover have "uint (of_nat (n - 1) :: u64) = int (n - 1)"
      using n by (simp add: unsigned_of_nat take_bit_nat_eq_self_iff take_bit_int_eq_self_iff flip: of_nat_take_bit)
    ultimately have e: "uint (of_nat n - 1 :: u64) = int n - 1" and r: "(int n - 1) * pl < 2 ^ 64" "0 \<le> (int n - 1) * pl"
      using False by (simp_all add: of_nat_diff algebra_simps)
    have "uint ((of_nat n - 1) * word_of_int pl :: u64) = ((int n - 1) * pl) mod 2 ^ 64"
      unfolding uint_word_arith_bintrs(3) e up by (simp add: take_bit_eq_mod)
    then have "uint ((of_nat n - 1) * word_of_int pl :: u64) = (int n - 1) * pl"
      using r by simp
    moreover have "uint (of_nat n * word_of_int pl :: u64) = int n * pl"
      using assms(4,6) by (simp add: uint_word_ariths up un)
    ultimately show ?thesis using assms(1) False ul by (simp add: mi_test_bounds_def word_less_def Let_def)
  qed
qed

lemma mset_swap_url:
  "j < length us \<Longrightarrow> ri < length us \<Longrightarrow> mset (swap_url us j ri) = mset us"
  by (simp add: swap_url_def mset_swap)

lemma mset_shuffle_tier:
  assumes "\<forall>j < length us - 1. r j < length us"
  shows "mset (shuffle_tier r us) = mset us"
proof -
  have "mset (foldl (\<lambda>us j. swap_url us j (r j)) us xs) = mset us \<and>
      length (foldl (\<lambda>us j. swap_url us j (r j)) us xs) = length us"
    if "\<forall>j \<in> set xs. j < length us \<and> r j < length us" for xs us
    using that
  proof (induction xs arbitrary: us)
    case (Cons x xs)
    then have s: "mset (swap_url us x (r x)) = mset us" "length (swap_url us x (r x)) = length us"
      by (simp_all add: mset_swap_url) (simp add: swap_url_def)
    have "\<forall>j \<in> set xs. j < length (swap_url us x (r x)) \<and> r j < length (swap_url us x (r x))"
      using Cons.prems s(2) by simp
    from Cons.IH [OF this] s show ?case by simp
  qed simp
  moreover have "\<forall>j \<in> set [0..<length us - 1]. j < length us \<and> r j < length us" using assms by auto
  ultimately show ?thesis unfolding shuffle_tier_def by blast
qed

section \<open>Properties\<close>


lemmas mi_eval = benc_eval mi_test_def mi_test_announce_def mi_test_info_def mi_test_length_def
  mi_test_path_def mi_test_files_def memchr_def mi_test_announce_list_def off_add_def info_dct_def
  mi_test_bounds_def

definition torrent_short :: cstr where
  "torrent_short = ''d8:announce1:u4:infod6:lengthi6e12:piece lengthi6e6:pieces40:aaaaaaaaaaaaaaaaaaaabbbbbbbbbbbbbbbbbbbbee''"

lemma torrent_short_ok: "mi_test torrent_short = Some True"
  by (simp add: mi_eval torrent_short_def)


text \<open>C32. A torrent file that passes \<^verbatim>\<open>mi_test\<close> has at least one piece and a positive piece length, and
  its total length lies between all pieces but one and all pieces, as long as the product of piece
  count and piece length fits in 64 bits.\<close>

theorem mi_test_piece_bounds:
  assumes "mi_test p = Some True" "mi_npieces p = Some n" "mi_piece_length p = Some pl" "int n * pl < 2 ^ 64"
  shows "1 \<le> n \<and> 0 < pl \<and> (\<exists>tot. mi_total_length p = Some tot \<and> (int n - 1) * pl \<le> tot \<and> tot \<le> int n * pl)"
proof -
  obtain info l np pl' s where i: "info_dct p = Some info" "benc_dget_int info ''piece length'' = Some pl'" "0 < pl'"
    "benc_dget_mem info ''pieces'' = Some (Some (np, s))" "mi_test_length info = Some (Some l)"
    "mi_test_bounds l (np div 20) pl'"
    by (rule mi_test_infoD [OF assms(1)])
  with assms(2,3) have e: "n = np div 20" "pl = pl'" by (simp_all add: mi_npieces_def mi_piece_length_def)
  from mi_test_files_result [OF assms(1)] i(1,5) have t: "mi_total_length p = Some l" "0 \<le> l" by auto
  from mi_test_bounds_int [OF i(6) t(2) mi_test_length_range [OF i(5)] i(3)] assms(4) e
    benc_dget_int_range [OF i(2)] i(3) t(1) show ?thesis by auto
qed

theorem mi_test_piece_bounds_witness:
  "1 \<le> (2 :: nat) \<and> 0 < (6 :: int) \<and>
    (\<exists>tot. mi_total_length torrent_short = Some tot \<and> (int 2 - 1) * 6 \<le> tot \<and> tot \<le> int 2 * 6)"
  by (rule mi_test_piece_bounds [OF torrent_short_ok])
    (simp_all add: mi_eval torrent_short_def mi_npieces_def mi_piece_length_def)

text \<open>The bound is not strict: in this file the last piece has no bytes. It also has no name, and no file list.\<close>

lemma torrent_short_files: "mi_files torrent_short = Some None" "mi_total_length torrent_short = Some 6"
  by (simp_all add: mi_eval torrent_short_def mi_files_def mi_total_length_def)

text \<open>
  A component is compared with its length, and used as a NUL-terminated string: dot-dot followed by
  NUL passes.
\<close>

definition torrent_nul :: cstr where
  "torrent_nul = ''d8:announce1:u4:infod5:filesld6:lengthi1e4:pathl3:..'' @ [CHR 0x00] @
     ''1:xeee12:piece lengthi6e6:pieces20:aaaaaaaaaaaaaaaaaaaaee''"

lemma mi_test_accepts_nul:
  "mi_test torrent_nul = Some True"
  "mi_files torrent_nul = Some (Some [(''..'' @ [CHR 0x00] @ ''/x'', 1)])"
  by (simp_all add: mi_eval torrent_nul_def mi_files_def mi_filepath_def)

text \<open>A tier list may end in an element that is no list; the test passes and \<^verbatim>\<open>mi_announce\<close> asserts.\<close>

definition torrent_tier :: cstr where
  "torrent_tier = ''d13:announce-listll1:ue1:ve4:infod6:lengthi5e4:name1:n12:piece lengthi6e6:pieces20:aaaaaaaaaaaaaaaaaaaaee''"

lemma mi_announce_asserts:
  "mi_test torrent_tier = Some True" "mi_announce rnd torrent_tier = None"
  by (simp_all add: mi_eval torrent_tier_def mi_announce_def)

text \<open>Shuffling only reorders the urls inside each tier.\<close>

theorem mi_shuffle_announce_permutes:
  assumes "\<forall>i j n. j < n \<longrightarrow> rnd i j n < n"
  shows "map mset (mi_shuffle_announce rnd tiers) = map mset tiers"
proof -
  have "mset (shuffle_tier (\<lambda>j. rnd i j (length t)) t) = mset t" for i and t :: "cstr list"
    using assms by (intro mset_shuffle_tier) auto
  then have "map mset (mi_shuffle_announce rnd tiers) = map (\<lambda>i. mset (tiers ! i)) [0..<length tiers]"
    by (simp add: mi_shuffle_announce_def)
  also have "\<dots> = map mset (map ((!) tiers) [0..<length tiers])" by simp
  finally show ?thesis by (simp only: map_nth)
qed

theorem mi_shuffle_announce_permutes_witness:
  "map mset (mi_shuffle_announce (\<lambda>i j n. n - 1) [[''u'', ''v'', ''w''], [''x'']]) =
     map mset [[''u'', ''v'', ''w''], [''x'']]"
  by (rule mi_shuffle_announce_permutes) simp

end
