(* ===== verification/Content.thy ===== *)
theory Content
  imports Stream Subr
begin

text \<open>
  \<^verbatim>\<open>btpd/content.c\<close> and the size functions of \<^verbatim>\<open>btpd/torrent.c\<close>: which pieces and blocks of a torrent
  are on disk, the start-up test of the pieces, and reading, writing and checking of content.

  A torrent is known by a number (its address in the program). The fields \<open>tp_total_length\<close> to
  \<open>tp_piece_hash\<close> are what \<^verbatim>\<open>torrent_start\<close> takes from the metainfo file; \<open>tp_piece_hash\<close> is what
  \<^verbatim>\<open>tlib_read_hash\<close> reads back from it (a failure there ends the process). The two fields of the resume
  file that are mapped into memory are \<open>cm_piece_field\<close> and \<open>cm_block_field\<close>, its file times
  and sizes \<open>cm_fts\<close>. A stream pointer is NULL, valid, or freed.
\<close>

section \<open>The state\<close>

type_synonym tid = nat
type_synonym fts = "int \<times> int"

datatype 'a ptr = Null | Ptr 'a | Freed

datatype cm_state = CM_INACTIVE | CM_STARTING | CM_ACTIVE

record content =
  cm_state :: cm_state
  cm_err :: bool
  cm_npieces_got :: nat
  cm_ncontent_bytes :: int
  cm_bppbf :: nat
  cm_piece_field :: "byte list"
  cm_block_field :: "byte list"
  cm_pos_field :: "byte list"
  cm_rds :: "bt_stream ptr"
  cm_wrs :: "bt_stream ptr"
  cm_fts :: "fts list"

datatype torrent_state = T_STARTING | T_LEECH | T_SEED | T_STOPPING | T_GHOST

record torrent =
  tp_state :: torrent_state
  tp_total_length :: nat
  tp_piece_length :: nat
  tp_npieces :: nat
  tp_files :: "mfile list"
  tp_hash :: "byte list"
  tp_piece_hash :: "nat \<Rightarrow> byte list"
  tp_cm :: content

record start_test_data =
  std_tp :: tid
  std_fts :: "fts list"
  std_start :: nat

text \<open>
  What the environment answers: the two ways a stream opens its files, SHA1, the option
  \<^verbatim>\<open>cm_alloc_size\<close>, the allocator of \<^verbatim>\<open>bts_open\<close>, the file system calls of \<^verbatim>\<open>stat_and_adjust\<close>
  (\<open>None\<close> for success) and the contents of an uninitialised array.
\<close>

record cm_env =
  ce_rd :: kernel
  ce_wr :: kernel
  ce_sha :: "byte list \<Rightarrow> byte list"
  ce_alloc_size :: int
  ce_mem_ok :: bool
  ce_stat :: "cstr \<Rightarrow> errno option"
  ce_creat :: "cstr \<Rightarrow> errno option"
  ce_trunc :: "cstr \<Rightarrow> errno option"
  ce_mtime :: "cstr \<Rightarrow> int"
  ce_junk :: "nat \<Rightarrow> fts"

text \<open>\<open>cw_workev\<close>: the timer \<^verbatim>\<open>m_workev\<close> is pending. \<open>cw_exists\<close>: the files that are there.\<close>

record cm_world =
  cw_env :: cm_env
  cw_disk :: disk
  cw_exists :: "cstr \<Rightarrow> bool"
  cw_tor :: "tid \<Rightarrow> torrent option"
  cw_startq :: "start_test_data list"
  cw_workev :: bool

definition PIECE_BLOCKLEN :: nat where
  "PIECE_BLOCKLEN = 16384"

section \<open>Sizes of pieces and blocks\<close>

text \<open>
  The metainfo checks bound the total length by the piece lengths (\<^verbatim>\<open>mi_test\<close>), so the subtraction
  does not go below zero; \<^verbatim>\<open>nblocks - 1\<close> is unsigned and wraps for 0.
\<close>

definition torrent_piece_size :: "torrent \<Rightarrow> nat \<Rightarrow> nat" where
  "torrent_piece_size tp index =
     (if index < tp_npieces tp - 1 then tp_piece_length tp
      else let allbutlast = tp_piece_length tp * (tp_npieces tp - 1) in tp_total_length tp - allbutlast)"

definition torrent_piece_blocks :: "torrent \<Rightarrow> nat \<Rightarrow> nat" where
  "torrent_piece_blocks tp piece = (torrent_piece_size tp piece + (PIECE_BLOCKLEN - 1)) div PIECE_BLOCKLEN"

definition torrent_block_size :: "torrent \<Rightarrow> nat \<Rightarrow> nat \<Rightarrow> nat \<Rightarrow> nat" where
  "torrent_block_size tp piece nblocks block =
     (if nblocks = 0 \<or> block < nblocks - 1 then PIECE_BLOCKLEN
      else let allbutlast = PIECE_BLOCKLEN * (nblocks - 1) in torrent_piece_size tp piece - allbutlast)"

section \<open>Access\<close>

definition upd_cm :: "tid \<Rightarrow> (content \<Rightarrow> content) \<Rightarrow> 'a cm_world_scheme \<Rightarrow> 'a cm_world_scheme" where
  "upd_cm t f w = w\<lparr>cw_tor := (cw_tor w)(t := map_option (\<lambda>tp. tp\<lparr>tp_cm := f (tp_cm tp)\<rparr>) (cw_tor w t))\<rparr>"

fun deref :: "'a ptr \<Rightarrow> 'a option" where
  "deref (Ptr x) = Some x"
| "deref Null = None"
| "deref Freed = None"

definition cm_active :: "torrent \<Rightarrow> bool" where
  "cm_active tp \<longleftrightarrow> cm_state (tp_cm tp) \<noteq> CM_INACTIVE"

definition cm_error :: "torrent \<Rightarrow> bool" where
  "cm_error tp \<longleftrightarrow> cm_err (tp_cm tp)"

definition cm_started :: "torrent \<Rightarrow> bool" where
  "cm_started tp \<longleftrightarrow> cm_state (tp_cm tp) = CM_ACTIVE"

definition cm_full :: "torrent \<Rightarrow> bool" where
  "cm_full tp \<longleftrightarrow> cm_npieces_got (tp_cm tp) = tp_npieces tp"

definition cm_content :: "torrent \<Rightarrow> int" where
  "cm_content tp = cm_ncontent_bytes (tp_cm tp)"

definition cm_pieces :: "torrent \<Rightarrow> nat" where
  "cm_pieces tp = cm_npieces_got (tp_cm tp)"

definition cm_get_piece_field :: "torrent \<Rightarrow> byte list" where
  "cm_get_piece_field tp = cm_piece_field (tp_cm tp)"

text \<open>A pointer into the block field is the rest of the field behind it.\<close>

definition cm_get_block_field :: "torrent \<Rightarrow> nat \<Rightarrow> byte list" where
  "cm_get_block_field tp piece = drop (piece * cm_bppbf (tp_cm tp)) (cm_block_field (tp_cm tp))"

definition cm_has_piece :: "torrent \<Rightarrow> nat \<Rightarrow> bool" where
  "cm_has_piece tp piece = has_bit (cm_piece_field (tp_cm tp)) piece"

text \<open>\<^verbatim>\<open>bzero\<close> of \<open>n\<close> bytes at index \<open>i\<close>.\<close>

definition bzero_at :: "byte list \<Rightarrow> nat \<Rightarrow> nat \<Rightarrow> byte list" where
  "bzero_at bs i n = take i bs @ replicate n 0 @ drop (i + n) bs"

section \<open>The files on disk\<close>

text \<open>
  \<^verbatim>\<open>stat_and_adjust\<close> for one file: it is created if it is missing and cut if it is too long, and asked
  again after either. Three rounds are enough, since a created file is empty and a cut one has its length.
\<close>

fun stat_adjust_file :: "nat \<Rightarrow> mfile \<Rightarrow> 'a cm_world_scheme \<Rightarrow> ((errno + fts) \<times> 'a cm_world_scheme) option" where
  "stat_adjust_file 0 f w = None"
| "stat_adjust_file (Suc n) f w =
     (let (path, len) = f; e = cw_env w in
      if \<not> cw_exists w path
      then (case ce_creat e path of
              Some err \<Rightarrow> Some (Inl err, w)
            | None \<Rightarrow> stat_adjust_file n f (w\<lparr>cw_exists := (cw_exists w)(path := True),
                                               cw_disk := (cw_disk w)(path := [])\<rparr>))
      else (case ce_stat e path of
              Some err \<Rightarrow> Some (Inl err, w)
            | None \<Rightarrow>
                if length (cw_disk w path) > len
                then (case ce_trunc e path of
                        Some err \<Rightarrow> Some (Inl err, w)
                      | None \<Rightarrow> stat_adjust_file n f (w\<lparr>cw_disk := (cw_disk w)(path := take len (cw_disk w path))\<rparr>))
                else Some (Inr (ce_mtime e path, int (length (cw_disk w path))), w)))"

fun stat_and_adjust :: "mfile list \<Rightarrow> fts list \<Rightarrow> 'a cm_world_scheme \<Rightarrow>
    (errno option \<times> fts list \<times> 'a cm_world_scheme) option" where
  "stat_and_adjust [] ret w = Some (None, ret, w)"
| "stat_and_adjust (f # fs) ret w =
     do {
       (r, w1) \<leftarrow> stat_adjust_file 3 f w;
       case r of Inl err \<Rightarrow> Some (Some err, ret, w1) | Inr x \<Rightarrow> stat_and_adjust fs (ret @ [x]) w1 }"

text \<open>\<^verbatim>\<open>cm_save\<close> does not look at the error: entries behind a failing file are not initialised.\<close>

definition cm_save :: "tid \<Rightarrow> 'a cm_world_scheme \<Rightarrow> 'a cm_world_scheme option" where
  "cm_save t w =
     do {
       tp \<leftarrow> cw_tor w t;
       (err, fts, w1) \<leftarrow> stat_and_adjust (tp_files tp) [] w;
       let all = fts @ map (ce_junk (cw_env w)) [length fts ..< length (tp_files tp)];
       Some (upd_cm t (\<lambda>cm. cm\<lparr>cm_fts := all\<rparr>) w1) }"

section \<open>Errors and stopping\<close>

text \<open>
  \<^verbatim>\<open>cm_on_error\<close>, \<^verbatim>\<open>cm_stop\<close> and \<^verbatim>\<open>cm_write_done\<close> call each other. Each body takes the function it
  calls as an argument; the recursion ends because \<^verbatim>\<open>cm_on_error\<close> sets the flag that the inner calls
  test first. The equations of the source are the lemmas \<open>cm_on_error_eq\<close> to \<open>cm_write_done_eq\<close>.
\<close>

definition cm_on_error_body :: "(tid \<Rightarrow> 'a cm_world_scheme \<Rightarrow> 'a cm_world_scheme option) \<Rightarrow>
    tid \<Rightarrow> 'a cm_world_scheme \<Rightarrow> 'a cm_world_scheme option" where
  "cm_on_error_body stop t w =
     do {
       tp \<leftarrow> cw_tor w t;
       if \<not> cm_err (tp_cm tp) then stop t (upd_cm t (\<lambda>cm. cm\<lparr>cm_err := True\<rparr>) w) else Some w }"

definition cm_write_done_body :: "(tid \<Rightarrow> 'a cm_world_scheme \<Rightarrow> 'a cm_world_scheme option) \<Rightarrow>
    tid \<Rightarrow> 'a cm_world_scheme \<Rightarrow> 'a cm_world_scheme option" where
  "cm_write_done_body on_error t w =
     do {
       tp \<leftarrow> cw_tor w t;
       wrs \<leftarrow> deref (cm_wrs (tp_cm tp));
       let err = bts_close (ce_wr (cw_env w)) wrs;
       let w1 = upd_cm t (\<lambda>cm. cm\<lparr>cm_wrs := Null\<rparr>) w;
       w2 \<leftarrow> (if err \<noteq> None \<and> \<not> cm_err (tp_cm tp) then on_error t w1 else Some w1);
       tp2 \<leftarrow> cw_tor w2 t;
       if \<not> cm_err (tp_cm tp2) then cm_save t w2 else Some w2 }"

fun std_remove :: "tid \<Rightarrow> start_test_data list \<Rightarrow> start_test_data list" where
  "std_remove t [] = []"
| "std_remove t (s # q) = (if std_tp s = t then q else s # std_remove t q)"

definition cm_stop_body :: "(tid \<Rightarrow> 'a cm_world_scheme \<Rightarrow> 'a cm_world_scheme option) \<Rightarrow>
    tid \<Rightarrow> 'a cm_world_scheme \<Rightarrow> 'a cm_world_scheme option" where
  "cm_stop_body write_done t w =
     do {
       tp \<leftarrow> cw_tor w t;
       let cm = tp_cm tp;
       if cm_state cm \<noteq> CM_STARTING \<and> cm_state cm \<noteq> CM_ACTIVE then Some w
       else do {
         let w1 = (if cm_state cm = CM_STARTING then w\<lparr>cw_startq := std_remove t (cw_startq w)\<rparr> else w);
         w2 \<leftarrow> (if cm_rds cm \<noteq> Null
                then do { rds \<leftarrow> deref (cm_rds cm); Some (upd_cm t (\<lambda>cm. cm\<lparr>cm_rds := Freed\<rparr>) w1) }
                else Some w1);
         w3 \<leftarrow> (if cm_wrs cm \<noteq> Null then write_done t w2 else Some w2);
         Some (upd_cm t (\<lambda>cm. cm\<lparr>cm_state := CM_INACTIVE\<rparr>) w3) } }"

definition cm_on_error :: "tid \<Rightarrow> 'a cm_world_scheme \<Rightarrow> 'a cm_world_scheme option" where
  "cm_on_error = cm_on_error_body (cm_stop_body (cm_write_done_body (\<lambda>_. Some)))"

definition cm_write_done :: "tid \<Rightarrow> 'a cm_world_scheme \<Rightarrow> 'a cm_world_scheme option" where
  "cm_write_done = cm_write_done_body cm_on_error"

definition cm_stop :: "tid \<Rightarrow> 'a cm_world_scheme \<Rightarrow> 'a cm_world_scheme option" where
  "cm_stop = cm_stop_body cm_write_done"

section \<open>Reading, writing and testing\<close>

text \<open>A read of \<open>len\<close> bytes needs at most \<open>len\<close> rounds, since every round reads a byte or returns.\<close>

definition cm_get_bytes :: "tid \<Rightarrow> nat \<Rightarrow> nat \<Rightarrow> nat \<Rightarrow> 'a cm_world_scheme \<Rightarrow>
    ((errno + byte list) \<times> 'a cm_world_scheme) option" where
  "cm_get_bytes t piece begin' len w =
     do {
       tp \<leftarrow> cw_tor w t;
       if cm_err (tp_cm tp) then Some (Inl EIO, w)
       else do {
         rds \<leftarrow> deref (cm_rds (tp_cm tp));
         (err, buf, rds1) \<leftarrow> bts_get (ce_rd (cw_env w)) (cw_disk w) len rds (piece * tp_piece_length tp + begin') len;
         let w1 = upd_cm t (\<lambda>cm. cm\<lparr>cm_rds := Ptr rds1\<rparr>) w;
         case err of
           Some e \<Rightarrow> do { w2 \<leftarrow> cm_on_error t w1; Some (Inl e, w2) }
         | None \<Rightarrow> Some (Inr buf, w1) } }"

definition cm_prealloc :: "tid \<Rightarrow> nat \<Rightarrow> 'a cm_world_scheme \<Rightarrow> 'a cm_world_scheme" where
  "cm_prealloc t piece w =
     (if ce_alloc_size (cw_env w) \<le> 0
      then upd_cm t (\<lambda>cm. cm\<lparr>cm_pos_field := set_bit (cm_pos_field cm) piece\<rparr>) w else w)"

definition test_hash :: "torrent \<Rightarrow> byte list \<Rightarrow> nat \<Rightarrow> bool" where
  "test_hash tp h piece = (h = tp_piece_hash tp piece)"

text \<open>\<^verbatim>\<open>bts_sha\<close> reads at most \<^verbatim>\<open>SHAFILEBUF\<close> bytes at a time.\<close>

definition test_piece :: "tid \<Rightarrow> nat \<Rightarrow> 'a cm_world_scheme \<Rightarrow> ((errno + bool) \<times> 'a cm_world_scheme) option" where
  "test_piece t piece w =
     do {
       tp \<leftarrow> cw_tor w t;
       rds \<leftarrow> deref (cm_rds (tp_cm tp));
       (err, h, rds1) \<leftarrow> bts_sha (ce_sha (cw_env w)) (ce_rd (cw_env w)) (cw_disk w) SHAFILEBUF rds
          (piece * tp_piece_length tp) (torrent_piece_size tp piece);
       let w1 = upd_cm t (\<lambda>cm. cm\<lparr>cm_rds := Ptr rds1\<rparr>) w;
       case err of Some e \<Rightarrow> Some (Inl e, w1) | None \<Rightarrow> Some (Inr (test_hash tp h piece), w1) }"

text \<open>
  The download component reacts to a tested piece; it is a later theory, so its two handlers are
  arguments here. They are called with the torrent when its network side is active.
\<close>

definition cm_test_piece :: "(nat \<Rightarrow> 'a cm_world_scheme \<Rightarrow> 'a cm_world_scheme option) \<Rightarrow>
    (nat \<Rightarrow> 'a cm_world_scheme \<Rightarrow> 'a cm_world_scheme option) \<Rightarrow>
    tid \<Rightarrow> nat \<Rightarrow> 'a cm_world_scheme \<Rightarrow> 'a cm_world_scheme option" where
  "cm_test_piece on_ok on_bad t piece w =
     do {
       (r, w1) \<leftarrow> test_piece t piece w;
       case r of
         Inl e \<Rightarrow> cm_on_error t w1
       | Inr ok \<Rightarrow> do {
           tp \<leftarrow> cw_tor w1 t;
           let cm = tp_cm tp;
           if ok
           then do {
             guard_opt (cm_npieces_got cm < tp_npieces tp);
             w2 \<leftarrow> on_ok piece (upd_cm t (\<lambda>cm. cm\<lparr>cm_npieces_got := cm_npieces_got cm + 1,
                       cm_piece_field := set_bit (cm_piece_field cm) piece\<rparr>) w1);
             tp2 \<leftarrow> cw_tor w2 t;
             if cm_full tp2 then cm_write_done t w2 else Some w2 }
           else on_bad piece (upd_cm t (\<lambda>cm. cm\<lparr>cm_ncontent_bytes := cm_ncontent_bytes cm - int (torrent_piece_size tp piece),
                    cm_block_field := bzero_at (cm_block_field cm) (piece * cm_bppbf cm) (cm_bppbf cm)\<rparr>) w1) } }"

definition ZEROBUFLEN :: nat where
  "ZEROBUFLEN = 16384"

text \<open>\<^verbatim>\<open>bts_put\<close> on the write stream of a torrent; one round per byte is enough for a kernel that makes progress.\<close>

definition wrs_put :: "tid \<Rightarrow> nat \<Rightarrow> byte list \<Rightarrow> 'a cm_world_scheme \<Rightarrow> (errno option \<times> 'a cm_world_scheme) option" where
  "wrs_put t off buf w =
     do {
       tp \<leftarrow> cw_tor w t;
       wrs \<leftarrow> deref (cm_wrs (tp_cm tp));
       (err, disk', wrs1) \<leftarrow> bts_put (ce_wr (cw_env w)) (length buf) (cw_disk w) wrs off buf;
       let w1 = upd_cm t (\<lambda>cm. cm\<lparr>cm_wrs := Ptr wrs1\<rparr>) (w\<lparr>cw_disk := disk'\<rparr>);
       case err of
         None \<Rightarrow> Some (None, w1)
       | Some e \<Rightarrow> do { w2 \<leftarrow> cm_on_error t w1; Some (Some e, w2) } }"

function zero_fill :: "tid \<Rightarrow> nat \<Rightarrow> nat \<Rightarrow> 'a cm_world_scheme \<Rightarrow> (errno option \<times> 'a cm_world_scheme) option" where
  "zero_fill t off len w =
     (if len > 0
      then do {
        let wlen = min ZEROBUFLEN len;
        (err, w1) \<leftarrow> wrs_put t off (replicate wlen 0) w;
        if err \<noteq> None then Some (err, w1) else zero_fill t (off + wlen) (len - wlen) w1 }
      else Some (None, w))"
  by pat_completeness auto
termination
  by (relation "measure (\<lambda>(t, off, len, w). len)") (auto simp: ZEROBUFLEN_def)

declare zero_fill.simps [simp del]

text \<open>Space for the pieces \<open>start\<close> up to \<open>end\<close> that have none yet.\<close>

function alloc_pieces :: "tid \<Rightarrow> nat \<Rightarrow> nat \<Rightarrow> 'a cm_world_scheme \<Rightarrow> (errno option \<times> 'a cm_world_scheme) option" where
  "alloc_pieces t start end' w =
     (if start < end'
      then do {
        tp \<leftarrow> cw_tor w t;
        if \<not> has_bit (cm_pos_field (tp_cm tp)) start
        then do {
          guard_opt (\<not> has_bit (cm_piece_field (tp_cm tp)) start);
          (err, w1) \<leftarrow> zero_fill t (tp_piece_length tp * start) (torrent_piece_size tp start) w;
          if err \<noteq> None then Some (err, w1)
          else alloc_pieces t (start + 1) end' (upd_cm t (\<lambda>cm. cm\<lparr>cm_pos_field := set_bit (cm_pos_field cm) start\<rparr>) w1) }
        else alloc_pieces t (start + 1) end' w }
      else Some (None, w))"
  by pat_completeness auto
termination
  by (relation "measure (\<lambda>(t, start, end', w). end' - start)") auto

declare alloc_pieces.simps [simp del]

text \<open>\<^verbatim>\<open>ceil((double)cm_alloc_size / tp->piece_length)\<close> pieces are given space together.\<close>

definition alloc_group :: "torrent \<Rightarrow> int \<Rightarrow> nat" where
  "alloc_group tp sz = nat ((sz + int (tp_piece_length tp) - 1) div int (tp_piece_length tp))"

definition cm_put_bytes :: "tid \<Rightarrow> nat \<Rightarrow> nat \<Rightarrow> byte list \<Rightarrow> 'a cm_world_scheme \<Rightarrow>
    (errno option \<times> 'a cm_world_scheme) option" where
  "cm_put_bytes t piece begin' buf w =
     do {
       tp \<leftarrow> cw_tor w t;
       if cm_err (tp_cm tp) then Some (Some EIO, w)
       else do {
         guard_opt (\<not> has_bit (cm_get_block_field tp piece) (begin' div PIECE_BLOCKLEN));
         guard_opt (\<not> has_bit (cm_piece_field (tp_cm tp)) piece);
         (err, w1) \<leftarrow> (if \<not> has_bit (cm_pos_field (tp_cm tp)) piece
            then do {
              let npieces = alloc_group tp (ce_alloc_size (cw_env w));
              guard_opt (npieces \<noteq> 0);
              let start = piece - piece mod npieces;
              alloc_pieces t start (min (start + npieces) (tp_npieces tp)) w }
            else Some (None, w));
         if err \<noteq> None then Some (err, w1)
         else do {
           (err2, w2) \<leftarrow> wrs_put t (piece * tp_piece_length tp + begin') buf w1;
           if err2 \<noteq> None then Some (err2, w2)
           else Some (None, upd_cm t (\<lambda>cm. cm\<lparr>cm_ncontent_bytes := cm_ncontent_bytes cm + int (length buf),
               cm_block_field := set_bit (cm_block_field cm) (piece * cm_bppbf cm * 8 + begin' div PIECE_BLOCKLEN)\<rparr>) w2) } } }"

section \<open>Starting: the test of what is on disk\<close>

text \<open>The loop of \<^verbatim>\<open>startup_test_end\<close> over the pieces; \<open>blocks_got\<close> are the blocks with their bit set.\<close>

definition blocks_got :: "torrent \<Rightarrow> content \<Rightarrow> nat \<Rightarrow> nat list" where
  "blocks_got tp cm piece =
     [i \<leftarrow> [0 ..< torrent_piece_blocks tp piece]. has_bit (drop (cm_bppbf cm * piece) (cm_block_field cm)) i]"

definition test_end_piece :: "torrent \<Rightarrow> content \<Rightarrow> nat \<Rightarrow> content" where
  "test_end_piece tp cm piece =
     (if has_bit (cm_piece_field cm) piece
      then cm\<lparr>cm_ncontent_bytes := cm_ncontent_bytes cm + int (torrent_piece_size tp piece),
              cm_npieces_got := cm_npieces_got cm + 1,
              cm_pos_field := set_bit (cm_pos_field cm) piece\<rparr>
      else let nblocks = torrent_piece_blocks tp piece; got = blocks_got tp cm piece;
               cm1 = cm\<lparr>cm_ncontent_bytes := cm_ncontent_bytes cm
                          + int (sum_list (map (torrent_block_size tp piece nblocks) got))\<rparr>
           in if length got = nblocks
              then cm1\<lparr>cm_block_field := bzero_at (cm_block_field cm1) (cm_bppbf cm * piece) (cm_bppbf cm),
                       cm_ncontent_bytes := cm_ncontent_bytes cm1 - int (torrent_piece_size tp piece)\<rparr>
              else if length got > 0 then cm1\<lparr>cm_pos_field := set_bit (cm_pos_field cm1) piece\<rparr>
              else cm1)"

text \<open>The end of the function: a stream to write to, if something is missing.\<close>

definition open_for_writing :: "tid \<Rightarrow> 'a cm_world_scheme \<Rightarrow> 'a cm_world_scheme option" where
  "open_for_writing t w =
     do {
       tp \<leftarrow> cw_tor w t;
       if \<not> cm_full tp
       then (case bts_open (ce_mem_ok (cw_env w)) (tp_files tp) of
               Inl e \<Rightarrow> cm_on_error t w
             | Inr wrs \<Rightarrow> Some (upd_cm t (\<lambda>cm. cm\<lparr>cm_wrs := Ptr wrs, cm_state := CM_ACTIVE\<rparr>) w))
       else Some (upd_cm t (\<lambda>cm. cm\<lparr>cm_state := CM_ACTIVE\<rparr>) w) }"

definition startup_test_end :: "tid \<Rightarrow> bool \<Rightarrow> 'a cm_world_scheme \<Rightarrow> 'a cm_world_scheme option" where
  "startup_test_end t unclean w =
     do {
       tp \<leftarrow> cw_tor w t;
       let w1 = upd_cm t (\<lambda>cm. foldl (test_end_piece tp)
             (cm\<lparr>cm_pos_field := bzero_at (cm_pos_field cm) 0 (field_len (tp_npieces tp))\<rparr>) [0 ..< tp_npieces tp]) w;
       w2 \<leftarrow> (if unclean
              then (case cw_startq w1 of
                      [] \<Rightarrow> None
                    | std # q \<Rightarrow> Some (upd_cm t (\<lambda>cm. cm\<lparr>cm_fts := std_fts std\<rparr>) (w1\<lparr>cw_startq := q\<rparr>)))
              else Some w1);
       open_for_writing t w2 }"

text \<open>The next piece from \<open>i\<close> on that may have something on disk, the number of pieces if there is none.\<close>

function next_pos :: "byte list \<Rightarrow> nat \<Rightarrow> nat \<Rightarrow> nat" where
  "next_pos pos npieces i = (if i < npieces \<and> \<not> has_bit pos i then next_pos pos npieces (i + 1) else i)"
  by pat_completeness auto
termination
  by (relation "measure (\<lambda>(pos, npieces, i). npieces - i)") auto

declare next_pos.simps [simp del]

definition startup_test_run :: "'a cm_world_scheme \<Rightarrow> 'a cm_world_scheme option" where
  "startup_test_run w =
     (case cw_startq w of
        [] \<Rightarrow> Some w
      | std # q \<Rightarrow> do {
          let t = std_tp std;
          (r, w1) \<leftarrow> test_piece t (std_start std) w;
          case r of
            Inl e \<Rightarrow> cm_on_error t w1
          | Inr ok \<Rightarrow> do {
              tp \<leftarrow> cw_tor w1 t;
              let w2 = upd_cm t (\<lambda>cm. cm\<lparr>cm_piece_field :=
                         (if ok then set_bit else clear_bit) (cm_piece_field cm) (std_start std)\<rparr>) w1;
              let start = next_pos (cm_pos_field (tp_cm tp)) (tp_npieces tp) (std_start std + 1);
              let w3 = w2\<lparr>cw_startq := std\<lparr>std_start := start\<rparr> # q\<rparr>;
              w4 \<leftarrow> (if start \<ge> tp_npieces tp then startup_test_end t True w3 else Some w3);
              Some (if cw_startq w4 \<noteq> [] then w4\<lparr>cw_workev := True\<rparr> else w4) } })"

text \<open>The timer \<^verbatim>\<open>m_workev\<close> fires: it is no longer pending when its callback runs.\<close>

definition worker_cb :: "'a cm_world_scheme \<Rightarrow> 'a cm_world_scheme option" where
  "worker_cb w = startup_test_run (w\<lparr>cw_workev := False\<rparr>)"

definition startup_test_begin :: "tid \<Rightarrow> fts list \<Rightarrow> 'a cm_world_scheme \<Rightarrow> 'a cm_world_scheme option" where
  "startup_test_begin t fts w =
     do {
       tp \<leftarrow> cw_tor w t;
       let piece = next_pos (cm_pos_field (tp_cm tp)) (tp_npieces tp) 0;
       if piece < tp_npieces tp
       then Some (w\<lparr>cw_startq := cw_startq w @ [\<lparr>std_tp = t, std_fts = fts, std_start = piece\<rparr>],
                    cw_workev := (cw_startq w = [] \<or> cw_workev w)\<rparr>)
       else startup_test_end t False w }"

definition clear_piece :: "content \<Rightarrow> nat \<Rightarrow> content" where
  "clear_piece cm start =
     cm\<lparr>cm_pos_field := clear_bit (cm_pos_field cm) start,
        cm_piece_field := clear_bit (cm_piece_field cm) start,
        cm_block_field := bzero_at (cm_block_field cm) (start * cm_bppbf cm) (cm_bppbf cm)\<rparr>"

text \<open>
  The pieces that reach into the missing end of a short file are cleared. The unsigned range of the
  loop is empty when the file's last byte lies before the start.
\<close>

fun clear_short :: "torrent \<Rightarrow> nat \<Rightarrow> mfile list \<Rightarrow> fts list \<Rightarrow> content \<Rightarrow> content" where
  "clear_short tp off (f # fs) (x # xs) cm =
     (let cm1 = (if snd x \<noteq> int (snd f)
                 then let end' = (off + snd f - 1) div tp_piece_length tp;
                          start = (off + nat (snd x)) div tp_piece_length tp
                      in foldl clear_piece cm [start ..< end' + 1]
                 else cm)
      in clear_short tp (off + snd f) fs xs cm1)"
| "clear_short tp off _ _ cm = cm"

definition cm_start :: "tid \<Rightarrow> bool \<Rightarrow> 'a cm_world_scheme \<Rightarrow> 'a cm_world_scheme option" where
  "cm_start t force_test w =
     do {
       tp \<leftarrow> cw_tor w t;
       let w1 = upd_cm t (\<lambda>cm. cm\<lparr>cm_state := CM_STARTING\<rparr>) w;
       case bts_open (ce_mem_ok (cw_env w)) (tp_files tp) of
         Inl e \<Rightarrow> cm_on_error t w1
       | Inr rds \<Rightarrow> do {
           (err, fts, w2) \<leftarrow> stat_and_adjust (tp_files tp) [] (upd_cm t (\<lambda>cm. cm\<lparr>cm_rds := Ptr rds\<rparr>) w1);
           if err \<noteq> None then cm_on_error t w2
           else do {
             let run_test = (force_test \<or> fts \<noteq> cm_fts (tp_cm tp));
             let w3 = (if run_test
                       then upd_cm t (\<lambda>cm. clear_short tp 0 (tp_files tp) fts
                              (cm\<lparr>cm_pos_field := replicate (field_len (tp_npieces tp)) 0xff\<rparr>)) w2
                       else w2);
             startup_test_begin t fts w3 } } }"

text \<open>
  \<^verbatim>\<open>cm_create\<close>: \<open>pf\<close>, \<open>bf\<close> and \<open>fts\<close> are the piece field, the block field and the file times of the
  resume file, which has the sizes asked for.
\<close>

definition cm_create :: "byte list \<Rightarrow> byte list \<Rightarrow> fts list \<Rightarrow> torrent \<Rightarrow> torrent" where
  "cm_create pf bf fts tp =
     tp\<lparr>tp_cm := \<lparr>cm_state = CM_INACTIVE, cm_err = False, cm_npieces_got = 0, cm_ncontent_bytes = 0,
        cm_bppbf = (tp_piece_length tp + (131072 - 1)) div 131072,
        cm_piece_field = pf, cm_block_field = bf, cm_pos_field = replicate (field_len (tp_npieces tp)) 0,
        cm_rds = Null, cm_wrs = Null, cm_fts = fts\<rparr>\<rparr>"

section \<open>Stopping and errors\<close>

lemma cw_tor_upd_cm [simp]:
  "cw_tor (upd_cm t f w) t' = (if t' = t then map_option (\<lambda>tp. tp\<lparr>tp_cm := f (tp_cm tp)\<rparr>) (cw_tor w t) else cw_tor w t')"
  by (simp add: upd_cm_def)

lemma upd_cm_frame [simp]:
  "cw_env (upd_cm t f w) = cw_env w" "cw_disk (upd_cm t f w) = cw_disk w" "cw_exists (upd_cm t f w) = cw_exists w"
  "cw_startq (upd_cm t f w) = cw_startq w" "cw_workev (upd_cm t f w) = cw_workev w"
  by (simp_all add: upd_cm_def)

lemma deref_Some [simp]: "deref p = Some x \<longleftrightarrow> p = Ptr x"
  by (cases p) simp_all

lemma deref_None [simp]: "deref p = None \<longleftrightarrow> p = Null \<or> p = Freed"
  by (cases p) simp_all

text \<open>With the error flag set the inner calls have nothing to do, so the unrolled functions are the source's.\<close>

lemma cm_on_error_set:
  "cw_tor w t = Some tp \<Longrightarrow> cm_err (tp_cm tp) \<Longrightarrow> cm_on_error t w = Some w"
  by (simp add: cm_on_error_def cm_on_error_body_def)

lemma write_done_err:
  "cw_tor w t = Some tp \<Longrightarrow> cm_err (tp_cm tp) \<Longrightarrow>
     cm_write_done_body f t w = cm_write_done_body g t w"
  by (cases "cm_wrs (tp_cm tp)") (simp_all add: cm_write_done_body_def Let_def)

lemma stop_err:
  assumes "cw_tor w t = Some tp" "cm_err (tp_cm tp)"
  shows "cm_stop_body (cm_write_done_body f) t w = cm_stop_body (cm_write_done_body g) t w"
proof -
  have "cm_write_done_body f t v = cm_write_done_body g t v"
    if "cw_tor v t = Some tp'" "cm_err (tp_cm tp')" for v tp'
    using write_done_err [OF that] .
  then show ?thesis
    using assms by (cases "cm_rds (tp_cm tp)") (auto simp: cm_stop_body_def Let_def)
qed

lemma cm_on_error_eq:
  "cm_on_error t w =
     do { tp \<leftarrow> cw_tor w t;
          if \<not> cm_err (tp_cm tp) then cm_stop t (upd_cm t (\<lambda>cm. cm\<lparr>cm_err := True\<rparr>) w) else Some w }"
proof (cases "cw_tor w t")
  case (Some tp)
  then have "cw_tor (upd_cm t (\<lambda>cm. cm\<lparr>cm_err := True\<rparr>) w) t = Some (tp\<lparr>tp_cm := (tp_cm tp)\<lparr>cm_err := True\<rparr>\<rparr>)" by simp
  from stop_err [OF this] Some show ?thesis
    by (simp add: cm_on_error_def cm_on_error_body_def cm_stop_def cm_write_done_def [abs_def])
qed (simp add: cm_on_error_def cm_on_error_body_def)

lemma cm_stop_eq: "cm_stop = cm_stop_body cm_write_done"
  by (rule cm_stop_def)

lemma cm_write_done_eq: "cm_write_done = cm_write_done_body cm_on_error"
  by (rule cm_write_done_def)

section \<open>Adjusting the files\<close>

definition adjusted :: "'a cm_world_scheme \<Rightarrow> mfile \<Rightarrow> fts \<Rightarrow> bool" where
  "adjusted w f x \<longleftrightarrow> cw_exists w (fst f) \<and> length (cw_disk w (fst f)) \<le> snd f \<and>
     x = (ce_mtime (cw_env w) (fst f), int (length (cw_disk w (fst f))))"

definition same_but_files :: "cstr set \<Rightarrow> 'a cm_world_scheme \<Rightarrow> 'a cm_world_scheme \<Rightarrow> bool" where
  "same_but_files ps w w' \<longleftrightarrow> (\<exists>ex d. w' = w\<lparr>cw_exists := ex, cw_disk := d\<rparr> \<and>
     (\<forall>p. p \<notin> ps \<longrightarrow> ex p = cw_exists w p \<and> d p = cw_disk w p))"

lemma same_but_files_refl [simp]: "same_but_files ps w w"
  unfolding same_but_files_def by (rule exI [of _ "cw_exists w"], rule exI [of _ "cw_disk w"]) simp

lemma same_but_files_trans:
  "same_but_files ps w w' \<Longrightarrow> same_but_files qs w' w'' \<Longrightarrow> same_but_files (ps \<union> qs) w w''"
  by (fastforce simp: same_but_files_def)

text \<open>Three rounds never run out; a file that is reported fits its length, and no byte within the length is lost.\<close>

lemma stat_adjust_file_spec:
  "\<exists>r w'. stat_adjust_file 3 (p, n) w = Some (r, w') \<and> same_but_files {p} w w' \<and>
     (\<forall>x. r = Inr x \<longrightarrow> adjusted w' (p, n) x \<and>
        cw_disk w' p = (if cw_exists w p then take n (cw_disk w p) else []))"
proof -
  have f2: "stat_adjust_file 2 (p, n) v = (case ce_stat (cw_env v) p of
       Some err \<Rightarrow> Some (Inl err, v)
     | None \<Rightarrow> Some (Inr (ce_mtime (cw_env v) p, int (length (cw_disk v p))), v))"
    if "cw_exists v p" "length (cw_disk v p) \<le> n" for v :: "'a cm_world_scheme"
    using that by (cases "ce_stat (cw_env v) p") (simp_all add: numeral_2_eq_2 Let_def)
  have sb: "same_but_files {p} w (w\<lparr>cw_exists := (cw_exists w)(p := True), cw_disk := (cw_disk w)(p := d)\<rparr>)" for d
    unfolding same_but_files_def by (rule exI, rule exI, rule conjI, rule refl) simp
  have sb2: "same_but_files {p} w (w\<lparr>cw_disk := (cw_disk w)(p := d)\<rparr>)" for d
    unfolding same_but_files_def
    by (rule exI [of _ "cw_exists w"], rule exI [of _ "(cw_disk w)(p := d)"]) simp
  show ?thesis
  proof (cases "cw_exists w p")
    case False
    then show ?thesis
      using f2 [of "w\<lparr>cw_exists := (cw_exists w)(p := True), cw_disk := (cw_disk w)(p := [])\<rparr>"] sb [of "[]"]
      by (cases "ce_creat (cw_env w) p"; cases "ce_stat (cw_env w) p")
        (simp_all add: numeral_3_eq_3 numeral_2_eq_2 adjusted_def Let_def)
  next
    case True
    then show ?thesis
      using f2 [of "w\<lparr>cw_disk := (cw_disk w)(p := take n (cw_disk w p))\<rparr>"] sb2
      by (cases "ce_stat (cw_env w) p"; cases "ce_trunc (cw_env w) p"; cases "length (cw_disk w p) \<le> n")
        (simp_all add: numeral_3_eq_3 numeral_2_eq_2 adjusted_def Let_def)
  qed
qed

lemma adjusted_same:
  "adjusted w f x \<Longrightarrow> same_but_files ps w w' \<Longrightarrow> fst f \<notin> ps \<Longrightarrow> adjusted w' f x"
  by (auto simp: adjusted_def same_but_files_def)

lemma stat_and_adjust_spec:
  "distinct (map fst fs) \<Longrightarrow>
     \<exists>err ret' w'. stat_and_adjust fs ret w = Some (err, ret @ ret', w') \<and> same_but_files (fst ` set fs) w w' \<and>
       length ret' \<le> length fs \<and> (err = None \<longrightarrow> list_all2 (adjusted w') fs ret')"
proof (induction fs arbitrary: ret w)
  case Nil
  then show ?case by simp
next
  case (Cons f fs)
  obtain p n where f: "f = (p, n)" by (cases f)
  from stat_adjust_file_spec [of p n w] obtain r w1 where s: "stat_adjust_file 3 f w = Some (r, w1)"
    "same_but_files {p} w w1"
    "\<And>x. r = Inr x \<Longrightarrow> adjusted w1 f x"
    unfolding f by blast
  have p: "p \<notin> fst ` set fs" using Cons.prems f by (auto simp: rev_image_eqI)
  show ?case
  proof (cases r)
    case (Inl e)
    with s f have "same_but_files (fst ` set (f # fs)) w w1"
      by (auto simp: same_but_files_def)
    with Inl s(1) show ?thesis by simp
  next
    case (Inr x)
    from Cons.IH [of "ret @ [x]" w1] Cons.prems obtain err ret' w' where
      i: "stat_and_adjust fs (ret @ [x]) w1 = Some (err, ret @ x # ret', w')"
      "same_but_files (fst ` set fs) w1 w'" "length ret' \<le> length fs"
      "err = None \<Longrightarrow> list_all2 (adjusted w') fs ret'" by auto
    have "adjusted w' f x" using adjusted_same [OF s(3) [OF Inr] i(2)] p f by simp
    moreover have "same_but_files (fst ` set (f # fs)) w w'"
      using same_but_files_trans [OF s(2) i(2)] f by simp
    ultimately show ?thesis using Inr s(1) i by auto
  qed
qed

section \<open>What is counted as content\<close>

lemma has_bit_drop: "n \<le> length f \<Longrightarrow> has_bit (drop n f) b = has_bit f (8 * n + b)"
  by (simp add: has_bit_def div_add1_eq mod_add_eq)

lemma has_bit_bzero_at:
  assumes "i + n \<le> length f" "b div 8 < length f"
  shows "has_bit (bzero_at f i n) b \<longleftrightarrow> \<not> (i \<le> b div 8 \<and> b div 8 < i + n) \<and> has_bit f b"
  using assms by (auto simp: has_bit_def bzero_at_def nth_append)

lemma length_bzero_at [simp]: "i + n \<le> length f \<Longrightarrow> length (bzero_at f i n) = length f"
  by (simp add: bzero_at_def)

definition block_bit :: "content \<Rightarrow> nat \<Rightarrow> nat \<Rightarrow> bool" where
  "block_bit cm piece b = has_bit (drop (cm_bppbf cm * piece) (cm_block_field cm)) b"

definition piece_bytes :: "torrent \<Rightarrow> content \<Rightarrow> nat \<Rightarrow> nat" where
  "piece_bytes tp cm i =
     (if has_bit (cm_piece_field cm) i then torrent_piece_size tp i
      else sum_list (map (torrent_block_size tp i (torrent_piece_blocks tp i)) (blocks_got tp cm i)))"

text \<open>
  The fields have the sizes of the resume file and hold the blocks of every piece; the counters count
  the pieces that are got and the bytes of those and of the blocks of the others.
\<close>

definition cm_wf :: "torrent \<Rightarrow> content \<Rightarrow> bool" where
  "cm_wf tp cm \<longleftrightarrow> length (cm_piece_field cm) = field_len (tp_npieces tp) \<and>
     length (cm_pos_field cm) = field_len (tp_npieces tp) \<and>
     length (cm_block_field cm) = cm_bppbf cm * tp_npieces tp \<and>
     (\<forall>i < tp_npieces tp. torrent_piece_blocks tp i \<le> 8 * cm_bppbf cm)"

definition cm_counted :: "torrent \<Rightarrow> content \<Rightarrow> bool" where
  "cm_counted tp cm \<longleftrightarrow> cm_npieces_got cm = bf.count (cm_piece_field cm) (tp_npieces tp) \<and>
     cm_ncontent_bytes cm = int (\<Sum>i < tp_npieces tp. piece_bytes tp cm i)"

text \<open>No piece has all its blocks without having been tested.\<close>

definition cm_tested :: "torrent \<Rightarrow> content \<Rightarrow> bool" where
  "cm_tested tp cm \<longleftrightarrow> (\<forall>i < tp_npieces tp. \<not> has_bit (cm_piece_field cm) i \<longrightarrow> 0 < torrent_piece_size tp i \<longrightarrow>
     length (blocks_got tp cm i) < torrent_piece_blocks tp i)"

lemma blocks_got_bits: "blocks_got tp cm i = filter (block_bit cm i) [0 ..< torrent_piece_blocks tp i]"
  by (simp add: blocks_got_def block_bit_def [abs_def])

lemma block_bit_field:
  "cm_wf tp cm \<Longrightarrow> i < tp_npieces tp \<Longrightarrow> block_bit cm i b = has_bit (cm_block_field cm) (8 * (cm_bppbf cm * i) + b)"
  by (simp add: block_bit_def cm_wf_def has_bit_drop)

lemma block_index:
  assumes "cm_wf tp cm" "i < tp_npieces tp" "b < torrent_piece_blocks tp i"
  shows "b div 8 < cm_bppbf cm" "(8 * (cm_bppbf cm * i) + b) div 8 = cm_bppbf cm * i + b div 8"
    "cm_bppbf cm * i + b div 8 < length (cm_block_field cm)"
proof -
  have "torrent_piece_blocks tp i \<le> 8 * cm_bppbf cm" using assms by (simp add: cm_wf_def)
  then show b: "b div 8 < cm_bppbf cm" using assms(3) by simp
  show "(8 * (cm_bppbf cm * i) + b) div 8 = cm_bppbf cm * i + b div 8" by simp
  have "cm_bppbf cm * i + cm_bppbf cm \<le> cm_bppbf cm * tp_npieces tp"
    using assms(2) mult_le_mono2 [of "Suc i" "tp_npieces tp" "cm_bppbf cm"] by simp
  with b show "cm_bppbf cm * i + b div 8 < length (cm_block_field cm)"
    using assms(1) by (simp add: cm_wf_def)
qed

lemma block_ranges_disjoint:
  fixes i j :: nat
  assumes "i \<noteq> j" "x < B" "y < B"
  shows "B * i + x \<noteq> B * j + y"
proof
  assume "B * i + x = B * j + y"
  then have "(B * i + x) div B = (B * j + y) div B" by simp
  with assms show False by (simp add: div_add1_eq)
qed

text \<open>Clearing the blocks of a piece, and setting a block.\<close>

lemma block_bit_bzero:
  assumes "cm_wf tp cm" "i < tp_npieces tp" "k < tp_npieces tp" "b < torrent_piece_blocks tp i"
  shows "block_bit (cm\<lparr>cm_block_field := bzero_at (cm_block_field cm) (cm_bppbf cm * k) (cm_bppbf cm)\<rparr>) i b
     \<longleftrightarrow> i \<noteq> k \<and> block_bit cm i b"
proof -
  let ?B = "cm_bppbf cm"
  have k: "?B * k + ?B \<le> length (cm_block_field cm)"
    using assms(1,3) mult_le_mono2 [of "Suc k" "tp_npieces tp" ?B] by (simp add: cm_wf_def)
  note ix = block_index [OF assms(1,2,4)]
  have "(?B * k \<le> ?B * i + b div 8 \<and> ?B * i + b div 8 < ?B * k + ?B) \<longleftrightarrow> i = k"
    using ix(1) block_ranges_disjoint [of i k "b div 8" ?B]
    by (metis add.commute add_less_cancel_left le_add1 le_add_diff_inverse less_diff_conv)
  then show ?thesis
    using assms(1,2) k ix by (simp add: block_bit_def cm_wf_def has_bit_drop has_bit_bzero_at)
qed

lemma block_bit_set:
  assumes "cm_wf tp cm" "i < tp_npieces tp" "k < tp_npieces tp"
    "b < torrent_piece_blocks tp i" "c < torrent_piece_blocks tp k"
  shows "block_bit (cm\<lparr>cm_block_field := set_bit (cm_block_field cm) (k * cm_bppbf cm * 8 + c)\<rparr>) i b
     \<longleftrightarrow> i = k \<and> b = c \<or> block_bit cm i b"
proof -
  let ?B = "cm_bppbf cm"
  note ib = block_index [OF assms(1,2,4)] and kc = block_index [OF assms(1,3,5)]
  have "in_field (cm_block_field cm) (8 * (?B * k) + c)"
    unfolding in_field_def kc(2) using kc(3) .
  moreover have "8 * (?B * k) + c = 8 * (?B * i) + b \<longleftrightarrow> i = k \<and> b = c"
    using block_ranges_disjoint [of i k "b div 8" ?B "c div 8"] ib(1,2) kc(1,2) by (metis add_left_cancel)
  ultimately show ?thesis
    using assms(1,2) by (simp add: block_bit_def cm_wf_def has_bit_drop ac_simps bits_simps)
qed

lemma block_sizes_sum:
  "sum_list (map (torrent_block_size tp i (torrent_piece_blocks tp i)) [0 ..< torrent_piece_blocks tp i])
     = torrent_piece_size tp i"
proof (cases "torrent_piece_blocks tp i")
  case 0
  then have "torrent_piece_size tp i = 0" by (simp add: torrent_piece_blocks_def PIECE_BLOCKLEN_def)
  with 0 show ?thesis by simp
next
  case (Suc k)
  then have "k * PIECE_BLOCKLEN < torrent_piece_size tp i"
    unfolding torrent_piece_blocks_def PIECE_BLOCKLEN_def by linarith
  moreover have "map (torrent_block_size tp i (Suc k)) [0 ..< k] = replicate k PIECE_BLOCKLEN"
    by (simp add: torrent_block_size_def map_replicate_trivial list_eq_iff_nth_eq)
  ultimately show ?thesis
    unfolding Suc by (simp add: torrent_block_size_def sum_list_replicate mult.commute)
qed

lemma filter_all_len: "length (filter P xs) = length xs \<Longrightarrow> filter P xs = xs"
  by (metis filter_id_conv length_filter_less less_irrefl)

lemma test_end_piece_spec:
  assumes "cm_wf tp cm" "k < tp_npieces tp"
  defines "cm' \<equiv> test_end_piece tp cm k"
  shows "cm_wf tp cm' \<and> cm_piece_field cm' = cm_piece_field cm \<and>
    cm_npieces_got cm' = cm_npieces_got cm + (if has_bit (cm_piece_field cm) k then 1 else 0) \<and>
    cm_ncontent_bytes cm' = cm_ncontent_bytes cm + int (piece_bytes tp cm' k) \<and>
    (\<forall>i < tp_npieces tp. i \<noteq> k \<longrightarrow> blocks_got tp cm' i = blocks_got tp cm i) \<and>
    (\<not> has_bit (cm_piece_field cm) k \<longrightarrow> 0 < torrent_piece_size tp k \<longrightarrow>
       length (blocks_got tp cm' k) < torrent_piece_blocks tp k)"
proof -
  let ?B = "cm_bppbf cm" and ?nb = "torrent_piece_blocks tp k"
  have B: "?B * k + ?B \<le> length (cm_block_field cm)"
    using assms(1,2) mult_le_mono2 [of "Suc k" "tp_npieces tp" ?B] by (simp add: cm_wf_def)
  consider (got) "has_bit (cm_piece_field cm) k"
    | (all) "\<not> has_bit (cm_piece_field cm) k" "length (blocks_got tp cm k) = ?nb"
    | (some) "\<not> has_bit (cm_piece_field cm) k" "length (blocks_got tp cm k) \<noteq> ?nb" by blast
  then show ?thesis
  proof cases
    case got
    then show ?thesis using assms(1)
      by (simp add: cm'_def test_end_piece_def cm_wf_def piece_bytes_def blocks_got_def)
  next
    case all
    let ?c = "cm\<lparr>cm_block_field := bzero_at (cm_block_field cm) (?B * k) ?B\<rparr>"
    have "blocks_got tp cm k = [0 ..< ?nb]"
      using all(2) filter_all_len [of "block_bit cm k" "[0 ..< ?nb]"] by (simp add: blocks_got_bits)
    moreover have g: "blocks_got tp ?c i = (if i = k then [] else blocks_got tp cm i)" if "i < tp_npieces tp" for i
      using block_bit_bzero [OF assms(1) that assms(2)]
      by (auto simp: blocks_got_bits filter_empty_conv intro!: filter_cong)
    moreover have "torrent_piece_size tp k > 0 \<Longrightarrow> 0 < ?nb"
      by (simp add: torrent_piece_blocks_def PIECE_BLOCKLEN_def)
    moreover have "blocks_got tp cm' i = blocks_got tp ?c i" for i
      using all by (simp add: cm'_def test_end_piece_def blocks_got_def Let_def)
    ultimately show ?thesis
      using all assms(1,2) B by (simp add: cm'_def test_end_piece_def cm_wf_def piece_bytes_def block_sizes_sum Let_def)
  next
    case some
    have "length (blocks_got tp cm k) < ?nb"
      using some(2) length_filter_le [of "block_bit cm k" "[0 ..< ?nb]"] by (simp add: blocks_got_bits)
    then show ?thesis using some assms(1)
      by (simp add: cm'_def test_end_piece_def cm_wf_def piece_bytes_def blocks_got_def Let_def)
  qed
qed

text \<open>The counters after the loop over the first \<open>m\<close> pieces.\<close>

lemma test_end_loop:
  assumes "cm_wf tp cm" "m \<le> tp_npieces tp" "cm_npieces_got cm = 0" "cm_ncontent_bytes cm = 0"
  defines "c \<equiv> foldl (test_end_piece tp) cm [0 ..< m]"
  shows "cm_wf tp c \<and> cm_piece_field c = cm_piece_field cm \<and>
    cm_npieces_got c = bf.count (cm_piece_field cm) m \<and>
    cm_ncontent_bytes c = int (\<Sum>i < m. piece_bytes tp c i) \<and>
    (\<forall>i < m. \<not> has_bit (cm_piece_field cm) i \<longrightarrow> 0 < torrent_piece_size tp i \<longrightarrow>
       length (blocks_got tp c i) < torrent_piece_blocks tp i)"
  using assms(2) unfolding c_def
proof (induction m)
  case 0
  then show ?case using assms by (simp add: bf.count_def bf.members_def)
next
  case (Suc m)
  let ?c = "foldl (test_end_piece tp) cm [0 ..< m]"
  from Suc have ih: "cm_wf tp ?c" "cm_piece_field ?c = cm_piece_field cm"
    "cm_npieces_got ?c = bf.count (cm_piece_field cm) m" "cm_ncontent_bytes ?c = int (\<Sum>i < m. piece_bytes tp ?c i)"
    "\<forall>i < m. \<not> has_bit (cm_piece_field cm) i \<longrightarrow> 0 < torrent_piece_size tp i \<longrightarrow>
       length (blocks_got tp ?c i) < torrent_piece_blocks tp i" by simp_all
  note s = test_end_piece_spec [OF ih(1), of m]
  let ?d = "test_end_piece tp ?c m"
  have eq: "foldl (test_end_piece tp) cm [0 ..< Suc m] = ?d" by simp
  have "piece_bytes tp ?d i = piece_bytes tp ?c i" if "i < m" for i
    using s that Suc.prems by (simp add: piece_bytes_def)
  then have "(\<Sum>i < m. piece_bytes tp ?d i) = (\<Sum>i < m. piece_bytes tp ?c i)" by simp
  moreover have "bf.count f (Suc m) = bf.count f m + (if has_bit f m then 1 else 0)" for f
  proof -
    have "bf.members f (Suc m) = (if has_bit f m then insert m (bf.members f m) else bf.members f m)"
      by (auto simp: bf.members_def less_Suc_eq)
    then show ?thesis by (simp add: bf.count_def) (simp add: bf.members_def)
  qed
  moreover note bc = calculation(2)
  moreover have "length (blocks_got tp ?d i) < torrent_piece_blocks tp i"
    if "i < Suc m" "\<not> has_bit (cm_piece_field cm) i" "0 < torrent_piece_size tp i" for i
    using that s ih(2,5) Suc.prems by (cases "i = m") simp_all
  ultimately show ?case unfolding eq using s ih(2,3,4) Suc.prems by simp
qed

section \<open>What the operations leave alone\<close>

text \<open>The torrent stays, and of its content state only streams, flags, file times and the space field may change.\<close>

definition same_counts :: "content \<Rightarrow> content \<Rightarrow> bool" where
  "same_counts c d \<longleftrightarrow> cm_npieces_got d = cm_npieces_got c \<and> cm_ncontent_bytes d = cm_ncontent_bytes c \<and>
     cm_bppbf d = cm_bppbf c \<and> cm_piece_field d = cm_piece_field c \<and> cm_block_field d = cm_block_field c \<and>
     length (cm_pos_field d) = length (cm_pos_field c)"

definition keeps_counts :: "tid \<Rightarrow> 'a cm_world_scheme \<Rightarrow> 'a cm_world_scheme \<Rightarrow> bool" where
  "keeps_counts t w w' \<longleftrightarrow> (\<forall>tp. cw_tor w t = Some tp \<longrightarrow>
     (\<exists>c. cw_tor w' t = Some (tp\<lparr>tp_cm := c\<rparr>) \<and> same_counts (tp_cm tp) c))"

lemma same_counts_refl [simp]: "same_counts c c"
  by (simp add: same_counts_def)

lemma keeps_counts_refl [simp]: "keeps_counts t w w"
  unfolding keeps_counts_def
proof (intro allI impI)
  fix tp assume "cw_tor w t = Some tp"
  then show "\<exists>c. cw_tor w t = Some (tp\<lparr>tp_cm := c\<rparr>) \<and> same_counts (tp_cm tp) c"
    by (intro exI [of _ "tp_cm tp"]) simp
qed

lemma keeps_counts_trans [trans]:
  "keeps_counts t w w' \<Longrightarrow> keeps_counts t w' w'' \<Longrightarrow> keeps_counts t w w''"
  by (fastforce simp: keeps_counts_def same_counts_def)

lemma keeps_counts_upd:
  "(\<And>c. same_counts c (f c)) \<Longrightarrow> keeps_counts t w (upd_cm t f w)"
  by (auto simp: keeps_counts_def)

lemma keeps_counts_cong:
  "cw_tor v = cw_tor w \<Longrightarrow> cw_tor v' = cw_tor w' \<Longrightarrow> keeps_counts t v v' \<longleftrightarrow> keeps_counts t w w'"
  by (simp add: keeps_counts_def)

lemma keeps_counts_tor: "cw_tor v = cw_tor w \<Longrightarrow> keeps_counts t w v"
  using keeps_counts_cong [of w w v w t] by simp

lemma upd_keeps [intro]:
  "keeps_counts t w (upd_cm t (\<lambda>cm. cm\<lparr>cm_err := e\<rparr>) w)"
  "keeps_counts t w (upd_cm t (\<lambda>cm. cm\<lparr>cm_rds := p\<rparr>) w)"
  "keeps_counts t w (upd_cm t (\<lambda>cm. cm\<lparr>cm_wrs := p\<rparr>) w)"
  "keeps_counts t w (upd_cm t (\<lambda>cm. cm\<lparr>cm_fts := f\<rparr>) w)"
  "keeps_counts t w (upd_cm t (\<lambda>cm. cm\<lparr>cm_state := s\<rparr>) w)"
  "keeps_counts t w (upd_cm t (\<lambda>cm. cm\<lparr>cm_pos_field := set_bit (cm_pos_field cm) i\<rparr>) w)"
  by (rule keeps_counts_upd, simp add: same_counts_def)+

lemma stat_adjust_file_tor:
  assumes "stat_adjust_file 3 f w = Some (r, w')"
  shows "cw_tor w' = cw_tor w \<and> cw_env w' = cw_env w"
proof -
  obtain p n where f: "f = (p, n)" by (cases f)
  from stat_adjust_file_spec [of p n w] assms have "same_but_files {p} w w'" unfolding f by auto
  then show ?thesis by (auto simp: same_but_files_def)
qed

lemma stat_and_adjust_tor:
  "stat_and_adjust fs ret w = Some (e, r, w') \<Longrightarrow> cw_tor w' = cw_tor w \<and> cw_env w' = cw_env w"
proof (induction fs arbitrary: ret w)
  case (Cons f fs)
  then obtain r1 w1 where s: "stat_adjust_file 3 f w = Some (r1, w1)" by (auto simp: bind_Some_iff)
  note t = stat_adjust_file_tor [OF s]
  show ?case
  proof (cases r1)
    case (Inl e)
    with Cons.prems s t show ?thesis by simp
  next
    case (Inr x)
    with Cons.prems s have "stat_and_adjust fs (ret @ [x]) w1 = Some (e, r, w')" by simp
    from Cons.IH [OF this] t show ?thesis by simp
  qed
qed simp

lemma cm_save_keeps: "cm_save t w = Some w' \<Longrightarrow> keeps_counts t w w'"
proof -
  assume a: "cm_save t w = Some w'"
  then obtain tp where tp: "cw_tor w t = Some tp" by (auto simp: cm_save_def bind_Some_iff)
  with a obtain r where r: "stat_and_adjust (tp_files tp) [] w = Some r" by (auto simp: cm_save_def bind_Some_iff)
  obtain e f w1 where s: "r = (e, f, w1)" by (cases r)
  have "keeps_counts t w w1" using stat_and_adjust_tor [OF r [unfolded s]] by (simp add: keeps_counts_cong [of w w w1 w])
  also have "keeps_counts t w1 w'" using a tp r s upd_keeps(4) by (auto simp: cm_save_def Let_def)
  finally show ?thesis .
qed

definition op_keeps :: "(tid \<Rightarrow> 'a cm_world_scheme \<Rightarrow> 'a cm_world_scheme option) \<Rightarrow> bool" where
  "op_keeps f \<longleftrightarrow> (\<forall>t w w'. f t w = Some w' \<longrightarrow> keeps_counts t w w')"

lemma write_done_keeps: "op_keeps f \<Longrightarrow> op_keeps (cm_write_done_body f)"
  unfolding op_keeps_def
proof (intro allI impI)
  fix t w w'
  assume f: "\<forall>t w w'. f t w = Some w' \<longrightarrow> keeps_counts t w w'" and b: "cm_write_done_body f t w = Some w'"
  let ?w1 = "upd_cm t (\<lambda>cm. cm\<lparr>cm_wrs := Null\<rparr>) w"
  from b obtain w2 where s: "w2 = ?w1 \<or> f t ?w1 = Some w2" "w' = w2 \<or> cm_save t w2 = Some w'"
    by (auto simp: cm_write_done_body_def bind_Some_iff Let_def split: if_splits)
  have "keeps_counts t w ?w1" by (rule upd_keeps)
  also have "keeps_counts t ?w1 w2" using s(1) f by auto
  also have "keeps_counts t w2 w'" using s(2) cm_save_keeps by auto
  finally show "keeps_counts t w w'" .
qed

lemma stop_keeps: "op_keeps f \<Longrightarrow> op_keeps (cm_stop_body f)"
  unfolding op_keeps_def
proof (intro allI impI)
  fix t w w'
  assume f: "\<forall>t w w'. f t w = Some w' \<longrightarrow> keeps_counts t w w'" and b: "cm_stop_body f t w = Some w'"
  from b obtain tp where tp: "cw_tor w t = Some tp" by (auto simp: cm_stop_body_def bind_Some_iff)
  show "keeps_counts t w w'"
  proof (cases "cm_state (tp_cm tp) = CM_INACTIVE")
    case True
    with b tp show ?thesis by (simp add: cm_stop_body_def Let_def)
  next
    case False
    define w1 where "w1 = (if cm_state (tp_cm tp) = CM_STARTING then w\<lparr>cw_startq := std_remove t (cw_startq w)\<rparr> else w)"
    from b tp False obtain w2 w3 where s:
      "w2 = upd_cm t (\<lambda>cm. cm\<lparr>cm_rds := Freed\<rparr>) w1 \<or> w2 = w1" "w3 = w2 \<or> f t w2 = Some w3"
      "w' = upd_cm t (\<lambda>cm. cm\<lparr>cm_state := CM_INACTIVE\<rparr>) w3"
      by (cases "cm_state (tp_cm tp)")
        (auto simp: cm_stop_body_def Let_def bind_Some_iff w1_def split: if_split_asm)
    have "keeps_counts t w w1" by (rule keeps_counts_tor) (simp add: w1_def)
    also have "keeps_counts t w1 w2" using s(1) by auto
    also have "keeps_counts t w2 w3" using s(2) f by auto
    also have "keeps_counts t w3 w'" unfolding s(3) by (rule upd_keeps)
    finally show ?thesis .
  qed
qed

lemma on_error_keeps: "op_keeps f \<Longrightarrow> op_keeps (cm_on_error_body f)"
  unfolding op_keeps_def
proof (intro allI impI)
  fix t w w'
  assume f: "\<forall>t w w'. f t w = Some w' \<longrightarrow> keeps_counts t w w'" and b: "cm_on_error_body f t w = Some w'"
  then have "w' = w \<or> f t (upd_cm t (\<lambda>cm. cm\<lparr>cm_err := True\<rparr>) w) = Some w'"
    by (auto simp: cm_on_error_body_def bind_Some_iff split: if_splits)
  with f keeps_counts_trans [OF upd_keeps(1)] show "keeps_counts t w w'" by (metis keeps_counts_refl)
qed

lemma error_ops_keep: "op_keeps cm_on_error" "op_keeps cm_write_done" "op_keeps cm_stop"
proof -
  have "op_keeps (\<lambda>_. Some)" by (simp add: op_keeps_def)
  then show e: "op_keeps cm_on_error" unfolding cm_on_error_def
    by (intro on_error_keeps stop_keeps write_done_keeps)
  then show d: "op_keeps cm_write_done" unfolding cm_write_done_def by (rule write_done_keeps)
  then show "op_keeps cm_stop" unfolding cm_stop_def by (rule stop_keeps)
qed

lemma cm_on_error_keeps: "cm_on_error t w = Some w' \<Longrightarrow> keeps_counts t w w'"
  and cm_write_done_keeps: "cm_write_done t w = Some w' \<Longrightarrow> keeps_counts t w w'"
  and cm_stop_keeps: "cm_stop t w = Some w' \<Longrightarrow> keeps_counts t w w'"
  using error_ops_keep unfolding op_keeps_def by blast+

section \<open>Writing\<close>

lemma wrs_put_keeps: "wrs_put t off buf w = Some (e, w') \<Longrightarrow> keeps_counts t w w'"
proof -
  assume a: "wrs_put t off buf w = Some (e, w')"
  then obtain e1 d s where
    "(case e1 of None \<Rightarrow> Some (None, upd_cm t (\<lambda>cm. cm\<lparr>cm_wrs := Ptr s\<rparr>) (w\<lparr>cw_disk := d\<rparr>))
      | Some x \<Rightarrow> do { w2 \<leftarrow> cm_on_error t (upd_cm t (\<lambda>cm. cm\<lparr>cm_wrs := Ptr s\<rparr>) (w\<lparr>cw_disk := d\<rparr>)); Some (Some x, w2) })
      = Some (e, w')"
    by (auto simp: wrs_put_def bind_Some_iff Let_def)
  moreover have k: "keeps_counts t w (upd_cm t (\<lambda>cm. cm\<lparr>cm_wrs := Ptr s\<rparr>) (w\<lparr>cw_disk := d\<rparr>))"
    by (rule keeps_counts_trans [OF keeps_counts_tor upd_keeps(3)]) simp
  ultimately show ?thesis
    using keeps_counts_trans [OF k cm_on_error_keeps] by (cases e1) (auto simp: bind_Some_iff)
qed

text \<open>A write that succeeds touches the bytes of an area only and leaves a usable write stream.\<close>

definition writes_in :: "tid \<Rightarrow> torrent \<Rightarrow> nat set \<Rightarrow> 'a cm_world_scheme \<Rightarrow> 'a cm_world_scheme \<Rightarrow> bool" where
  "writes_in t tp A w w' \<longleftrightarrow> cw_env w' = cw_env w \<and>
     (\<exists>c s. cw_tor w' t = Some (tp\<lparr>tp_cm := c\<rparr>) \<and> same_counts (tp_cm tp) c \<and> cm_rds c = cm_rds (tp_cm tp) \<and>
        cm_err c = cm_err (tp_cm tp) \<and> cm_wrs c = Ptr s \<and> stream_wf s \<and> bs_files s = tp_files tp) \<and>
     (\<forall>pos b. byte_at (cw_disk w) (tp_files tp) pos = Some b \<longrightarrow> pos \<notin> A \<longrightarrow>
        byte_at (cw_disk w') (tp_files tp) pos = Some b)"

definition can_write :: "tid \<Rightarrow> torrent \<Rightarrow> 'a cm_world_scheme \<Rightarrow> bool" where
  "can_write t tp w \<longleftrightarrow> cw_tor w t = Some tp \<and> kernel_ok (ce_wr (cw_env w)) \<and> distinct (map fst (tp_files tp)) \<and>
     (\<exists>s. cm_wrs (tp_cm tp) = Ptr s \<and> stream_wf s \<and> bs_files s = tp_files tp)"

lemma writes_in_mono: "writes_in t tp A w w' \<Longrightarrow> A \<subseteq> B \<Longrightarrow> writes_in t tp B w w'"
  unfolding writes_in_def by blast

lemma writes_in_refl: "can_write t tp w \<Longrightarrow> writes_in t tp A w w"
  unfolding writes_in_def can_write_def by (metis (no_types, lifting) same_counts_refl torrent.surjective torrent.update_convs(8))

lemma writes_in_can:
  "writes_in t tp A w w' \<Longrightarrow> can_write t tp w \<Longrightarrow> \<exists>c. can_write t (tp\<lparr>tp_cm := c\<rparr>) w' \<and> same_counts (tp_cm tp) c"
  unfolding writes_in_def can_write_def by fastforce

lemma writes_in_trans:
  assumes "writes_in t tp A w w1" "cw_tor w1 t = Some tp1" "writes_in t tp1 A w1 w2"
  shows "writes_in t tp A w w2"
proof -
  from assms(1,2) obtain c where c: "tp1 = tp\<lparr>tp_cm := c\<rparr>" "same_counts (tp_cm tp) c"
    "cm_rds c = cm_rds (tp_cm tp)" "cm_err c = cm_err (tp_cm tp)" "cw_env w1 = cw_env w"
    unfolding writes_in_def by auto
  from assms(3) obtain d s where d: "cw_tor w2 t = Some (tp1\<lparr>tp_cm := d\<rparr>)" "same_counts c d" "cm_rds d = cm_rds c"
    "cm_err d = cm_err c" "cm_wrs d = Ptr s" "stream_wf s" "bs_files s = tp_files tp" "cw_env w2 = cw_env w1"
    unfolding writes_in_def c(1) by auto
  have "same_counts (tp_cm tp) d" using c(2) d(2) by (simp add: same_counts_def)
  moreover have "byte_at (cw_disk w2) (tp_files tp) pos = Some b"
    if "byte_at (cw_disk w) (tp_files tp) pos = Some b" "pos \<notin> A" for pos b
    using assms(1,3) that unfolding writes_in_def c(1) by simp
  ultimately show ?thesis unfolding writes_in_def using c d by auto
qed

lemma wrs_put_ok:
  assumes "wrs_put t off buf w = Some (None, w')" "can_write t tp w"
  shows "writes_in t tp {off ..< off + length buf} w w' \<and>
    (\<forall>x < length buf. byte_at (cw_disk w') (tp_files tp) (off + x) = Some (buf ! x))"
proof -
  from assms(2) obtain s where s: "cw_tor w t = Some tp" "cm_wrs (tp_cm tp) = Ptr s" "stream_wf s"
    "bs_files s = tp_files tp" "kernel_ok (ce_wr (cw_env w))" "distinct (map fst (tp_files tp))"
    by (auto simp: can_write_def)
  with assms(1) obtain d s' where b: "bts_put (ce_wr (cw_env w)) (length buf) (cw_disk w) s off buf = Some (None, d, s')"
    and w': "w' = upd_cm t (\<lambda>cm. cm\<lparr>cm_wrs := Ptr s'\<rparr>) (w\<lparr>cw_disk := d\<rparr>)"
    by (auto simp: wrs_put_def bind_Some_iff Let_def split: option.splits)
  from bts_put_spec [OF s(3,5) _ b] s have "stream_wf s'" "bs_files s' = tp_files tp"
    "stored (cw_disk w) d (tp_files tp) off buf" by simp_all
  then show ?thesis using s w' by (auto simp: writes_in_def same_counts_def stored_def)
qed

lemma zero_fill_ok:
  "zero_fill t off len w = Some (None, w') \<Longrightarrow> can_write t tp w \<Longrightarrow> writes_in t tp {off ..< off + len} w w'"
proof (induction t off len w arbitrary: w' tp rule: zero_fill.induct)
  case (1 t off len w)
  show ?case
  proof (cases "len > 0")
    case False
    with 1 show ?thesis using writes_in_refl by (simp add: zero_fill.simps)
  next
    case True
    let ?l = "min ZEROBUFLEN len"
    from 1(2) True obtain w1 where p: "wrs_put t off (replicate ?l 0) w = Some (None, w1)"
      "zero_fill t (off + ?l) (len - ?l) w1 = Some (None, w')"
      by (subst (asm) zero_fill.simps) (auto simp: bind_Some_iff Let_def split: if_splits)
    have a: "writes_in t tp {off ..< off + len} w w1"
      by (rule writes_in_mono [OF wrs_put_ok [OF p(1) 1(3), THEN conjunct1]]) auto
    from writes_in_can [OF a 1(3)] obtain c where c: "can_write t (tp\<lparr>tp_cm := c\<rparr>) w1" by blast
    have b: "writes_in t (tp\<lparr>tp_cm := c\<rparr>) {off + ?l ..< off + ?l + (len - ?l)} w1 w'"
      using 1(1) [OF True refl p(1) _ _ p(2) c] by simp
    have "writes_in t (tp\<lparr>tp_cm := c\<rparr>) {off ..< off + len} w1 w'"
      by (rule writes_in_mono [OF b]) auto
    moreover have "cw_tor w1 t = Some (tp\<lparr>tp_cm := c\<rparr>)" using c by (simp add: can_write_def)
    ultimately show ?thesis using writes_in_trans [OF a] by blast
  qed
qed

text \<open>The byte positions of the pieces that are not verified.\<close>

definition unverified :: "torrent \<Rightarrow> nat set" where
  "unverified tp = {pos. \<exists>i. \<not> cm_has_piece tp i \<and>
     tp_piece_length tp * i \<le> pos \<and> pos < tp_piece_length tp * i + torrent_piece_size tp i}"

lemma torrent_cm_simps [simp]:
  "torrent_piece_size (tp\<lparr>tp_cm := c\<rparr>) = torrent_piece_size tp"
  "torrent_piece_blocks (tp\<lparr>tp_cm := c\<rparr>) = torrent_piece_blocks tp"
  "torrent_block_size (tp\<lparr>tp_cm := c\<rparr>) = torrent_block_size tp"
  by (simp_all add: fun_eq_iff torrent_piece_size_def torrent_piece_blocks_def torrent_block_size_def Let_def)

lemma tp_cm_inject [simp]: "tp\<lparr>tp_cm := c\<rparr> = tp\<lparr>tp_cm := d\<rparr> \<longleftrightarrow> c = d"
  by (cases tp) simp

lemma unverified_same: "same_counts (tp_cm tp) c \<Longrightarrow> unverified (tp\<lparr>tp_cm := c\<rparr>) = unverified tp"
  by (simp add: unverified_def cm_has_piece_def same_counts_def)

lemma alloc_pieces_ok:
  "alloc_pieces t start end' w = Some (None, w') \<Longrightarrow> can_write t tp w \<Longrightarrow> writes_in t tp (unverified tp) w w'"
proof (induction t start end' w arbitrary: w' tp rule: alloc_pieces.induct)
  case (1 t start end' w)
  from 1(4) have tor: "cw_tor w t = Some tp" by (simp add: can_write_def)
  consider (stop) "\<not> start < end'" | (has) "start < end'" "has_bit (cm_pos_field (tp_cm tp)) start"
    | (fill) "start < end'" "\<not> has_bit (cm_pos_field (tp_cm tp)) start" by blast
  then show ?case
  proof cases
    case stop
    with 1(3,4) show ?thesis using writes_in_refl by (simp add: alloc_pieces.simps)
  next
    case has
    with 1(3) tor have "alloc_pieces t (start + 1) end' w = Some (None, w')"
      by (subst (asm) alloc_pieces.simps) simp
    from 1(2) [OF has(1) tor _ this 1(4)] has(2) show ?thesis by simp
  next
    case fill
    let ?u = "upd_cm t (\<lambda>cm. cm\<lparr>cm_pos_field := set_bit (cm_pos_field cm) start\<rparr>)"
    from 1(3) tor fill obtain w1 where g: "\<not> has_bit (cm_piece_field (tp_cm tp)) start"
      and z: "zero_fill t (tp_piece_length tp * start) (torrent_piece_size tp start) w = Some (None, w1)"
      and r: "alloc_pieces t (start + 1) end' (?u w1) = Some (None, w')"
      by (subst (asm) alloc_pieces.simps) (auto simp: bind_Some_iff split: if_splits)
    have a: "writes_in t tp (unverified tp) w w1"
      by (rule writes_in_mono [OF zero_fill_ok [OF z 1(4)]]) (use g in \<open>force simp: unverified_def cm_has_piece_def\<close>)
    from writes_in_can [OF a 1(4)] obtain c where c: "can_write t (tp\<lparr>tp_cm := c\<rparr>) w1" "same_counts (tp_cm tp) c"
      by blast
    let ?c2 = "c\<lparr>cm_pos_field := set_bit (cm_pos_field c) start\<rparr>"
    have "can_write t (tp\<lparr>tp_cm := ?c2\<rparr>) (?u w1)" using c(1) by (auto simp: can_write_def)
    from 1(1) [OF fill(1) tor fill(2) _ z refl _ r this] g
    have b: "writes_in t (tp\<lparr>tp_cm := ?c2\<rparr>) (unverified tp) (?u w1) w'"
      using unverified_same [of tp ?c2] c(2) by (simp add: same_counts_def)
    have ts: "cw_tor (?u w1) t = Some (tp\<lparr>tp_cm := ?c2\<rparr>)" using c(1) by (simp add: can_write_def)
    have "writes_in t tp (unverified tp) w (?u w1)"
      using a c(1) ts by (auto simp: writes_in_def can_write_def same_counts_def)
    from writes_in_trans [OF this ts b] show ?thesis .
  qed
qed

lemma cm_put_bytes_cases:
  assumes "cm_put_bytes t piece begin' buf w = Some (None, w')" "cw_tor w t = Some tp"
  obtains w1 w2 where "\<not> cm_err (tp_cm tp)" "\<not> has_bit (cm_get_block_field tp piece) (begin' div PIECE_BLOCKLEN)"
    "\<not> cm_has_piece tp piece"
    "w1 = w \<or> (\<exists>i j. alloc_pieces t i j w = Some (None, w1))"
    "wrs_put t (piece * tp_piece_length tp + begin') buf w1 = Some (None, w2)"
    "w' = upd_cm t (\<lambda>cm. cm\<lparr>cm_ncontent_bytes := cm_ncontent_bytes cm + int (length buf),
       cm_block_field := set_bit (cm_block_field cm) (piece * cm_bppbf cm * 8 + begin' div PIECE_BLOCKLEN)\<rparr>) w2"
proof -
  let ?al = "if \<not> has_bit (cm_pos_field (tp_cm tp)) piece
    then do {
      let npieces = alloc_group tp (ce_alloc_size (cw_env w));
      guard_opt (npieces \<noteq> 0);
      let start = piece - piece mod npieces;
      alloc_pieces t start (min (start + npieces) (tp_npieces tp)) w }
    else Some (None, w)"
  from assms have e: "\<not> cm_err (tp_cm tp)" by (auto simp: cm_put_bytes_def)
  with assms obtain e1 w1 where al: "?al = Some (e1, w1)"
    by (cases ?al) (auto simp: cm_put_bytes_def bind_Some_iff split: if_split_asm)
  from assms e al have e1: "e1 = None" by (cases e1) (auto simp: cm_put_bytes_def bind_Some_iff split: if_split_asm)
  with assms e al obtain e2 w2 where p: "wrs_put t (piece * tp_piece_length tp + begin') buf w1 = Some (e2, w2)"
    by (auto simp: cm_put_bytes_def bind_Some_iff split: if_split_asm)
  with assms e al e1 have e2: "e2 = None"
    by (cases e2) (auto simp: cm_put_bytes_def bind_Some_iff split: if_split_asm)
  have "w1 = w \<or> (\<exists>i j. alloc_pieces t i j w = Some (None, w1))"
    using al e1 by (auto simp: Let_def split: if_split_asm)
  with that [of w1 w2] assms e al e1 p e2 show thesis
    by (auto simp: cm_put_bytes_def cm_has_piece_def split: if_split_asm)
qed

lemma cm_put_bytes_ok:
  assumes "cm_put_bytes t piece begin' buf w = Some (None, w')" "can_write t tp w"
  shows "cw_env w' = cw_env w \<and> cm_rds (tp_cm (the (cw_tor w' t))) = cm_rds (tp_cm tp) \<and>
    (\<exists>c. cw_tor w' t = Some (tp\<lparr>tp_cm := c\<rparr>) \<and> \<not> cm_err c) \<and>
    (\<forall>x < length buf. byte_at (cw_disk w') (tp_files tp) (piece * tp_piece_length tp + begin' + x) = Some (buf ! x)) \<and>
    (\<forall>pos b. byte_at (cw_disk w) (tp_files tp) pos = Some b \<longrightarrow> pos \<notin> unverified tp \<longrightarrow>
       pos \<notin> {piece * tp_piece_length tp + begin' ..< piece * tp_piece_length tp + begin' + length buf} \<longrightarrow>
       byte_at (cw_disk w') (tp_files tp) pos = Some b)"
proof -
  from assms(2) have tor: "cw_tor w t = Some tp" by (simp add: can_write_def)
  let ?off = "piece * tp_piece_length tp + begin'" and ?A = "unverified tp"
  from cm_put_bytes_cases [OF assms(1) tor] obtain w1 w2 where e: "\<not> cm_err (tp_cm tp)"
    and al: "w1 = w \<or> (\<exists>i j. alloc_pieces t i j w = Some (None, w1))"
    and p: "wrs_put t ?off buf w1 = Some (None, w2)"
    and w': "w' = upd_cm t (\<lambda>cm. cm\<lparr>cm_ncontent_bytes := cm_ncontent_bytes cm + int (length buf),
       cm_block_field := set_bit (cm_block_field cm) (piece * cm_bppbf cm * 8 + begin' div PIECE_BLOCKLEN)\<rparr>) w2" .
  have a: "writes_in t tp ?A w w1"
    using al alloc_pieces_ok [OF _ assms(2)] writes_in_refl [OF assms(2)] by blast
  from writes_in_can [OF a assms(2)] obtain c where c: "can_write t (tp\<lparr>tp_cm := c\<rparr>) w1" by blast
  have t1: "cw_tor w1 t = Some (tp\<lparr>tp_cm := c\<rparr>)" using c by (simp add: can_write_def)
  note wp = wrs_put_ok [OF p c, simplified]
  let ?B = "{?off ..< ?off + length buf}"
  have "writes_in t tp (?A \<union> ?B) w w1" "writes_in t (tp\<lparr>tp_cm := c\<rparr>) (?A \<union> ?B) w1 w2"
    using a wp by (auto intro: writes_in_mono)
  note b = writes_in_trans [OF this(1) t1 this(2)]
  then obtain d where d: "cw_tor w2 t = Some (tp\<lparr>tp_cm := d\<rparr>)" "cm_rds d = cm_rds (tp_cm tp)"
    "cm_err d = cm_err (tp_cm tp)" "cw_env w2 = cw_env w" by (auto simp: writes_in_def)
  show ?thesis
    using wp b d e unfolding w' by (auto simp: writes_in_def)
qed

text \<open>C4. A block that \<^verbatim>\<open>cm_put_bytes\<close> stored without an error is what \<^verbatim>\<open>cm_get_bytes\<close> later reads
  back, through its own stream, and neither the block nor the zeros that give space to its neighbours
  change a byte of any piece that is already verified.\<close>

theorem cm_put_get_roundtrip:
  assumes "can_write t tp w" "kernel_ok (ce_rd (cw_env w))"
    "cm_rds (tp_cm tp) = Ptr r" "stream_wf r" "bs_files r = tp_files tp"
    "cm_put_bytes t piece begin' buf w = Some (None, w')"
  shows "(\<forall>buf' w''. cm_get_bytes t piece begin' (length buf) w' = Some (Inr buf', w'') \<longrightarrow> buf' = buf) \<and>
    (\<forall>pos b. byte_at (cw_disk w) (tp_files tp) pos = Some b \<and> pos \<notin> unverified tp \<and>
       \<not> (piece * tp_piece_length tp + begin' \<le> pos \<and> pos < piece * tp_piece_length tp + begin' + length buf) \<longrightarrow>
       byte_at (cw_disk w') (tp_files tp) pos = Some b)"
proof (intro conjI allI impI)
  note ok = cm_put_bytes_ok [OF assms(6,1)]
  fix buf' w'' assume g: "cm_get_bytes t piece begin' (length buf) w' = Some (Inr buf', w'')"
  from ok obtain c where c: "cw_tor w' t = Some (tp\<lparr>tp_cm := c\<rparr>)" "\<not> cm_err c" by blast
  with ok assms(3) have "cm_rds c = Ptr r" by simp
  with g c obtain r1 where b: "bts_get (ce_rd (cw_env w')) (cw_disk w') (length buf) r
      (piece * tp_piece_length tp + begin') (length buf) = Some (None, buf', r1)"
    by (auto simp: cm_get_bytes_def bind_Some_iff Let_def split: option.splits)
  have k: "kernel_ok (ce_rd (cw_env w'))" using assms(2) ok by simp
  from bts_get_spec [OF assms(4) k b] assms(5) ok show "buf' = buf"
    by (intro nth_equalityI) auto
next
  note ok = cm_put_bytes_ok [OF assms(6,1)]
  fix pos b
  assume "byte_at (cw_disk w) (tp_files tp) pos = Some b \<and> pos \<notin> unverified tp \<and>
    \<not> (piece * tp_piece_length tp + begin' \<le> pos \<and> pos < piece * tp_piece_length tp + begin' + length buf)"
  with ok show "byte_at (cw_disk w') (tp_files tp) pos = Some b" by simp
qed

section \<open>The counters are right\<close>

lemma zero_fill_keeps: "zero_fill t off len w = Some (e, w') \<Longrightarrow> keeps_counts t w w'"
proof (induction t off len w arbitrary: w' e rule: zero_fill.induct)
  case (1 t off len w)
  show ?case
  proof (cases "len > 0")
    case True
    let ?l = "min ZEROBUFLEN len"
    from 1(2) True obtain e1 w1 where p: "wrs_put t off (replicate ?l 0) w = Some (e1, w1)"
      "(if e1 \<noteq> None then Some (e1, w1) else zero_fill t (off + ?l) (len - ?l) w1) = Some (e, w')"
      by (subst (asm) zero_fill.simps) (auto simp: bind_Some_iff Let_def)
    have a: "keeps_counts t w w1" by (rule wrs_put_keeps [OF p(1)])
    show ?thesis
    proof (cases e1)
      case None
      with 1(1) [OF True refl p(1)] p(2) have "keeps_counts t w1 w'" by simp
      with a show ?thesis by (rule keeps_counts_trans)
    qed (use p(2) a in simp)
  qed (use 1(2) in \<open>simp add: zero_fill.simps\<close>)
qed

lemma alloc_pieces_keeps: "alloc_pieces t start end' w = Some (e, w') \<Longrightarrow> keeps_counts t w w'"
proof (induction t start end' w arbitrary: w' e rule: alloc_pieces.induct)
  case (1 t start end' w)
  show ?case
  proof (cases "start < end'")
    case True
    with 1(3) obtain tp where tor: "cw_tor w t = Some tp" by (subst (asm) alloc_pieces.simps) (auto simp: bind_Some_iff)
    show ?thesis
    proof (cases "has_bit (cm_pos_field (tp_cm tp)) start")
      case h: True
      with 1(3) True tor have "alloc_pieces t (start + 1) end' w = Some (e, w')"
        by (subst (asm) alloc_pieces.simps) simp
      with 1(2) [OF True tor] h show ?thesis by simp
    next
      case h: False
      let ?u = "upd_cm t (\<lambda>cm. cm\<lparr>cm_pos_field := set_bit (cm_pos_field cm) start\<rparr>)"
      from 1(3) True tor h obtain e1 w1 where g: "\<not> has_bit (cm_piece_field (tp_cm tp)) start"
        and z: "zero_fill t (tp_piece_length tp * start) (torrent_piece_size tp start) w = Some (e1, w1)"
        and r: "(if e1 \<noteq> None then Some (e1, w1) else alloc_pieces t (start + 1) end' (?u w1)) = Some (e, w')"
        by (subst (asm) alloc_pieces.simps) (auto simp: bind_Some_iff split: if_split_asm)
      note a = zero_fill_keeps [OF z]
      show ?thesis
      proof (cases e1)
        case None
        with 1(1) [OF True tor h _ z refl] g r have "keeps_counts t (?u w1) w'" by simp
        with keeps_counts_trans [OF a upd_keeps(6)] show ?thesis by (rule keeps_counts_trans)
      qed (use r a in simp)
    qed
  qed (use 1(3) in \<open>simp add: alloc_pieces.simps\<close>)
qed

lemma cm_put_bytes_error_keeps:
  assumes "cm_put_bytes t piece begin' buf w = Some (Some e, w')"
  shows "keeps_counts t w w'"
proof -
  from assms obtain tp where tor: "cw_tor w t = Some tp" by (auto simp: cm_put_bytes_def bind_Some_iff)
  let ?al = "if \<not> has_bit (cm_pos_field (tp_cm tp)) piece
    then do {
      let npieces = alloc_group tp (ce_alloc_size (cw_env w));
      guard_opt (npieces \<noteq> 0);
      let start = piece - piece mod npieces;
      alloc_pieces t start (min (start + npieces) (tp_npieces tp)) w }
    else Some (None, w)"
  show ?thesis
  proof (cases "cm_err (tp_cm tp)")
    case True
    with assms tor show ?thesis by (auto simp: cm_put_bytes_def)
  next
    case False
    with assms tor obtain e1 w1 where al: "?al = Some (e1, w1)"
      by (cases ?al) (auto simp: cm_put_bytes_def bind_Some_iff split: if_split_asm)
    have a: "keeps_counts t w w1"
      using al alloc_pieces_keeps by (auto simp: Let_def split: if_split_asm)
    show ?thesis
    proof (cases e1)
      case None
      from assms tor False al None obtain e2 w2 where
        p: "wrs_put t (piece * tp_piece_length tp + begin') buf w1 = Some (e2, w2)" "e2 \<noteq> None \<longrightarrow> w' = w2" "e2 \<noteq> None"
        by (auto simp: cm_put_bytes_def bind_Some_iff split: if_split_asm)
      with keeps_counts_trans [OF a wrs_put_keeps [OF p(1)]] show ?thesis by simp
    next
      case (Some x)
      with assms tor False al have "w' = w1" by (auto simp: cm_put_bytes_def bind_Some_iff split: if_split_asm)
      with a show ?thesis by simp
    qed
  qed
qed

lemma test_piece_keeps: "test_piece t piece w = Some (r, w') \<Longrightarrow> keeps_counts t w w'"
  by (auto simp: test_piece_def bind_Some_iff Let_def split: option.splits)

text \<open>The content of a torrent: its fields fit, and the counters count.\<close>

definition content_ok :: "tid \<Rightarrow> 'a cm_world_scheme \<Rightarrow> bool" where
  "content_ok t w \<longleftrightarrow> (\<exists>tp. cw_tor w t = Some tp \<and> cm_wf tp (tp_cm tp) \<and> cm_counted tp (tp_cm tp))"

lemma blocks_got_same: "same_counts c d \<Longrightarrow> blocks_got tp d i = blocks_got tp c i"
  by (simp add: blocks_got_def same_counts_def)

lemma counted_same:
  assumes "same_counts c d"
  shows "cm_counted tp d = cm_counted tp c" "cm_wf tp d = cm_wf tp c"
proof -
  have "piece_bytes tp d = piece_bytes tp c"
    using assms by (simp add: fun_eq_iff piece_bytes_def blocks_got_same [OF assms]) (simp add: same_counts_def)
  with assms show "cm_counted tp d = cm_counted tp c" "cm_wf tp d = cm_wf tp c"
    by (simp_all add: cm_counted_def cm_wf_def same_counts_def)
qed

lemma torrent_cm_counts [simp]:
  "cm_counted (tp\<lparr>tp_cm := c\<rparr>) = cm_counted tp" "cm_wf (tp\<lparr>tp_cm := c\<rparr>) = cm_wf tp"
proof -
  have "piece_bytes (tp\<lparr>tp_cm := c\<rparr>) d i = piece_bytes tp d i" for d i
    by (cases "has_bit (cm_piece_field d) i") (simp_all add: piece_bytes_def blocks_got_def)
  then show "cm_counted (tp\<lparr>tp_cm := c\<rparr>) = cm_counted tp" "cm_wf (tp\<lparr>tp_cm := c\<rparr>) = cm_wf tp"
    by (simp_all add: fun_eq_iff cm_counted_def cm_wf_def)
qed

lemma keeps_content_ok: "keeps_counts t w w' \<Longrightarrow> content_ok t w \<Longrightarrow> content_ok t w'"
  unfolding keeps_counts_def content_ok_def using counted_same by fastforce

lemma sum_list_filter_upt: "sum_list (map f (filter P [0 ..< n])) = (\<Sum>b < n. if P b then f b else (0 :: nat))"
  by (induction n) simp_all

lemma sum_change_one:
  fixes f g :: "nat \<Rightarrow> nat"
  assumes "k < n" "\<And>i. i < n \<Longrightarrow> i \<noteq> k \<Longrightarrow> f i = g i"
  shows "(\<Sum>i < n. f i) + g k = (\<Sum>i < n. g i) + f k"
proof -
  have "(\<Sum>i \<in> {..<n} - {k}. f i) = (\<Sum>i \<in> {..<n} - {k}. g i)" by (rule sum.cong) (use assms in auto)
  with assms(1) show ?thesis by (simp add: sum.remove [of "{..<n}" k])
qed

lemma set_block_counted:
  assumes "cm_wf tp c" "cm_counted tp c" "piece < tp_npieces tp" "b < torrent_piece_blocks tp piece"
    "\<not> has_bit (cm_piece_field c) piece" "\<not> block_bit c piece b"
    "n = torrent_block_size tp piece (torrent_piece_blocks tp piece) b"
  defines "d \<equiv> c\<lparr>cm_ncontent_bytes := cm_ncontent_bytes c + int n,
    cm_block_field := set_bit (cm_block_field c) (piece * cm_bppbf c * 8 + b)\<rparr>"
  shows "cm_wf tp d \<and> cm_counted tp d"
proof -
  have bb: "block_bit d i x \<longleftrightarrow> i = piece \<and> x = b \<or> block_bit c i x"
    if "i < tp_npieces tp" "x < torrent_piece_blocks tp i" for i x
    using block_bit_set [OF assms(1) that(1) assms(3) that(2) assms(4)] by (simp add: d_def block_bit_def)
  let ?S = "\<lambda>c i. \<Sum>x < torrent_piece_blocks tp i. if block_bit c i x
      then torrent_block_size tp i (torrent_piece_blocks tp i) x else 0"
  have pb: "piece_bytes tp e i = (if has_bit (cm_piece_field e) i then torrent_piece_size tp i else ?S e i)" for e i
    by (simp add: piece_bytes_def blocks_got_bits sum_list_filter_upt)
  have "?S d i = ?S c i" if "i < tp_npieces tp" "i \<noteq> piece" for i
    by (rule sum.cong) (use bb that in auto)
  then have o: "piece_bytes tp d i = piece_bytes tp c i" if "i < tp_npieces tp" "i \<noteq> piece" for i
    using that by (simp add: pb d_def)
  have "?S d piece = ?S c piece + n"
    using sum_change_one [of b "torrent_piece_blocks tp piece"
        "\<lambda>x. if block_bit d piece x then torrent_block_size tp piece (torrent_piece_blocks tp piece) x else 0"
        "\<lambda>x. if block_bit c piece x then torrent_block_size tp piece (torrent_piece_blocks tp piece) x else 0"]
      bb [OF assms(3)] assms(4,6,7) by simp
  then have "piece_bytes tp d piece = piece_bytes tp c piece + n"
    using assms(5) by (simp add: pb) (simp add: d_def)
  with sum_change_one [OF assms(3), of "piece_bytes tp d" "piece_bytes tp c"] o
  have "(\<Sum>i < tp_npieces tp. piece_bytes tp d i) = (\<Sum>i < tp_npieces tp. piece_bytes tp c i) + n" by simp
  with assms(1,2) show ?thesis by (simp add: cm_counted_def cm_wf_def) (simp add: d_def)
qed

lemma got_piece_counted:
  assumes "cm_wf tp c" "cm_counted tp c" "piece < tp_npieces tp" "\<not> has_bit (cm_piece_field c) piece"
    "length (blocks_got tp c piece) = torrent_piece_blocks tp piece"
  shows "cm_wf tp (c\<lparr>cm_npieces_got := cm_npieces_got c + 1, cm_piece_field := set_bit (cm_piece_field c) piece\<rparr>) \<and>
    cm_counted tp (c\<lparr>cm_npieces_got := cm_npieces_got c + 1, cm_piece_field := set_bit (cm_piece_field c) piece\<rparr>)"
proof -
  let ?d = "c\<lparr>cm_npieces_got := cm_npieces_got c + 1, cm_piece_field := set_bit (cm_piece_field c) piece\<rparr>"
  have inf: "in_field (cm_piece_field c) piece" using assms(1,3) by (simp add: cm_wf_def in_field_len)
  have "blocks_got tp c piece = [0 ..< torrent_piece_blocks tp piece]"
    using assms(5) filter_all_len [of "block_bit c piece" "[0 ..< torrent_piece_blocks tp piece]"]
    by (simp add: blocks_got_bits)
  then have "piece_bytes tp ?d i = piece_bytes tp c i" for i
    using assms(4) bf.member_insert [OF inf, of i]
    by (cases "i = piece") (simp_all add: piece_bytes_def block_sizes_sum blocks_got_def)
  then show ?thesis
    using assms bf.count_insert [OF inf assms(3,4)] by (simp add: cm_wf_def cm_counted_def)
qed

lemma clear_piece_counted:
  assumes "cm_wf tp c" "cm_counted tp c" "piece < tp_npieces tp" "\<not> has_bit (cm_piece_field c) piece"
    "length (blocks_got tp c piece) = torrent_piece_blocks tp piece"
  defines "d \<equiv> c\<lparr>cm_ncontent_bytes := cm_ncontent_bytes c - int (torrent_piece_size tp piece),
      cm_block_field := bzero_at (cm_block_field c) (piece * cm_bppbf c) (cm_bppbf c)\<rparr>"
  shows "cm_wf tp d \<and> cm_counted tp d"
proof -
  have B: "cm_bppbf c * piece + cm_bppbf c \<le> length (cm_block_field c)"
    using assms(1,3) mult_le_mono2 [of "Suc piece" "tp_npieces tp" "cm_bppbf c"] by (simp add: cm_wf_def)
  have all: "blocks_got tp c piece = [0 ..< torrent_piece_blocks tp piece]"
    using assms(5) filter_all_len [of "block_bit c piece" "[0 ..< torrent_piece_blocks tp piece]"]
    by (simp add: blocks_got_bits)
  have g: "blocks_got tp d i = (if i = piece then [] else blocks_got tp c i)" if "i < tp_npieces tp" for i
    using block_bit_bzero [OF assms(1) that assms(3)]
    by (auto simp: blocks_got_bits filter_empty_conv d_def block_bit_def mult.commute intro!: filter_cong)
  have "piece_bytes tp d i = piece_bytes tp c i" if "i < tp_npieces tp" "i \<noteq> piece" for i
    using g [OF that(1)] that(2) by (simp add: piece_bytes_def) (simp add: d_def)
  moreover have "piece_bytes tp d piece = 0" "piece_bytes tp c piece = torrent_piece_size tp piece"
    using g [OF assms(3)] assms(4) all by (simp_all add: piece_bytes_def block_sizes_sum) (simp add: d_def)
  ultimately have "(\<Sum>i < tp_npieces tp. piece_bytes tp d i) + torrent_piece_size tp piece
      = (\<Sum>i < tp_npieces tp. piece_bytes tp c i)"
    using sum_change_one [OF assms(3), of "piece_bytes tp d" "piece_bytes tp c"] by simp
  then have "int (\<Sum>i < tp_npieces tp. piece_bytes tp d i) = int (\<Sum>i < tp_npieces tp. piece_bytes tp c i)
      - int (torrent_piece_size tp piece)" by linarith
  then have "cm_counted tp d" using assms(2) unfolding cm_counted_def by (simp add: d_def)
  then show ?thesis
    using assms(1) B by (simp add: cm_wf_def d_def mult.commute)
qed

text \<open>The call that a component makes: a whole block of a piece that is not there, or the test of a complete piece.\<close>

definition block_arg :: "torrent \<Rightarrow> nat \<Rightarrow> nat \<Rightarrow> byte list \<Rightarrow> bool" where
  "block_arg tp piece begin' buf \<longleftrightarrow> piece < tp_npieces tp \<and>
     begin' div PIECE_BLOCKLEN < torrent_piece_blocks tp piece \<and>
     length buf = torrent_block_size tp piece (torrent_piece_blocks tp piece) (begin' div PIECE_BLOCKLEN)"

definition complete_piece :: "torrent \<Rightarrow> nat \<Rightarrow> bool" where
  "complete_piece tp piece \<longleftrightarrow> piece < tp_npieces tp \<and> \<not> cm_has_piece tp piece \<and>
     length (blocks_got tp (tp_cm tp) piece) = torrent_piece_blocks tp piece"

lemma content_ok_upd:
  "cw_tor w t = Some tp \<Longrightarrow> content_ok t (upd_cm t f w) \<longleftrightarrow> cm_wf tp (f (tp_cm tp)) \<and> cm_counted tp (f (tp_cm tp))"
  by (simp add: content_ok_def)

lemma put_content_ok:
  assumes "content_ok t w" "cw_tor w t = Some tp" "block_arg tp piece begin' buf"
    "cm_put_bytes t piece begin' buf w = Some (e, w')"
  shows "content_ok t w'"
proof (cases e)
  case (Some x)
  with assms keeps_content_ok [OF cm_put_bytes_error_keeps] show ?thesis by blast
next
  case None
  from cm_put_bytes_cases [OF assms(4) [unfolded None] assms(2)] obtain w1 w2 where
    nb: "\<not> has_bit (cm_get_block_field tp piece) (begin' div PIECE_BLOCKLEN)" "\<not> cm_has_piece tp piece"
    and al: "w1 = w \<or> (\<exists>i j. alloc_pieces t i j w = Some (None, w1))"
    and p: "wrs_put t (piece * tp_piece_length tp + begin') buf w1 = Some (None, w2)"
    and w': "w' = upd_cm t (\<lambda>cm. cm\<lparr>cm_ncontent_bytes := cm_ncontent_bytes cm + int (length buf),
       cm_block_field := set_bit (cm_block_field cm) (piece * cm_bppbf cm * 8 + begin' div PIECE_BLOCKLEN)\<rparr>) w2" .
  have "keeps_counts t w w1" using al alloc_pieces_keeps by auto
  from keeps_counts_trans [OF this wrs_put_keeps [OF p]] assms(2) obtain c where
    c: "cw_tor w2 t = Some (tp\<lparr>tp_cm := c\<rparr>)" "same_counts (tp_cm tp) c" by (auto simp: keeps_counts_def)
  have "cm_wf tp c" "cm_counted tp c"
    using assms(1,2) counted_same [OF c(2)] by (simp_all add: content_ok_def)
  from set_block_counted [OF this] nb assms(3) c
  have "cm_wf tp (c\<lparr>cm_ncontent_bytes := cm_ncontent_bytes c + int (length buf),
      cm_block_field := set_bit (cm_block_field c) (piece * cm_bppbf c * 8 + begin' div PIECE_BLOCKLEN)\<rparr>) \<and>
    cm_counted tp (c\<lparr>cm_ncontent_bytes := cm_ncontent_bytes c + int (length buf),
      cm_block_field := set_bit (cm_block_field c) (piece * cm_bppbf c * 8 + begin' div PIECE_BLOCKLEN)\<rparr>)"
    by (simp add: block_arg_def cm_has_piece_def cm_get_block_field_def block_bit_def same_counts_def mult.commute)
  then show ?thesis unfolding w' content_ok_upd [OF c(1)] by simp
qed

lemma test_content_ok:
  assumes "content_ok t w" "cw_tor w t = Some tp" "complete_piece tp piece"
    "\<And>v v'. on_ok piece v = Some v' \<Longrightarrow> keeps_counts t v v'"
    "\<And>v v'. on_bad piece v = Some v' \<Longrightarrow> keeps_counts t v v'"
    "cm_test_piece on_ok on_bad t piece w = Some w'"
  shows "content_ok t w'"
proof -
  from assms(6) obtain r w1 where s: "test_piece t piece w = Some (r, w1)" by (auto simp: cm_test_piece_def bind_Some_iff)
  note k = test_piece_keeps [OF s]
  from k assms(2) obtain c where c: "cw_tor w1 t = Some (tp\<lparr>tp_cm := c\<rparr>)" "same_counts (tp_cm tp) c"
    by (auto simp: keeps_counts_def)
  have wf: "cm_wf tp c" "cm_counted tp c" "piece < tp_npieces tp" "\<not> has_bit (cm_piece_field c) piece"
    "length (blocks_got tp c piece) = torrent_piece_blocks tp piece"
    using assms(1-3) counted_same [OF c(2)] c(2)
    by (auto simp: content_ok_def complete_piece_def cm_has_piece_def blocks_got_same [OF c(2)] same_counts_def)
  show ?thesis
  proof (cases r)
    case (Inl e)
    with assms(6) s have "cm_on_error t w1 = Some w'" by (simp add: cm_test_piece_def)
    with keeps_counts_trans [OF k cm_on_error_keeps] assms(1) show ?thesis by (blast intro: keeps_content_ok)
  next
    case (Inr ok)
    show ?thesis
    proof (cases ok)
      case True
      let ?w = "upd_cm t (\<lambda>cm. cm\<lparr>cm_npieces_got := cm_npieces_got cm + 1,
                       cm_piece_field := set_bit (cm_piece_field cm) piece\<rparr>) w1"
      from assms(6) s Inr True c obtain w2 where o: "on_ok piece ?w = Some w2" "w' = w2 \<or> cm_write_done t w2 = Some w'"
        by (auto simp: cm_test_piece_def bind_Some_iff split: if_split_asm)
      have "content_ok t ?w" using got_piece_counted [OF wf] unfolding content_ok_upd [OF c(1)] by simp
      from keeps_content_ok [OF assms(4) [OF o(1)] this] o(2) keeps_content_ok [OF cm_write_done_keeps]
      show ?thesis by blast
    next
      case False
      let ?w = "upd_cm t (\<lambda>cm. cm\<lparr>cm_ncontent_bytes := cm_ncontent_bytes cm - int (torrent_piece_size tp piece),
                    cm_block_field := bzero_at (cm_block_field cm) (piece * cm_bppbf cm) (cm_bppbf cm)\<rparr>) w1"
      from assms(6) s Inr False c have o: "on_bad piece ?w = Some w'" by (simp add: cm_test_piece_def)
      have "content_ok t ?w" using clear_piece_counted [OF wf] unfolding content_ok_upd [OF c(1)] by simp
      from keeps_content_ok [OF assms(5) [OF o] this] show ?thesis .
    qed
  qed
qed

section \<open>Concrete content\<close>

text \<open>A torrent of two pieces over the sample files, of which the first piece is there.\<close>

definition sample_content :: content where
  "sample_content = \<lparr>cm_state = CM_ACTIVE, cm_err = False, cm_npieces_got = 1, cm_ncontent_bytes = 3,
     cm_bppbf = 1, cm_piece_field = [0x80], cm_block_field = [0x80, 0], cm_pos_field = [0xc0],
     cm_rds = Ptr sample_stream, cm_wrs = Ptr sample_stream, cm_fts = [(0, 2), (0, 0), (0, 3)]\<rparr>"

definition sample_torrent :: torrent where
  "sample_torrent = \<lparr>tp_state = T_LEECH, tp_total_length = 5, tp_piece_length = 3, tp_npieces = 2,
     tp_files = bs_files sample_stream, tp_hash = replicate 20 0,
     tp_piece_hash = (\<lambda>i. if i = 0 then [1, 2, 3] else [4, 5]), tp_cm = sample_content\<rparr>"

definition sample_env :: cm_env where
  "sample_env = \<lparr>ce_rd = sample_kernel, ce_wr = sample_kernel, ce_sha = (\<lambda>x. x), ce_alloc_size = 0, ce_mem_ok = True,
     ce_stat = (\<lambda>_. None), ce_creat = (\<lambda>_. None), ce_trunc = (\<lambda>_. None), ce_mtime = (\<lambda>_. 0), ce_junk = (\<lambda>_. (0, 0))\<rparr>"

definition sample_cmw :: cm_world where
  "sample_cmw = \<lparr>cw_env = sample_env, cw_disk = sample_disk, cw_exists = (\<lambda>_. True),
     cw_tor = [0 \<mapsto> sample_torrent], cw_startq = [], cw_workev = False\<rparr>"

lemmas sample_cm_defs = sample_content_def sample_torrent_def sample_env_def sample_cmw_def sample_stream_def
  sample_kernel_def sample_disk_def

lemma sample_torrent_simps [simp]:
  "tp_npieces sample_torrent = 2" "tp_cm sample_torrent = sample_content" "tp_piece_length sample_torrent = 3"
  "tp_files sample_torrent = bs_files sample_stream"
  by (simp_all add: sample_torrent_def)

lemma sample_content_simps [simp]:
  "cm_npieces_got sample_content = 1" "cm_ncontent_bytes sample_content = 3" "cm_bppbf sample_content = 1"
  "cm_piece_field sample_content = [0x80]" "cm_block_field sample_content = [0x80, 0]"
  "cm_pos_field sample_content = [0xc0]" "cm_rds sample_content = Ptr sample_stream"
  "cm_wrs sample_content = Ptr sample_stream" "\<not> cm_err sample_content" "cm_state sample_content = CM_ACTIVE"
  by (simp_all add: sample_content_def)

lemma sample_cmw_simps [simp]:
  "cw_env sample_cmw = sample_env" "cw_disk sample_cmw = sample_disk" "cw_tor sample_cmw = [0 \<mapsto> sample_torrent]"
  "ce_rd sample_env = sample_kernel" "ce_wr sample_env = sample_kernel" "ce_mem_ok sample_env"
  by (simp_all add: sample_cmw_def sample_env_def)

lemma all_less_2: "(\<forall>i < (2 :: nat). P i) \<longleftrightarrow> P 0 \<and> P 1"
  by (auto simp: less_2_cases_iff)

lemma sample_sizes:
  "torrent_piece_size sample_torrent 0 = 3" "torrent_piece_size sample_torrent 1 = 2"
  "torrent_piece_blocks sample_torrent 0 = 1" "torrent_piece_blocks sample_torrent 1 = 1"
  "torrent_block_size sample_torrent 0 1 0 = 3" "torrent_block_size sample_torrent 1 1 0 = 2"
  by (simp_all add: torrent_piece_size_def torrent_piece_blocks_def torrent_block_size_def sample_torrent_def
      PIECE_BLOCKLEN_def)

lemma sample_bits: "has_bit [0x80] 0" "\<not> has_bit [0x80] 1" "\<not> has_bit [0] 0"
  by (simp_all add: has_bit_def)

lemma sample_piece_bytes:
  "piece_bytes sample_torrent sample_content 0 = 3" "piece_bytes sample_torrent sample_content (Suc 0) = 0"
  by (simp_all add: piece_bytes_def blocks_got_def sample_sizes [simplified] sample_bits [simplified])

lemma sample_content_ok: "content_ok 0 sample_cmw"
proof -
  have "bf.members [0x80 :: byte] 2 = {0}"
    by (auto simp: bf.members_def less_2_cases_iff sample_bits sample_bits [simplified])
  then have "bf.count [0x80 :: byte] 2 = 1" by (simp add: bf.count_def)
  moreover have "cm_wf sample_torrent sample_content"
    using sample_sizes by (simp add: cm_wf_def all_less_2 field_len_def)
  ultimately show ?thesis
    by (simp add: content_ok_def cm_counted_def numeral_2_eq_2 sample_piece_bytes)
qed

lemma sample_put:
  "\<exists>w'. cm_put_bytes 0 1 0 [7, 8] sample_cmw = Some (None, w')"
proof -
  have "\<exists>d s. bts_put sample_kernel 2 sample_disk sample_stream 3 [7, 8] = Some (None, d, s)"
    by (simp add: bts_put_def bts_seek_def sample_stream_def bts_put_round_def open_cur_def skip_empty.simps
        sample_kernel_def cur_len_def move_def next_file_def numeral_eq_Suc)
  then obtain d s where b: "bts_put sample_kernel (Suc (Suc 0)) sample_disk sample_stream 3 [7, 8] = Some (None, d, s)"
    by (auto simp: numeral_2_eq_2)
  have "has_bit [0xc0] (Suc 0)" by (simp add: has_bit_def)
  with b sample_bits show ?thesis
    by (simp add: cm_put_bytes_def cm_get_block_field_def wrs_put_def Let_def)
qed

theorem cm_put_get_roundtrip_witness:
  "\<exists>w'. cm_put_bytes 0 1 0 [7, 8] sample_cmw = Some (None, w') \<and>
    \<not> (\<exists>buf' w''. cm_get_bytes 0 1 0 (length [7 :: byte, 8]) w' = Some (Inr buf', w'') \<and> buf' \<noteq> [7, 8])"
proof -
  from sample_put obtain w' where w': "cm_put_bytes 0 1 0 [7, 8] sample_cmw = Some (None, w')" by blast
  have "can_write 0 sample_torrent sample_cmw"
    using sample_kernel_ok sample_stream_wf by (simp add: can_write_def) (simp add: sample_stream_def)
  from cm_put_get_roundtrip [OF this _ _ sample_stream_wf(1) _ w'] sample_kernel_ok w' show ?thesis by auto
qed



text \<open>C6. When the start-up test of a torrent ends, the counters agree with the piece and block fields,
  no untested piece has all its blocks, and the torrent is active, with a stream to write to exactly if
  something is missing.\<close>

theorem startup_test_counts:
  assumes "cw_tor w t = Some tp" "cm_wf tp (tp_cm tp)" "cm_npieces_got (tp_cm tp) = 0"
    "cm_ncontent_bytes (tp_cm tp) = 0" "ce_mem_ok (cw_env w)" "unclean \<longrightarrow> cw_startq w \<noteq> []" "cm_wrs (tp_cm tp) = Null"
  shows "\<exists>w' cm. startup_test_end t unclean w = Some w' \<and> cw_tor w' t = Some (tp\<lparr>tp_cm := cm\<rparr>) \<and>
    content_ok t w' \<and> cm_tested tp cm \<and> cm_piece_field cm = cm_piece_field (tp_cm tp) \<and> cm_state cm = CM_ACTIVE \<and>
    (cm_wrs cm = Null \<longleftrightarrow> cm_full (tp\<lparr>tp_cm := cm\<rparr>))"
proof -
  let ?c0 = "(tp_cm tp)\<lparr>cm_pos_field := bzero_at (cm_pos_field (tp_cm tp)) 0 (field_len (tp_npieces tp))\<rparr>"
  define c where "c = foldl (test_end_piece tp) ?c0 [0 ..< tp_npieces tp]"
  have "cm_wf tp ?c0" using assms(2) by (simp add: cm_wf_def)
  from test_end_loop [OF this order_refl] assms(3,4)
  have c: "cm_wf tp c" "cm_piece_field c = cm_piece_field (tp_cm tp)" "cm_counted tp c" "cm_tested tp c"
    by (simp_all add: c_def cm_counted_def cm_tested_def)
  have wrs: "cm_wrs (test_end_piece tp x k) = cm_wrs x" for x k by (simp add: test_end_piece_def Let_def)
  have "cm_wrs (foldl (test_end_piece tp) x ks) = cm_wrs x" for x ks
    by (induction ks arbitrary: x) (simp_all add: wrs)
  then have cw: "cm_wrs c = Null" using assms(7) by (simp add: c_def)
  let ?u = "upd_cm t (\<lambda>cm. foldl (test_end_piece tp)
     (cm\<lparr>cm_pos_field := bzero_at (cm_pos_field cm) 0 (field_len (tp_npieces tp))\<rparr>) [0 ..< tp_npieces tp]) w"
  have tu: "cw_tor ?u t = Some (tp\<lparr>tp_cm := c\<rparr>)" using assms(1) by (simp add: c_def)
  obtain s where bo: "bts_open True (tp_files tp) = Inr s" by (simp add: bts_open_def)
  define w2 where "w2 = (if unclean then upd_cm t (\<lambda>cm. cm\<lparr>cm_fts := std_fts (hd (cw_startq w))\<rparr>) (?u\<lparr>cw_startq := tl (cw_startq w)\<rparr>) else ?u)"
  define c2 where "c2 = (if unclean then c\<lparr>cm_fts := std_fts (hd (cw_startq w))\<rparr> else c)"
  have t2: "cw_tor w2 t = Some (tp\<lparr>tp_cm := c2\<rparr>)" "cw_env w2 = cw_env w"
    using assms(1) by (simp_all add: w2_def c2_def c_def [symmetric])
  have sc: "same_counts c (c2\<lparr>cm_state := s, cm_wrs := p\<rparr>)" for s p by (simp add: c2_def same_counts_def)
  define f :: "content \<Rightarrow> content" where "f = (\<lambda>cm. if cm_full (tp\<lparr>tp_cm := c2\<rparr>) then cm\<lparr>cm_state := CM_ACTIVE\<rparr> else cm\<lparr>cm_wrs := Ptr s, cm_state := CM_ACTIVE\<rparr>)"
  have "startup_test_end t unclean w = Some (upd_cm t f w2)"
  proof -
    have "startup_test_end t unclean w = open_for_writing t w2"
      using assms(1,6) by (cases unclean; cases "cw_startq w") (simp_all add: startup_test_end_def w2_def Let_def)
    with t2 assms(5) bo show ?thesis by (simp add: open_for_writing_def f_def)
  qed
  moreover have "cw_tor (upd_cm t f w2) t = Some (tp\<lparr>tp_cm := f c2\<rparr>)" using t2 by simp
  moreover have k: "same_counts c (f c2)" "cm_state (f c2) = CM_ACTIVE"
    "cm_wrs (f c2) = Null \<longleftrightarrow> cm_full (tp\<lparr>tp_cm := f c2\<rparr>)"
    using cw by (simp_all add: f_def c2_def same_counts_def cm_full_def)
  moreover have "content_ok t (upd_cm t f w2)"
    using t2 counted_same [OF k(1)] c by (simp add: content_ok_def)
  moreover have "cm_tested tp (f c2)" "cm_piece_field (f c2) = cm_piece_field (tp_cm tp)"
    using c(2,4) k(1) blocks_got_same [OF k(1)] by (simp_all add: cm_tested_def same_counts_def)
  ultimately show ?thesis by blast
qed

definition fresh_cmw :: cm_world where
  "fresh_cmw = upd_cm 0 (\<lambda>cm. cm\<lparr>cm_npieces_got := 0, cm_ncontent_bytes := 0, cm_wrs := Null, cm_state := CM_STARTING\<rparr>)
     sample_cmw"

theorem startup_test_counts_witness:
  "\<exists>w' cm. startup_test_end 0 False fresh_cmw = Some w' \<and>
    cw_tor w' 0 = Some (sample_torrent\<lparr>tp_cm := cm\<rparr>) \<and> content_ok 0 w' \<and> cm_tested sample_torrent cm \<and>
    cm_state cm = CM_ACTIVE"
proof -
  let ?c = "sample_content\<lparr>cm_npieces_got := 0, cm_ncontent_bytes := 0, cm_wrs := Null, cm_state := CM_STARTING\<rparr>"
  have wf: "cm_wf (sample_torrent\<lparr>tp_cm := ?c\<rparr>) ?c"
    using sample_content_ok by (simp add: content_ok_def) (simp add: cm_wf_def field_len_def)
  have "cm_tested (sample_torrent\<lparr>tp_cm := ?c\<rparr>) cm \<Longrightarrow> cm_tested sample_torrent cm" for cm
    by (simp add: cm_tested_def blocks_got_def)
  with startup_test_counts [of fresh_cmw 0 "sample_torrent\<lparr>tp_cm := ?c\<rparr>" False, OF _ _ _ _ _ _ _] wf
  show ?thesis by (fastforce simp: fresh_cmw_def)
qed

section \<open>The start-up test makes progress\<close>

lemma test_piece_frame:
  "test_piece t piece w = Some (r, w') \<Longrightarrow> cw_startq w' = cw_startq w \<and> cw_workev w' = cw_workev w"
  by (auto simp: test_piece_def bind_Some_iff Let_def split: option.splits)

lemma stat_and_adjust_queue:
  "stat_and_adjust fs ret w = Some (e, r, w') \<Longrightarrow> cw_startq w' = cw_startq w \<and> cw_workev w' = cw_workev w"
proof (induction fs arbitrary: ret w)
  case (Cons f fs)
  obtain p n where f: "f = (p, n)" by (cases f)
  from Cons.prems obtain r1 w1 where s: "stat_adjust_file 3 f w = Some (r1, w1)" by (auto simp: bind_Some_iff)
  with stat_adjust_file_spec [of p n w] f have "same_but_files {p} w w1" by auto
  then have t: "cw_startq w1 = cw_startq w" "cw_workev w1 = cw_workev w" by (auto simp: same_but_files_def)
  show ?case
  proof (cases r1)
    case (Inr x)
    with Cons.prems s have "stat_and_adjust fs (ret @ [x]) w1 = Some (e, r, w')" by simp
    from Cons.IH [OF this] t show ?thesis by simp
  qed (use Cons.prems s t in simp)
qed simp

lemma std_remove_same: "t \<notin> std_tp ` set q \<Longrightarrow> std_remove t q = q"
  by (induction q) auto

text \<open>An error only takes the torrent itself off the queue; the timer is left as it is.\<close>

lemma write_done_err_queue:
  assumes "cw_tor w t = Some tp" "cm_err (tp_cm tp)" "cm_write_done_body f t w = Some w'"
  shows "cw_startq w' = cw_startq w \<and> cw_workev w' = cw_workev w"
  using assms by (auto simp: cm_write_done_body_def bind_Some_iff Let_def)

lemma cm_on_error_queue:
  assumes "cm_on_error t w = Some w'"
  shows "cw_workev w' = cw_workev w \<and> (cw_startq w' = cw_startq w \<or> cw_startq w' = std_remove t (cw_startq w)) \<and>
    (\<forall>tp. cw_tor w t = Some tp \<longrightarrow> \<not> cm_err (tp_cm tp) \<longrightarrow> cm_state (tp_cm tp) = CM_STARTING \<longrightarrow>
       cw_startq w' = std_remove t (cw_startq w))"
proof -
  from assms obtain tp where tp: "cw_tor w t = Some tp" by (auto simp: cm_on_error_def cm_on_error_body_def bind_Some_iff)
  show ?thesis
  proof (cases "cm_err (tp_cm tp)")
    case True
    with assms tp cm_on_error_set [OF tp True] show ?thesis by simp
  next
    case False
    let ?wd = "cm_write_done_body (\<lambda>_. Some)"
    let ?c = "(tp_cm tp)\<lparr>cm_err := True\<rparr>"
    let ?v = "upd_cm t (\<lambda>cm. cm\<lparr>cm_err := True\<rparr>) w"
    have v: "cw_tor ?v t = Some (tp\<lparr>tp_cm := ?c\<rparr>)" using tp by simp
    from assms tp False have s: "cm_stop_body ?wd t ?v = Some w'"
      by (simp add: cm_on_error_def cm_on_error_body_def)
    show ?thesis
    proof (cases "cm_state (tp_cm tp) = CM_INACTIVE")
      case True
      with s tp show ?thesis by (auto simp: cm_stop_body_def Let_def)
    next
      case act: False
      define w1 where "w1 = (if cm_state (tp_cm tp) = CM_STARTING then ?v\<lparr>cw_startq := std_remove t (cw_startq w)\<rparr> else ?v)"
      define w2 where "w2 = (if cm_rds (tp_cm tp) \<noteq> Null then upd_cm t (\<lambda>cm. cm\<lparr>cm_rds := Freed\<rparr>) w1 else w1)"
      have t2: "\<exists>c. cw_tor w2 t = Some (tp\<lparr>tp_cm := c\<rparr>) \<and> cm_err c"
        using tp by (simp add: w2_def w1_def)
      have q2: "cw_workev w2 = cw_workev w" "cw_startq w2 = cw_startq w1" by (simp_all add: w2_def w1_def)
      from s tp act obtain w3 where w3: "w3 = w2 \<or> ?wd t w2 = Some w3"
        "w' = upd_cm t (\<lambda>cm. cm\<lparr>cm_state := CM_INACTIVE\<rparr>) w3"
        by (cases "cm_state (tp_cm tp)")
          (auto simp: cm_stop_body_def Let_def bind_Some_iff w2_def w1_def split: if_split_asm)
      from t2 w3(1) write_done_err_queue [of w2 t _ "\<lambda>_. Some" w3]
      have "cw_startq w3 = cw_startq w2 \<and> cw_workev w3 = cw_workev w2" by auto
      then show ?thesis using q2 w3(2) tp by (auto simp: w1_def)
    qed
  qed
qed

lemma open_for_writing_queue:
  assumes "open_for_writing t w = Some w'" "t \<notin> std_tp ` set (cw_startq w)"
  shows "cw_startq w' = cw_startq w \<and> cw_workev w' = cw_workev w"
proof -
  from assms(1) obtain tp where tp: "cw_tor w t = Some tp" by (auto simp: open_for_writing_def bind_Some_iff)
  have "(\<exists>f. w' = upd_cm t f w) \<or> cm_on_error t w = Some w'"
    using assms(1) tp
    by (cases "cm_full tp"; cases "bts_open (ce_mem_ok (cw_env w)) (tp_files tp)") (auto simp: open_for_writing_def)
  with cm_on_error_queue [of t w w'] std_remove_same [OF assms(2)] show ?thesis by auto
qed

lemma startup_test_end_queue:
  assumes "startup_test_end t True w = Some w'" "cw_startq w = std # q" "t \<notin> std_tp ` set q"
  shows "cw_startq w' = q \<and> cw_workev w' = cw_workev w"
proof -
  let ?f = "\<lambda>tp cm. foldl (test_end_piece tp)
     (cm\<lparr>cm_pos_field := bzero_at (cm_pos_field cm) 0 (field_len (tp_npieces tp))\<rparr>) [0 ..< tp_npieces tp]"
  from assms(1,2) obtain tp where o: "open_for_writing t
      (upd_cm t (\<lambda>cm. cm\<lparr>cm_fts := std_fts std\<rparr>) (upd_cm t (?f tp) w\<lparr>cw_startq := q\<rparr>)) = Some w'"
    by (auto simp: startup_test_end_def bind_Some_iff Let_def)
  from open_for_writing_queue [OF this] assms(3) show ?thesis by simp
qed

lemma next_pos_ge: "i \<le> next_pos pos n i"
  by (induction pos n i rule: next_pos.induct) (subst next_pos.simps, auto)


text \<open>
  A piece that cannot be read ends the round without the timer: the other torrents of the queue
  are not tested until one is put on an empty queue, which does not happen while they wait.
\<close>

lemma startup_error_starves:
  assumes "cw_startq w = std # q" "q \<noteq> []" "cw_tor w (std_tp std) = Some tp" "cm_state (tp_cm tp) = CM_STARTING"
    "\<not> cm_err (tp_cm tp)"
    "test_piece (std_tp std) (std_start std) (w\<lparr>cw_workev := False\<rparr>) = Some (Inl e, w1)" "worker_cb w = Some w'"
  shows "cw_startq w' = q \<and> \<not> cw_workev w'"
proof -
  let ?t = "std_tp std"
  from assms(6,3) obtain p where w1: "w1 = upd_cm ?t (\<lambda>cm. cm\<lparr>cm_rds := p\<rparr>) (w\<lparr>cw_workev := False\<rparr>)"
    by (auto simp: test_piece_def bind_Some_iff Let_def split: option.splits)
  from assms(1,6,7) have "cm_on_error ?t w1 = Some w'" by (simp add: worker_cb_def startup_test_run_def Let_def)
  from cm_on_error_queue [OF this] assms(1,3,4,5) show ?thesis by (auto simp: w1)
qed

text \<open>A queue with one torrent whose first piece is to be tested.\<close>

definition queued_cmw :: cm_world where
  "queued_cmw = fresh_cmw\<lparr>cw_startq := [\<lparr>std_tp = 0, std_fts = [], std_start = 0\<rparr>], cw_workev := True\<rparr>"

lemma queued_test:
  "\<exists>w1. test_piece 0 0 (queued_cmw\<lparr>cw_workev := False\<rparr>) = Some (Inr True, w1) \<and>
     cw_tor w1 0 = Some (sample_torrent\<lparr>tp_cm := (tp_cm (the (cw_tor w1 0)))\<rparr>) \<and>
     cm_pos_field (tp_cm (the (cw_tor w1 0))) = [0xc0]"
proof -
  have "\<exists>s. bts_get sample_kernel sample_disk SHAFILEBUF sample_stream 0 3 = Some (None, [1, 2, 3], s)"
  proof -
    have "SHAFILEBUF = Suc (Suc (Suc (Suc 32764)))" by (simp add: SHAFILEBUF_def)
    then obtain k where S: "SHAFILEBUF = Suc (Suc (Suc (Suc k)))" by blast
    show ?thesis unfolding S
      by (simp add: bts_get_def bts_seek_def sample_stream_def bts_get_round_def open_cur_def skip_empty.simps
          sample_kernel_def cur_len_def move_def next_file_def sample_disk_def numeral_eq_Suc)
  qed
  then obtain s where g: "bts_get sample_kernel sample_disk SHAFILEBUF sample_stream 0 3 = Some (None, [1, 2, 3], s)" by blast
  have "bts_sha_loop sample_kernel sample_disk SHAFILEBUF s 3 0 [1, 2, 3] = Some (None, [1, 2, 3], s)"
    by (subst bts_sha_loop.simps) simp
  with g have "bts_sha_loop sample_kernel sample_disk SHAFILEBUF sample_stream 0 3 [] = Some (None, [1, 2, 3], s)"
    by (subst bts_sha_loop.simps) (simp add: SHAFILEBUF_def)
  then have "bts_sha (\<lambda>x. x) sample_kernel sample_disk SHAFILEBUF sample_stream 0 3 = Some (None, [1, 2, 3], s)"
    by (simp add: bts_sha_def)
  moreover have "ce_sha sample_env = (\<lambda>x. x)" by (simp add: sample_env_def)
  moreover have "test_hash (sample_torrent\<lparr>tp_cm := c\<rparr>) [1, 2, 3] 0" for c
    by (simp add: test_hash_def sample_torrent_def)
  ultimately show ?thesis
    by (simp add: test_piece_def queued_cmw_def fresh_cmw_def sample_sizes Let_def)
qed


section \<open>Stopping\<close>

lemma stat_and_adjust_total: "\<exists>e r w'. stat_and_adjust fs ret w = Some (e, r, w')"
proof (induction fs arbitrary: ret w)
  case (Cons f fs)
  obtain p n where f: "f = (p, n)" by (cases f)
  from stat_adjust_file_spec [of p n w] obtain r w1 where "stat_adjust_file 3 f w = Some (r, w1)" unfolding f by blast
  with Cons show ?case by (cases r) simp_all
qed simp

lemma cm_save_total: "cw_tor w t = Some tp \<Longrightarrow> \<exists>w' fts. cm_save t w = Some (upd_cm t (\<lambda>cm. cm\<lparr>cm_fts := fts\<rparr>) w') \<and> cw_tor w' = cw_tor w"
proof -
  assume tp: "cw_tor w t = Some tp"
  from stat_and_adjust_total [of "tp_files tp" "[]" w] obtain e r w' where
    s: "stat_and_adjust (tp_files tp) [] w = Some (e, r, w')" by blast
  show ?thesis using tp s stat_and_adjust_tor [OF s] by (auto simp: cm_save_def Let_def)
qed

text \<open>C8. Stopping an active torrent that is being written: if the write stream closes without an error the
  torrent ends inactive with both streams gone. If the close fails, \<^verbatim>\<open>cm_write_done\<close> reports the error
  through \<^verbatim>\<open>cm_on_error\<close>, which stops the torrent again and closes the read stream a second time
  (undefined behaviour).\<close>

theorem cm_stop_closes_once:
  assumes "cw_tor w t = Some tp" "cm_state (tp_cm tp) = CM_ACTIVE" "\<not> cm_err (tp_cm tp)"
    "cm_rds (tp_cm tp) = Ptr r" "cm_wrs (tp_cm tp) = Ptr s"
  shows "(if bts_close (ce_wr (cw_env w)) s = None
     then \<exists>w' c. cm_stop t w = Some w' \<and> cw_tor w' t = Some (tp\<lparr>tp_cm := c\<rparr>) \<and> cm_state c = CM_INACTIVE \<and>
       cm_wrs c = Null \<and> cm_rds c = Freed \<and> \<not> cm_err c
     else cm_stop t w = None)"
proof (cases "bts_close (ce_wr (cw_env w)) s")
  case None
  let ?v = "upd_cm t (\<lambda>cm. cm\<lparr>cm_wrs := Null\<rparr>) (upd_cm t (\<lambda>cm. cm\<lparr>cm_rds := Freed\<rparr>) w)"
  have v: "cw_tor ?v t = Some (tp\<lparr>tp_cm := (tp_cm tp)\<lparr>cm_rds := Freed, cm_wrs := Null\<rparr>\<rparr>)" using assms(1) by simp
  from cm_save_total [OF v] obtain x fts where sv: "cm_save t ?v = Some (upd_cm t (\<lambda>cm. cm\<lparr>cm_fts := fts\<rparr>) x)"
    "cw_tor x = cw_tor ?v" by blast
  have "cm_stop t w = Some (upd_cm t (\<lambda>cm. cm\<lparr>cm_state := CM_INACTIVE\<rparr>) (upd_cm t (\<lambda>cm. cm\<lparr>cm_fts := fts\<rparr>) x))"
    using assms None sv(1) by (simp add: cm_stop_eq cm_stop_body_def cm_write_done_eq cm_write_done_body_def Let_def)
  then show ?thesis using None sv(2) assms by simp
next
  case (Some e)
  let ?v = "upd_cm t (\<lambda>cm. cm\<lparr>cm_wrs := Null\<rparr>) (upd_cm t (\<lambda>cm. cm\<lparr>cm_rds := Freed\<rparr>) w)"
  have "cm_on_error t ?v = None"
    using assms by (simp add: cm_on_error_eq cm_stop_eq cm_stop_body_def Let_def)
  then show ?thesis
    using assms Some by (simp add: cm_stop_eq cm_stop_body_def cm_write_done_eq cm_write_done_body_def Let_def)
qed

theorem cm_stop_closes_once_witness:
  "\<exists>w' c. cm_stop 0 sample_cmw = Some w' \<and> cw_tor w' 0 = Some (sample_torrent\<lparr>tp_cm := c\<rparr>) \<and>
     cm_state c = CM_INACTIVE \<and> cm_wrs c = Null \<and> cm_rds c = Freed \<and> \<not> cm_err c"
proof -
  have "bts_close (ce_wr (cw_env sample_cmw)) sample_stream = None"
    by (simp add: bts_close_def sample_stream_def)
  with cm_stop_closes_once [of sample_cmw 0 sample_torrent sample_stream sample_stream] show ?thesis by simp
qed

end
