(* ===== verification/NetBuf.thy ===== *)
theory NetBuf
  imports Content
begin

text \<open>
  \<^verbatim>\<open>btpd/net_buf.c\<close>: the messages that wait to be sent. A \<^verbatim>\<open>struct net_buf *\<close> is a record with the
  address of the object and its contents, which are set when it is created (the contents of a data
  message when it is filled, at a time when one queue alone holds it). The reference counts are the
  map \<open>nw_refs\<close> from addresses; an address is fresh when it is given out and never used again.
  Memory is never exhausted here: \<^verbatim>\<open>btpd_calloc\<close> ends the process in that case.
\<close>

section \<open>Data\<close>

datatype nb_type = NB_CHOKE | NB_UNCHOKE | NB_INTEREST | NB_UNINTEREST | NB_HAVE | NB_BITFIELD
  | NB_REQUEST | NB_PIECE | NB_CANCEL | NB_TORRENTDATA | NB_MULTIHAVE | NB_BITDATA | NB_SHAKE | NB_KEEPALIVE

datatype kill_buf = Kill_No | Kill_Free | Kill_Abort

text \<open>
  What \<^verbatim>\<open>buf\<close> points to: nothing, the object's own bytes, or the piece field of a torrent, which
  may change until the message is written.
\<close>

datatype nb_mem = Null_Buf | Own_Buf "byte list" | Piece_Field tid

record net_buf =
  nb_addr :: nat
  nb_type :: nb_type
  nb_buf :: nb_mem
  nb_len :: nat
  nb_kill :: kill_buf

record nb_world = cm_world +
  nw_fresh :: nat
  nw_refs :: "nat \<Rightarrow> nat"
  nw_single :: "nb_type \<Rightarrow> net_buf option"

text \<open>The message numbers of the protocol.\<close>

abbreviation MSG_CHOKE :: byte where "MSG_CHOKE \<equiv> 0"
abbreviation MSG_UNCHOKE :: byte where "MSG_UNCHOKE \<equiv> 1"
abbreviation MSG_INTEREST :: byte where "MSG_INTEREST \<equiv> 2"
abbreviation MSG_UNINTEREST :: byte where "MSG_UNINTEREST \<equiv> 3"
abbreviation MSG_HAVE :: byte where "MSG_HAVE \<equiv> 4"
abbreviation MSG_BITFIELD :: byte where "MSG_BITFIELD \<equiv> 5"
abbreviation MSG_REQUEST :: byte where "MSG_REQUEST \<equiv> 6"
abbreviation MSG_PIECE :: byte where "MSG_PIECE \<equiv> 7"
abbreviation MSG_CANCEL :: byte where "MSG_CANCEL \<equiv> 8"

section \<open>Creation\<close>

definition nb_hold :: "net_buf \<Rightarrow> 'a nb_world_scheme \<Rightarrow> 'a nb_world_scheme" where
  "nb_hold nb w = w\<lparr>nw_refs := (nw_refs w)(nb_addr nb := nw_refs w (nb_addr nb) + 1)\<rparr>"

text \<open>The result tells whether the object was freed.\<close>

definition nb_drop :: "net_buf \<Rightarrow> 'a nb_world_scheme \<Rightarrow> (bool \<times> 'a nb_world_scheme) option" where
  "nb_drop nb w =
     do {
       guard_opt (nw_refs w (nb_addr nb) > 0);
       let r = nw_refs w (nb_addr nb) - 1;
       let w1 = w\<lparr>nw_refs := (nw_refs w)(nb_addr nb := r)\<rparr>;
       if r = 0 then do { guard_opt (nb_kill nb \<noteq> Kill_Abort); Some (True, w1) } else Some (False, w1) }"

definition nb_create_alloc :: "nb_type \<Rightarrow> byte list \<Rightarrow> 'a nb_world_scheme \<Rightarrow> net_buf \<times> 'a nb_world_scheme" where
  "nb_create_alloc type bs w =
     (\<lparr>nb_addr = nw_fresh w, nb_type = type, nb_buf = Own_Buf bs, nb_len = length bs, nb_kill = Kill_No\<rparr>,
      w\<lparr>nw_fresh := nw_fresh w + 1, nw_refs := (nw_refs w)(nw_fresh w := 0)\<rparr>)"

definition nb_create_set :: "nb_type \<Rightarrow> nb_mem \<Rightarrow> nat \<Rightarrow> kill_buf \<Rightarrow> 'a nb_world_scheme \<Rightarrow> net_buf \<times> 'a nb_world_scheme" where
  "nb_create_set type buf len kill w =
     (\<lparr>nb_addr = nw_fresh w, nb_type = type, nb_buf = buf, nb_len = len, nb_kill = kill\<rparr>,
      w\<lparr>nw_fresh := nw_fresh w + 1, nw_refs := (nw_refs w)(nw_fresh w := 0)\<rparr>)"

definition nb_create_onesized :: "byte \<Rightarrow> nb_type \<Rightarrow> 'a nb_world_scheme \<Rightarrow> net_buf \<times> 'a nb_world_scheme" where
  "nb_create_onesized mtype btype w = nb_create_alloc btype (enc_be32 1 @ [mtype]) w"

definition nb_singleton :: "net_buf \<times> 'a nb_world_scheme \<Rightarrow> net_buf \<times> 'a nb_world_scheme" where
  "nb_singleton r = (case r of (nb, w) \<Rightarrow> (nb\<lparr>nb_kill := Kill_Abort\<rparr>, nb_hold nb w))"

text \<open>A message that exists once is created when it is first needed.\<close>

definition nb_once :: "nb_type \<Rightarrow> net_buf \<times> 'a nb_world_scheme \<Rightarrow> 'a nb_world_scheme \<Rightarrow> net_buf \<times> 'a nb_world_scheme" where
  "nb_once type new w =
     (case nw_single w type of
        Some nb \<Rightarrow> (nb, w)
      | None \<Rightarrow> (case nb_singleton new of (nb, w1) \<Rightarrow> (nb, w1\<lparr>nw_single := (nw_single w1)(type \<mapsto> nb)\<rparr>)))"

definition nb_create_keepalive :: "'a nb_world_scheme \<Rightarrow> net_buf \<times> 'a nb_world_scheme" where
  "nb_create_keepalive w = nb_once NB_KEEPALIVE (nb_create_alloc NB_KEEPALIVE (enc_be32 0) w) w"

definition nb_create_unchoke :: "'a nb_world_scheme \<Rightarrow> net_buf \<times> 'a nb_world_scheme" where
  "nb_create_unchoke w = nb_once NB_UNCHOKE (nb_create_onesized MSG_UNCHOKE NB_UNCHOKE w) w"

definition nb_create_choke :: "'a nb_world_scheme \<Rightarrow> net_buf \<times> 'a nb_world_scheme" where
  "nb_create_choke w = nb_once NB_CHOKE (nb_create_onesized MSG_CHOKE NB_CHOKE w) w"

definition nb_create_uninterest :: "'a nb_world_scheme \<Rightarrow> net_buf \<times> 'a nb_world_scheme" where
  "nb_create_uninterest w = nb_once NB_UNINTEREST (nb_create_onesized MSG_UNINTEREST NB_UNINTEREST w) w"

definition nb_create_interest :: "'a nb_world_scheme \<Rightarrow> net_buf \<times> 'a nb_world_scheme" where
  "nb_create_interest w = nb_once NB_INTEREST (nb_create_onesized MSG_INTEREST NB_INTEREST w) w"

definition nb_create_piece :: "u32 \<Rightarrow> u32 \<Rightarrow> u32 \<Rightarrow> 'a nb_world_scheme \<Rightarrow> net_buf \<times> 'a nb_world_scheme" where
  "nb_create_piece index begin' blen w =
     nb_create_alloc NB_PIECE (enc_be32 (9 + blen) @ [MSG_PIECE] @ enc_be32 index @ enc_be32 begin') w"

definition nb_create_torrentdata :: "'a nb_world_scheme \<Rightarrow> net_buf \<times> 'a nb_world_scheme" where
  "nb_create_torrentdata w = nb_create_set NB_TORRENTDATA Null_Buf 0 Kill_No w"

definition nb_create_request :: "u32 \<Rightarrow> u32 \<Rightarrow> u32 \<Rightarrow> 'a nb_world_scheme \<Rightarrow> net_buf \<times> 'a nb_world_scheme" where
  "nb_create_request index begin' len w =
     nb_create_alloc NB_REQUEST (enc_be32 13 @ [MSG_REQUEST] @ enc_be32 index @ enc_be32 begin' @ enc_be32 len) w"

definition nb_create_cancel :: "u32 \<Rightarrow> u32 \<Rightarrow> u32 \<Rightarrow> 'a nb_world_scheme \<Rightarrow> net_buf \<times> 'a nb_world_scheme" where
  "nb_create_cancel index begin' len w =
     nb_create_alloc NB_CANCEL (enc_be32 13 @ [MSG_CANCEL] @ enc_be32 index @ enc_be32 begin' @ enc_be32 len) w"

definition nb_create_have :: "u32 \<Rightarrow> 'a nb_world_scheme \<Rightarrow> net_buf \<times> 'a nb_world_scheme" where
  "nb_create_have index w = nb_create_alloc NB_HAVE (enc_be32 5 @ [MSG_HAVE] @ enc_be32 index) w"

text \<open>
  A \<^verbatim>\<open>have\<close> for each of the \<open>todo\<close> pieces still to be found from index \<open>i\<close> on; \<open>None\<close> if the
  field ends before.
\<close>

function multihave_from :: "byte list \<Rightarrow> nat \<Rightarrow> nat \<Rightarrow> byte list option" where
  "multihave_from field i todo =
     (if todo = 0 then Some []
      else if \<not> in_field field i then None
      else if has_bit field i
      then do { r \<leftarrow> multihave_from field (i + 1) (todo - 1);
                Some (enc_be32 5 @ [MSG_HAVE] @ enc_be32 (of_nat i) @ r) }
      else multihave_from field (i + 1) todo)"
  by pat_completeness auto
termination
  by (relation "measure (\<lambda>(field, i, todo). 8 * length field - i)") (auto simp: in_field_def)

declare multihave_from.simps [simp del]

definition nb_create_multihave :: "torrent \<Rightarrow> 'a nb_world_scheme \<Rightarrow> (net_buf \<times> 'a nb_world_scheme) option" where
  "nb_create_multihave tp w =
     do { bs \<leftarrow> multihave_from (cm_get_piece_field tp) 0 (cm_pieces tp); Some (nb_create_alloc NB_MULTIHAVE bs w) }"

definition nb_create_bitfield :: "torrent \<Rightarrow> 'a nb_world_scheme \<Rightarrow> net_buf \<times> 'a nb_world_scheme" where
  "nb_create_bitfield tp w =
     (let plen = field_len (tp_npieces tp) in
      nb_create_alloc NB_BITFIELD (enc_be32 (of_nat plen + 1) @ [MSG_BITFIELD]) w)"

definition nb_create_bitdata :: "tid \<Rightarrow> torrent \<Rightarrow> 'a nb_world_scheme \<Rightarrow> net_buf \<times> 'a nb_world_scheme" where
  "nb_create_bitdata t tp w =
     (let plen = field_len (tp_npieces tp) in nb_create_set NB_BITDATA (Piece_Field t) plen Kill_No w)"

text \<open>The handshake header: a length byte, the protocol name and eight zero bytes.\<close>

definition pstr :: "byte list" where
  "pstr = 0x13 # map of_char ''BitTorrent protocol''"

definition nb_create_shake :: "byte list \<Rightarrow> torrent \<Rightarrow> 'a nb_world_scheme \<Rightarrow> net_buf \<times> 'a nb_world_scheme" where
  "nb_create_shake peer_id tp w = nb_create_alloc NB_SHAKE (pstr @ replicate 8 0 @ tp_hash tp @ peer_id) w"

text \<open>The data of a message that announces a block is read when the message is about to be written.\<close>

definition nb_torrentdata_fill :: "net_buf \<Rightarrow> tid \<Rightarrow> u32 \<Rightarrow> u32 \<Rightarrow> u32 \<Rightarrow> 'a nb_world_scheme \<Rightarrow>
    ((errno + net_buf) \<times> 'a nb_world_scheme) option" where
  "nb_torrentdata_fill nb t index begin' len w =
     do {
       guard_opt (nb_type nb = NB_TORRENTDATA \<and> nb_buf nb = Null_Buf);
       (r, w1) \<leftarrow> cm_get_bytes t (unat index) (unat begin') (unat len) w;
       case r of
         Inl err \<Rightarrow> Some (Inl err, w1)
       | Inr content \<Rightarrow> Some (Inr (nb\<lparr>nb_buf := Own_Buf content, nb_len := unat len, nb_kill := Kill_Free\<rparr>), w1) }"

section \<open>Access\<close>

text \<open>The \<open>n\<close>th byte on of the buffer of a message that has its own.\<close>

definition nb_bytes_from :: "net_buf \<Rightarrow> nat \<Rightarrow> byte list" where
  "nb_bytes_from nb n = (case nb_buf nb of Own_Buf bs \<Rightarrow> drop n bs | _ \<Rightarrow> [])"

definition nb_get_index :: "net_buf \<Rightarrow> u32 option" where
  "nb_get_index nb =
     (if nb_type nb \<in> {NB_CANCEL, NB_HAVE, NB_PIECE, NB_REQUEST} then dec_be32 (nb_bytes_from nb 5) else None)"

definition nb_get_begin :: "net_buf \<Rightarrow> u32 option" where
  "nb_get_begin nb =
     (if nb_type nb \<in> {NB_CANCEL, NB_PIECE, NB_REQUEST} then dec_be32 (nb_bytes_from nb 9) else None)"

definition nb_get_length :: "net_buf \<Rightarrow> u32 option" where
  "nb_get_length nb =
     (if nb_type nb \<in> {NB_CANCEL, NB_REQUEST} then dec_be32 (nb_bytes_from nb 13)
      else if nb_type nb = NB_PIECE then do { n \<leftarrow> dec_be32 (nb_bytes_from nb 0); Some (n - 9) }
      else None)"

section \<open>What a message says\<close>

lemma dec_enc_nil [simp]: "dec_be32 (enc_be32 n) = Some n"
  using dec_enc_be32 [of n "[]"] by simp

lemma drop_enc [simp]: "n \<ge> 4 \<Longrightarrow> drop n (enc_be32 x @ r) = drop (n - 4) r"
  by simp

lemma nb_piece_fields:
  "nb_get_index (fst (nb_create_piece i b l w)) = Some i" "nb_get_begin (fst (nb_create_piece i b l w)) = Some b"
  "nb_get_length (fst (nb_create_piece i b l w)) = Some l"
  by (simp_all add: nb_create_piece_def nb_create_alloc_def nb_get_index_def nb_get_begin_def nb_get_length_def nb_bytes_from_def)

text \<open>C18. A message carries what it was created for: the accessors give back the index, the
  begin and the length, whatever they are, and abort on a message that has none. The length of a
  block message comes back from the length field of the message, through the wrap of both additions.\<close>

theorem nb_get_create_roundtrip:
  "(let nb = fst (nb_create_request i b l w) in
      nb_get_index nb = Some i \<and> nb_get_begin nb = Some b \<and> nb_get_length nb = Some l) \<and>
   (let nb = fst (nb_create_cancel i b l w) in
      nb_get_index nb = Some i \<and> nb_get_begin nb = Some b \<and> nb_get_length nb = Some l) \<and>
   (let nb = fst (nb_create_piece i b l w) in
      nb_get_index nb = Some i \<and> nb_get_begin nb = Some b \<and> nb_get_length nb = Some l) \<and>
   (let nb = fst (nb_create_have i w) in
      nb_get_index nb = Some i \<and> nb_get_begin nb = None \<and> nb_get_length nb = None)"
  by (simp add: nb_create_request_def nb_create_cancel_def nb_create_piece_def nb_create_have_def
      nb_create_alloc_def nb_get_index_def nb_get_begin_def nb_get_length_def nb_bytes_from_def Let_def)

definition have_msg :: "nat \<Rightarrow> byte list" where
  "have_msg i = enc_be32 5 @ [MSG_HAVE] @ enc_be32 (of_nat i)"

lemma multihave_from_spec:
  "n \<le> 8 * length f \<Longrightarrow> multihave_from f i (length (filter (has_bit f) [i ..< n])) =
     Some (concat (map have_msg (filter (has_bit f) [i ..< n])))"
proof (induction "n - i" arbitrary: i)
  case 0
  then show ?case by (simp add: multihave_from.simps)
next
  case (Suc k)
  then have i: "i < n" "in_field f i" by (auto simp: in_field_def)
  then have u: "[i ..< n] = i # [Suc i ..< n]" by (simp add: upt_conv_Cons)
  have ih: "multihave_from f (Suc i) (length (filter (has_bit f) [Suc i ..< n])) =
     Some (concat (map have_msg (filter (has_bit f) [Suc i ..< n])))"
    by (rule Suc.hyps) (use Suc in simp_all)
  show ?case
  proof (cases "has_bit f i")
    case True
    with ih i show ?thesis unfolding u
      by (subst multihave_from.simps) (simp add: have_msg_def)
  next
    case False
    show ?thesis
    proof (cases "filter (has_bit f) [Suc i ..< n]")
      case Nil
      with False show ?thesis unfolding u by (simp add: multihave_from.simps)
    next
      case (Cons x xs)
      with False ih i show ?thesis unfolding u by (subst multihave_from.simps) simp
    qed
  qed
qed

lemma count_filter: "bf.count f n = length (filter (has_bit f) [0 ..< n])"
proof -
  have "bf.members f n = set (filter (has_bit f) [0 ..< n])" by (auto simp: bf.members_def)
  then show ?thesis by (simp add: bf.count_def distinct_card del: set_filter)
qed

text \<open>C19. The announcement of many pieces is the sequence of the \<^verbatim>\<open>have\<close> messages of exactly the
  pieces that are on disk, in order; its creation ends because the counter of the content is right.\<close>

theorem multihave_announces_pieces:
  assumes "content_ok t w" "cw_tor w t = Some tp"
  shows "\<exists>nb w'. nb_create_multihave tp w = Some (nb, w') \<and>
    nb_buf nb = Own_Buf (concat (map have_msg (filter (cm_has_piece tp) [0 ..< tp_npieces tp])))"
proof -
  from assms have c: "cm_pieces tp = length (filter (has_bit (cm_get_piece_field tp)) [0 ..< tp_npieces tp])"
    "tp_npieces tp \<le> 8 * length (cm_get_piece_field tp)"
    by (simp_all add: content_ok_def cm_counted_def cm_pieces_def cm_get_piece_field_def count_filter cm_wf_def
        field_len_def)
  have h: "has_bit (cm_get_piece_field tp) = cm_has_piece tp"
    by (simp add: fun_eq_iff cm_has_piece_def cm_get_piece_field_def)
  from multihave_from_spec [OF c(2), of 0] c(1) show ?thesis
    by (simp add: nb_create_multihave_def nb_create_alloc_def h)
qed

definition sample_nbw :: nb_world where
  "sample_nbw = \<lparr>cw_env = sample_env, cw_disk = sample_disk, cw_exists = (\<lambda>_. True),
     cw_tor = [0 \<mapsto> sample_torrent], cw_startq = [], cw_workev = False,
     nw_fresh = 0, nw_refs = (\<lambda>_. 0), nw_single = (\<lambda>_. None)\<rparr>"

theorem multihave_announces_pieces_witness:
  "\<exists>nb w'. nb_create_multihave sample_torrent sample_nbw = Some (nb, w') \<and>
    nb_buf nb = Own_Buf (concat (map have_msg (filter (cm_has_piece sample_torrent) [0 ..< 2])))"
proof -
  have "cw_tor sample_nbw 0 = Some sample_torrent" by (simp add: sample_nbw_def)
  with multihave_announces_pieces [of 0 sample_nbw sample_torrent] sample_content_ok
  show ?thesis by (simp add: content_ok_def)
qed

end
