(* ===== verification/NetTypes.thy ===== *)
theory NetTypes
  imports NetBuf Hashtable
begin

text \<open>
  \<^verbatim>\<open>btpd/net_types.h\<close> and the state of the network side of the daemon. A peer, its meta peer and
  a torrent are known by numbers, and queues of peers are lists of their numbers. A peer and its meta peer are
  created together and \<^verbatim>\<open>p->mp\<close> never changes, so both have the same number; a torrent and its
  \<^verbatim>\<open>struct net\<close> point to each other and have the same number too. A number that maps to \<open>None\<close> is a
  freed object. The pieces that are downloaded are kept by index, \<^verbatim>\<open>getlst\<close> is the list of
  their indices.
\<close>

section \<open>Records\<close>

type_synonym pid = nat

datatype pflag = PF_I_WANT | PF_I_CHOKE | PF_P_WANT | PF_P_CHOKE | PF_ON_READQ | PF_ON_WRITEQ | PF_ATTACHED
  | PF_NO_REQUESTS | PF_INCOMING | PF_DO_UNWANT | PF_SUSPECT | PF_BANNED

datatype ev = EV_READ | EV_WRITE

datatype input_state = SHAKE_PSTR | SHAKE_INFO | SHAKE_ID | BTP_MSGSIZE | BTP_MSGHEAD | BTP_PIECEMETA | BTP_MSGBODY

text \<open>
  The parser state of a connection. The bytes received of an incomplete unit, \<^verbatim>\<open>in.buf\<close> and \<^verbatim>\<open>in.off\<close>, are
  seen by the reading functions only and are kept beside the state, see the theory Net.
\<close>

record input =
  in_msg_len :: u32
  in_msg_num :: byte
  in_pc_index :: u32
  in_pc_begin :: u32
  in_state :: input_state
  in_st_bytes :: nat

record block_request =
  br_addr :: nat
  br_p :: pid
  br_msg :: net_buf

record peer =
  p_piece_field :: "byte list"
  p_bad_field :: "byte list option"
  p_npieces :: nat
  p_nwant :: nat
  p_npcs_bad :: nat
  p_suspicion :: nat
  p_n :: "tid option"
  p_my_reqs :: "block_request list"
  p_nreqs_out :: nat
  p_npiece_msgs :: nat
  p_outq_off :: nat
  p_outq :: "net_buf list"
  p_ev :: "ev set"
  p_rate_up :: nat
  p_rate_dwn :: nat
  p_count_up :: nat
  p_count_dwn :: nat
  p_t_created :: int
  p_t_lastwrite :: int
  p_t_wantwrite :: int
  p_t_nointerest :: int
  p_in :: input

text \<open>\<open>mp_live\<close>: \<^verbatim>\<open>mp->p\<close> points to the peer.\<close>

record meta_peer =
  mp_live :: bool
  mp_flags :: "pflag set"
  mp_refs :: nat
  mp_id :: "byte list"

record blog_record =
  blr_mp :: pid
  blr_down_field :: "byte list"

record blog =
  bl_records :: "blog_record list"
  bl_hashes :: "byte list list option"

record piece =
  pc_nreqs :: nat
  pc_nblocks :: nat
  pc_ngot :: nat
  pc_nbusy :: nat
  pc_next_block :: nat
  pc_eg_reqs :: "net_buf option list option"
  pc_reqs :: "block_request list"
  pc_logs :: "blog list"
  pc_down_field :: "byte list"

record net =
  n_active :: bool
  n_endgame :: bool
  n_busy_field :: "byte list"
  n_npcs_busy :: nat
  n_piece_count :: "nat list"
  n_getlst :: "nat list"
  n_piece :: "nat \<Rightarrow> piece option"
  n_rate_up :: nat
  n_rate_dwn :: nat
  n_uploaded :: nat
  n_downloaded :: nat
  n_npeers :: nat
  n_peers :: "pid list"
  n_mptbl :: "(byte list, byte list \<times> pid) htbl"

text \<open>
  The globals of \<^verbatim>\<open>net.c\<close>, \<^verbatim>\<open>upload.c\<close>, the options, the clock and the values \<^verbatim>\<open>random()\<close> will give.
  \<open>w_torrents\<close> is the queue \<^verbatim>\<open>torrent_get_all()\<close>.
\<close>

record world = nb_world +
  w_seconds :: int
  w_peer :: "pid \<Rightarrow> peer option"
  w_mp :: "pid \<Rightarrow> meta_peer option"
  w_next_pid :: pid
  w_net :: "tid \<Rightarrow> net option"
  w_torrents :: "tid list"
  w_unattached :: "pid list"
  w_readq :: "pid list"
  w_writeq :: "pid list"
  w_npeers :: nat
  w_peer_id :: "byte list"
  w_peerq :: "pid list"
  w_ul_npeers :: nat
  w_max_uploads :: int
  w_cb_count :: nat
  w_choke_timer :: bool
  w_opt_max_uploads :: int
  w_opt_max_peers :: nat
  w_limit_in :: nat
  w_limit_out :: nat
  w_bw_in :: nat
  w_bw_out :: nat
  w_rate_up :: nat
  w_rate_dwn :: nat
  w_random :: "nat \<Rightarrow> nat"
  w_random_no :: nat

section \<open>Access\<close>

definition upd_peer :: "pid \<Rightarrow> (peer \<Rightarrow> peer) \<Rightarrow> world \<Rightarrow> world" where
  "upd_peer p f w = w\<lparr>w_peer := (w_peer w)(p := map_option f (w_peer w p))\<rparr>"

definition upd_mp :: "pid \<Rightarrow> (meta_peer \<Rightarrow> meta_peer) \<Rightarrow> world \<Rightarrow> world" where
  "upd_mp p f w = w\<lparr>w_mp := (w_mp w)(p := map_option f (w_mp w p))\<rparr>"

definition upd_net :: "tid \<Rightarrow> (net \<Rightarrow> net) \<Rightarrow> world \<Rightarrow> world" where
  "upd_net t f w = w\<lparr>w_net := (w_net w)(t := map_option f (w_net w t))\<rparr>"

definition upd_piece :: "tid \<Rightarrow> nat \<Rightarrow> (piece \<Rightarrow> piece) \<Rightarrow> world \<Rightarrow> world" where
  "upd_piece t i f w = upd_net t (\<lambda>n. n\<lparr>n_piece := (n_piece n)(i := map_option f (n_piece n i))\<rparr>) w"

definition get_piece :: "tid \<Rightarrow> nat \<Rightarrow> world \<Rightarrow> piece option" where
  "get_piece t i w = do { n \<leftarrow> w_net w t; n_piece n i }"

text \<open>\<^verbatim>\<open>p->mp->flags\<close>.\<close>

definition pf :: "world \<Rightarrow> pid \<Rightarrow> pflag set" where
  "pf w p = (case w_mp w p of Some m \<Rightarrow> mp_flags m | None \<Rightarrow> {})"

definition set_flag :: "pflag \<Rightarrow> pid \<Rightarrow> world \<Rightarrow> world" where
  "set_flag F p w = upd_mp p (\<lambda>m. m\<lparr>mp_flags := insert F (mp_flags m)\<rparr>) w"

definition clr_flag :: "pflag \<Rightarrow> pid \<Rightarrow> world \<Rightarrow> world" where
  "clr_flag F p w = upd_mp p (\<lambda>m. m\<lparr>mp_flags := mp_flags m - {F}\<rparr>) w"

text \<open>\<^verbatim>\<open>p->n\<close> where it is dereferenced.\<close>

definition peer_net :: "world \<Rightarrow> pid \<Rightarrow> tid option" where
  "peer_net w p = do { x \<leftarrow> w_peer w p; p_n x }"

definition peer_tp :: "world \<Rightarrow> pid \<Rightarrow> torrent option" where
  "peer_tp w p = do { t \<leftarrow> peer_net w p; cw_tor w t }"

definition ev_enable :: "ev \<Rightarrow> pid \<Rightarrow> world \<Rightarrow> world" where
  "ev_enable e p w = upd_peer p (\<lambda>x. x\<lparr>p_ev := insert e (p_ev x)\<rparr>) w"

definition ev_disable :: "ev \<Rightarrow> pid \<Rightarrow> world \<Rightarrow> world" where
  "ev_disable e p w = upd_peer p (\<lambda>x. x\<lparr>p_ev := p_ev x - {e}\<rparr>) w"

text \<open>A loop over a queue that is not changed while it runs: \<^verbatim>\<open>BTPDQ_FOREACH\<close>.\<close>

fun foreach :: "'b list \<Rightarrow> ('b \<Rightarrow> 'w \<Rightarrow> 'w option) \<Rightarrow> 'w \<Rightarrow> 'w option" where
  "foreach [] f w = Some w"
| "foreach (x # xs) f w = do { w1 \<leftarrow> f x w; foreach xs f w1 }"

lemma foreach_inv:
  assumes "foreach xs f w = Some w'" "I w" "\<And>x v v'. x \<in> set xs \<Longrightarrow> I v \<Longrightarrow> f x v = Some v' \<Longrightarrow> I v'"
  shows "I w'"
  using assms by (induction xs arbitrary: w) (auto simp: bind_Some_iff)

lemma foreach_append: "foreach (xs @ ys) f w = foreach xs f w \<bind> foreach ys f"
proof (induction xs arbitrary: w)
  case (Cons x xs)
  then show ?case by (cases "f x w") simp_all
qed simp

text \<open>
  \<^verbatim>\<open>rand_between\<close>: the next value of \<^verbatim>\<open>random()\<close>, which is at most \<^verbatim>\<open>RAND_MAX\<close>, scaled and rounded to the nearest
  integer of the range.
\<close>

definition RAND_MAX :: int where
  "RAND_MAX = 2147483647"

definition rand_between :: "int \<Rightarrow> int \<Rightarrow> world \<Rightarrow> int \<times> world" where
  "rand_between lo hi w =
     (lo + (2 * int (w_random w (w_random_no w)) * (hi - lo) + RAND_MAX) div (2 * RAND_MAX),
      w\<lparr>w_random_no := w_random_no w + 1\<rparr>)"

lemma rand_between_range:
  assumes "lo \<le> hi" "int (w_random w (w_random_no w)) \<le> RAND_MAX"
  shows "lo \<le> fst (rand_between lo hi w) \<and> fst (rand_between lo hi w) \<le> hi"
proof -
  let ?r = "int (w_random w (w_random_no w))"
  have m: "?r * (hi - lo) \<le> RAND_MAX * (hi - lo)" "0 \<le> ?r * (hi - lo)"
    using assms mult_right_mono [of ?r RAND_MAX "hi - lo"] by simp_all
  have "0 \<le> (2 * ?r * (hi - lo) + RAND_MAX) div (2 * RAND_MAX)"
    by (rule pos_imp_zdiv_nonneg_iff [THEN iffD2]) (use m in \<open>simp_all add: RAND_MAX_def\<close>)
  moreover have "(2 * ?r * (hi - lo) + RAND_MAX) div (2 * RAND_MAX) < hi - lo + 1"
    using m by (simp add: RAND_MAX_def)
  ultimately show ?thesis by (simp add: rand_between_def)
qed

section \<open>Frames\<close>

lemma w_peer_upd [simp]:
  "w_peer (upd_peer p f w) q = (if q = p then map_option f (w_peer w p) else w_peer w q)"
  "w_peer (upd_mp p g w) = w_peer w" "w_peer (upd_net t h w) = w_peer w" "w_peer (upd_cm t k w) = w_peer w"
  "w_peer (set_flag F p w) = w_peer w" "w_peer (clr_flag F p w) = w_peer w" "w_peer (nb_hold nb w) = w_peer w"
  by (simp_all add: upd_peer_def upd_mp_def upd_net_def upd_cm_def set_flag_def clr_flag_def nb_hold_def)

lemma w_mp_upd [simp]:
  "w_mp (upd_mp p g w) q = (if q = p then map_option g (w_mp w p) else w_mp w q)"
  "w_mp (upd_peer p f w) = w_mp w" "w_mp (upd_net t h w) = w_mp w" "w_mp (upd_cm t k w) = w_mp w"
  "w_mp (nb_hold nb w) = w_mp w"
  by (simp_all add: upd_peer_def upd_mp_def upd_net_def upd_cm_def nb_hold_def)

lemma w_net_upd [simp]:
  "w_net (upd_net t h w) u = (if u = t then map_option h (w_net w t) else w_net w u)"
  "w_net (upd_peer p f w) = w_net w" "w_net (upd_mp p g w) = w_net w" "w_net (upd_cm t k w) = w_net w"
  "w_net (set_flag F p w) = w_net w" "w_net (clr_flag F p w) = w_net w" "w_net (nb_hold nb w) = w_net w"
  by (simp_all add: upd_peer_def upd_mp_def upd_net_def upd_cm_def set_flag_def clr_flag_def nb_hold_def)

lemma nw_refs_upd [simp]:
  "nw_refs (upd_peer p f w) = nw_refs w" "nw_refs (upd_mp p g w) = nw_refs w" "nw_refs (upd_net t h w) = nw_refs w"
  "nw_refs (set_flag F p w) = nw_refs w" "nw_refs (clr_flag F p w) = nw_refs w"
  "nw_refs (nb_hold nb w) = (nw_refs w)(nb_addr nb := nw_refs w (nb_addr nb) + 1)"
  by (simp_all add: upd_peer_def upd_mp_def upd_net_def set_flag_def clr_flag_def nb_hold_def)

lemma upd_globals [simp]:
  "w_writeq (upd_peer p f w) = w_writeq w" "w_writeq (upd_mp p g w) = w_writeq w" "w_writeq (upd_net t h w) = w_writeq w"
  "w_writeq (nb_hold nb w) = w_writeq w" "w_writeq (set_flag F p w) = w_writeq w" "w_writeq (clr_flag F p w) = w_writeq w"
  "w_seconds (upd_peer p f w) = w_seconds w" "w_seconds (upd_mp p g w) = w_seconds w" "w_seconds (upd_net t h w) = w_seconds w"
  "w_seconds (nb_hold nb w) = w_seconds w" "w_seconds (set_flag F p w) = w_seconds w" "w_seconds (clr_flag F p w) = w_seconds w"
  "cw_tor (upd_peer p f w) = cw_tor w" "cw_tor (upd_mp p g w) = cw_tor w" "cw_tor (upd_net t h w) = cw_tor w"
  "cw_tor (nb_hold nb w) = cw_tor w" "cw_tor (set_flag F p w) = cw_tor w" "cw_tor (clr_flag F p w) = cw_tor w"
  "w_peerq (upd_peer p f w) = w_peerq w" "w_peerq (upd_mp p g w) = w_peerq w" "w_peerq (upd_net t h w) = w_peerq w"
  "w_peerq (nb_hold nb w) = w_peerq w" "w_peerq (set_flag F p w) = w_peerq w" "w_peerq (clr_flag F p w) = w_peerq w"
  "nw_single (upd_peer p f w) = nw_single w" "nw_single (upd_mp p g w) = nw_single w" "nw_single (upd_net t h w) = nw_single w"
  "nw_single (nb_hold nb w) = nw_single w" "nw_single (set_flag F p w) = nw_single w" "nw_single (clr_flag F p w) = nw_single w"
  "nw_fresh (upd_peer p f w) = nw_fresh w" "nw_fresh (upd_mp p g w) = nw_fresh w" "nw_fresh (upd_net t h w) = nw_fresh w"
  "nw_fresh (nb_hold nb w) = nw_fresh w" "nw_fresh (set_flag F p w) = nw_fresh w" "nw_fresh (clr_flag F p w) = nw_fresh w"
  "w_ul_npeers (upd_peer p f w) = w_ul_npeers w" "w_ul_npeers (upd_mp p g w) = w_ul_npeers w" "w_ul_npeers (upd_net t h w) = w_ul_npeers w"
  "w_ul_npeers (nb_hold nb w) = w_ul_npeers w" "w_ul_npeers (set_flag F p w) = w_ul_npeers w" "w_ul_npeers (clr_flag F p w) = w_ul_npeers w"
  by (simp_all add: upd_peer_def upd_mp_def upd_net_def nb_hold_def set_flag_def clr_flag_def)

lemma pf_upd [simp]:
  "pf (upd_peer p f w) = pf w" "pf (upd_net t h w) = pf w" "pf (nb_hold nb w) = pf w" "pf (upd_cm t k w) = pf w"
  "w_mp w p \<noteq> None \<Longrightarrow> pf (set_flag F p w) q = (if q = p then insert F (pf w p) else pf w q)"
  "pf (clr_flag F p w) q = (if q = p then pf w p - {F} else pf w q)"
  by (auto simp: pf_def fun_eq_iff set_flag_def clr_flag_def split: option.splits)

end
