(* ===== verification/Sample.thy ===== *)
theory Sample
  imports NetTypes
begin

text \<open>
  A small swarm, on which the properties of the network side are tried: torrent 0 of the theory Content with
  its two pieces, of which the daemon has the first, and peer 0, which is attached, interested,
  not choked, and has both pieces.
\<close>

text \<open>A daemon without connections.\<close>

definition sample_idle :: world where
  "sample_idle = nb_world.extend sample_nbw
     \<lparr>w_seconds = 100, w_peer = (\<lambda>_. None), w_mp = (\<lambda>_. None), w_next_pid = 0, w_net = (\<lambda>_. None),
      w_torrents = [0], w_unattached = [], w_readq = [], w_writeq = [], w_npeers = 0, w_peer_id = replicate 20 1,
      w_peerq = [], w_ul_npeers = 0, w_max_uploads = 2, w_cb_count = 0, w_choke_timer = True, w_opt_max_uploads = -2,
      w_opt_max_peers = 8, w_limit_in = 0, w_limit_out = 0, w_bw_in = 0, w_bw_out = 0, w_rate_up = 0, w_rate_dwn = 0,
      w_random = (\<lambda>_. 0), w_random_no = 0\<rparr>"

definition sample_peer :: peer where
  "sample_peer = \<lparr>p_piece_field = [0xC0], p_bad_field = None, p_npieces = 2, p_nwant = 1, p_npcs_bad = 0,
     p_suspicion = 0, p_n = Some 0, p_my_reqs = [], p_nreqs_out = 0, p_npiece_msgs = 0, p_outq_off = 0, p_outq = [],
     p_ev = {EV_READ}, p_rate_up = 0, p_rate_dwn = 0, p_count_up = 0, p_count_dwn = 0, p_t_created = 0,
     p_t_lastwrite = 0, p_t_wantwrite = 0, p_t_nointerest = 0,
     p_in = \<lparr>in_msg_len = 0, in_msg_num = 0, in_pc_index = 0, in_pc_begin = 0, in_state = BTP_MSGSIZE, in_st_bytes = 4\<rparr>\<rparr>"

definition sample_net :: net where
  "sample_net = \<lparr>n_active = True, n_endgame = False, n_busy_field = [0], n_npcs_busy = 0, n_piece_count = [1, 1],
     n_getlst = [], n_piece = (\<lambda>_. None), n_rate_up = 0, n_rate_dwn = 0, n_uploaded = 0, n_downloaded = 0,
     n_npeers = 1, n_peers = [0],
     n_mptbl = the (htbl_create True 3 (=) (\<lambda>_. 0) fst)\<rparr>"

definition sample_swarm :: world where
  "sample_swarm = sample_idle\<lparr>w_peer := [0 \<mapsto> sample_peer],
     w_mp := [0 \<mapsto> \<lparr>mp_live = True, mp_flags = {PF_I_WANT, PF_P_WANT, PF_ATTACHED}, mp_refs = 1, mp_id = replicate 20 2\<rparr>],
     w_next_pid := 1, w_net := [0 \<mapsto> sample_net], w_npeers := 1, w_peerq := [0], w_ul_npeers := 1\<rparr>"

lemma sample_swarm_simps [simp]:
  "w_peer sample_swarm = [0 \<mapsto> sample_peer]" "w_net sample_swarm = [0 \<mapsto> sample_net]"
  "pf sample_swarm 0 = {PF_I_WANT, PF_P_WANT, PF_ATTACHED}" "cw_tor sample_swarm = [0 \<mapsto> sample_torrent]"
  "w_peerq sample_swarm = [0]" "w_ul_npeers sample_swarm = 1" "w_max_uploads sample_swarm = 2"
  "w_seconds sample_swarm = 100" "w_random sample_swarm k = 0" "nw_fresh sample_swarm = 0" "nw_refs sample_swarm a = 0"
  "nw_single sample_swarm ty = None" "w_limit_in sample_swarm = 0" "w_limit_out sample_swarm = 0"
  "w_writeq sample_swarm = []" "\<exists>y. w_mp sample_swarm 0 = Some y"
  by (simp_all add: sample_swarm_def sample_idle_def nb_world.defs sample_nbw_def pf_def)

lemma sample_field_bits [simp]:
  "has_bit [0xC0] 0" "has_bit [0xC0] (Suc 0)" "has_bit [0x80] 0" "\<not> has_bit [0x80] (Suc 0)"
  "\<not> has_bit [0] 0" "\<not> has_bit [0] (Suc 0)"
  by code_simp+

lemma sample_peer_net [simp]:
  "peer_net sample_swarm 0 = Some 0" "peer_tp sample_swarm 0 = Some sample_torrent"
  by (simp_all add: peer_net_def peer_tp_def sample_peer_def)

end
