(* ===== verification/Peer.thy ===== *)
theory Peer
  imports NetTypes
begin

text \<open>
  The operations of \<^verbatim>\<open>btpd/peer.c\<close> that work on one peer: its queue of outgoing messages, its
  requests, what it is told about choking and interest, its suspicion. The handlers that also call the upload
  and download components are in the theory PeerOn. An \<^verbatim>\<open>nb_link\<close> is the position of its message in
  the queue; \<open>None\<close> is a failed assertion or an access to an object that is not there.
\<close>

definition MAXPIECEMSGS :: nat where "MAXPIECEMSGS = 128"

definition MAXPIPEDREQUESTS :: nat where "MAXPIPEDREQUESTS = 10"

section \<open>Meta peers\<close>

definition mp_hold :: "pid \<Rightarrow> world \<Rightarrow> world" where
  "mp_hold m w = upd_mp m (\<lambda>x. x\<lparr>mp_refs := mp_refs x + 1\<rparr>) w"

definition mp_kill :: "pid \<Rightarrow> world \<Rightarrow> world" where
  "mp_kill m w = w\<lparr>w_mp := (w_mp w)(m := None)\<rparr>"

definition mp_drop :: "pid \<Rightarrow> tid option \<Rightarrow> world \<Rightarrow> world option" where
  "mp_drop m n w =
     do {
       x \<leftarrow> w_mp w m;
       guard_opt (mp_refs x > 0);
       let w1 = upd_mp m (\<lambda>x. x\<lparr>mp_refs := mp_refs x - 1\<rparr>) w;
       if mp_refs x - 1 = 0
       then do {
         guard_opt (\<not> mp_live x);
         w2 \<leftarrow> (if PF_ATTACHED \<in> mp_flags x
                then do {
                  t \<leftarrow> n;
                  net \<leftarrow> w_net w1 t;
                  let (ob, tbl) = htbl_remove (n_mptbl net) (mp_id x);
                  guard_opt (map_option snd ob = Some m);
                  Some (upd_net t (\<lambda>n. n\<lparr>n_mptbl := tbl\<rparr>) w1) }
                else Some w1);
         Some (mp_kill m w2) }
       else Some w1 }"

section \<open>The queue of outgoing messages\<close>

definition peer_set_in_state :: "pid \<Rightarrow> input_state \<Rightarrow> nat \<Rightarrow> world \<Rightarrow> world" where
  "peer_set_in_state p st n w = upd_peer p (\<lambda>x. x\<lparr>p_in := (p_in x)\<lparr>in_state := st, in_st_bytes := n\<rparr>\<rparr>) w"

definition peer_send :: "pid \<Rightarrow> net_buf \<Rightarrow> world \<Rightarrow> world option" where
  "peer_send p nb w =
     do {
       x \<leftarrow> w_peer w p;
       let w1 = nb_hold nb w;
       w2 \<leftarrow> (if p_outq x = []
              then do {
                guard_opt (p_outq_off x = 0);
                Some (upd_peer p (\<lambda>x. x\<lparr>p_t_wantwrite := w_seconds w\<rparr>) (ev_enable EV_WRITE p w1)) }
              else Some w1);
       Some (upd_peer p (\<lambda>x. x\<lparr>p_outq := q_insert_tail (p_outq x) nb\<rparr>) w2) }"

text \<open>Sending a message that is created for the call.\<close>

definition peer_send_new :: "pid \<Rightarrow> net_buf \<times> world \<Rightarrow> world option" where
  "peer_send_new p r = (case r of (nb, w) \<Rightarrow> peer_send p nb w)"

definition remove_nth :: "nat \<Rightarrow> 'a list \<Rightarrow> 'a list" where
  "remove_nth i xs = take i xs @ drop (Suc i) xs"

text \<open>The \<open>i\<close>th message is taken back unless a part of it is written already; the result tells whether it was.\<close>

definition peer_unsend :: "pid \<Rightarrow> nat \<Rightarrow> world \<Rightarrow> (bool \<times> world) option" where
  "peer_unsend p i w =
     do {
       x \<leftarrow> w_peer w p;
       guard_opt (i < length (p_outq x));
       if \<not> (i = 0 \<and> p_outq_off x > 0)
       then do {
         let nb = p_outq x ! i;
         let w1 = upd_peer p (\<lambda>x. x\<lparr>p_outq := remove_nth i (p_outq x)\<rparr>) w;
         w2 \<leftarrow> (if nb_type nb = NB_TORRENTDATA
                then do { guard_opt (p_npiece_msgs x > 0);
                          Some (upd_peer p (\<lambda>x. x\<lparr>p_npiece_msgs := p_npiece_msgs x - 1\<rparr>) w1) }
                else Some w1);
         (freed, w3) \<leftarrow> nb_drop nb w2;
         Some (True,
           if remove_nth i (p_outq x) = []
           then if PF_ON_WRITEQ \<in> pf w3 p
                then clr_flag PF_ON_WRITEQ p (w3\<lparr>w_writeq := q_remove (w_writeq w3) p\<rparr>)
                else ev_disable EV_WRITE p w3
           else w3) }
       else Some (False, w) }"

definition peer_sent :: "pid \<Rightarrow> net_buf \<Rightarrow> world \<Rightarrow> world option" where
  "peer_sent p nb w =
     (case nb_type nb of
        NB_UNCHOKE \<Rightarrow> Some (clr_flag PF_NO_REQUESTS p w)
      | NB_TORRENTDATA \<Rightarrow> do {
          x \<leftarrow> w_peer w p;
          guard_opt (p_npiece_msgs x > 0);
          Some (upd_peer p (\<lambda>x. x\<lparr>p_npiece_msgs := p_npiece_msgs x - 1\<rparr>) w) }
      | _ \<Rightarrow> Some w)"

section \<open>Requests\<close>

definition peer_request :: "pid \<Rightarrow> block_request \<Rightarrow> world \<Rightarrow> world option" where
  "peer_request p req w =
     do {
       x \<leftarrow> w_peer w p;
       guard_opt (p_nreqs_out x < MAXPIPEDREQUESTS);
       peer_send p (br_msg req) (upd_peer p (\<lambda>x. x\<lparr>p_nreqs_out := p_nreqs_out x + 1,
          p_my_reqs := q_insert_tail (p_my_reqs x) req\<rparr>) w) }"

text \<open>The messages of the requests are request messages, so the accessors do not abort on them.\<close>

definition peer_requested :: "world \<Rightarrow> pid \<Rightarrow> nat \<Rightarrow> nat \<Rightarrow> bool" where
  "peer_requested w p piece block =
     (let begin' = of_nat block * of_nat PIECE_BLOCKLEN in
      case w_peer w p of
        None \<Rightarrow> False
      | Some x \<Rightarrow> list_ex (\<lambda>req. nb_get_index (br_msg req) = Some (of_nat piece) \<and>
                               nb_get_begin (br_msg req) = Some begin') (p_my_reqs x))"

definition peer_keepalive :: "pid \<Rightarrow> world \<Rightarrow> world option" where
  "peer_keepalive p w = peer_send_new p (nb_create_keepalive w)"

definition peer_on_no_reqs :: "pid \<Rightarrow> world \<Rightarrow> world option" where
  "peer_on_no_reqs p w =
     (if PF_DO_UNWANT \<in> pf w p
      then do {
        x \<leftarrow> w_peer w p;
        guard_opt (p_nwant x = 0);
        peer_send_new p (nb_create_uninterest (clr_flag PF_DO_UNWANT p w)) }
      else Some w)"

text \<open>The position of a message in a queue, by its address.\<close>

fun nb_index :: "net_buf list \<Rightarrow> nat \<Rightarrow> nat option" where
  "nb_index [] a = None"
| "nb_index (nb # q) a = (if nb_addr nb = a then Some 0 else map_option Suc (nb_index q a))"

definition remove_req :: "block_request \<Rightarrow> block_request list \<Rightarrow> block_request list" where
  "remove_req req q = q_remove q req"

text \<open>Only a request that is queued can be unlinked, and then the unsigned counter is not 0.\<close>

definition peer_cancel :: "pid \<Rightarrow> block_request \<Rightarrow> net_buf \<Rightarrow> world \<Rightarrow> world option" where
  "peer_cancel p req nb w =
     do {
       x \<leftarrow> w_peer w p;
       guard_opt (req \<in> set (p_my_reqs x) \<and> p_nreqs_out x > 0);
       let w1 = upd_peer p (\<lambda>x. x\<lparr>p_my_reqs := remove_req req (p_my_reqs x), p_nreqs_out := p_nreqs_out x - 1\<rparr>) w;
       (removed, w2) \<leftarrow> (case nb_index (p_outq x) (nb_addr (br_msg req)) of
                            None \<Rightarrow> Some (False, w1)
                          | Some i \<Rightarrow> peer_unsend p i w1);
       w3 \<leftarrow> (if \<not> removed then peer_send p nb w2 else Some w2);
       if p_nreqs_out x - 1 = 0 then peer_on_no_reqs p w3 else Some w3 }"

section \<open>Choking\<close>

definition peer_unchoke :: "pid \<Rightarrow> world \<Rightarrow> world option" where
  "peer_unchoke p w = peer_send_new p (nb_create_unchoke (clr_flag PF_I_CHOKE p w))"

text \<open>
  The loop over the queue, at position \<open>i\<close>: a block message and the data message behind it are
  taken back together. Every round removes a message or moves on, so as many rounds as there are messages do.
\<close>

fun choke_loop :: "nat \<Rightarrow> pid \<Rightarrow> nat \<Rightarrow> world \<Rightarrow> world option" where
  "choke_loop 0 p i w = Some w"
| "choke_loop (Suc n) p i w =
     do {
       x \<leftarrow> w_peer w p;
       if i < length (p_outq x)
       then if nb_type (p_outq x ! i) = NB_PIECE
            then do {
              guard_opt (Suc i < length (p_outq x));
              (removed, w1) \<leftarrow> peer_unsend p i w;
              if removed
              then do { (r, w2) \<leftarrow> peer_unsend p i w1; choke_loop n p (if r then i else Suc i) w2 }
              else choke_loop n p (i + 2) w1 }
            else choke_loop n p (Suc i) w
       else Some w }"

definition peer_choke :: "pid \<Rightarrow> world \<Rightarrow> world option" where
  "peer_choke p w =
     do {
       x \<leftarrow> w_peer w p;
       w1 \<leftarrow> choke_loop (length (p_outq x)) p 0 w;
       peer_send_new p (nb_create_choke (set_flag PF_I_CHOKE p w1)) }"

section \<open>Interest\<close>

definition peer_has :: "world \<Rightarrow> pid \<Rightarrow> nat \<Rightarrow> bool" where
  "peer_has w p index = (case w_peer w p of None \<Rightarrow> False | Some x \<Rightarrow> has_bit (p_piece_field x) index)"

definition peer_has_bad :: "world \<Rightarrow> pid \<Rightarrow> nat \<Rightarrow> bool" where
  "peer_has_bad w p index =
     (case w_peer w p of
        None \<Rightarrow> False
      | Some x \<Rightarrow> (case p_bad_field x of None \<Rightarrow> False | Some f \<Rightarrow> has_bit f index))"

definition peer_requestable :: "world \<Rightarrow> pid \<Rightarrow> nat \<Rightarrow> bool" where
  "peer_requestable w p index = (peer_has w p index \<and> \<not> peer_has_bad w p index)"

definition peer_want :: "pid \<Rightarrow> nat \<Rightarrow> world \<Rightarrow> world option" where
  "peer_want p index w =
     do {
       x \<leftarrow> w_peer w p;
       if \<not> peer_has w p index \<or> peer_has_bad w p index then Some w
       else do {
         guard_opt (p_nwant x < p_npieces x);
         let w1 = upd_peer p (\<lambda>x. x\<lparr>p_nwant := p_nwant x + 1\<rparr>) w;
         if p_nwant x + 1 = 1
         then do {
           let w2 = set_flag PF_I_WANT p w1;
           if PF_SUSPECT \<in> pf w2 p then Some w2
           else if p_nreqs_out x = 0
           then do {
             guard_opt (PF_DO_UNWANT \<notin> pf w2 p);
             (unsent, w3) \<leftarrow> (if p_outq x \<noteq> [] \<and> nb_type (last (p_outq x)) = NB_UNINTEREST
                              then peer_unsend p (length (p_outq x) - 1) w2 else Some (False, w2));
             if \<not> unsent then peer_send_new p (nb_create_interest w3) else Some w3 }
           else do {
             guard_opt (PF_DO_UNWANT \<in> pf w2 p);
             Some (clr_flag PF_DO_UNWANT p w2) } }
         else Some w1 } }"

definition peer_unwant :: "pid \<Rightarrow> nat \<Rightarrow> world \<Rightarrow> world option" where
  "peer_unwant p index w =
     do {
       x \<leftarrow> w_peer w p;
       if \<not> peer_has w p index \<or> peer_has_bad w p index then Some w
       else do {
         guard_opt (p_nwant x > 0);
         let w1 = upd_peer p (\<lambda>x. x\<lparr>p_nwant := p_nwant x - 1\<rparr>) w;
         if p_nwant x - 1 = 0
         then do {
           let w2 = clr_flag PF_I_WANT p w1;
           if PF_SUSPECT \<in> pf w2 p then Some w2
           else do {
             let w3 = upd_peer p (\<lambda>x. x\<lparr>p_t_nointerest := w_seconds w\<rparr>) w2;
             if p_nreqs_out x = 0 then peer_send_new p (nb_create_uninterest w3)
             else Some (set_flag PF_DO_UNWANT p w3) } }
         else Some w1 } }"

section \<open>Predicates\<close>

definition peer_chokes :: "world \<Rightarrow> pid \<Rightarrow> bool" where
  "peer_chokes w p \<longleftrightarrow> PF_P_CHOKE \<in> pf w p"

definition peer_laden :: "world \<Rightarrow> pid \<Rightarrow> bool" where
  "peer_laden w p = (case w_peer w p of None \<Rightarrow> False | Some x \<Rightarrow> p_nreqs_out x \<ge> MAXPIPEDREQUESTS)"

definition peer_wanted :: "world \<Rightarrow> pid \<Rightarrow> bool" where
  "peer_wanted w p \<longleftrightarrow> pf w p \<inter> {PF_I_WANT} = {PF_I_WANT}"

definition peer_leech_ok :: "world \<Rightarrow> pid \<Rightarrow> bool" where
  "peer_leech_ok w p \<longleftrightarrow> pf w p \<inter> {PF_BANNED, PF_SUSPECT, PF_I_WANT, PF_P_CHOKE} = {PF_I_WANT} \<and> \<not> peer_laden w p"

definition peer_active_down :: "world \<Rightarrow> pid \<Rightarrow> bool" where
  "peer_active_down w p \<longleftrightarrow> peer_leech_ok w p \<or> (case w_peer w p of None \<Rightarrow> False | Some x \<Rightarrow> p_nreqs_out x > 0)"

definition peer_active_up :: "world \<Rightarrow> pid \<Rightarrow> bool" where
  "peer_active_up w p \<longleftrightarrow> pf w p \<inter> {PF_P_WANT, PF_I_CHOKE} = {PF_P_WANT} \<or>
     (case w_peer w p of None \<Rightarrow> False | Some x \<Rightarrow> p_npiece_msgs x > 0)"

definition peer_full :: "world \<Rightarrow> pid \<Rightarrow> bool" where
  "peer_full w p = (case (w_peer w p, peer_tp w p) of (Some x, Some tp) \<Rightarrow> p_npieces x = tp_npieces tp | _ \<Rightarrow> False)"

section \<open>Suspicion\<close>

definition peer_bad_piece :: "pid \<Rightarrow> nat \<Rightarrow> world \<Rightarrow> world option" where
  "peer_bad_piece p index w =
     do {
       x \<leftarrow> w_peer w p;
       tp \<leftarrow> peer_tp w p;
       f0 \<leftarrow> (if p_npcs_bad x = 0
              then do { guard_opt (p_bad_field x = None); Some (replicate (field_len (tp_npieces tp)) 0) }
              else p_bad_field x);
       guard_opt (\<not> has_bit f0 index);
       let w1 = upd_peer p (\<lambda>x. x\<lparr>p_bad_field := Some (set_bit f0 index), p_npcs_bad := p_npcs_bad x + 1,
                    p_suspicion := p_suspicion x + 1\<rparr>) w;
       if p_suspicion x + 1 = 3
       then do {
         let w2 = set_flag PF_SUSPECT p w1;
         if p_nwant x > 0 then peer_send_new p (nb_create_uninterest (clr_flag PF_DO_UNWANT p w2)) else Some w2 }
       else Some w1 }"

end
