(* ===== verification/Upload.thy ===== *)
theory Upload
  imports Peer
begin

text \<open>
  \<^verbatim>\<open>btpd/upload.c\<close>: which peers are unchoked. \<open>w_peerq\<close> is the queue \<^verbatim>\<open>m_peerq\<close>, in the order in which
  peers get the optimistic slots, \<open>w_ul_npeers\<close> its counter \<^verbatim>\<open>m_npeers\<close>.
\<close>

section \<open>Choking\<close>

text \<open>The key of \<^verbatim>\<open>rate_cmp\<close>: what a complete torrent sends to the peer, half as much, or what the peer sends.\<close>

definition peer_rate :: "world \<Rightarrow> pid \<Rightarrow> nat" where
  "peer_rate w p =
     (case (w_peer w p, peer_tp w p) of
        (Some x, Some tp) \<Rightarrow> if cm_full tp then p_rate_up x div 2 else p_rate_dwn x
      | _ \<Rightarrow> 0)"

definition rate_cmp :: "world \<Rightarrow> pid \<times> nat \<Rightarrow> pid \<times> nat \<Rightarrow> int" where
  "rate_cmp w a b =
     (let rate1 = peer_rate w (fst a); rate2 = peer_rate w (fst b) in
      if rate1 < rate2 then -1 else if rate1 = rate2 then 0 else 1)"

definition is_worthy :: "world \<Rightarrow> pid \<Rightarrow> bool" where
  "is_worthy w p =
     (case (w_peer w p, peer_tp w p) of
        (Some x, Some tp) \<Rightarrow>
          \<not> peer_full w p \<and> (if cm_full tp then p_rate_up x > 0 else peer_active_down w p \<and> p_rate_dwn x > 0)
      | _ \<Rightarrow> False)"

text \<open>\<^verbatim>\<open>qsort\<close> with \<^verbatim>\<open>rate_cmp\<close>, with equal elements left in order.\<close>

definition sort_worthy :: "world \<Rightarrow> (pid \<times> nat) list \<Rightarrow> (pid \<times> nat) list" where
  "sort_worthy w worthy = sort_key (\<lambda>a. peer_rate w (fst a)) worthy"

definition unchoke_if :: "pid \<Rightarrow> world \<Rightarrow> world option" where
  "unchoke_if p w = (if PF_I_CHOKE \<in> pf w p then peer_unchoke p w else Some w)"

definition choke_if :: "pid \<Rightarrow> world \<Rightarrow> world option" where
  "choke_if p w = (if PF_I_CHOKE \<notin> pf w p then peer_choke p w else Some w)"

definition wants :: "world \<Rightarrow> pid \<Rightarrow> nat" where
  "wants w p = (if PF_P_WANT \<in> pf w p then 1 else 0)"

text \<open>The best peers, from the last of the sorted array on; the result is \<^verbatim>\<open>found\<close>, the indices marked in \<^verbatim>\<open>unchoked\<close> and the state.\<close>

fun unchoke_best :: "int \<Rightarrow> (pid \<times> nat) list \<Rightarrow> nat \<Rightarrow> nat list \<Rightarrow> world \<Rightarrow> (nat \<times> nat list \<times> world) option" where
  "unchoke_best m [] found unchoked w = Some (found, unchoked, w)"
| "unchoke_best m ((p, i) # rest) found unchoked w =
     (if int found < m - 1
      then do { w1 \<leftarrow> unchoke_if p w; unchoke_best m rest (found + wants w p) (i # unchoked) w1 }
      else Some (found, unchoked, w))"

text \<open>The other peers, in the order of the queue, fill the slots that are left.\<close>

fun fill_slots :: "int \<Rightarrow> pid list \<Rightarrow> nat \<Rightarrow> nat \<Rightarrow> nat list \<Rightarrow> world \<Rightarrow> (nat \<times> world) option" where
  "fill_slots m [] i found unchoked w = Some (found, w)"
| "fill_slots m (p # q) i found unchoked w =
     (if i \<notin> set unchoked
      then if int found < m \<and> \<not> peer_full w p
           then do { w1 \<leftarrow> unchoke_if p w; fill_slots m q (i + 1) (found + wants w p) unchoked w1 }
           else do { w1 \<leftarrow> choke_if p w; fill_slots m q (i + 1) found unchoked w1 }
      else fill_slots m q (i + 1) found unchoked w)"

definition choke_do :: "world \<Rightarrow> world option" where
  "choke_do w =
     (if w_max_uploads w < 0 then foreach (w_peerq w) unchoke_if w
      else if w_max_uploads w = 0 then foreach (w_peerq w) choke_if w
      else do {
        guard_opt (length (w_peerq w) \<le> w_ul_npeers w \<and>
                   list_all (\<lambda>p. w_peer w p \<noteq> None \<and> peer_tp w p \<noteq> None) (w_peerq w));
        let worthy = filter (\<lambda>a. is_worthy w (fst a)) (zip (w_peerq w) [0 ..< length (w_peerq w)]);
        (found, unchoked, w1) \<leftarrow> unchoke_best (w_max_uploads w) (rev (sort_worthy w worthy)) 0 [] w;
        (found2, w2) \<leftarrow> fill_slots (w_max_uploads w) (w_peerq w) 0 found unchoked w1;
        Some w2 })"

text \<open>Peers that gain nothing from the optimistic slot go behind the others.\<close>

fun shuffle_loop :: "nat \<Rightarrow> world \<Rightarrow> world option" where
  "shuffle_loop 0 w = Some w"
| "shuffle_loop (Suc n) w =
     (case w_peerq w of
        [] \<Rightarrow> None
      | p # q \<Rightarrow>
          if {PF_P_WANT, PF_I_CHOKE} \<subseteq> pf w p then Some w
          else shuffle_loop n (w\<lparr>w_peerq := q_insert_tail (q_remove (w_peerq w) p) p\<rparr>))"

definition shuffle_optimists :: "world \<Rightarrow> world option" where
  "shuffle_optimists w = shuffle_loop (w_ul_npeers w) w"

definition choke_cb :: "world \<Rightarrow> world option" where
  "choke_cb w =
     do {
       let w1 = w\<lparr>w_choke_timer := True, w_cb_count := w_cb_count w + 1\<rparr>;
       w2 \<leftarrow> (if w_cb_count w1 mod 3 = 0 then shuffle_optimists w1 else Some w1);
       choke_do w2 }"

section \<open>Events\<close>

text \<open>The new peer gets a random place, the front three times as likely as any other.\<close>

definition ul_on_new_peer :: "pid \<Rightarrow> world \<Rightarrow> world option" where
  "ul_on_new_peer p w =
     do {
       let (where', w1) = rand_between (- 2) (int (w_ul_npeers w)) w;
       w2 \<leftarrow> (if where' < 1 then Some (w1\<lparr>w_peerq := q_insert_head (w_peerq w1) p\<rparr>)
              else do {
                guard_opt (nat (where' - 1) < length (w_peerq w1));
                Some (w1\<lparr>w_peerq := q_insert_after (w_peerq w1) (w_peerq w1 ! nat (where' - 1)) p\<rparr>) });
       choke_do (w2\<lparr>w_ul_npeers := w_ul_npeers w2 + 1\<rparr>) }"

definition ul_on_lost_peer :: "pid \<Rightarrow> world \<Rightarrow> world option" where
  "ul_on_lost_peer p w =
     do {
       guard_opt (w_ul_npeers w > 0);
       let w1 = w\<lparr>w_peerq := q_remove (w_peerq w) p, w_ul_npeers := w_ul_npeers w - 1\<rparr>;
       if pf w1 p \<inter> {PF_P_WANT, PF_I_CHOKE} = {PF_P_WANT} then choke_do w1 else Some w1 }"

definition ul_on_lost_torrent :: "tid \<Rightarrow> world \<Rightarrow> world option" where
  "ul_on_lost_torrent t w =
     do {
       n \<leftarrow> w_net w t;
       choke_do (foldl (\<lambda>v p. v\<lparr>w_peerq := q_remove (w_peerq v) p, w_ul_npeers := w_ul_npeers v - 1\<rparr>) w (n_peers n)) }"

definition ul_on_interest :: "pid \<Rightarrow> world \<Rightarrow> world option" where
  "ul_on_interest p w = (if PF_I_CHOKE \<notin> pf w p then choke_do w else Some w)"

definition ul_on_uninterest :: "pid \<Rightarrow> world \<Rightarrow> world option" where
  "ul_on_uninterest p w = (if PF_I_CHOKE \<notin> pf w p then choke_do w else Some w)"

definition ul_set_max_uploads :: "world \<Rightarrow> world" where
  "ul_set_max_uploads w =
     w\<lparr>w_max_uploads :=
        (if w_opt_max_uploads w \<ge> -1 then w_opt_max_uploads w
         else if w_limit_out w = 0 then 8
         else if w_limit_out w < 10 * 1024 then 2
         else if w_limit_out w < 20 * 1024 then 3
         else if w_limit_out w < 40 * 1024 then 4
         else 5 + int (w_limit_out w div (100 * 1024)))\<rparr>"

definition ul_init :: "world \<Rightarrow> world" where
  "ul_init w = (ul_set_max_uploads w)\<lparr>w_choke_timer := True\<rparr>"

end
