(* ===== verification/DownloadSubr.thy ===== *)
theory DownloadSubr
  imports Peer Sample
begin

text \<open>
  \<^verbatim>\<open>btpd/download_subr.c\<close>: the pieces that are downloaded, the requests on their blocks, the logs of who
  sent what, and end game. A \<^verbatim>\<open>struct piece *\<close> is the pair of its torrent and its index. What a
  peer is told is the component Peer. Loops that walk a circular range or end with a
  state have a bound on their rounds; a loop that exceeds it does not end, which is \<open>None\<close>.
\<close>

definition net_ban_peer :: "pid \<Rightarrow> world \<Rightarrow> world" where
  "net_ban_peer m w = (if PF_BANNED \<in> pf w m then w else set_flag PF_BANNED m (mp_hold m w))"

section \<open>Logs\<close>

definition piece_new_log :: "tid \<Rightarrow> nat \<Rightarrow> world \<Rightarrow> world" where
  "piece_new_log t i w = upd_piece t i (\<lambda>pc. pc\<lparr>pc_logs := q_insert_head (pc_logs pc) \<lparr>bl_records = [], bl_hashes = None\<rparr>\<rparr>) w"

text \<open>
  The hashes of the blocks of a piece. The result of \<^verbatim>\<open>cm_get_bytes\<close> is not looked at: after an error
  \<^verbatim>\<open>SHA1\<close> reads through an uninitialised pointer or memory.
\<close>

fun hash_blocks :: "tid \<Rightarrow> nat \<Rightarrow> nat \<Rightarrow> nat list \<Rightarrow> byte list list \<Rightarrow> world \<Rightarrow> (byte list list \<times> world) option" where
  "hash_blocks t index nblocks [] hashes w = Some (hashes, w)"
| "hash_blocks t index nblocks (i # is) hashes w =
     do {
       tp \<leftarrow> cw_tor w t;
       let bsize = torrent_block_size tp index nblocks i;
       (r, w1) \<leftarrow> cm_get_bytes t index (i * PIECE_BLOCKLEN) bsize w;
       case r of
         Inl err \<Rightarrow> None
       | Inr buf \<Rightarrow> hash_blocks t index nblocks is (hashes @ [ce_sha (cw_env w1) buf]) w1 }"

definition piece_log_hashes :: "tid \<Rightarrow> nat \<Rightarrow> world \<Rightarrow> world option" where
  "piece_log_hashes t index w =
     do {
       pc \<leftarrow> get_piece t index w;
       (hashes, w1) \<leftarrow> hash_blocks t index (pc_nblocks pc) [0 ..< pc_nblocks pc] [] w;
       pc1 \<leftarrow> get_piece t index w1;
       case pc_logs pc1 of
         [] \<Rightarrow> None
       | log # logs \<Rightarrow> Some (upd_piece t index (\<lambda>pc. pc\<lparr>pc_logs := log\<lparr>bl_hashes := Some hashes\<rparr> # logs\<rparr>) w1) }"

definition piece_log_free :: "tid \<Rightarrow> blog \<Rightarrow> world \<Rightarrow> world option" where
  "piece_log_free t log w = foreach (bl_records log) (\<lambda>r. mp_drop (blr_mp r) (Some t)) w"

definition piece_kill_logs :: "tid \<Rightarrow> nat \<Rightarrow> world \<Rightarrow> world option" where
  "piece_kill_logs t i w =
     do {
       pc \<leftarrow> get_piece t i w;
       w1 \<leftarrow> foreach (pc_logs pc) (piece_log_free t) w;
       Some (upd_piece t i (\<lambda>pc. pc\<lparr>pc_logs := []\<rparr>) w1) }"

text \<open>The one record of a log that covers all blocks names the peer that sent the whole bad piece.\<close>

definition log_culprit :: "piece \<Rightarrow> blog \<Rightarrow> pid option option" where
  "log_culprit pc log =
     (case bl_records log of
        [] \<Rightarrow> None
      | [r] \<Rightarrow> Some (if list_all (has_bit (blr_down_field r)) [0 ..< pc_nblocks pc] then Some (blr_mp r) else None)
      | _ \<Rightarrow> Some None)"

definition mp_alive :: "world \<Rightarrow> pid \<Rightarrow> bool" where
  "mp_alive w m = (case w_mp w m of None \<Rightarrow> False | Some x \<Rightarrow> mp_live x)"

definition piece_log_bad :: "tid \<Rightarrow> nat \<Rightarrow> world \<Rightarrow> world option" where
  "piece_log_bad t i w =
     do {
       n \<leftarrow> w_net w t;
       pc \<leftarrow> get_piece t i w;
       log \<leftarrow> q_first (pc_logs pc);
       culprit \<leftarrow> log_culprit pc log;
       w1 \<leftarrow> (case culprit of
                Some m \<Rightarrow> do {
                  v \<leftarrow> (if n_endgame n \<and> mp_alive w m then peer_unwant m i w else Some w);
                  piece_log_free t log (upd_piece t i (\<lambda>pc. pc\<lparr>pc_logs := tl (pc_logs pc)\<rparr>) (net_ban_peer m v)) }
              | None \<Rightarrow> do {
                  v \<leftarrow> foreach (bl_records log) (\<lambda>r v.
                      if mp_alive v (blr_mp r)
                      then do {
                        v1 \<leftarrow> (if n_endgame n then peer_unwant (blr_mp r) i v else Some v);
                        peer_bad_piece (blr_mp r) i v1 }
                      else Some v) w;
                  piece_log_hashes t i v });
       Some (piece_new_log t i w1) }"

definition piece_log_block :: "tid \<Rightarrow> nat \<Rightarrow> pid \<Rightarrow> nat \<Rightarrow> world \<Rightarrow> world option" where
  "piece_log_block t i p begin' w =
     do {
       pc \<leftarrow> get_piece t i w;
       case pc_logs pc of
         [] \<Rightarrow> None
       | log # logs \<Rightarrow>
           (let b = begin' div PIECE_BLOCKLEN; rs = bl_records log in
            case List.find (\<lambda>r. blr_mp r = p) rs of
              None \<Rightarrow>
                Some (upd_piece t i (\<lambda>pc. pc\<lparr>pc_logs := log\<lparr>bl_records := q_insert_head rs
                   \<lparr>blr_mp = p, blr_down_field = set_bit (replicate (field_len (pc_nblocks pc)) 0) b\<rparr>\<rparr> # logs\<rparr>) (mp_hold p w))
            | Some r \<Rightarrow>
                Some (upd_piece t i (\<lambda>pc. pc\<lparr>pc_logs := log\<lparr>bl_records := q_insert_head (q_remove rs r)
                   (r\<lparr>blr_down_field := set_bit (blr_down_field r) b\<rparr>)\<rparr> # logs\<rparr>) w)) }"

section \<open>Pieces\<close>

definition have_field :: "torrent \<Rightarrow> nat \<Rightarrow> byte list" where
  "have_field tp index = cm_get_block_field tp index"

definition piece_alloc :: "tid \<Rightarrow> nat \<Rightarrow> world \<Rightarrow> world option" where
  "piece_alloc t index w =
     do {
       n \<leftarrow> w_net w t;
       tp \<leftarrow> cw_tor w t;
       guard_opt (\<not> has_bit (n_busy_field n) index \<and> n_npcs_busy n < tp_npieces tp);
       let nblocks = torrent_piece_blocks tp index;
       let ngot = length (filter (has_bit (have_field tp index)) [0 ..< nblocks]);
       guard_opt (ngot < nblocks);
       let pc = \<lparr>pc_nreqs = 0, pc_nblocks = nblocks, pc_ngot = ngot, pc_nbusy = 0, pc_next_block = 0, pc_eg_reqs = None,
                 pc_reqs = [], pc_logs = [], pc_down_field = replicate (field_len nblocks) 0\<rparr>;
       let w1 = piece_new_log t index (upd_net t (\<lambda>n. n\<lparr>n_piece := (n_piece n)(index \<mapsto> pc)\<rparr>) w);
       Some (upd_net t (\<lambda>n. n\<lparr>n_npcs_busy := n_npcs_busy n + 1, n_busy_field := set_bit (n_busy_field n) index,
                n_getlst := q_insert_tail (n_getlst n) index\<rparr>) w1) }"

definition drop_nb :: "net_buf \<Rightarrow> world \<Rightarrow> world option" where
  "drop_nb nb w = map_option snd (nb_drop nb w)"

definition drop_eg :: "net_buf option \<Rightarrow> world \<Rightarrow> world option" where
  "drop_eg r w = (case r of None \<Rightarrow> Some w | Some nb \<Rightarrow> drop_nb nb w)"

definition piece_free :: "tid \<Rightarrow> nat \<Rightarrow> world \<Rightarrow> world option" where
  "piece_free t i w =
     do {
       n \<leftarrow> w_net w t;
       guard_opt (n_npcs_busy n > 0);
       let w1 = upd_net t (\<lambda>n. n\<lparr>n_npcs_busy := n_npcs_busy n - 1, n_busy_field := clear_bit (n_busy_field n) i,
                    n_getlst := q_remove (n_getlst n) i\<rparr>) w;
       pc \<leftarrow> get_piece t i w1;
       w2 \<leftarrow> foreach (pc_reqs pc) (\<lambda>req. drop_nb (br_msg req)) w1;
       w3 \<leftarrow> piece_kill_logs t i w2;
       w4 \<leftarrow> (case pc_eg_reqs pc of None \<Rightarrow> Some w3 | Some rs \<Rightarrow> foreach rs drop_eg w3);
       Some (upd_net t (\<lambda>n. n\<lparr>n_piece := (n_piece n)(i := None)\<rparr>) w4) }"

definition piece_full :: "piece \<Rightarrow> bool" where
  "piece_full pc \<longleftrightarrow> pc_ngot pc + pc_nbusy pc = pc_nblocks pc"

definition full_at :: "net \<Rightarrow> nat \<Rightarrow> bool" where
  "full_at n i = (case n_piece n i of None \<Rightarrow> False | Some pc \<Rightarrow> piece_full pc)"

definition dl_find_piece :: "net \<Rightarrow> nat \<Rightarrow> nat option" where
  "dl_find_piece n index = List.find (\<lambda>i. i = index) (n_getlst n)"

section \<open>End game\<close>

definition dl_should_enter_endgame :: "tid \<Rightarrow> world \<Rightarrow> bool" where
  "dl_should_enter_endgame t w =
     (case (w_net w t, cw_tor w t) of
        (Some n, Some tp) \<Rightarrow>
          if cm_pieces tp + n_npcs_busy n = tp_npieces tp then list_all (full_at n) (n_getlst n) else False
      | _ \<Rightarrow> False)"

text \<open>Pieces are ordered by the requests per missing block; those without a missing block are last.\<close>

fun insert_where :: "(nat \<Rightarrow> bool) \<Rightarrow> nat \<Rightarrow> nat list \<Rightarrow> nat list" where
  "insert_where P i [] = [i]"
| "insert_where P i (it # q) = (if P it then i # it # q else it # insert_where P i q)"

definition eg_before :: "net \<Rightarrow> nat \<Rightarrow> nat \<Rightarrow> bool" where
  "eg_before n r it =
     (case n_piece n it of
        None \<Rightarrow> False
      | Some pc \<Rightarrow> pc_nblocks pc = pc_ngot pc \<or> r < pc_nreqs pc div (pc_nblocks pc - pc_ngot pc))"

definition dl_piece_insert_eg :: "tid \<Rightarrow> nat \<Rightarrow> world \<Rightarrow> world option" where
  "dl_piece_insert_eg t i w =
     do {
       n \<leftarrow> w_net w t;
       pc \<leftarrow> get_piece t i w;
       if pc_nblocks pc = pc_ngot pc
       then Some (upd_net t (\<lambda>n. n\<lparr>n_getlst := q_insert_tail (n_getlst n) i\<rparr>) w)
       else (let r = pc_nreqs pc div (pc_nblocks pc - pc_ngot pc) in
             Some (upd_net t (\<lambda>n. n\<lparr>n_getlst := insert_where (eg_before n r) i (n_getlst n)\<rparr>) w)) }"

definition dl_piece_reorder_eg :: "tid \<Rightarrow> nat \<Rightarrow> world \<Rightarrow> world option" where
  "dl_piece_reorder_eg t i w =
     dl_piece_insert_eg t i (upd_net t (\<lambda>n. n\<lparr>n_getlst := q_remove (n_getlst n) i\<rparr>) w)"

section \<open>Requests\<close>

definition inc_next_block :: "tid \<Rightarrow> nat \<Rightarrow> world \<Rightarrow> world" where
  "inc_next_block t i w = upd_piece t i (\<lambda>pc. pc\<lparr>pc_next_block := (pc_next_block pc + 1) mod pc_nblocks pc\<rparr>) w"

text \<open>The request is for the next block of the piece; in end game an earlier message for it may be used again.\<close>

definition dl_new_request :: "pid \<Rightarrow> tid \<Rightarrow> nat \<Rightarrow> net_buf option \<Rightarrow> world \<Rightarrow> (block_request \<times> world) option" where
  "dl_new_request p t i msg w =
     do {
       tp \<leftarrow> cw_tor w t;
       pc \<leftarrow> get_piece t i w;
       n \<leftarrow> w_net w t;
       let (nb, w1) = (case msg of
           Some nb \<Rightarrow> (nb, w)
         | None \<Rightarrow>
             (let block = pc_next_block pc;
                  start = of_nat block * of_nat PIECE_BLOCKLEN;
                  len = torrent_block_size tp i (pc_nblocks pc) block
              in nb_create_request (of_nat i) start (of_nat len) w));
       let req = \<lparr>br_addr = nw_fresh w1, br_p = p, br_msg = nb\<rparr>;
       let w2 = nb_hold nb (w1\<lparr>nw_fresh := nw_fresh w1 + 1\<rparr>);
       let w3 = upd_piece t i (\<lambda>pc. pc\<lparr>pc_reqs := q_insert_tail (pc_reqs pc) req, pc_nreqs := pc_nreqs pc + 1\<rparr>) w2;
       let w4 = (if \<not> n_endgame n
                 then upd_piece t i (\<lambda>pc. pc\<lparr>pc_down_field := set_bit (pc_down_field pc) (pc_next_block pc),
                                           pc_nbusy := pc_nbusy pc + 1\<rparr>) w3
                 else w3);
       w5 \<leftarrow> peer_request p req w4;
       Some (req, w5) }"

definition dl_piece_assign_eg_step :: "tid \<Rightarrow> nat \<Rightarrow> pid \<Rightarrow> world \<Rightarrow> world option" where
  "dl_piece_assign_eg_step t i p w =
     do {
       tp \<leftarrow> cw_tor w t;
       pc \<leftarrow> get_piece t i w;
       guard_opt (pc_nblocks pc > 0);
       if has_bit (have_field tp i) (pc_next_block pc) \<or> peer_requested w p i (pc_next_block pc)
       then Some (inc_next_block t i w)
       else do {
         eg \<leftarrow> pc_eg_reqs pc;
         guard_opt (pc_next_block pc < length eg);
         (req, w1) \<leftarrow> dl_new_request p t i (eg ! pc_next_block pc) w;
         let w2 = (if eg ! pc_next_block pc = None
                   then nb_hold (br_msg req) (upd_piece t i (\<lambda>pc. pc\<lparr>pc_eg_reqs :=
                          map_option (\<lambda>l. l[pc_next_block pc := Some (br_msg req)]) (pc_eg_reqs pc)\<rparr>) w1)
                   else w1);
         Some (inc_next_block t i w2) } }"

text \<open>One turn around the blocks is at most \<open>nblocks\<close> rounds.\<close>

fun dl_piece_assign_eg_loop :: "nat \<Rightarrow> tid \<Rightarrow> nat \<Rightarrow> pid \<Rightarrow> nat \<Rightarrow> world \<Rightarrow> world option" where
  "dl_piece_assign_eg_loop 0 t i p first w = None"
| "dl_piece_assign_eg_loop (Suc k) t i p first w =
     do {
       w1 \<leftarrow> dl_piece_assign_eg_step t i p w;
       pc \<leftarrow> get_piece t i w1;
       if \<not> peer_laden w1 p \<and> pc_next_block pc \<noteq> first then dl_piece_assign_eg_loop k t i p first w1
       else Some w1 }"

definition dl_piece_assign_requests_eg :: "tid \<Rightarrow> nat \<Rightarrow> pid \<Rightarrow> world \<Rightarrow> world option" where
  "dl_piece_assign_requests_eg t i p w =
     do { pc \<leftarrow> get_piece t i w; dl_piece_assign_eg_loop (pc_nblocks pc) t i p (pc_next_block pc) w }"

text \<open>The loop over the queue; pieces that got requests are collected, last first, and put back in order.\<close>

fun assign_eg_loop :: "tid \<Rightarrow> pid \<Rightarrow> nat list \<Rightarrow> nat list \<Rightarrow> world \<Rightarrow> (nat list \<times> world) option" where
  "assign_eg_loop t p [] tmp w = Some (tmp, w)"
| "assign_eg_loop t p (i # q) tmp w =
     (if peer_laden w p then Some (tmp, w)
      else do {
        pc \<leftarrow> get_piece t i w;
        if peer_requestable w p i \<and> pc_nblocks pc \<noteq> pc_ngot pc
        then do {
          w1 \<leftarrow> dl_piece_assign_requests_eg t i p w;
          assign_eg_loop t p q (i # tmp) (upd_net t (\<lambda>n. n\<lparr>n_getlst := q_remove (n_getlst n) i\<rparr>) w1) }
        else assign_eg_loop t p q tmp w })"

definition dl_assign_requests_eg :: "pid \<Rightarrow> world \<Rightarrow> world option" where
  "dl_assign_requests_eg p w =
     do {
       guard_opt (peer_leech_ok w p);
       t \<leftarrow> peer_net w p;
       n \<leftarrow> w_net w t;
       (tmp, w1) \<leftarrow> assign_eg_loop t p (n_getlst n) [] w;
       foreach tmp (dl_piece_insert_eg t) w1 }"

text \<open>Entering end game: the requests of a piece become the shared messages of its blocks.\<close>

definition share_req :: "tid \<Rightarrow> nat \<Rightarrow> block_request \<Rightarrow> world \<Rightarrow> world option" where
  "share_req t i req w =
     do {
       b \<leftarrow> nb_get_begin (br_msg req);
       let blki = unat b div PIECE_BLOCKLEN;
       pc \<leftarrow> get_piece t i w;
       eg \<leftarrow> pc_eg_reqs pc;
       guard_opt (blki < length eg);
       Some (if eg ! blki = None
             then nb_hold (br_msg req) (upd_piece t i (\<lambda>pc. pc\<lparr>pc_eg_reqs := Some (eg[blki := Some (br_msg req)])\<rparr>) w)
             else w) }"

definition piece_enter_eg :: "tid \<Rightarrow> nat \<Rightarrow> world \<Rightarrow> world option" where
  "piece_enter_eg t i w =
     do {
       pc \<leftarrow> get_piece t i w;
       let w1 = upd_piece t i (\<lambda>pc. pc\<lparr>pc_down_field := foldl clear_bit (pc_down_field pc) [0 ..< pc_nblocks pc],
                    pc_nbusy := 0, pc_eg_reqs := Some (replicate (pc_nblocks pc) None)\<rparr>) w;
       foreach (pc_reqs pc) (share_req t i) w1 }"

definition peer_enter_eg :: "tid \<Rightarrow> pid \<Rightarrow> world \<Rightarrow> world option" where
  "peer_enter_eg t p w =
     do {
       x \<leftarrow> w_peer w p;
       guard_opt (p_nwant x = 0);
       n \<leftarrow> w_net w t;
       w1 \<leftarrow> foreach (n_getlst n) (peer_want p) w;
       if peer_leech_ok w1 p then dl_assign_requests_eg p w1 else Some w1 }"

definition dl_enter_endgame :: "tid \<Rightarrow> world \<Rightarrow> world option" where
  "dl_enter_endgame t w =
     do {
       n \<leftarrow> w_net w t;
       guard_opt (length (n_getlst n) \<le> n_npcs_busy n);
       w1 \<leftarrow> foreach (n_getlst n) (piece_enter_eg t) (upd_net t (\<lambda>n. n\<lparr>n_endgame := True\<rparr>) w);
       w2 \<leftarrow> foreach (rev (n_getlst n)) (dl_piece_insert_eg t) (upd_net t (\<lambda>n. n\<lparr>n_getlst := []\<rparr>) w1);
       foreach (n_peers n) (peer_enter_eg t) w2 }"

definition dl_on_piece_full :: "tid \<Rightarrow> nat \<Rightarrow> world \<Rightarrow> world option" where
  "dl_on_piece_full t i w =
     do {
       n \<leftarrow> w_net w t;
       w1 \<leftarrow> foreach (n_peers n) (\<lambda>p. peer_unwant p i) w;
       if dl_should_enter_endgame t w1 then dl_enter_endgame t w1 else Some w1 }"

section \<open>Choosing pieces and assigning requests\<close>

definition dl_piece_startable :: "world \<Rightarrow> pid \<Rightarrow> tid \<Rightarrow> nat \<Rightarrow> bool" where
  "dl_piece_startable w p t index =
     (case (w_net w t, cw_tor w t) of
        (Some n, Some tp) \<Rightarrow> peer_requestable w p index \<and> \<not> cm_has_piece tp index \<and> \<not> has_bit (n_busy_field n) index
      | _ \<Rightarrow> False)"

text \<open>The first pass: the least count among the startable pieces, the first index with it and how many have it.\<close>

definition rarer :: "(nat \<Rightarrow> nat) \<Rightarrow> nat \<times> nat \<Rightarrow> nat \<Rightarrow> nat \<times> nat" where
  "rarer cnt mc i =
     (case mc of (min_i, min_c) \<Rightarrow>
        if cnt i = cnt min_i then (min_i, min_c + 1) else if cnt i < cnt min_i then (i, 1) else (min_i, min_c))"

text \<open>The second pass: the \<open>k\<close>th piece with that count; behind the last piece there is none.\<close>

fun pick :: "(nat \<Rightarrow> bool) \<Rightarrow> nat \<Rightarrow> nat list \<Rightarrow> nat \<Rightarrow> nat option" where
  "pick P 0 is r = Some r"
| "pick P (Suc k) [] r = None"
| "pick P (Suc k) (i # is) r = (if P i then pick P k is i else pick P (Suc k) is r)"

definition dl_choose_rarest :: "pid \<Rightarrow> world \<Rightarrow> (nat option \<times> world) option" where
  "dl_choose_rarest p w =
     do {
       t \<leftarrow> peer_net w p;
       n \<leftarrow> w_net w t;
       tp \<leftarrow> cw_tor w t;
       guard_opt (\<not> n_endgame n);
       let ok = dl_piece_startable w p t;
       let cnt = (\<lambda>i. n_piece_count n ! i);
       case filter ok [0 ..< tp_npieces tp] of
         [] \<Rightarrow> Some (None, w)
       | i # is \<Rightarrow>
           (case foldl (rarer cnt) (i, 1) is of
              (min_i, min_c) \<Rightarrow>
                if min_c > 1
                then (case rand_between 1 (int min_c) w of
                        (k, w1) \<Rightarrow> do {
                          j \<leftarrow> pick (\<lambda>j. ok j \<and> cnt j = cnt min_i) (nat k) [min_i ..< tp_npieces tp] min_i;
                          Some (Some j, w1) })
                else Some (Some min_i, w)) }"

definition dl_new_piece :: "tid \<Rightarrow> nat \<Rightarrow> world \<Rightarrow> world option" where
  "dl_new_piece t index w = piece_alloc t index (cm_prealloc t index w)"

text \<open>The next block that is neither there nor requested; at most \<open>nblocks\<close> steps if there is one.\<close>

fun skip_blocks :: "nat \<Rightarrow> tid \<Rightarrow> nat \<Rightarrow> world \<Rightarrow> world option" where
  "skip_blocks k t i w =
     do {
       tp \<leftarrow> cw_tor w t;
       pc \<leftarrow> get_piece t i w;
       if has_bit (have_field tp i) (pc_next_block pc) \<or> has_bit (pc_down_field pc) (pc_next_block pc)
       then (case k of 0 \<Rightarrow> None | Suc k' \<Rightarrow> skip_blocks k' t i (inc_next_block t i w))
       else Some w }"

declare skip_blocks.simps [simp del]

definition full_piece_at :: "tid \<Rightarrow> nat \<Rightarrow> world \<Rightarrow> bool" where
  "full_piece_at t i w = (case get_piece t i w of None \<Rightarrow> False | Some pc \<Rightarrow> piece_full pc)"

text \<open>A peer takes ten requests at most, which bounds the rounds.\<close>

fun assign_loop :: "nat \<Rightarrow> tid \<Rightarrow> nat \<Rightarrow> pid \<Rightarrow> nat \<Rightarrow> world \<Rightarrow> (nat \<times> world) option" where
  "assign_loop 0 t i p cnt w = None"
| "assign_loop (Suc k) t i p cnt w =
     do {
       pc \<leftarrow> get_piece t i w;
       w1 \<leftarrow> skip_blocks (pc_nblocks pc) t i w;
       (req, w2) \<leftarrow> dl_new_request p t i None w1;
       let w3 = inc_next_block t i w2;
       if \<not> full_piece_at t i w3 \<and> \<not> peer_laden w3 p then assign_loop k t i p (cnt + 1) w3
       else Some (cnt + 1, w3) }"

definition dl_piece_assign_requests :: "tid \<Rightarrow> nat \<Rightarrow> pid \<Rightarrow> world \<Rightarrow> (nat \<times> world) option" where
  "dl_piece_assign_requests t i p w =
     do {
       guard_opt (\<not> full_piece_at t i w \<and> \<not> peer_laden w p);
       (cnt, w1) \<leftarrow> assign_loop (MAXPIPEDREQUESTS + 1) t i p 0 w;
       w2 \<leftarrow> (if full_piece_at t i w1 then dl_on_piece_full t i w1 else Some w1);
       Some (cnt, w2) }"

definition is_endgame :: "tid \<Rightarrow> world \<Rightarrow> bool" where
  "is_endgame t w = (case w_net w t of None \<Rightarrow> False | Some n \<Rightarrow> n_endgame n)"

text \<open>Requests on the pieces that are being downloaded.\<close>

fun assign_started :: "tid \<Rightarrow> pid \<Rightarrow> nat list \<Rightarrow> nat \<Rightarrow> world \<Rightarrow> (nat \<times> world) option" where
  "assign_started t p [] cnt w = Some (cnt, w)"
| "assign_started t p (i # q) cnt w =
     (if full_piece_at t i w \<or> \<not> peer_requestable w p i then assign_started t p q cnt w
      else do {
        (c, w1) \<leftarrow> dl_piece_assign_requests t i p w;
        if is_endgame t w1 then Some (cnt + c, w1)
        else do {
          guard_opt (full_piece_at t i w1 \<or> peer_laden w1 p);
          if peer_laden w1 p then Some (cnt + c, w1) else assign_started t p q (cnt + c) w1 } })"

text \<open>Then on new ones, the rarest first; every round starts a piece.\<close>

fun assign_new :: "nat \<Rightarrow> tid \<Rightarrow> pid \<Rightarrow> nat \<Rightarrow> world \<Rightarrow> (nat \<times> world) option" where
  "assign_new k t p cnt w =
     (if \<not> peer_laden w p \<and> \<not> is_endgame t w
      then (case k of
              0 \<Rightarrow> None
            | Suc k' \<Rightarrow> do {
                (r, w1) \<leftarrow> dl_choose_rarest p w;
                case r of
                  None \<Rightarrow> Some (cnt, w1)
                | Some index \<Rightarrow> do {
                    w2 \<leftarrow> dl_new_piece t index w1;
                    (c, w3) \<leftarrow> dl_piece_assign_requests t index p w2;
                    assign_new k' t p (cnt + c) w3 } })
      else Some (cnt, w))"

declare assign_new.simps [simp del]

definition dl_assign_requests :: "pid \<Rightarrow> world \<Rightarrow> (nat \<times> world) option" where
  "dl_assign_requests p w =
     do {
       t \<leftarrow> peer_net w p;
       n \<leftarrow> w_net w t;
       tp \<leftarrow> cw_tor w t;
       guard_opt (\<not> n_endgame n \<and> peer_leech_ok w p);
       (c, w1) \<leftarrow> assign_started t p (n_getlst n) 0 w;
       assign_new (tp_npieces tp + 1) t p c w1 }"

section \<open>Taking requests back\<close>

fun unfull_loop :: "tid \<Rightarrow> nat \<Rightarrow> pid list \<Rightarrow> world \<Rightarrow> world option" where
  "unfull_loop t i [] w = Some w"
| "unfull_loop t i (p # q) w =
     (if full_piece_at t i w then Some w
      else do {
        w1 \<leftarrow> (if peer_leech_ok w p \<and> peer_requestable w p i
               then map_option snd (dl_piece_assign_requests t i p w) else Some w);
        unfull_loop t i q w1 })"

definition dl_on_piece_unfull :: "tid \<Rightarrow> nat \<Rightarrow> world \<Rightarrow> world option" where
  "dl_on_piece_unfull t i w =
     do {
       n \<leftarrow> w_net w t;
       guard_opt (\<not> full_piece_at t i w \<and> \<not> n_endgame n);
       w1 \<leftarrow> foreach (n_peers n) (\<lambda>p. peer_want p i) w;
       unfull_loop t i (n_peers n) w1 }"

text \<open>One request of the peer on the piece is taken back: the inner loops, in end game and before.\<close>

definition unlink_req :: "pid \<Rightarrow> tid \<Rightarrow> nat \<Rightarrow> block_request \<Rightarrow> world \<Rightarrow> world option" where
  "unlink_req p t i req w =
     drop_nb (br_msg req)
       (upd_piece t i (\<lambda>pc. pc\<lparr>pc_reqs := remove_req req (pc_reqs pc), pc_nreqs := pc_nreqs pc - 1\<rparr>)
         (upd_peer p (\<lambda>x. x\<lparr>p_my_reqs := remove_req req (p_my_reqs x), p_nreqs_out := p_nreqs_out x - 1\<rparr>) w))"

definition unassign_req :: "pid \<Rightarrow> tid \<Rightarrow> nat \<Rightarrow> block_request \<Rightarrow> world \<Rightarrow> world option" where
  "unassign_req p t i req w =
     do {
       b \<leftarrow> nb_get_begin (br_msg req);
       let blki = unat b div PIECE_BLOCKLEN;
       pc \<leftarrow> get_piece t i w;
       guard_opt (has_bit (pc_down_field pc) blki \<and> pc_nbusy pc > 0 \<and> pc_nreqs pc > 0);
       unlink_req p t i req (upd_piece t i (\<lambda>pc. pc\<lparr>pc_down_field := clear_bit (pc_down_field pc) blki,
          pc_nbusy := pc_nbusy pc - 1\<rparr>) w) }"

definition reqs_on :: "nat \<Rightarrow> block_request list \<Rightarrow> block_request list" where
  "reqs_on i rs = filter (\<lambda>r. nb_get_index (br_msg r) = Some (of_nat i)) rs"

fun unassign_loop :: "nat \<Rightarrow> pid \<Rightarrow> tid \<Rightarrow> world \<Rightarrow> world option" where
  "unassign_loop k p t w =
     do {
       x \<leftarrow> w_peer w p;
       if p_nreqs_out x > 0
       then (case (k, p_my_reqs x) of
               (Suc k', req # _) \<Rightarrow> do {
                 n \<leftarrow> w_net w t;
                 idx \<leftarrow> nb_get_index (br_msg req);
                 i \<leftarrow> dl_find_piece n (unat idx);
                 let was_full = full_piece_at t i w;
                 w1 \<leftarrow> foreach (reqs_on i (p_my_reqs x)) (unassign_req p t i) w;
                 x1 \<leftarrow> w_peer w1 p;
                 w2 \<leftarrow> (if p_nreqs_out x1 = 0 then peer_on_no_reqs p w1 else Some w1);
                 w3 \<leftarrow> (if was_full \<and> \<not> full_piece_at t i w2 then dl_on_piece_unfull t i w2 else Some w2);
                 unassign_loop k' p t w3 }
             | _ \<Rightarrow> None)
       else do { guard_opt (p_my_reqs x = []); Some w } }"

declare unassign_loop.simps [simp del]

definition dl_unassign_requests :: "pid \<Rightarrow> world \<Rightarrow> world option" where
  "dl_unassign_requests p w =
     do { x \<leftarrow> w_peer w p; t \<leftarrow> p_n x; unassign_loop (p_nreqs_out x) p t w }"

fun unassign_eg_loop :: "nat \<Rightarrow> pid \<Rightarrow> tid \<Rightarrow> nat list \<Rightarrow> world \<Rightarrow> (nat list \<times> world) option" where
  "unassign_eg_loop k p t tmp w =
     do {
       x \<leftarrow> w_peer w p;
       if p_nreqs_out x > 0
       then (case (k, p_my_reqs x) of
               (Suc k', req # _) \<Rightarrow> do {
                 n \<leftarrow> w_net w t;
                 idx \<leftarrow> nb_get_index (br_msg req);
                 i \<leftarrow> dl_find_piece n (unat idx);
                 w1 \<leftarrow> foreach (reqs_on i (p_my_reqs x)) (unlink_req p t i)
                         (upd_net t (\<lambda>n. n\<lparr>n_getlst := q_remove (n_getlst n) i\<rparr>) w);
                 unassign_eg_loop k' p t (i # tmp) w1 }
             | _ \<Rightarrow> None)
       else do { guard_opt (p_my_reqs x = []); Some (tmp, w) } }"

declare unassign_eg_loop.simps [simp del]

definition dl_unassign_requests_eg :: "pid \<Rightarrow> world \<Rightarrow> world option" where
  "dl_unassign_requests_eg p w =
     do {
       x \<leftarrow> w_peer w p;
       t \<leftarrow> p_n x;
       (tmp, w1) \<leftarrow> unassign_eg_loop (p_nreqs_out x) p t [] w;
       w2 \<leftarrow> peer_on_no_reqs p w1;
       foreach tmp (dl_piece_insert_eg t) w2 }"

end
