(* ===== verification/Download.thy ===== *)
theory Download
  imports DownloadSubr
begin

text \<open>
  \<^verbatim>\<open>btpd/download.c\<close>: the events of the download side, and the two operations of other files that
  call back into it, \<^verbatim>\<open>peer_good_piece\<close> (\<^verbatim>\<open>peer.c\<close>) and \<^verbatim>\<open>piece_log_good\<close> (\<^verbatim>\<open>download_subr.c\<close>).
\<close>

definition dl_on_download :: "pid \<Rightarrow> world \<Rightarrow> world option" where
  "dl_on_download p w =
     do {
       t \<leftarrow> peer_net w p;
       if is_endgame t w then dl_assign_requests_eg p w else map_option snd (dl_assign_requests p w) }"

definition dl_on_unchoke :: "pid \<Rightarrow> world \<Rightarrow> world option" where
  "dl_on_unchoke p w = (if peer_leech_ok w p then dl_on_download p w else Some w)"

definition dl_on_undownload :: "pid \<Rightarrow> world \<Rightarrow> world option" where
  "dl_on_undownload p w =
     do {
       t \<leftarrow> peer_net w p;
       if \<not> is_endgame t w then dl_unassign_requests p w else dl_unassign_requests_eg p w }"

definition dl_on_choke :: "pid \<Rightarrow> world \<Rightarrow> world option" where
  "dl_on_choke p w = do { x \<leftarrow> w_peer w p; if p_nreqs_out x > 0 then dl_on_undownload p w else Some w }"

text \<open>
  A peer announces a piece. The piece count is indexed by the number on the wire, which is out of
  range for a number that is no piece.
\<close>

definition dl_on_piece_ann :: "pid \<Rightarrow> nat \<Rightarrow> world \<Rightarrow> world option" where
  "dl_on_piece_ann p index w =
     do {
       t \<leftarrow> peer_net w p;
       n \<leftarrow> w_net w t;
       tp \<leftarrow> cw_tor w t;
       guard_opt (index < length (n_piece_count n));
       let w1 = upd_net t (\<lambda>n. n\<lparr>n_piece_count := (n_piece_count n)[index := n_piece_count n ! index + 1]\<rparr>) w;
       if cm_has_piece tp index then Some w1
       else if n_endgame n
       then do {
         guard_opt (dl_find_piece n index \<noteq> None);
         w2 \<leftarrow> peer_want p index w1;
         if peer_leech_ok w2 p then dl_assign_requests_eg p w2 else Some w2 }
       else (case dl_find_piece n index of
               None \<Rightarrow> do {
                 w2 \<leftarrow> peer_want p index w1;
                 if peer_leech_ok w2 p
                 then do { w3 \<leftarrow> dl_new_piece t index w2; map_option snd (dl_piece_assign_requests t index p w3) }
                 else Some w2 }
             | Some i \<Rightarrow>
                 if \<not> full_at n i
                 then do {
                   w2 \<leftarrow> peer_want p index w1;
                   if peer_leech_ok w2 p then map_option snd (dl_piece_assign_requests t i p w2) else Some w2 }
                 else Some w1) }"

section \<open>Tested pieces\<close>

definition peer_good_piece :: "pid \<Rightarrow> nat \<Rightarrow> world \<Rightarrow> world option" where
  "peer_good_piece p index w =
     do {
       x \<leftarrow> w_peer w p;
       w1 \<leftarrow> (if peer_has_bad w p index
              then do {
                guard_opt (p_npcs_bad x > 0);
                Some (upd_peer p (\<lambda>x. x\<lparr>p_npcs_bad := p_npcs_bad x - 1,
                        p_bad_field := (if p_npcs_bad x - 1 = 0 then None
                                        else map_option (\<lambda>f. clear_bit f index) (p_bad_field x))\<rparr>) w) }
              else Some w);
       let w2 = upd_peer p (\<lambda>x. x\<lparr>p_suspicion := 0\<rparr>) w1;
       if PF_SUSPECT \<in> pf w2 p
       then do {
         let w3 = clr_flag PF_SUSPECT p w2;
         w4 \<leftarrow> (if p_nwant x > 0
                then do { guard_opt (PF_I_WANT \<in> pf w3 p); peer_send_new p (nb_create_interest w3) }
                else Some w3);
         if peer_leech_ok w4 p then dl_on_download p w4 else Some w4 }
       else Some w2 }"

definition good_if_alive :: "nat \<Rightarrow> pid \<Rightarrow> world \<Rightarrow> world option" where
  "good_if_alive i m w = (if mp_alive w m then peer_good_piece m i w else Some w)"

text \<open>A record of an earlier, bad log is guilty if one of its blocks hashes differently now.\<close>

definition record_guilty :: "nat \<Rightarrow> byte list list \<Rightarrow> byte list list \<Rightarrow> blog_record \<Rightarrow> bool" where
  "record_guilty nblocks good bad r =
     list_ex (\<lambda>i. has_bit (blr_down_field r) i \<and> good ! i \<noteq> bad ! i) [0 ..< nblocks]"

definition judge_log :: "tid \<Rightarrow> nat \<Rightarrow> nat \<Rightarrow> byte list list \<Rightarrow> blog \<Rightarrow> world \<Rightarrow> world option" where
  "judge_log t i nblocks good bad w =
     do {
       bh \<leftarrow> bl_hashes bad;
       foreach (bl_records bad) (\<lambda>r v.
         if record_guilty nblocks good bh r then Some (net_ban_peer (blr_mp r) v) else good_if_alive i (blr_mp r) v) w }"

definition piece_log_good :: "tid \<Rightarrow> nat \<Rightarrow> world \<Rightarrow> world option" where
  "piece_log_good t i w =
     do {
       pc \<leftarrow> get_piece t i w;
       case pc_logs pc of
         [] \<Rightarrow> None
       | log # bads \<Rightarrow> do {
           w1 \<leftarrow> foreach (bl_records log) (\<lambda>r. good_if_alive i (blr_mp r)) w;
           if bads = [] then Some w1
           else do {
             w2 \<leftarrow> piece_log_hashes t i w1;
             pc2 \<leftarrow> get_piece t i w2;
             l2 \<leftarrow> q_first (pc_logs pc2);
             good \<leftarrow> bl_hashes l2;
             foreach bads (judge_log t i (pc_nblocks pc) good) w2 } } }"

definition dl_on_ok_piece :: "tid \<Rightarrow> nat \<Rightarrow> world \<Rightarrow> world option" where
  "dl_on_ok_piece t piece w =
     do {
       n \<leftarrow> w_net w t;
       i \<leftarrow> dl_find_piece n piece;
       let (have, w1) = nb_create_have (of_nat i) w;
       w2 \<leftarrow> foreach (n_peers n) (\<lambda>p v. if \<not> peer_has v p i then peer_send p have v else Some v) (nb_hold have w1);
       w3 \<leftarrow> drop_nb have w2;
       w4 \<leftarrow> (if n_endgame n then foreach (n_peers n) (\<lambda>p. peer_unwant p i) w3 else Some w3);
       w5 \<leftarrow> piece_log_good t i w4;
       pc \<leftarrow> get_piece t i w5;
       guard_opt (pc_nreqs pc = 0);
       piece_free t i w5 }"

definition dl_on_bad_piece :: "tid \<Rightarrow> nat \<Rightarrow> world \<Rightarrow> world option" where
  "dl_on_bad_piece t piece w =
     do {
       n \<leftarrow> w_net w t;
       i \<leftarrow> dl_find_piece n piece;
       let w1 = upd_piece t i (\<lambda>pc. pc\<lparr>pc_down_field := foldl clear_bit (pc_down_field pc) [0 ..< pc_nblocks pc],
                    pc_ngot := 0, pc_nbusy := 0\<rparr>) w;
       w2 \<leftarrow> piece_log_bad t i w1;
       if n_endgame n
       then foreach (n_peers n) (\<lambda>p v. if peer_leech_ok v p \<and> peer_requestable v p i
                                        then dl_assign_requests_eg p v else Some v) w2
       else dl_on_piece_unfull t i w2 }"

section \<open>Peers and blocks\<close>

definition dl_on_new_peer :: "pid \<Rightarrow> world \<Rightarrow> world option" where
  "dl_on_new_peer p w = Some w"

text \<open>The counts are unsigned and were raised when the peer announced the pieces.\<close>

definition dl_on_lost_peer :: "pid \<Rightarrow> world \<Rightarrow> world option" where
  "dl_on_lost_peer p w =
     do {
       x \<leftarrow> w_peer w p;
       t \<leftarrow> p_n x;
       tp \<leftarrow> cw_tor w t;
       let w1 = upd_net t (\<lambda>n. n\<lparr>n_piece_count :=
             map (\<lambda>i. if i < tp_npieces tp \<and> peer_has w p i then n_piece_count n ! i - 1 else n_piece_count n ! i)
               [0 ..< length (n_piece_count n)]\<rparr>) w;
       if p_nreqs_out x > 0 then dl_on_undownload p w1 else Some w1 }"

text \<open>The test of a piece, with the handlers of this file while the network side of the torrent is active.\<close>

definition test_piece_dl :: "tid \<Rightarrow> nat \<Rightarrow> world \<Rightarrow> world option" where
  "test_piece_dl t i w =
     cm_test_piece
       (\<lambda>piece v. do { n \<leftarrow> w_net v t; if n_active n then dl_on_ok_piece t piece v else Some v })
       (\<lambda>piece v. do { n \<leftarrow> w_net v t; if n_active n then dl_on_bad_piece t piece v else Some v }) t i w"

text \<open>
  In end game a block is cancelled at the other peers that were asked for it. The second loop
  reads the next element before its body, which may append requests.
\<close>

definition cancel_others :: "tid \<Rightarrow> nat \<Rightarrow> pid \<Rightarrow> u32 \<Rightarrow> net_buf \<Rightarrow> block_request \<Rightarrow> world \<Rightarrow> world option" where
  "cancel_others t i p begin' cancel req w =
     do {
       b \<leftarrow> nb_get_begin (br_msg req);
       if b = begin'
       then do {
         w1 \<leftarrow> (if br_p req \<noteq> p then peer_cancel (br_p req) req cancel w else Some w);
         pc \<leftarrow> get_piece t i w1;
         guard_opt (pc_nreqs pc > 0);
         Some (upd_piece t i (\<lambda>pc. pc\<lparr>pc_nreqs := pc_nreqs pc - 1\<rparr>) w1) }
       else Some w }"

fun release_block :: "nat \<Rightarrow> tid \<Rightarrow> nat \<Rightarrow> u32 \<Rightarrow> block_request option \<Rightarrow> world \<Rightarrow> world option" where
  "release_block k t i begin' None w = Some w"
| "release_block 0 t i begin' (Some req) w = None"
| "release_block (Suc k) t i begin' (Some req) w =
     do {
       pc \<leftarrow> get_piece t i w;
       let next = q_next (pc_reqs pc) req;
       b \<leftarrow> nb_get_begin (br_msg req);
       if b \<noteq> begin' then release_block k t i begin' next w
       else do {
         w1 \<leftarrow> drop_nb (br_msg req) (upd_piece t i (\<lambda>pc. pc\<lparr>pc_reqs := remove_req req (pc_reqs pc)\<rparr>) w);
         w2 \<leftarrow> (if peer_leech_ok w1 (br_p req) then dl_assign_requests_eg (br_p req) w1 else Some w1);
         release_block k t i begin' next w2 } }"

definition block_eg :: "tid \<Rightarrow> nat \<Rightarrow> pid \<Rightarrow> u32 \<Rightarrow> u32 \<Rightarrow> u32 \<Rightarrow> world \<Rightarrow> world option" where
  "block_eg t i p index begin' len w =
     do {
       let (cancel, w1) = nb_create_cancel index begin' len w;
       pc \<leftarrow> get_piece t i w1;
       w2 \<leftarrow> foreach (pc_reqs pc) (cancel_others t i p begin' cancel) (nb_hold cancel w1);
       w3 \<leftarrow> drop_nb cancel w2;
       w4 \<leftarrow> dl_piece_reorder_eg t i w3;
       pc4 \<leftarrow> get_piece t i w4;
       w5 \<leftarrow> release_block ((length (pc_reqs pc4) + 1) * (MAXPIPEDREQUESTS + 1)) t i begin' (q_first (pc_reqs pc4)) w4;
       pc5 \<leftarrow> get_piece t i w5;
       if pc_ngot pc5 = pc_nblocks pc5 then test_piece_dl t i w5 else Some w5 }"

definition dl_on_block :: "pid \<Rightarrow> block_request \<Rightarrow> u32 \<Rightarrow> u32 \<Rightarrow> u32 \<Rightarrow> byte list \<Rightarrow> world \<Rightarrow> world option" where
  "dl_on_block p req index begin' len data w =
     do {
       t \<leftarrow> peer_net w p;
       n \<leftarrow> w_net w t;
       i \<leftarrow> dl_find_piece n (unat index);
       w1 \<leftarrow> piece_log_block t i p (unat begin') w;
       (err, w2) \<leftarrow> cm_put_bytes t (unat index) (unat begin') (take (unat len) data) w1;
       let w3 = upd_piece t i (\<lambda>pc. pc\<lparr>pc_ngot := pc_ngot pc + 1\<rparr>) w2;
       if n_endgame n then block_eg t i p index begin' len w3
       else do {
         w4 \<leftarrow> drop_nb (br_msg req) (upd_piece t i (\<lambda>pc. pc\<lparr>pc_reqs := remove_req req (pc_reqs pc)\<rparr>) w3);
         pc \<leftarrow> get_piece t i w4;
         guard_opt (pc_nreqs pc > 0 \<and> pc_nbusy pc > 0);
         let w5 = upd_piece t i (\<lambda>pc. pc\<lparr>pc_nreqs := pc_nreqs pc - 1,
             pc_down_field := clear_bit (pc_down_field pc) (unat begin' div PIECE_BLOCKLEN), pc_nbusy := pc_nbusy pc - 1\<rparr>) w4;
         w6 \<leftarrow> (if pc_ngot pc = pc_nblocks pc then test_piece_dl t i w5 else Some w5);
         if peer_leech_ok w6 p then map_option snd (dl_assign_requests p w6) else Some w6 } }"

end
