(* ===== verification/PeerOn.thy ===== *)
theory PeerOn
  imports Upload Download
begin

text \<open>
  The handlers of \<^verbatim>\<open>btpd/peer.c\<close> that call the upload and the download component: the life of a peer and
  the messages that arrive from it.
\<close>

section \<open>The end of a peer\<close>

fun drop_all :: "net_buf list \<Rightarrow> world \<Rightarrow> world option" where
  "drop_all [] w = Some w"
| "drop_all (nb # q) w = do { w1 \<leftarrow> drop_nb nb w; drop_all q w1 }"

definition peer_kill :: "pid \<Rightarrow> world \<Rightarrow> world option" where
  "peer_kill p w =
     do {
       x \<leftarrow> w_peer w p;
       w1 \<leftarrow> (if PF_ATTACHED \<in> pf w p
              then do {
                t \<leftarrow> p_n x;
                n \<leftarrow> w_net w t;
                guard_opt (n_npeers n > 0);
                let v = upd_net t (\<lambda>n. n\<lparr>n_peers := q_remove (n_peers n) p, n_npeers := n_npeers n - 1\<rparr>) w;
                if n_active n then do { v1 \<leftarrow> ul_on_lost_peer p v; dl_on_lost_peer p v1 } else Some v }
              else Some (w\<lparr>w_unattached := q_remove (w_unattached w) p\<rparr>));
       let w2 = (if PF_ON_READQ \<in> pf w1 p then w1\<lparr>w_readq := q_remove (w_readq w1) p\<rparr> else w1);
       let w3 = (if PF_ON_WRITEQ \<in> pf w2 p then w2\<lparr>w_writeq := q_remove (w_writeq w2) p\<rparr> else w2);
       x3 \<leftarrow> w_peer w3 p;
       w4 \<leftarrow> drop_all (p_outq x3) w3;
       w5 \<leftarrow> mp_drop p (p_n x3) (upd_mp p (\<lambda>m. m\<lparr>mp_live := False\<rparr>) w4);
       guard_opt (w_npeers w5 > 0);
       Some (w5\<lparr>w_peer := (w_peer w5)(p := None), w_npeers := w_npeers w5 - 1\<rparr>) }"

section \<open>New peers\<close>

text \<open>\<^verbatim>\<open>net_io_cb\<close> is called for reading from the start; a connection that is refused creates no peer.\<close>

definition peer_create_common :: "world \<Rightarrow> pid \<times> world" where
  "peer_create_common w =
     (let p = w_next_pid w;
          x = \<lparr>p_piece_field = [], p_bad_field = None, p_npieces = 0, p_nwant = 0, p_npcs_bad = 0, p_suspicion = 0,
               p_n = None, p_my_reqs = [], p_nreqs_out = 0, p_npiece_msgs = 0, p_outq_off = 0, p_outq = [],
               p_ev = {EV_READ}, p_rate_up = 0, p_rate_dwn = 0, p_count_up = 0, p_count_dwn = 0,
               p_t_created = w_seconds w, p_t_lastwrite = w_seconds w, p_t_wantwrite = 0, p_t_nointerest = w_seconds w,
               p_in = \<lparr>in_msg_len = 0, in_msg_num = 0, in_pc_index = 0, in_pc_begin = 0, in_state = SHAKE_PSTR,
                       in_st_bytes = 28\<rparr>\<rparr>;
          m = \<lparr>mp_live = True, mp_flags = {PF_I_CHOKE, PF_P_CHOKE}, mp_refs = 1, mp_id = replicate 20 0\<rparr>
      in (p, w\<lparr>w_peer := (w_peer w)(p \<mapsto> x), w_mp := (w_mp w)(p \<mapsto> m), w_next_pid := p + 1,
               w_unattached := q_insert_tail (w_unattached w) p, w_npeers := w_npeers w + 1\<rparr>))"

definition peer_create_in :: "world \<Rightarrow> world" where
  "peer_create_in w = (case peer_create_common w of (p, w1) \<Rightarrow> set_flag PF_INCOMING p w1)"

definition peer_create_out :: "tid \<Rightarrow> errno option \<Rightarrow> world \<Rightarrow> world option" where
  "peer_create_out t connect w =
     (if connect \<noteq> None then Some w
      else do {
        let (p, w1) = peer_create_common w;
        tp \<leftarrow> cw_tor w1 t;
        peer_send_new p (nb_create_shake (w_peer_id w1) tp (upd_peer p (\<lambda>x. x\<lparr>p_n := Some t\<rparr>) w1)) })"

section \<open>The handshake is complete\<close>

definition peer_on_shake :: "pid \<Rightarrow> world \<Rightarrow> world option" where
  "peer_on_shake p w =
     do {
       t \<leftarrow> peer_net w p;
       tp \<leftarrow> cw_tor w t;
       m \<leftarrow> w_mp w p;
       let w1 = upd_peer p (\<lambda>x. x\<lparr>p_piece_field := replicate (field_len (tp_npieces tp)) 0\<rparr>) w;
       w2 \<leftarrow> (if cm_pieces tp > 0
              then if cm_pieces tp * 9 < 5 + field_len (tp_npieces tp)
                   then do { r \<leftarrow> nb_create_multihave tp w1; peer_send_new p r }
                   else do {
                     v \<leftarrow> peer_send_new p (nb_create_bitfield tp w1);
                     peer_send_new p (nb_create_bitdata t tp v) }
              else Some w1);
       let w3 = upd_net t (\<lambda>n. n\<lparr>n_mptbl := htbl_insert True (n_mptbl n) (mp_id m, p),
                   n_peers := q_insert_head (n_peers n) p, n_npeers := n_npeers n + 1\<rparr>)
                 (set_flag PF_ATTACHED p (w2\<lparr>w_unattached := q_remove (w_unattached w2) p\<rparr>));
       w4 \<leftarrow> ul_on_new_peer p w3;
       dl_on_new_peer p w4 }"

section \<open>Messages\<close>

text \<open>The pending requests are taken back; every round passes a message or removes it.\<close>

fun unsend_requests :: "nat \<Rightarrow> pid \<Rightarrow> nat \<Rightarrow> world \<Rightarrow> world option" where
  "unsend_requests 0 p i w = Some w"
| "unsend_requests (Suc k) p i w =
     do {
       x \<leftarrow> w_peer w p;
       if i < length (p_outq x)
       then if nb_type (p_outq x ! i) = NB_REQUEST
            then do { (removed, w1) \<leftarrow> peer_unsend p i w; unsend_requests k p (if removed then i else Suc i) w1 }
            else unsend_requests k p (Suc i) w
       else Some w }"

definition peer_on_choke :: "pid \<Rightarrow> world \<Rightarrow> world option" where
  "peer_on_choke p w =
     (if PF_P_CHOKE \<in> pf w p then Some w
      else do {
        w1 \<leftarrow> dl_on_choke p (set_flag PF_P_CHOKE p w);
        x \<leftarrow> w_peer w1 p;
        unsend_requests (length (p_outq x)) p 0 w1 })"

definition peer_on_unchoke :: "pid \<Rightarrow> world \<Rightarrow> world option" where
  "peer_on_unchoke p w =
     (if PF_P_CHOKE \<notin> pf w p then Some w else dl_on_unchoke p (clr_flag PF_P_CHOKE p w))"

definition peer_on_interest :: "pid \<Rightarrow> world \<Rightarrow> world option" where
  "peer_on_interest p w =
     (if PF_P_WANT \<in> pf w p then Some w else ul_on_interest p (set_flag PF_P_WANT p w))"

definition peer_on_uninterest :: "pid \<Rightarrow> world \<Rightarrow> world option" where
  "peer_on_uninterest p w =
     (if PF_P_WANT \<notin> pf w p then Some w
      else ul_on_uninterest p (upd_peer p (\<lambda>x. x\<lparr>p_t_nointerest := w_seconds w\<rparr>) (clr_flag PF_P_WANT p w)))"

text \<open>The index is not compared with the number of pieces; outside of the field there is no bit to set.\<close>

definition peer_on_have :: "pid \<Rightarrow> nat \<Rightarrow> world \<Rightarrow> world option" where
  "peer_on_have p index w =
     do {
       x \<leftarrow> w_peer w p;
       guard_opt (in_field (p_piece_field x) index);
       if \<not> has_bit (p_piece_field x) index
       then dl_on_piece_ann p index (upd_peer p (\<lambda>x. x\<lparr>p_piece_field := set_bit (p_piece_field x) index,
               p_npieces := p_npieces x + 1\<rparr>) w)
       else Some w }"

definition bitfield_piece :: "pid \<Rightarrow> nat \<Rightarrow> world \<Rightarrow> world option" where
  "bitfield_piece p i w =
     (if peer_has w p i then dl_on_piece_ann p i (upd_peer p (\<lambda>x. x\<lparr>p_npieces := p_npieces x + 1\<rparr>) w) else Some w)"

definition peer_on_bitfield :: "pid \<Rightarrow> byte list \<Rightarrow> world \<Rightarrow> world option" where
  "peer_on_bitfield p field w =
     do {
       x \<leftarrow> w_peer w p;
       guard_opt (p_npieces x = 0);
       tp \<leftarrow> peer_tp w p;
       guard_opt (field_len (tp_npieces tp) \<le> length field);
       foreach [0 ..< tp_npieces tp] (bitfield_piece p)
         (upd_peer p (\<lambda>x. x\<lparr>p_piece_field := take (field_len (tp_npieces tp)) field\<rparr>) w) }"

definition req_matches :: "u32 \<Rightarrow> u32 \<Rightarrow> u32 \<Rightarrow> block_request \<Rightarrow> bool" where
  "req_matches index begin' len req \<longleftrightarrow> nb_get_begin (br_msg req) = Some begin' \<and>
     nb_get_index (br_msg req) = Some index \<and> nb_get_length (br_msg req) = Some len"

definition peer_on_piece :: "pid \<Rightarrow> u32 \<Rightarrow> u32 \<Rightarrow> u32 \<Rightarrow> byte list \<Rightarrow> world \<Rightarrow> world option" where
  "peer_on_piece p index begin' len data w =
     do {
       x \<leftarrow> w_peer w p;
       case List.find (req_matches index begin' len) (p_my_reqs x) of
         None \<Rightarrow> Some w
       | Some req \<Rightarrow> do {
           guard_opt (p_nreqs_out x > 0);
           let w1 = upd_peer p (\<lambda>x. x\<lparr>p_nreqs_out := p_nreqs_out x - 1, p_my_reqs := remove_req req (p_my_reqs x)\<rparr>) w;
           w2 \<leftarrow> (if p_nreqs_out x - 1 = 0 then peer_on_no_reqs p w1 else Some w1);
           dl_on_block p req index begin' len data w2 } }"

definition peer_on_request :: "pid \<Rightarrow> u32 \<Rightarrow> u32 \<Rightarrow> u32 \<Rightarrow> world \<Rightarrow> world option" where
  "peer_on_request p index begin' len w =
     (if PF_NO_REQUESTS \<notin> pf w p
      then do {
        w1 \<leftarrow> peer_send_new p (nb_create_piece index begin' len w);
        w2 \<leftarrow> peer_send_new p (nb_create_torrentdata w1);
        let w3 = upd_peer p (\<lambda>x. x\<lparr>p_npiece_msgs := p_npiece_msgs x + 1\<rparr>) w2;
        x \<leftarrow> w_peer w3 p;
        if p_npiece_msgs x \<ge> MAXPIECEMSGS
        then do {
          w4 \<leftarrow> peer_send_new p (nb_create_choke w3);
          w5 \<leftarrow> peer_send_new p (nb_create_unchoke w4);
          Some (set_flag PF_NO_REQUESTS p w5) }
        else Some w3 }
      else Some w)"

definition is_block_msg :: "u32 \<Rightarrow> u32 \<Rightarrow> u32 \<Rightarrow> net_buf \<Rightarrow> bool" where
  "is_block_msg index begin' len nb \<longleftrightarrow> nb_type nb = NB_PIECE \<and> nb_get_begin nb = Some begin' \<and>
     nb_get_index nb = Some index \<and> nb_get_length nb = Some len"

fun index_where :: "('a \<Rightarrow> bool) \<Rightarrow> 'a list \<Rightarrow> nat option" where
  "index_where P [] = None"
| "index_where P (x # xs) = (if P x then Some 0 else map_option Suc (index_where P xs))"

definition peer_on_cancel :: "pid \<Rightarrow> u32 \<Rightarrow> u32 \<Rightarrow> u32 \<Rightarrow> world \<Rightarrow> world option" where
  "peer_on_cancel p index begin' len w =
     do {
       x \<leftarrow> w_peer w p;
       case index_where (is_block_msg index begin' len) (p_outq x) of
         None \<Rightarrow> Some w
       | Some i \<Rightarrow> do {
           (removed, w1) \<leftarrow> peer_unsend p i w;
           if removed then map_option snd (peer_unsend p i w1) else Some w1 } }"

text \<open>The tick of a peer; the branches that end it are the same call.\<close>

definition peer_on_tick :: "pid \<Rightarrow> world \<Rightarrow> world option" where
  "peer_on_tick p w =
     do {
       x \<leftarrow> w_peer w p;
       if PF_BANNED \<in> pf w p then peer_kill p w
       else if PF_ATTACHED \<in> pf w p
       then if p_outq x \<noteq> [] \<and> w_seconds w - p_t_wantwrite x \<ge> 60 then peer_kill p w
            else do {
              w1 \<leftarrow> (if p_outq x = [] \<and> w_seconds w - p_t_lastwrite x \<ge> 120 then peer_keepalive p w else Some w);
              tp \<leftarrow> peer_tp w1 p;
              if cm_full tp \<and> PF_P_WANT \<notin> pf w1 p \<and> w_seconds w - p_t_nointerest x \<ge> 600 then peer_kill p w1
              else Some w1 }
       else if w_seconds w - p_t_created x \<ge> 60 then peer_kill p w
       else Some w }"

end
