(* ===== verification/Net.thy ===== *)
theory Net
  imports PeerOn Sample
begin

text \<open>
  \<^verbatim>\<open>btpd/net.c\<close>: reading and writing of the peer connections, the message parser, rates, bandwidth
  limits and ticks. What the kernel answers to \<^verbatim>\<open>readv\<close> and \<^verbatim>\<open>writev\<close> is a parameter: a function of
  the state, the peer and the request.
\<close>

record net_io =
  io_read :: "world \<Rightarrow> pid \<Rightarrow> nat \<Rightarrow> errno + byte list"
  io_write :: "world \<Rightarrow> pid \<Rightarrow> byte list list \<Rightarrow> errno + nat"

section \<open>Writing\<close>

definition IOV_MAX :: nat where "IOV_MAX = 1024"

definition BLOCK_MEM_COUNT :: nat where "BLOCK_MEM_COUNT = 1"

text \<open>The bytes of a message at the time it is written.\<close>

definition nb_bytes :: "world \<Rightarrow> net_buf \<Rightarrow> byte list" where
  "nb_bytes w nb =
     (case nb_buf nb of
        Null_Buf \<Rightarrow> []
      | Own_Buf bs \<Rightarrow> bs
      | Piece_Field t \<Rightarrow> (case cw_tor w t of None \<Rightarrow> [] | Some tp \<Rightarrow> take (nb_len nb) (cm_get_piece_field tp)))"

text \<open>
  The data of a block message is read from disk when its turn comes. The result is \<open>Inr\<close> with the counter, or
  \<open>Inl\<close> when the peer has to go.
\<close>

definition fill_block :: "pid \<Rightarrow> nat \<Rightarrow> world \<Rightarrow> (bool \<times> world) option" where
  "fill_block p i w =
     do {
       x \<leftarrow> w_peer w p;
       guard_opt (Suc i < length (p_outq x));
       let nb = p_outq x ! i;
       let tdata = p_outq x ! Suc i;
       if nb_buf tdata = Null_Buf
       then do {
         t \<leftarrow> p_n x;
         idx \<leftarrow> nb_get_index nb;
         b \<leftarrow> nb_get_begin nb;
         l \<leftarrow> nb_get_length nb;
         (r, w1) \<leftarrow> nb_torrentdata_fill tdata t idx b l w;
         case r of
           Inl err \<Rightarrow> Some (False, w1)
         | Inr nb' \<Rightarrow> Some (True, upd_peer p (\<lambda>x. x\<lparr>p_outq := (p_outq x)[Suc i := nb']\<rparr>) w1) }
       else Some (True, w) }"

text \<open>The vector of what is offered to the kernel; \<open>None\<close> inside means that the peer has to go.\<close>

fun net_gather :: "nat \<Rightarrow> pid \<Rightarrow> bool \<Rightarrow> nat \<Rightarrow> nat \<Rightarrow> nat \<Rightarrow> byte list list \<Rightarrow> world \<Rightarrow> (byte list list option \<times> world) option" where
  "net_gather 0 p limited wmax i blocks iov w = Some (Some iov, w)"
| "net_gather (Suc k) p limited wmax i blocks iov w =
     do {
       x \<leftarrow> w_peer w p;
       if i < length (p_outq x) \<and> (\<not> limited \<or> wmax > 0)
       then if nb_type (p_outq x ! i) = NB_PIECE \<and> blocks \<ge> BLOCK_MEM_COUNT then Some (Some iov, w)
            else do {
              (ok, w1) \<leftarrow> (if nb_type (p_outq x ! i) = NB_PIECE then fill_block p i w else Some (True, w));
              if \<not> ok then Some (None, w1)
              else do {
                let bs = drop (if i > 0 then 0 else p_outq_off x) (nb_bytes w1 (p_outq x ! i));
                let v = (if limited then take wmax bs else bs);
                net_gather k p limited (wmax - length v) (Suc i)
                  (if nb_type (p_outq x ! i) = NB_PIECE then blocks + 1 else blocks) (iov @ [v]) w1 } }
       else Some (Some iov, w) }"

text \<open>What was written leaves the queue.\<close>

fun net_drain :: "nat \<Rightarrow> pid \<Rightarrow> nat \<Rightarrow> world \<Rightarrow> world option" where
  "net_drain 0 p bcount w = (if bcount > 0 then None else Some w)"
| "net_drain (Suc k) p bcount w =
     (if bcount > 0
      then do {
        x \<leftarrow> w_peer w p;
        nb \<leftarrow> q_first (p_outq x);
        let bufdelta = nb_len nb - p_outq_off x;
        if bcount \<ge> bufdelta
        then do {
          w1 \<leftarrow> peer_sent p nb w;
          w2 \<leftarrow> (if nb_type nb = NB_TORRENTDATA
                 then do { t \<leftarrow> p_n x; Some (upd_peer p (\<lambda>x. x\<lparr>p_count_up := p_count_up x + bufdelta\<rparr>)
                             (upd_net t (\<lambda>n. n\<lparr>n_uploaded := n_uploaded n + bufdelta\<rparr>) w1)) }
                 else Some w1);
          w3 \<leftarrow> drop_nb nb (upd_peer p (\<lambda>x. x\<lparr>p_outq := tl (p_outq x), p_outq_off := 0\<rparr>) w2);
          net_drain k p (bcount - bufdelta) w3 }
        else do {
          w1 \<leftarrow> (if nb_type nb = NB_TORRENTDATA
                 then do { t \<leftarrow> p_n x; Some (upd_peer p (\<lambda>x. x\<lparr>p_count_up := p_count_up x + bcount\<rparr>)
                             (upd_net t (\<lambda>n. n\<lparr>n_uploaded := n_uploaded n + bcount\<rparr>) w)) }
                 else Some w);
          Some (upd_peer p (\<lambda>x. x\<lparr>p_outq_off := p_outq_off x + bcount\<rparr>) w1) } }
      else Some w)"

definition net_write :: "net_io \<Rightarrow> pid \<Rightarrow> nat \<Rightarrow> world \<Rightarrow> (nat \<times> world) option" where
  "net_write io p wmax w =
     do {
       x \<leftarrow> w_peer w p;
       nl \<leftarrow> q_first (p_outq x);
       let limited = wmax > 0;
       (r, w1) \<leftarrow> net_gather IOV_MAX p limited wmax 0 (if nb_type nl = NB_TORRENTDATA then 1 else 0) [] w;
       case r of
         None \<Rightarrow> do { w2 \<leftarrow> peer_kill p w1; Some (0, w2) }
       | Some iov \<Rightarrow>
           (case io_write io w1 p iov of
              Inl e \<Rightarrow>
                if e = EAGAIN then Some (0, upd_peer p (\<lambda>x. x\<lparr>p_t_wantwrite := w_seconds w1\<rparr>) w1)
                else do { w2 \<leftarrow> peer_kill p w1; Some (0, w2) }
            | Inr n \<Rightarrow>
                if n = 0 then do { w2 \<leftarrow> peer_kill p w1; Some (0, w2) }
                else do {
                  x1 \<leftarrow> w_peer w1 p;
                  w2 \<leftarrow> net_drain (length (p_outq x1) + 1) p n w1;
                  x2 \<leftarrow> w_peer w2 p;
                  let w3 = (if p_outq x2 \<noteq> [] then upd_peer p (\<lambda>x. x\<lparr>p_t_wantwrite := w_seconds w2\<rparr>) w2
                            else ev_disable EV_WRITE p w2);
                  Some (n, upd_peer p (\<lambda>x. x\<lparr>p_t_lastwrite := w_seconds w3\<rparr>) w3) }) }"

section \<open>Messages\<close>

definition torrent_by_hash :: "world \<Rightarrow> byte list \<Rightarrow> tid option" where
  "torrent_by_hash w h = List.find (\<lambda>t. map_option tp_hash (cw_tor w t) = Some h) (w_torrents w)"

definition net_active :: "world \<Rightarrow> tid \<Rightarrow> bool" where
  "net_active w t = (case w_net w t of None \<Rightarrow> False | Some n \<Rightarrow> n_active n)"

definition net_torrent_has_peer :: "world \<Rightarrow> tid \<Rightarrow> byte list \<Rightarrow> bool" where
  "net_torrent_has_peer w t pid =
     (case w_net w t of None \<Rightarrow> False | Some n \<Rightarrow> htbl_find (n_mptbl n) pid \<noteq> None)"

text \<open>The limits of a request; the sum of begin and length is a 32 bit number.\<close>

definition bad_request :: "torrent \<Rightarrow> u32 \<Rightarrow> u32 \<Rightarrow> u32 \<Rightarrow> bool" where
  "bad_request tp index begin' len \<longleftrightarrow>
     unat len > PIECE_BLOCKLEN \<or> unat index \<ge> tp_npieces tp \<or> \<not> cm_has_piece tp (unat index) \<or>
     unat (begin' + len) > torrent_piece_size tp (unat index)"

definition good :: "world option \<Rightarrow> (bool \<times> world) option" where
  "good r = map_option (Pair True) r"

text \<open>The result is \<open>False\<close> for a message that ends the connection.\<close>

definition net_dispatch_msg :: "pid \<Rightarrow> byte list \<Rightarrow> world \<Rightarrow> (bool \<times> world) option" where
  "net_dispatch_msg p buf w =
     do {
       x \<leftarrow> w_peer w p;
       let num = in_msg_num (p_in x);
       if num = MSG_CHOKE then good (peer_on_choke p w)
       else if num = MSG_UNCHOKE then good (peer_on_unchoke p w)
       else if num = MSG_INTEREST then good (peer_on_interest p w)
       else if num = MSG_UNINTEREST then good (peer_on_uninterest p w)
       else if num = MSG_HAVE then do { i \<leftarrow> dec_be32 buf; good (peer_on_have p (unat i) w) }
       else if num = MSG_BITFIELD
       then if p_npieces x = 0 then good (peer_on_bitfield p buf w) else Some (False, w)
       else if num = MSG_REQUEST
       then if pf w p \<inter> {PF_P_WANT, PF_I_CHOKE} = {PF_P_WANT}
            then do {
              index \<leftarrow> dec_be32 buf;
              begin' \<leftarrow> dec_be32 (drop 4 buf);
              len \<leftarrow> dec_be32 (drop 8 buf);
              tp \<leftarrow> peer_tp w p;
              if bad_request tp index begin' len then Some (False, w)
              else good (peer_on_request p index begin' len w) }
            else Some (True, w)
       else if num = MSG_CANCEL
       then do {
         index \<leftarrow> dec_be32 buf;
         begin' \<leftarrow> dec_be32 (drop 4 buf);
         len \<leftarrow> dec_be32 (drop 8 buf);
         good (peer_on_cancel p index begin' len w) }
       else if num = MSG_PIECE
       then good (peer_on_piece p (in_pc_index (p_in x)) (in_pc_begin (p_in x)) (in_msg_len (p_in x) - 9) buf w)
       else None }"

text \<open>The length that the number of a message allows; a block has no lower bound.\<close>

definition net_mh_ok :: "nat \<Rightarrow> byte \<Rightarrow> u32 \<Rightarrow> bool" where
  "net_mh_ok npieces num mlen =
     (if num \<in> {MSG_CHOKE, MSG_UNCHOKE, MSG_INTEREST, MSG_UNINTEREST} then mlen = 1
      else if num = MSG_HAVE then mlen = 5
      else if num = MSG_BITFIELD then mlen = of_nat (field_len npieces) + 1
      else if num \<in> {MSG_REQUEST, MSG_CANCEL} then mlen = 13
      else if num = MSG_PIECE then unat mlen \<le> PIECE_BLOCKLEN + 9
      else False)"

definition net_progress :: "pid \<Rightarrow> nat \<Rightarrow> world \<Rightarrow> world option" where
  "net_progress p len w =
     do {
       x \<leftarrow> w_peer w p;
       if in_state (p_in x) = BTP_MSGBODY \<and> in_msg_num (p_in x) = MSG_PIECE
       then do { t \<leftarrow> p_n x; Some (upd_peer p (\<lambda>x. x\<lparr>p_count_dwn := p_count_dwn x + len\<rparr>)
              (upd_net t (\<lambda>n. n\<lparr>n_downloaded := n_downloaded n + len\<rparr>) w)) }
       else Some w }"

text \<open>One unit of input is complete. The result is whether the peer is still there; \<open>net_step\<close> is what
  happens before a bad unit ends the connection.\<close>

definition net_step :: "pid \<Rightarrow> byte list \<Rightarrow> world \<Rightarrow> (bool \<times> world) option" where
  "net_step p buf w =
     do {
       x \<leftarrow> w_peer w p;
       case in_state (p_in x) of
         SHAKE_PSTR \<Rightarrow>
           if take 20 buf \<noteq> pstr then Some (False, w) else Some (True, peer_set_in_state p SHAKE_INFO 20 w)
       | SHAKE_INFO \<Rightarrow>
           if PF_INCOMING \<in> pf w p
           then (case torrent_by_hash w (take 20 buf) of
                   None \<Rightarrow> Some (False, w)
                 | Some t \<Rightarrow>
                     if \<not> net_active w t then Some (False, w)
                     else do {
                       tp \<leftarrow> cw_tor w t;
                       w1 \<leftarrow> peer_send_new p (nb_create_shake (w_peer_id w) tp (upd_peer p (\<lambda>x. x\<lparr>p_n := Some t\<rparr>) w));
                       Some (True, peer_set_in_state p SHAKE_ID 20 w1) })
           else do {
             tp \<leftarrow> peer_tp w p;
             if take 20 buf \<noteq> tp_hash tp then Some (False, w) else Some (True, peer_set_in_state p SHAKE_ID 20 w) }
       | SHAKE_ID \<Rightarrow> do {
           t \<leftarrow> p_n x;
           if net_torrent_has_peer w t (take 20 buf) \<or> take 20 buf = w_peer_id w then Some (False, w)
           else do {
             w1 \<leftarrow> peer_on_shake p (upd_mp p (\<lambda>m. m\<lparr>mp_id := take 20 buf\<rparr>) w);
             Some (True, peer_set_in_state p BTP_MSGSIZE 4 w1) } }
       | BTP_MSGSIZE \<Rightarrow> do {
           len \<leftarrow> dec_be32 buf;
           let w1 = upd_peer p (\<lambda>x. x\<lparr>p_in := (p_in x)\<lparr>in_msg_len := len\<rparr>\<rparr>) w;
           if len = 0 then Some (True, w1) else Some (True, peer_set_in_state p BTP_MSGHEAD 1 w1) }
       | BTP_MSGHEAD \<Rightarrow> do {
           tp \<leftarrow> peer_tp w p;
           num \<leftarrow> q_first buf;
           let w1 = upd_peer p (\<lambda>x. x\<lparr>p_in := (p_in x)\<lparr>in_msg_num := num\<rparr>\<rparr>) w;
           let mlen = in_msg_len (p_in x);
           if \<not> net_mh_ok (tp_npieces tp) num mlen then Some (False, w1)
           else if mlen = 1
           then do {
             (ok, w2) \<leftarrow> net_dispatch_msg p buf w1;
             if ok then Some (True, peer_set_in_state p BTP_MSGSIZE 4 w2) else Some (False, w2) }
           else if num = MSG_PIECE then Some (True, peer_set_in_state p BTP_PIECEMETA 8 w1)
           else Some (True, peer_set_in_state p BTP_MSGBODY (unat (mlen - 1)) w1) }
       | BTP_PIECEMETA \<Rightarrow> do {
           i \<leftarrow> dec_be32 buf;
           b \<leftarrow> dec_be32 (drop 4 buf);
           let w1 = upd_peer p (\<lambda>x. x\<lparr>p_in := (p_in x)\<lparr>in_pc_index := i, in_pc_begin := b\<rparr>\<rparr>) w;
           Some (True, peer_set_in_state p BTP_MSGBODY (unat (in_msg_len (p_in x) - 9)) w1) }
       | BTP_MSGBODY \<Rightarrow> do {
           (ok, w1) \<leftarrow> net_dispatch_msg p buf w;
           if ok then Some (True, peer_set_in_state p BTP_MSGSIZE 4 w1) else Some (False, w1) } }"

definition net_state :: "pid \<Rightarrow> byte list \<Rightarrow> world \<Rightarrow> (bool \<times> world) option" where
  "net_state p buf w =
     do {
       (ok, w1) \<leftarrow> net_step p buf w;
       if ok then Some (True, w1) else do { w2 \<leftarrow> peer_kill p w1; Some (False, w2) } }"

section \<open>Reading\<close>

definition GRBUFLEN :: nat where "GRBUFLEN = 32768"

text \<open>
  The units that are complete in the buffer; a handler gets the bytes of its unit, and none looks behind
  them. The result is what is left, or \<open>None\<close> when the peer was killed.
\<close>

partial_function (option) net_units :: "pid \<Rightarrow> byte list \<Rightarrow> world \<Rightarrow> (byte list option \<times> world) option" where
  "net_units p data w =
     do {
       x \<leftarrow> w_peer w p;
       let consumed = in_st_bytes (p_in x);
       if consumed \<le> length data
       then do {
         w1 \<leftarrow> net_progress p consumed w;
         (ok, w2) \<leftarrow> net_state p (take consumed data) w1;
         if \<not> ok then Some (None, w2) else net_units p (drop consumed data) w2 }
       else Some (Some data, w) }"

definition net_rest :: "pid \<Rightarrow> byte list \<Rightarrow> world \<Rightarrow> (byte list option \<times> world) option" where
  "net_rest p data w =
     do {
       (r, w1) \<leftarrow> net_units p data w;
       case r of
         None \<Rightarrow> Some (None, w1)
       | Some rest \<Rightarrow>
           if rest \<noteq> [] then do { w2 \<leftarrow> net_progress p (length rest) w1; Some (Some rest, w2) }
           else Some (Some [], w1) }"

text \<open>
  What is done with the bytes of one \<^verbatim>\<open>readv\<close>: first the unit that was begun, of which \<open>kept\<close> is there,
  then the others. The result is what is kept now.
\<close>

definition net_feed :: "pid \<Rightarrow> byte list \<Rightarrow> byte list \<Rightarrow> world \<Rightarrow> (byte list option \<times> world) option" where
  "net_feed p kept data w =
     do {
       x \<leftarrow> w_peer w p;
       let rest = (if kept \<noteq> [] then in_st_bytes (p_in x) - length kept else 0);
       if rest = 0 then net_rest p data w
       else if length data < rest
       then do { w1 \<leftarrow> net_progress p (length data) w; Some (Some (kept @ data), w1) }
       else do {
         w1 \<leftarrow> net_progress p rest w;
         (ok, w2) \<leftarrow> net_state p (kept @ take rest data) w1;
         if \<not> ok then Some (None, w2) else net_rest p (drop rest data) w2 } }"

definition read_room :: "input \<Rightarrow> byte list \<Rightarrow> nat \<Rightarrow> nat" where
  "read_room inp kept rmax =
     (let rest = (if kept \<noteq> [] then in_st_bytes inp - length kept else 0) in
      if rmax > 0 then min rest rmax + min (rmax - min rest rmax) GRBUFLEN else rest + GRBUFLEN)"

text \<open>The state with the bytes that are kept for each peer.\<close>

type_synonym net_world = "(pid \<Rightarrow> byte list) \<times> world"

definition kill_in :: "pid \<Rightarrow> net_world \<Rightarrow> (nat \<times> net_world) option" where
  "kill_in p s = do { w1 \<leftarrow> peer_kill p (snd s); Some (0, (fst s)(p := []), w1) }"

definition net_read :: "net_io \<Rightarrow> pid \<Rightarrow> nat \<Rightarrow> net_world \<Rightarrow> (nat \<times> net_world) option" where
  "net_read io p rmax s =
     (case s of (ib, w) \<Rightarrow>
        do {
          x \<leftarrow> w_peer w p;
          case io_read io w p (read_room (p_in x) (ib p) rmax) of
            Inl e \<Rightarrow> if e = EAGAIN then Some (0, s) else kill_in p s
          | Inr data \<Rightarrow>
              if data = [] then kill_in p s
              else do {
                (r, w1) \<leftarrow> net_feed p (ib p) data w;
                Some (length data, ib(p := (case r of None \<Rightarrow> [] | Some k \<Rightarrow> k)), w1) } })"

section \<open>Rates\<close>

definition RATEHISTORY :: nat where "RATEHISTORY = 20"

definition compute_rate_sub :: "nat \<Rightarrow> nat" where
  "compute_rate_sub rate = (if rate > 256 * RATEHISTORY then rate div RATEHISTORY else min 256 rate)"

text \<open>What one peer adds to the sums of its torrent.\<close>

definition peer_rates :: "world \<Rightarrow> pid \<Rightarrow> (nat \<times> nat) \<times> (peer \<Rightarrow> peer)" where
  "peer_rates w p =
     (case w_peer w p of
        None \<Rightarrow> ((0, 0), id)
      | Some x \<Rightarrow>
          (let up = (p_count_up x > 0 \<or> peer_active_up w p); dwn = (p_count_dwn x > 0 \<or> peer_active_down w p) in
           ((if up then p_count_up x else 0, if dwn then p_count_dwn x else 0),
            \<lambda>x. let x1 = (if up then x\<lparr>p_rate_up := p_rate_up x + p_count_up x - compute_rate_sub (p_rate_up x), p_count_up := 0\<rparr> else x)
                in if dwn then x1\<lparr>p_rate_dwn := p_rate_dwn x1 + p_count_dwn x1 - compute_rate_sub (p_rate_dwn x1), p_count_dwn := 0\<rparr> else x1)))"

fun rates_peers :: "pid list \<Rightarrow> nat \<Rightarrow> nat \<Rightarrow> world \<Rightarrow> nat \<times> nat \<times> world" where
  "rates_peers [] up dwn w = (up, dwn, w)"
| "rates_peers (p # q) up dwn w =
     (case peer_rates w p of ((u, d), f) \<Rightarrow> rates_peers q (up + u) (dwn + d) (upd_peer p f w))"

fun rates_torrents :: "tid list \<Rightarrow> nat \<Rightarrow> nat \<Rightarrow> world \<Rightarrow> (nat \<times> nat \<times> world) option" where
  "rates_torrents [] up dwn w = Some (up, dwn, w)"
| "rates_torrents (t # ts) up dwn w =
     do {
       n \<leftarrow> w_net w t;
       let (u, d, w1) = rates_peers (n_peers n) 0 0 w;
       rates_torrents ts (up + u) (dwn + d) (upd_net t (\<lambda>n. n\<lparr>n_rate_up := n_rate_up n + u - compute_rate_sub (n_rate_up n),
          n_rate_dwn := n_rate_dwn n + d - compute_rate_sub (n_rate_dwn n)\<rparr>) w1) }"

definition compute_rates :: "world \<Rightarrow> world option" where
  "compute_rates w =
     do {
       (up, dwn, w1) \<leftarrow> rates_torrents (w_torrents w) 0 0 w;
       Some (w1\<lparr>w_rate_up := w_rate_up w1 + up - compute_rate_sub (w_rate_up w1),
                w_rate_dwn := w_rate_dwn w1 + dwn - compute_rate_sub (w_rate_dwn w1)\<rparr>) }"

section \<open>Bandwidth\<close>

text \<open>Peers that waited for bandwidth go on, while some is left; without a limit all of them do.\<close>

fun serve_readq :: "nat \<Rightarrow> net_io \<Rightarrow> net_world \<Rightarrow> net_world option" where
  "serve_readq 0 io s = Some s"
| "serve_readq (Suc k) io s =
     (case s of (ib, w) \<Rightarrow>
        (case w_readq w of
           [] \<Rightarrow> Some s
         | p # q \<Rightarrow>
             if w_limit_in w > 0 \<and> w_bw_in w = 0 then Some s
             else do {
               let w1 = clr_flag PF_ON_READQ p (ev_enable EV_READ p (w\<lparr>w_readq := q\<rparr>));
               (n, ib2, w2) \<leftarrow> net_read io p (if w_limit_in w > 0 then w_bw_in w else 0) (ib, w1);
               serve_readq k io (ib2, if w_limit_in w > 0 then w2\<lparr>w_bw_in := w_bw_in w2 - n\<rparr> else w2) }))"

fun serve_writeq :: "nat \<Rightarrow> net_io \<Rightarrow> world \<Rightarrow> world option" where
  "serve_writeq 0 io w = Some w"
| "serve_writeq (Suc k) io w =
     (case w_writeq w of
        [] \<Rightarrow> Some w
      | p # q \<Rightarrow>
          if w_limit_out w > 0 \<and> w_bw_out w = 0 then Some w
          else do {
            let w1 = clr_flag PF_ON_WRITEQ p (ev_enable EV_WRITE p (w\<lparr>w_writeq := q\<rparr>));
            (n, w2) \<leftarrow> net_write io p (if w_limit_out w > 0 then w_bw_out w else 0) w1;
            serve_writeq k io (if w_limit_out w > 0 then w2\<lparr>w_bw_out := w_bw_out w2 - n\<rparr> else w2) })"

definition net_bw_tick :: "net_io \<Rightarrow> net_world \<Rightarrow> net_world option" where
  "net_bw_tick io s =
     do {
       let w1 = (snd s)\<lparr>w_bw_out := w_limit_out (snd s), w_bw_in := w_limit_in (snd s)\<rparr>;
       (ib2, w2) \<leftarrow> serve_readq (length (w_readq w1)) io (fst s, w1);
       w3 \<leftarrow> serve_writeq (length (w_writeq w2)) io w2;
       Some (ib2, w3) }"

definition net_read_cb :: "net_io \<Rightarrow> pid \<Rightarrow> net_world \<Rightarrow> net_world option" where
  "net_read_cb io p s =
     (let w = snd s in
      if w_limit_in w = 0 then map_option snd (net_read io p 0 s)
      else if w_bw_in w > 0
      then do { (n, ib1, w1) \<leftarrow> net_read io p (w_bw_in w) s; Some (ib1, w1\<lparr>w_bw_in := w_bw_in w1 - n\<rparr>) }
      else Some (fst s, (set_flag PF_ON_READQ p (ev_disable EV_READ p w))\<lparr>w_readq := q_insert_tail (w_readq w) p\<rparr>))"

definition net_write_cb :: "net_io \<Rightarrow> pid \<Rightarrow> world \<Rightarrow> world option" where
  "net_write_cb io p w =
     (if w_limit_out w = 0 then map_option snd (net_write io p 0 w)
      else if w_bw_out w > 0
      then do { (n, w1) \<leftarrow> net_write io p (w_bw_out w) w; Some (w1\<lparr>w_bw_out := w_bw_out w1 - n\<rparr>) }
      else Some ((set_flag PF_ON_WRITEQ p (ev_disable EV_WRITE p w))\<lparr>w_writeq := q_insert_tail (w_writeq w) p\<rparr>))"

definition net_io_cb :: "net_io \<Rightarrow> ev \<Rightarrow> pid \<Rightarrow> net_world \<Rightarrow> net_world option" where
  "net_io_cb io e p s =
     (case e of
        EV_READ \<Rightarrow> net_read_cb io p s
      | EV_WRITE \<Rightarrow> do { w1 \<leftarrow> net_write_cb io p (snd s); Some (fst s, w1) })"

section \<open>Connections, ticks and torrents\<close>

text \<open>\<open>accept\<close>: the connection was accepted and made non-blocking.\<close>

definition net_connection_cb :: "bool \<Rightarrow> world \<Rightarrow> world option" where
  "net_connection_cb accepted w =
     (if \<not> accepted then Some w
      else do {
        guard_opt (w_npeers w \<le> w_opt_max_peers w);
        Some (if w_npeers w = w_opt_max_peers w then w else peer_create_in w) })"

definition run_peer_ticks :: "world \<Rightarrow> world option" where
  "run_peer_ticks w =
     do {
       w1 \<leftarrow> foreach (w_unattached w) peer_on_tick w;
       foreach (w_torrents w1) (\<lambda>t v. do { n \<leftarrow> w_net v t; foreach (n_peers n) peer_on_tick v }) w1 }"

definition net_on_tick :: "net_io \<Rightarrow> net_world \<Rightarrow> net_world option" where
  "net_on_tick io s = do { w1 \<leftarrow> run_peer_ticks (snd s); w2 \<leftarrow> compute_rates w1; net_bw_tick io (fst s, w2) }"

definition net_create :: "tid \<Rightarrow> (byte list \<Rightarrow> byte list \<Rightarrow> bool) \<Rightarrow> (byte list \<Rightarrow> u32) \<Rightarrow> world \<Rightarrow> world option" where
  "net_create t id_eq id_hash w =
     do {
       tp \<leftarrow> cw_tor w t;
       tbl \<leftarrow> htbl_create True 3 id_eq id_hash fst;
       Some (w\<lparr>w_net := (w_net w)(t \<mapsto> \<lparr>n_active = False, n_endgame = False,
          n_busy_field = replicate (field_len (tp_npieces tp)) 0, n_npcs_busy = 0,
          n_piece_count = replicate (tp_npieces tp) 0, n_getlst = [], n_piece = (\<lambda>_. None),
          n_rate_up = 0, n_rate_dwn = 0, n_uploaded = 0, n_downloaded = 0, n_npeers = 0, n_peers = [], n_mptbl = tbl\<rparr>)\<rparr>) }"

definition net_start :: "tid \<Rightarrow> world \<Rightarrow> world" where
  "net_start t w = upd_net t (\<lambda>n. n\<lparr>n_active := True\<rparr>) w"

fun free_pieces :: "nat \<Rightarrow> tid \<Rightarrow> world \<Rightarrow> world option" where
  "free_pieces k t w =
     do {
       n \<leftarrow> w_net w t;
       case n_getlst n of
         [] \<Rightarrow> Some w
       | i # q \<Rightarrow> (case k of 0 \<Rightarrow> None | Suc k' \<Rightarrow> do { w1 \<leftarrow> piece_free t i w; free_pieces k' t w1 }) }"

declare free_pieces.simps [simp del]

definition net_stop :: "tid \<Rightarrow> world \<Rightarrow> world option" where
  "net_stop t w =
     do {
       n \<leftarrow> w_net w t;
       w1 \<leftarrow> ul_on_lost_torrent t (upd_net t (\<lambda>n. n\<lparr>n_active := False, n_rate_up := 0, n_rate_dwn := 0\<rparr>) w);
       w2 \<leftarrow> free_pieces (length (n_getlst n)) t w1;
       w3 \<leftarrow> foreach (w_unattached w2) (\<lambda>p v. do { x \<leftarrow> w_peer v p; if p_n x = Some t then peer_kill p v else Some v }) w2;
       n3 \<leftarrow> w_net w3 t;
       foreach (n_peers n3) peer_kill w3 }"

section \<open>The parser does not depend on how the stream is cut\<close>

lemma upd_peer_twice: "upd_peer p f (upd_peer p g w) = upd_peer p (f \<circ> g) w"
  by (simp add: upd_peer_def option.map_comp)

lemma upd_net_twice: "upd_net t f (upd_net t g w) = upd_net t (f \<circ> g) w"
  by (simp add: upd_net_def option.map_comp)

lemma upd_net_peer: "upd_net t f (upd_peer p g w) = upd_peer p g (upd_net t f w)"
  by (simp add: upd_net_def upd_peer_def)

lemma net_progress_in:
  "net_progress p n w = Some w' \<Longrightarrow> w_peer w p = Some x \<Longrightarrow> \<exists>x'. w_peer w' p = Some x' \<and> p_in x' = p_in x \<and> p_n x' = p_n x"
  by (auto simp: net_progress_def bind_Some_iff split: if_split_asm)

text \<open>Progress adds up.\<close>

lemma net_progress_add:
  assumes "net_progress p a w = Some w1"
  shows "net_progress p b w1 = net_progress p (a + b) w"
proof -
  from assms obtain x where x: "w_peer w p = Some x" by (auto simp: net_progress_def bind_Some_iff)
  show ?thesis
  proof (cases "in_state (p_in x) = BTP_MSGBODY \<and> in_msg_num (p_in x) = MSG_PIECE")
    case False
    with assms x show ?thesis by (auto simp: net_progress_def)
  next
    case True
    with assms x obtain t where t: "p_n x = Some t"
      and w1: "w1 = upd_peer p (\<lambda>x. x\<lparr>p_count_dwn := p_count_dwn x + a\<rparr>)
              (upd_net t (\<lambda>n. n\<lparr>n_downloaded := n_downloaded n + a\<rparr>) w)"
      by (auto simp: net_progress_def bind_Some_iff)
    show ?thesis
      using True x t unfolding w1
      by (simp add: net_progress_def upd_net_peer upd_peer_twice upd_net_twice comp_def add.assoc)
  qed
qed

lemma net_feed_nil: "w_peer w p \<noteq> None \<Longrightarrow> net_feed p [] data w = net_rest p data w"
  by (auto simp: net_feed_def)

text \<open>The bytes of a first read, and then those of a second one.\<close>

definition then_feed :: "pid \<Rightarrow> byte list \<Rightarrow> (byte list option \<times> world) \<Rightarrow> (byte list option \<times> world) option" where
  "then_feed p data r = (case r of (None, w) \<Rightarrow> Some (None, w) | (Some kept, w) \<Rightarrow> net_feed p kept data w)"

lemma net_rest_unit:
  assumes "w_peer w p = Some x" "in_st_bytes (p_in x) \<le> length data"
  shows "net_rest p data w =
    do { w1 \<leftarrow> net_progress p (in_st_bytes (p_in x)) w;
         (ok, w2) \<leftarrow> net_state p (take (in_st_bytes (p_in x)) data) w1;
         if \<not> ok then Some (None, w2) else net_rest p (drop (in_st_bytes (p_in x)) data) w2 }"
proof (cases "net_progress p (in_st_bytes (p_in x)) w")
  case None
  with assms show ?thesis by (simp add: net_rest_def net_units.simps)
next
  case (Some w1)
  show ?thesis
  proof (cases "net_state p (take (in_st_bytes (p_in x)) data) w1")
    case None
    with Some assms show ?thesis by (simp add: net_rest_def net_units.simps [of p data])
  next
    case s: (Some r)
    obtain ok w2 where "r = (ok, w2)" by (cases r)
    with s Some assms show ?thesis by (simp add: net_rest_def net_units.simps [of p data])
  qed
qed

lemma net_rest_short:
  assumes "w_peer w p = Some x" "length data < in_st_bytes (p_in x)"
  shows "net_rest p data w =
    (if data = [] then Some (Some [], w) else do { w1 \<leftarrow> net_progress p (length data) w; Some (Some data, w1) })"
  using assms by (simp add: net_rest_def net_units.simps)

lemma net_feed_kept:
  assumes "w_peer w p = Some x" "kept \<noteq> []" "in_st_bytes (p_in x) - length kept = rest" "rest \<noteq> 0"
  shows "net_feed p kept data w =
    (if length data < rest
     then do { w1 \<leftarrow> net_progress p (length data) w; Some (Some (kept @ data), w1) }
     else do {
       w1 \<leftarrow> net_progress p rest w;
       (ok, w2) \<leftarrow> net_state p (kept @ take rest data) w1;
       if \<not> ok then Some (None, w2) else net_rest p (drop rest data) w2 })"
  using assms by (simp add: net_feed_def Let_def cong: if_cong del: diff_is_0_eq diff_is_0_eq')

lemma net_rest_append_units:
  "net_units p d1 w = Some y \<Longrightarrow> \<forall>r. net_rest p d1 w = Some r \<longrightarrow> net_rest p (d1 @ d2) w = then_feed p d2 r"
proof (rule net_units.raw_induct [where P = "\<lambda>p d1 w y. \<forall>r. net_rest p d1 w = Some r \<longrightarrow> net_rest p (d1 @ d2) w = then_feed p d2 r"])
  fix nu p d1 w y
  assume nuI: "\<And>p d1 w y. nu p d1 w = Some y \<Longrightarrow> \<forall>r. net_rest p d1 w = Some r \<longrightarrow> net_rest p (d1 @ d2) w = then_feed p d2 r"
    and body: "do { x \<leftarrow> w_peer w p; let consumed = in_st_bytes (p_in x);
       if consumed \<le> length d1 then do { w1 \<leftarrow> net_progress p consumed w; (ok, w2) \<leftarrow> net_state p (take consumed d1) w1;
         if \<not> ok then Some (None, w2) else nu p (drop consumed d1) w2 }
       else Some (Some d1, w) } = Some (y :: byte list option \<times> world)"
  show "\<forall>r. net_rest p d1 w = Some r \<longrightarrow> net_rest p (d1 @ d2) w = then_feed p d2 r"
  proof (intro allI impI)
  fix r assume r0: "net_rest p d1 w = Some r"
  show "net_rest p (d1 @ d2) w = then_feed p d2 r"
  proof -
  from body obtain x where x: "w_peer w p = Some x" by (auto simp: bind_Some_iff)
  let ?c = "in_st_bytes (p_in x)"
  show ?thesis
  proof (cases "?c \<le> length d1")
    case True
    from body x True obtain w1 ok w2 where s: "net_progress p ?c w = Some w1"
      "net_state p (take ?c d1) w1 = Some (ok, w2)" "\<not> ok \<or> nu p (drop ?c d1) w2 = Some y"
      by (fastforce simp: bind_Some_iff Let_def split: if_split_asm)
    note u1 = net_rest_unit [OF x True] and u2 = net_rest_unit [OF x, of "d1 @ d2"]
    show ?thesis
    proof (cases ok)
      case False
      with u1 u2 s True r0 show ?thesis by (auto simp: then_feed_def)
    next
      case ok: True
      with s have n: "nu p (drop ?c d1) w2 = Some y" by simp
      from u1 s ok r0 have r: "net_rest p (drop ?c d1) w2 = Some r" by simp
      from nuI [OF n, rule_format, OF r] u2 s ok True show ?thesis by simp
    qed
  next
    case False
    then have l: "length d1 < ?c" by simp
    note sh = net_rest_short [OF x l]
    show ?thesis
    proof (cases "d1 = []")
      case True
      with sh r0 have "r = (Some [], w)" by simp
      with True x show ?thesis by (simp add: then_feed_def net_feed_nil)
    next
      case ne: False
      with sh r0 obtain w1 where w1: "net_progress p (length d1) w = Some w1" "r = (Some d1, w1)"
        by (cases "net_progress p (length d1) w") auto
      from net_progress_in [OF w1(1) x] obtain x1 where x1: "w_peer w1 p = Some x1" "p_in x1 = p_in x" by blast
      have feed: "then_feed p d2 r =
         (if length d2 < ?c - length d1
          then do { w2 \<leftarrow> net_progress p (length d2) w1; Some (Some (d1 @ d2), w2) }
          else do {
            w2 \<leftarrow> net_progress p (?c - length d1) w1;
            (ok, w3) \<leftarrow> net_state p (d1 @ take (?c - length d1) d2) w2;
            if \<not> ok then Some (None, w3) else net_rest p (drop (?c - length d1) d2) w3 })"
        using net_feed_kept [OF x1(1) ne, of "?c - length d1"] w1(2) x1(2) l by (simp add: then_feed_def)
      show ?thesis
      proof (cases "length d2 < ?c - length d1")
        case True
        then have "length (d1 @ d2) < ?c" by simp
        from net_rest_short [OF x this] ne feed True net_progress_add [OF w1(1), of "length d2"] show ?thesis by simp
      next
        case False
        then have "?c \<le> length (d1 @ d2)" by simp
        from net_rest_unit [OF x this] feed False l net_progress_add [OF w1(1), of "?c - length d1"]
        show ?thesis by (simp cong: if_cong)
      qed
    qed
  qed
  qed
  qed
qed assumption

lemma net_rest_append:
  assumes "net_rest p d1 w = Some r"
  shows "net_rest p (d1 @ d2) w = then_feed p d2 r"
proof -
  from assms obtain y where "net_units p d1 w = Some y" by (auto simp: net_rest_def bind_Some_iff)
  from net_rest_append_units [OF this] assms show ?thesis by blast
qed

lemma net_feed_append:
  assumes "net_feed p kept d1 w = Some r"
  shows "net_feed p kept (d1 @ d2) w = then_feed p d2 r"
proof -
  from assms obtain x where x: "w_peer w p = Some x" by (auto simp: net_feed_def bind_Some_iff)
  let ?c = "in_st_bytes (p_in x)"
  define rest where "rest = (if kept \<noteq> [] then ?c - length kept else 0)"
  show ?thesis
  proof (cases "rest = 0")
    case True
    with assms x have "net_rest p d1 w = Some r" by (simp add: net_feed_def rest_def [symmetric])
    from net_rest_append [OF this] x True show ?thesis by (simp add: net_feed_def rest_def [symmetric])
  next
    case False
    then have k: "kept \<noteq> []" "rest = ?c - length kept" "length kept < ?c" by (auto simp: rest_def split: if_split_asm)
    show ?thesis
    proof (cases "length d1 < rest")
      case True
      with assms x False obtain w1 where w1: "net_progress p (length d1) w = Some w1" "r = (Some (kept @ d1), w1)"
        by (auto simp: net_feed_def rest_def [symmetric] bind_Some_iff)
      from net_progress_in [OF w1(1) x] obtain x1 where x1: "w_peer w1 p = Some x1" "p_in x1 = p_in x" by blast
      have c: "?c - (length kept + length d1) = rest - length d1" "rest - length d1 \<noteq> 0" using True k by auto
      have feed: "then_feed p d2 r =
         (if length d2 < rest - length d1
          then do { w2 \<leftarrow> net_progress p (length d2) w1; Some (Some (kept @ d1 @ d2), w2) }
          else do {
            w2 \<leftarrow> net_progress p (rest - length d1) w1;
            (ok, w3) \<leftarrow> net_state p (kept @ d1 @ take (rest - length d1) d2) w2;
            if \<not> ok then Some (None, w3) else net_rest p (drop (rest - length d1) d2) w3 })"
        using net_feed_kept [OF x1(1), of "kept @ d1" "rest - length d1"] w1(2) x1(2) k(1) c by (simp add: then_feed_def)
      have all: "net_feed p kept (d1 @ d2) w =
         (if length d1 + length d2 < rest
          then do { w2 \<leftarrow> net_progress p (length d1 + length d2) w; Some (Some (kept @ d1 @ d2), w2) }
          else do {
            w2 \<leftarrow> net_progress p rest w;
            (ok, w3) \<leftarrow> net_state p (kept @ d1 @ take (rest - length d1) d2) w2;
            if \<not> ok then Some (None, w3) else net_rest p (drop (rest - length d1) d2) w3 })"
        using x False True by (simp add: net_feed_def rest_def [symmetric] cong: if_cong)
      show ?thesis
      proof (cases "length d2 < rest - length d1")
        case l: True
        with True have "length d1 + length d2 < rest" by simp
        with l all feed net_progress_add [OF w1(1), of "length d2"] show ?thesis by simp
      next
        case l: False
        with True have "\<not> length d1 + length d2 < rest" "length d1 + (rest - length d1) = rest" by simp_all
        with l all feed net_progress_add [OF w1(1), of "rest - length d1"] show ?thesis by simp
      qed
    next
      case ge: False
      with assms x False obtain w1 ok w2 where s: "net_progress p rest w = Some w1"
        "net_state p (kept @ take rest d1) w1 = Some (ok, w2)"
        "(if \<not> ok then Some (None, w2) else net_rest p (drop rest d1) w2) = Some r"
        by (auto simp: net_feed_def rest_def [symmetric] bind_Some_iff)
      show ?thesis
      proof (cases ok)
        case False
        with s x ge \<open>rest \<noteq> 0\<close> show ?thesis by (auto simp: net_feed_def rest_def [symmetric] then_feed_def)
      next
        case True
        with s have "net_rest p (drop rest d1) w2 = Some r" by simp
        from net_rest_append [OF this] s x ge \<open>rest \<noteq> 0\<close> True show ?thesis
          by (simp add: net_feed_def rest_def [symmetric])
      qed
    qed
  qed
qed

text \<open>Any number of reads.\<close>

fun net_feeds :: "pid \<Rightarrow> byte list \<Rightarrow> byte list list \<Rightarrow> world \<Rightarrow> (byte list option \<times> world) option" where
  "net_feeds p kept [] w = Some (Some kept, w)"
| "net_feeds p kept (d # ds) w =
     do { (r, w1) \<leftarrow> net_feed p kept d w;
          case r of None \<Rightarrow> Some (None, w1) | Some k \<Rightarrow> net_feeds p k ds w1 }"

text \<open>C9. The parser is independent of how the kernel cuts the stream: if the units of a connection are
  processed without an abort when they arrive in some sequence of reads, then one read of all the
  bytes does the same, with the same state of the whole daemon, the same verdict on the peer and
  the same bytes kept for the next unit.\<close>

theorem net_read_independent_of_chunks:
  assumes "net_feeds p kept (d # ds) w = Some r"
  shows "net_feed p kept (concat (d # ds)) w = Some r"
  using assms
proof (induction ds arbitrary: d kept w)
  case Nil
  then show ?case by (auto simp: bind_Some_iff split: option.splits)
next
  case (Cons e es)
  from Cons.prems obtain r1 w1 where f: "net_feed p kept d w = Some (r1, w1)" by (auto simp: bind_Some_iff)
  note ap = net_feed_append [OF f, of "concat (e # es)"]
  show ?case
  proof (cases r1)
    case None
    with Cons.prems f ap show ?thesis by (auto simp: then_feed_def)
  next
    case (Some k)
    with Cons.prems f have "net_feeds p k (e # es) w1 = Some r" by simp
    from Cons.IH [OF this] ap Some show ?thesis by (simp add: then_feed_def)
  qed
qed

definition sample_accepted :: world where
  "sample_accepted = peer_create_in sample_idle"

lemma sample_accepted_peer:
  "\<exists>x. w_peer sample_accepted 0 = Some x \<and> in_state (p_in x) = SHAKE_PSTR \<and> in_st_bytes (p_in x) = 28"
  by (simp add: sample_accepted_def peer_create_in_def peer_create_common_def Let_def sample_idle_def nb_world.defs)

theorem net_read_independent_of_chunks_witness:
  "\<exists>k w. net_feed 0 [] (concat [pstr, replicate 8 0 @ [9]]) sample_accepted = Some (Some k, w) \<and> k = [9]"
proof -
  let ?w = "sample_accepted"
  from sample_accepted_peer obtain x where x: "w_peer ?w 0 = Some x"
    "in_state (p_in x) = SHAKE_PSTR" "in_st_bytes (p_in x) = 28" by blast
  have p: "net_progress 0 k ?w = Some ?w" for k using x by (simp add: net_progress_def)
  let ?w1 = "peer_set_in_state 0 SHAKE_INFO 20 ?w"
  have x1: "w_peer ?w1 0 = Some (x\<lparr>p_in := (p_in x)\<lparr>in_state := SHAKE_INFO, in_st_bytes := 20\<rparr>\<rparr>)"
    using x by (simp add: peer_set_in_state_def)
  have l: "length pstr = 20" "pstr \<noteq> []" by (simp_all add: pstr_def)
  have f1: "net_feed 0 [] pstr ?w = Some (Some pstr, ?w)"
    using x p l net_rest_short [OF x(1), of pstr] by (simp add: net_feed_nil)
  have f2: "net_feed 0 pstr (replicate 8 0 @ [9]) ?w = Some (Some [9], ?w1)"
    using net_feed_kept [OF x(1), of pstr 8] x l p net_rest_short [OF x1, of "[9]"]
    by (simp add: net_state_def net_step_def net_progress_def x1)
  have "net_feeds 0 [] [pstr, replicate 8 0 @ [9]] ?w = Some (Some [9], ?w1)"
    using f1 f2 by simp
  from net_read_independent_of_chunks [OF this] show ?thesis by simp
qed

end
