(* ===== verification/Rarest.thy ===== *)
theory Rarest
  imports DownloadSubr
begin

text \<open>
  The choice of the next piece: \<^verbatim>\<open>dl_choose_rarest\<close> gives one of the rarest pieces that the peer has and
  that can be started.
\<close>

section \<open>The rarest piece\<close>

text \<open>The elements with the least count.\<close>

definition rarest :: "(nat \<Rightarrow> nat) \<Rightarrow> nat list \<Rightarrow> nat list" where
  "rarest cnt L = filter (\<lambda>x. \<forall>y \<in> set L. cnt x \<le> cnt y) L"

lemma rarest_ne: "L \<noteq> [] \<Longrightarrow> rarest cnt L \<noteq> []"
proof -
  assume "L \<noteq> []"
  then obtain x where "x \<in> set L" "\<forall>y \<in> set L. cnt x \<le> cnt y"
    using ex_min_if_finite [of "cnt ` set L"] by (metis (no_types, lifting) arg_min_if_finite(1) arg_min_least finite_set set_empty)
  then show ?thesis by (auto simp: rarest_def filter_empty_conv)
qed

lemma rarest_equal: "x \<in> set (rarest cnt L) \<Longrightarrow> y \<in> set (rarest cnt L) \<Longrightarrow> cnt x = cnt y"
  by (auto simp: rarest_def intro: antisym)

lemma rarest_by_one: "m \<in> set (rarest cnt L) \<Longrightarrow> rarest cnt L = filter (\<lambda>x. cnt x = cnt m) L"
  unfolding rarest_def by (rule filter_cong) (auto intro: order_antisym)

lemma rarest_snoc:
  assumes "m \<in> set (rarest cnt L)"
  shows "rarest cnt (L @ [z]) =
    (if cnt z = cnt m then rarest cnt L @ [z] else if cnt z < cnt m then [z] else rarest cnt L)"
proof -
  from assms have m: "m \<in> set L" "\<forall>y \<in> set L. cnt m \<le> cnt y" by (auto simp: rarest_def)
  note r = rarest_by_one [OF assms]
  consider "cnt z = cnt m" | "cnt z < cnt m" | "cnt m < cnt z" by linarith
  then show ?thesis
  proof cases
    case 1
    with m have "m \<in> set (rarest cnt (L @ [z]))" by (auto simp: rarest_def)
    from rarest_by_one [OF this] r 1 show ?thesis by simp
  next
    case 2
    with m have "z \<in> set (rarest cnt (L @ [z]))" by (fastforce simp: rarest_def)
    from rarest_by_one [OF this] 2 m show ?thesis by (auto simp: filter_empty_conv)
  next
    case 3
    with m have "m \<in> set (rarest cnt (L @ [z]))" by (auto simp: rarest_def)
    from rarest_by_one [OF this] r 3 show ?thesis by simp
  qed
qed

lemma foldl_rarer:
  "foldl (rarer cnt) (i, 1) is = (hd (rarest cnt (i # is)), length (rarest cnt (i # is)))"
proof (induction "is" rule: rev_induct)
  case (snoc z zs)
  let ?L = "i # zs"
  have ne: "rarest cnt ?L \<noteq> []" by (simp add: rarest_ne)
  then have m: "hd (rarest cnt ?L) \<in> set (rarest cnt ?L)" by simp
  from rarest_snoc [OF m, of z] ne snoc show ?case by (auto simp: rarer_def)
qed (simp add: rarest_def)

lemma pick_nth:
  "0 < k \<Longrightarrow> k \<le> length (filter P xs) \<Longrightarrow> pick P k xs r = Some (filter P xs ! (k - 1))"
proof (induction xs arbitrary: k r)
  case (Cons x xs)
  show ?case
  proof (cases k)
    case (Suc k')
    with Cons show ?thesis by (cases "k' = 0") (auto simp: nth_Cons')
  qed (use Cons in simp)
qed simp

text \<open>The second pass starts at the first candidate and sees them all.\<close>

lemma candidates_from:
  assumes "filter ok [0 ..< n] \<noteq> []" "m = hd (rarest cnt (filter ok [0 ..< n]))"
  shows "filter (\<lambda>j. ok j \<and> cnt j = cnt m) [m ..< n] = rarest cnt (filter ok [0 ..< n])"
proof -
  let ?R = "rarest cnt (filter ok [0 ..< n])"
  have ne: "?R \<noteq> []" by (rule rarest_ne [OF assms(1)])
  then have mR: "m \<in> set ?R" using assms(2) by simp
  then have mn: "m < n" by (auto simp: rarest_def)
  have R: "?R = filter (\<lambda>j. ok j \<and> cnt j = cnt m) [0 ..< n]"
    using rarest_by_one [OF mR] by (simp add: conj_commute)
  have "sorted ?R" by (simp add: R sorted_wrt_filter)
  then have "\<forall>j \<in> set ?R. m \<le> j" using assms(2) ne by (cases ?R) auto
  then have "filter (\<lambda>j. ok j \<and> cnt j = cnt m) [0 ..< m] = []" 
    using mn by (auto simp: R filter_empty_conv) (meson less_trans not_le)
  moreover have "[0 ..< n] = [0 ..< m] @ [m ..< n]" using mn upt_add_eq_append [of 0 m "n - m"] by simp
  ultimately show ?thesis unfolding R by simp
qed

text \<open>C15. The choice of the next piece to start on: if the peer has no piece that can be started,
  there is no choice; otherwise the result is one of the rarest of those pieces, that is one with the
  least number of peers that have it, and which one is up to the random value: the \<open>k\<close>th of them for
  the \<open>k\<close> that is drawn. The second pass never runs behind the last piece.\<close>

theorem dl_choose_rarest_picks_rarest:
  assumes "peer_net w p = Some t" "w_net w t = Some n" "cw_tor w t = Some tp" "\<not> n_endgame n"
    and random: "int (w_random w (w_random_no w)) \<le> RAND_MAX"
  defines "rs \<equiv> rarest (\<lambda>i. n_piece_count n ! i) (filter (dl_piece_startable w p t) [0 ..< tp_npieces tp])"
  shows "(if \<forall>i < tp_npieces tp. \<not> dl_piece_startable w p t i
          then dl_choose_rarest p w = Some (None, w)
          else \<exists>k w'. k < length rs \<and> dl_choose_rarest p w = Some (Some (rs ! k), w') \<and>
                 (length rs > 1 \<longrightarrow> int k + 1 = fst (rand_between 1 (int (length rs)) w)))"
proof (cases "filter (dl_piece_startable w p t) [0 ..< tp_npieces tp]")
  case Nil
  then have "\<forall>i < tp_npieces tp. \<not> dl_piece_startable w p t i" by (auto simp: filter_empty_conv)
  moreover have "dl_choose_rarest p w = Some (None, w)" using assms(1-4) Nil by (simp add: dl_choose_rarest_def)
  ultimately show ?thesis by simp
next
  case (Cons i rest)
  then have "i \<in> set (filter (dl_piece_startable w p t) [0 ..< tp_npieces tp])" by simp
  then have ex: "\<not> (\<forall>i < tp_npieces tp. \<not> dl_piece_startable w p t i)" by auto
  have ne: "rs \<noteq> []" unfolding rs_def by (rule rarest_ne) (simp add: Cons)
  have fold: "foldl (rarer (\<lambda>i. n_piece_count n ! i)) (i, 1) rest = (hd rs, length rs)"
    unfolding rs_def Cons by (rule foldl_rarer)
  show ?thesis
  proof (cases "length rs > 1")
    case False
    with ne have l: "length rs = 1" by (cases rs) auto
    with assms(1-4) Cons fold have "dl_choose_rarest p w = Some (Some (hd rs), w)"
      by (simp add: dl_choose_rarest_def)
    with ex l ne have "\<exists>k w'. k < length rs \<and> dl_choose_rarest p w = Some (Some (rs ! k), w') \<and>
        (length rs > 1 \<longrightarrow> int k + 1 = fst (rand_between 1 (int (length rs)) w))"
      by (intro exI [of _ 0] exI [of _ w]) (simp add: hd_conv_nth)
    then show ?thesis by (simp only: if_not_P [OF ex])
  next
    case True
    obtain k w1 where k: "rand_between 1 (int (length rs)) w = (k, w1)" by (cases "rand_between 1 (int (length rs)) w")
    have r: "1 \<le> k" "k \<le> int (length rs)" using rand_between_range [of 1 "int (length rs)" w] random True k by simp_all
    have f: "filter (\<lambda>j. dl_piece_startable w p t j \<and> n_piece_count n ! j = n_piece_count n ! hd rs) [hd rs ..< tp_npieces tp] = rs"
      using candidates_from [of "dl_piece_startable w p t" "tp_npieces tp" "hd rs"] Cons rs_def by simp
    have "pick (\<lambda>j. dl_piece_startable w p t j \<and> n_piece_count n ! j = n_piece_count n ! hd rs) (nat k)
        [hd rs ..< tp_npieces tp] (hd rs) = Some (rs ! (nat k - 1))"
      using pick_nth [of "nat k" _ "[hd rs ..< tp_npieces tp]" "hd rs"] r by (simp add: f nat_le_iff)
    with assms(1-4) Cons fold True k have "dl_choose_rarest p w = Some (Some (rs ! (nat k - 1)), w1)"
      by (simp add: dl_choose_rarest_def)
    with r k show ?thesis by (intro if_not_P [OF ex, THEN iffD2] exI [of _ "nat k - 1"] exI [of _ w1]) simp
  qed
qed

theorem dl_choose_rarest_picks_rarest_witness:
  "\<exists>w'. dl_choose_rarest 0 sample_swarm = Some (Some 1, w')"
proof -
  have s: "dl_piece_startable sample_swarm 0 0 i \<longleftrightarrow> i = 1" if "i < 2" for i
    using that by (auto simp: less_Suc_eq numeral_2_eq_2 dl_piece_startable_def peer_requestable_def peer_has_def
      peer_has_bad_def cm_has_piece_def sample_peer_def sample_net_def)
  then have f: "filter (dl_piece_startable sample_swarm 0 0) [0 ..< 2] = [1]"
    by (simp add: upt_rec numeral_2_eq_2)
  from s [of 1] have ex: "\<not> (\<forall>i < tp_npieces sample_torrent. \<not> dl_piece_startable sample_swarm 0 0 i)"
    by (auto intro!: exI [of _ 1])
  have rs: "rarest (\<lambda>i. n_piece_count sample_net ! i) (filter (dl_piece_startable sample_swarm 0 0) [0 ..< tp_npieces sample_torrent]) = [1]"
    using f by (simp add: rarest_def)
  have "\<exists>k w'. k < length [1::nat] \<and> dl_choose_rarest 0 sample_swarm = Some (Some ([1] ! k), w') \<and>
      (1 < length [1::nat] \<longrightarrow> int k + 1 = fst (rand_between 1 (int (length [1::nat])) sample_swarm))"
    using dl_choose_rarest_picks_rarest [of sample_swarm 0 0 sample_net sample_torrent]
    unfolding if_not_P [OF ex] rs by (simp add: sample_net_def RAND_MAX_def)
  then show ?thesis by auto
qed

end
