(* ===== verification/PeerQueue.thy ===== *)
theory PeerQueue
  imports Peer Sample
begin

text \<open>
  The invariant of the queues of outgoing messages: the reference counts cover what the queues hold, the
  counter of data messages is right, a block message is followed by its data. The operations of one
  peer keep it and, from a state where it holds, none of their assertions fails.
\<close>

section \<open>The invariant\<close>

definition cnt_addr :: "nat \<Rightarrow> net_buf list \<Rightarrow> nat" where
  "cnt_addr a q = length (filter (\<lambda>nb. nb_addr nb = a) q)"

definition cnt_data :: "net_buf list \<Rightarrow> nat" where
  "cnt_data q = length (filter (\<lambda>nb. nb_type nb = NB_TORRENTDATA) q)"

text \<open>How often the message at an address is queued, over all peers.\<close>

definition held :: "world \<Rightarrow> nat \<Rightarrow> nat" where
  "held w a = (\<Sum>p\<in>dom (w_peer w). cnt_addr a (p_outq (the (w_peer w p))))"

definition msg_ok :: "world \<Rightarrow> net_buf \<Rightarrow> bool" where
  "msg_ok w nb \<longleftrightarrow> nb_addr nb < nw_fresh w \<and> (nb_kill nb = Kill_Abort \<longrightarrow> (\<exists>ty. nw_single w ty = Some nb))"

definition peer_q_ok :: "world \<Rightarrow> peer \<Rightarrow> bool" where
  "peer_q_ok w x \<longleftrightarrow> (p_outq x = [] \<longrightarrow> p_outq_off x = 0) \<and> p_npiece_msgs x = cnt_data (p_outq x) \<and>
     (\<forall>nb \<in> set (p_outq x). msg_ok w nb)"

definition queues_ok :: "world \<Rightarrow> bool" where
  "queues_ok w \<longleftrightarrow> finite (dom (w_peer w)) \<and>
     (\<forall>p x. w_peer w p = Some x \<longrightarrow> w_mp w p \<noteq> None \<and> peer_q_ok w x) \<and>
     (\<forall>a. held w a \<le> nw_refs w a) \<and>
     (\<forall>ty nb. nw_single w ty = Some nb \<longrightarrow> nb_type nb = ty \<and> nb_addr nb < nw_fresh w \<and>
        held w (nb_addr nb) < nw_refs w (nb_addr nb))"

text \<open>Block messages and their data.\<close>

fun paired :: "net_buf list \<Rightarrow> bool" where
  "paired [] = True"
| "paired (nb # q) =
     (if nb_type nb = NB_PIECE
      then (case q of [] \<Rightarrow> False | d # r \<Rightarrow> nb_type d = NB_TORRENTDATA \<and> paired r)
      else nb_type nb \<noteq> NB_TORRENTDATA \<and> paired q)"

text \<open>The block message of the data at the front may be written already.\<close>

definition outq_paired :: "net_buf list \<Rightarrow> bool" where
  "outq_paired q =
     (case q of [] \<Rightarrow> True | nb # r \<Rightarrow> if nb_type nb = NB_TORRENTDATA then paired r else paired q)"

definition net_ok :: "world \<Rightarrow> bool" where
  "net_ok w \<longleftrightarrow> queues_ok w \<and> (\<forall>p x. w_peer w p = Some x \<longrightarrow> outq_paired (p_outq x))"

text \<open>What an operation on the queue of one peer leaves alone.\<close>

definition frame :: "pid \<Rightarrow> world \<Rightarrow> world \<Rightarrow> bool" where
  "frame p w w' \<longleftrightarrow>
     (\<forall>q. q \<noteq> p \<longrightarrow> w_peer w' q = w_peer w q \<and> pf w' q = pf w q) \<and>
     (\<forall>x. w_peer w p = Some x \<longrightarrow> (\<exists>x'. w_peer w' p = Some x' \<and> p_npieces x' = p_npieces x \<and> p_n x' = p_n x)) \<and>
     pf w' p - {PF_I_CHOKE, PF_ON_WRITEQ} = pf w p - {PF_I_CHOKE, PF_ON_WRITEQ} \<and>
     cw_tor w' = cw_tor w \<and> w_peerq w' = w_peerq w \<and> w_ul_npeers w' = w_ul_npeers w"

lemma frame_refl [simp]: "frame p w w"
  by (simp add: frame_def)

lemma frame_trans [trans]: "frame p w1 w2 \<Longrightarrow> frame p w2 w3 \<Longrightarrow> frame p w1 w3"
  unfolding frame_def by (intro conjI allI impI) (fastforce | blast | simp)+

section \<open>Counting\<close>

lemma cnt_addr_simps [simp]:
  "cnt_addr a [] = 0" "cnt_addr a (nb # q) = (if nb_addr nb = a then 1 else 0) + cnt_addr a q"
  "cnt_addr a (q @ r) = cnt_addr a q + cnt_addr a r"
  by (simp_all add: cnt_addr_def)

lemma cnt_data_simps [simp]:
  "cnt_data [] = 0" "cnt_data (nb # q) = (if nb_type nb = NB_TORRENTDATA then 1 else 0) + cnt_data q"
  "cnt_data (q @ r) = cnt_data q + cnt_data r"
  by (simp_all add: cnt_data_def)

lemma cnt_addr_remove_nth:
  "i < length q \<Longrightarrow> cnt_addr a (remove_nth i q) + (if nb_addr (q ! i) = a then 1 else 0) = cnt_addr a q"
  by (subst (3) id_take_nth_drop [of i q]) (simp_all add: remove_nth_def)

lemma cnt_data_remove_nth:
  "i < length q \<Longrightarrow> cnt_data (remove_nth i q) + (if nb_type (q ! i) = NB_TORRENTDATA then 1 else 0) = cnt_data q"
  by (subst (3) id_take_nth_drop [of i q]) (simp_all add: remove_nth_def)

lemma set_remove_nth: "set (remove_nth i q) \<subseteq> set q"
  by (auto simp: remove_nth_def dest: in_set_takeD in_set_dropD)

lemma length_remove_nth [simp]: "i < length q \<Longrightarrow> length (remove_nth i q) = length q - 1"
  by (simp add: remove_nth_def)

lemma remove_nth_append [simp]: "remove_nth (length pre) (pre @ nb # q) = pre @ q"
  by (simp add: remove_nth_def)

lemma held_upd:
  assumes "finite (dom (w_peer w))" "w_peer w p = Some x" "w_peer w' = (w_peer w)(p \<mapsto> x')"
  shows "held w' a + cnt_addr a (p_outq x) = held w a + cnt_addr a (p_outq x')"
proof -
  let ?D = "dom (w_peer w) - {p}"
  have d: "dom (w_peer w) = insert p ?D" "dom (w_peer w') = insert p ?D" using assms by auto
  have s: "(\<Sum>q\<in>?D. cnt_addr a (p_outq (the (w_peer w' q)))) = (\<Sum>q\<in>?D. cnt_addr a (p_outq (the (w_peer w q))))"
    by (rule sum.cong) (auto simp: assms(3))
  have "held w a = cnt_addr a (p_outq x) + (\<Sum>q\<in>?D. cnt_addr a (p_outq (the (w_peer w q))))"
    unfolding held_def by (subst d(1), subst sum.insert) (use assms in auto)
  moreover have "held w' a = cnt_addr a (p_outq x') + (\<Sum>q\<in>?D. cnt_addr a (p_outq (the (w_peer w' q))))"
    unfolding held_def by (subst d(2), subst sum.insert) (use assms in auto)
  ultimately show ?thesis using s by simp
qed

lemma held_cong: "w_peer w' = w_peer w \<Longrightarrow> held w' a = held w a"
  by (simp add: held_def)

lemma held_ge:
  assumes "finite (dom (w_peer w))" "w_peer w p = Some x"
  shows "cnt_addr a (p_outq x) \<le> held w a"
  using held_upd [OF assms, of "w\<lparr>w_peer := (w_peer w)(p \<mapsto> x\<lparr>p_outq := []\<rparr>)\<rparr>" "x\<lparr>p_outq := []\<rparr>" a] by simp

lemma cnt_addr_pos: "nb \<in> set q \<Longrightarrow> 0 < cnt_addr (nb_addr nb) q"
  by (induction q) auto



section \<open>Messages are created\<close>

lemma queues_ok_step:
  assumes "queues_ok w" "w_peer w p = Some x" "w_peer w' = (w_peer w)(p \<mapsto> x')"
    "\<And>q. w_mp w q \<noteq> None \<Longrightarrow> w_mp w' q \<noteq> None" "nw_single w' = nw_single w" "nw_fresh w' = nw_fresh w"
    "peer_q_ok w x'" "\<And>a. nw_refs w' a + cnt_addr a (p_outq x) = nw_refs w a + cnt_addr a (p_outq x')"
  shows "queues_ok w'"
proof -
  from assms(1) have f: "finite (dom (w_peer w))" by (simp add: queues_ok_def)
  have m: "msg_ok w' nb = msg_ok w nb" for nb by (simp add: msg_ok_def assms(5,6))
  have pq: "peer_q_ok w' y = peer_q_ok w y" for y by (simp add: peer_q_ok_def m)
  have r: "held w' a \<le> nw_refs w' a" for a
  proof -
    from assms(1) have "held w a \<le> nw_refs w a" by (simp add: queues_ok_def)
    with held_upd [OF f assms(2,3), of a] assms(8) [of a] show ?thesis by linarith
  qed
  have s: "held w' a < nw_refs w' a" if "held w a < nw_refs w a" for a
    using held_upd [OF f assms(2,3), of a] assms(8) [of a] that by linarith
  show ?thesis
    unfolding queues_ok_def
  proof (intro conjI allI impI)
    show "finite (dom (w_peer w'))" using f assms(3) by simp
    show "held w' a \<le> nw_refs w' a" for a by (rule r)
    fix q y assume "w_peer w' q = Some y"
    then show "w_mp w' q \<noteq> None" "peer_q_ok w' y"
      using assms(1-4,7) by (auto simp: pq queues_ok_def split: if_split_asm)
  next
    fix ty nb assume "nw_single w' ty = Some nb"
    then show "nb_type nb = ty" "nb_addr nb < nw_fresh w'" "held w' (nb_addr nb) < nw_refs w' (nb_addr nb)"
      using assms(1,5,6) s by (auto simp: queues_ok_def)
  qed
qed

lemma queues_ok_single:
  "queues_ok w \<Longrightarrow> nw_single w ty = Some nb \<Longrightarrow>
    nb_type nb = ty \<and> nb_addr nb < nw_fresh w \<and> held w (nb_addr nb) < nw_refs w (nb_addr nb)"
  by (simp add: queues_ok_def)

lemma held_fresh: "queues_ok w \<Longrightarrow> nw_fresh w \<le> a \<Longrightarrow> held w a = 0"
  unfolding held_def
  by (rule sum.neutral) (fastforce simp: queues_ok_def peer_q_ok_def msg_ok_def cnt_addr_def filter_empty_conv)

lemma queues_ok_cong:
  assumes "queues_ok w" "w_peer w' = w_peer w" "\<And>q. w_mp w q \<noteq> None \<Longrightarrow> w_mp w' q \<noteq> None"
    "nw_single w' = nw_single w" "nw_fresh w' = nw_fresh w" "nw_refs w' = nw_refs w"
  shows "queues_ok w'"
  using assms held_cong [OF assms(2)] unfolding queues_ok_def peer_q_ok_def msg_ok_def by (simp add: assms)

text \<open>What the creation of a message leaves alone.\<close>

definition same_but_nb :: "world \<Rightarrow> world \<Rightarrow> bool" where
  "same_but_nb w w' \<longleftrightarrow> w_peer w' = w_peer w \<and> w_mp w' = w_mp w \<and> cw_tor w' = cw_tor w \<and> w_peerq w' = w_peerq w \<and>
     w_writeq w' = w_writeq w \<and> w_seconds w' = w_seconds w \<and> w_ul_npeers w' = w_ul_npeers w"

lemma same_frame: "same_but_nb w w' \<Longrightarrow> frame p w w'"
  by (simp add: same_but_nb_def frame_def pf_def)

lemma create_alloc_ok:
  assumes "queues_ok w"
  shows "queues_ok (snd (nb_create_alloc ty bs w)) \<and> msg_ok (snd (nb_create_alloc ty bs w)) (fst (nb_create_alloc ty bs w)) \<and>
    nb_type (fst (nb_create_alloc ty bs w)) = ty \<and> same_but_nb w (snd (nb_create_alloc ty bs w))"
proof -
  let ?w = "w\<lparr>nw_fresh := nw_fresh w + 1, nw_refs := (nw_refs w)(nw_fresh w := 0)\<rparr>"
  have h: "held ?w a = held w a" for a by (simp add: held_def)
  have m: "msg_ok ?w nb" if "msg_ok w nb" for nb using that by (simp add: msg_ok_def)
  have "queues_ok ?w"
    unfolding queues_ok_def
  proof (intro conjI allI impI)
    show "finite (dom (w_peer ?w))" using assms by (simp add: queues_ok_def)
    show "held ?w a \<le> nw_refs ?w a" for a
      using assms held_fresh [OF assms, of "nw_fresh w"] unfolding h by (simp add: queues_ok_def)
    fix q y assume "w_peer ?w q = Some y"
    then show "w_mp ?w q \<noteq> None" "peer_q_ok ?w y" using assms m by (auto simp: queues_ok_def peer_q_ok_def)
  next
    fix ty' nb assume "nw_single ?w ty' = Some nb"
    then have "nw_single w ty' = Some nb" by simp
    from queues_ok_single [OF assms this]
    show "nb_type nb = ty'" "nb_addr nb < nw_fresh ?w" "held ?w (nb_addr nb) < nw_refs ?w (nb_addr nb)"
      unfolding h by simp_all
  qed
  then show ?thesis by (simp add: nb_create_alloc_def msg_ok_def same_but_nb_def)
qed

lemma once_ok:
  assumes "queues_ok w"
  shows "queues_ok (snd (nb_once ty (nb_create_alloc ty bs w) w)) \<and>
    msg_ok (snd (nb_once ty (nb_create_alloc ty bs w) w)) (fst (nb_once ty (nb_create_alloc ty bs w) w)) \<and>
    nb_type (fst (nb_once ty (nb_create_alloc ty bs w) w)) = ty \<and> same_but_nb w (snd (nb_once ty (nb_create_alloc ty bs w) w))"
proof (cases "nw_single w ty")
  case (Some nb)
  with assms show ?thesis by (auto simp: nb_once_def msg_ok_def queues_ok_def same_but_nb_def)
next
  case None
  let ?n = "nw_fresh w"
  let ?nb = "\<lparr>nb_addr = ?n, nb_type = ty, nb_buf = Own_Buf bs, nb_len = length bs, nb_kill = Kill_Abort\<rparr>"
  let ?w = "w\<lparr>nw_fresh := ?n + 1, nw_refs := (nw_refs w)(?n := 1), nw_single := (nw_single w)(ty \<mapsto> ?nb)\<rparr>"
  have e: "nb_once ty (nb_create_alloc ty bs w) w = (?nb, ?w)"
    using None by (simp add: nb_once_def nb_create_alloc_def nb_singleton_def nb_hold_def)
  have h: "held ?w a = held w a" for a by (simp add: held_def)
  have m: "msg_ok ?w nb" if "msg_ok w nb" for nb using that None by (auto simp: msg_ok_def) (metis option.distinct(1))
  have "queues_ok ?w"
    unfolding queues_ok_def
  proof (intro conjI allI impI)
    show "finite (dom (w_peer ?w))" using assms by (simp add: queues_ok_def)
    show "held ?w a \<le> nw_refs ?w a" for a
      using assms held_fresh [OF assms, of ?n] unfolding h by (simp add: queues_ok_def)
    fix q y assume "w_peer ?w q = Some y"
    then show "w_mp ?w q \<noteq> None" "peer_q_ok ?w y" using assms m by (auto simp: queues_ok_def peer_q_ok_def)
  next
    fix ty' nb assume "nw_single ?w ty' = Some nb"
    then show "nb_type nb = ty'" "nb_addr nb < nw_fresh ?w" "held ?w (nb_addr nb) < nw_refs ?w (nb_addr nb)"
      unfolding h using queues_ok_single [OF assms] held_fresh [OF assms, of ?n] by (auto simp: less_Suc_eq split: if_split_asm)
  qed
  with e show ?thesis by (auto simp: msg_ok_def same_but_nb_def intro: exI [of _ ty])
qed


section \<open>Sending and taking back\<close>

lemma peer_send_eq:
  assumes "w_peer w p = Some x" "p_outq x = [] \<longrightarrow> p_outq_off x = 0"
  shows "peer_send p nb w = Some (upd_peer p (\<lambda>x. x\<lparr>p_outq := p_outq x @ [nb]\<rparr>)
    (if p_outq x = [] then upd_peer p (\<lambda>x. x\<lparr>p_t_wantwrite := w_seconds w\<rparr>) (ev_enable EV_WRITE p (nb_hold nb w))
     else nb_hold nb w))"
  using assms by (simp add: peer_send_def q_insert_tail_def Let_def)

lemma nb_drop_eq:
  "nw_refs w (nb_addr nb) > 0 \<Longrightarrow> nw_refs w (nb_addr nb) = 1 \<longrightarrow> nb_kill nb \<noteq> Kill_Abort \<Longrightarrow>
    nb_drop nb w = Some (nw_refs w (nb_addr nb) = 1, w\<lparr>nw_refs := (nw_refs w)(nb_addr nb := nw_refs w (nb_addr nb) - 1)\<rparr>)"
  by (auto simp: nb_drop_def Let_def)

lemma peer_unsend_eq:
  assumes "w_peer w p = Some x" "i < length (p_outq x)" "i = 0 \<longrightarrow> p_outq_off x = 0" "nb = p_outq x ! i"
    "nb_type nb = NB_TORRENTDATA \<longrightarrow> p_npiece_msgs x > 0" "nw_refs w (nb_addr nb) > 0"
    "nw_refs w (nb_addr nb) = 1 \<longrightarrow> nb_kill nb \<noteq> Kill_Abort"
    "w1 = (if nb_type nb = NB_TORRENTDATA then upd_peer p (\<lambda>x. x\<lparr>p_npiece_msgs := p_npiece_msgs x - 1\<rparr>)
             (upd_peer p (\<lambda>x. x\<lparr>p_outq := remove_nth i (p_outq x)\<rparr>) w)
           else upd_peer p (\<lambda>x. x\<lparr>p_outq := remove_nth i (p_outq x)\<rparr>) w)
          \<lparr>nw_refs := (nw_refs w)(nb_addr nb := nw_refs w (nb_addr nb) - 1)\<rparr>"
  shows "peer_unsend p i w = Some (True,
     if remove_nth i (p_outq x) = []
     then if PF_ON_WRITEQ \<in> pf w1 p then clr_flag PF_ON_WRITEQ p (w1\<lparr>w_writeq := q_remove (w_writeq w1) p\<rparr>)
          else ev_disable EV_WRITE p w1
     else w1)"
proof -
  have r: "i > 0 \<or> p_outq_off x = 0" using assms(3) by auto
  show ?thesis
  proof (cases "nb_type nb = NB_TORRENTDATA")
    case True
    then show ?thesis using assms(1,2,5-7) r unfolding assms(8)
      by (simp add: peer_unsend_def assms(4) [symmetric] nb_drop_eq del: One_nat_def)
  next
    case False
    then show ?thesis using assms(1,2,6,7) r unfolding assms(8)
      by (simp add: peer_unsend_def assms(4) [symmetric] nb_drop_eq del: One_nat_def)
  qed
qed

lemma peer_send_ok:
  assumes "queues_ok w" "w_peer w p = Some x" "msg_ok w nb" "nb_type nb \<noteq> NB_TORRENTDATA"
  shows "\<exists>w' x'. peer_send p nb w = Some w' \<and> queues_ok w' \<and> frame p w w' \<and> pf w' = pf w \<and>
    w_peer w' p = Some x' \<and> p_outq x' = p_outq x @ [nb] \<and> p_in x' = p_in x \<and> nw_single w' = nw_single w \<and> nw_fresh w' = nw_fresh w"
proof -
  let ?e = "\<lambda>y. if p_outq x = [] then y\<lparr>p_ev := insert EV_WRITE (p_ev y), p_t_wantwrite := w_seconds w\<rparr> else y"
  let ?x = "(?e x)\<lparr>p_outq := p_outq x @ [nb]\<rparr>"
  have o: "p_outq x = [] \<longrightarrow> p_outq_off x = 0" and pq: "peer_q_ok w x"
    using assms(1,2) by (auto simp: queues_ok_def peer_q_ok_def)
  define w' where "w' = upd_peer p (\<lambda>x. x\<lparr>p_outq := p_outq x @ [nb]\<rparr>)
    (if p_outq x = [] then upd_peer p (\<lambda>x. x\<lparr>p_t_wantwrite := w_seconds w\<rparr>) (ev_enable EV_WRITE p (nb_hold nb w))
     else nb_hold nb w)"
  have w': "peer_send p nb w = Some w'" unfolding w'_def by (rule peer_send_eq [OF assms(2) o])
  have p': "w_peer w' = (w_peer w)(p \<mapsto> ?x)" "w_mp w' = w_mp w" "cw_tor w' = cw_tor w" "w_peerq w' = w_peerq w" "w_ul_npeers w' = w_ul_npeers w"
      "nw_single w' = nw_single w" "nw_fresh w' = nw_fresh w"
      "nw_refs w' = (nw_refs w)(nb_addr nb := nw_refs w (nb_addr nb) + 1)"
    using assms(2) by (auto simp: w'_def ev_enable_def)
  have "queues_ok w'"
  proof (rule queues_ok_step [OF assms(1,2) p'(1)])
    show "peer_q_ok w ?x" using pq assms(3,4) by (auto simp: peer_q_ok_def)
  qed (auto simp: p')
  moreover have "frame p w w'" "pf w' = pf w" using p' assms(2) by (auto simp: frame_def pf_def fun_eq_iff)
  ultimately show ?thesis using w' p' by auto
qed

text \<open>Sending a message that is created for the call.\<close>

lemma peer_send_new_ok:
  assumes "w_peer w p = Some x" "queues_ok (snd r) \<and> msg_ok (snd r) (fst r) \<and> nb_type (fst r) = ty \<and> same_but_nb w (snd r)"
    "ty \<noteq> NB_TORRENTDATA"
  shows "\<exists>w' x' nb. peer_send_new p r = Some w' \<and> queues_ok w' \<and> frame p w w' \<and> pf w' = pf w \<and>
    w_peer w' p = Some x' \<and> p_outq x' = p_outq x @ [nb] \<and> nb_type nb = ty \<and> p_in x' = p_in x"
proof -
  have x: "w_peer (snd r) p = Some x" and q: "pf (snd r) = pf w" using assms by (auto simp: same_but_nb_def pf_def)
  from peer_send_ok [of "snd r" p x "fst r"] x assms obtain w' x' where w': "peer_send p (fst r) (snd r) = Some w'" "queues_ok w'"
    "frame p (snd r) w'" "pf w' = pf (snd r)" "w_peer w' p = Some x'" "p_outq x' = p_outq x @ [fst r]" "p_in x' = p_in x" by auto
  moreover have "frame p w w'" using frame_trans [OF same_frame w'(3)] assms(2) by blast
  ultimately show ?thesis using assms(2) q by (auto simp: peer_send_new_def split: prod.split)
qed

lemma peer_unsend_ok:
  assumes "queues_ok w" "w_peer w p = Some x" "i < length (p_outq x)" "i = 0 \<longrightarrow> p_outq_off x = 0"
  shows "\<exists>w' x'. peer_unsend p i w = Some (True, w') \<and> queues_ok w' \<and> frame p w w' \<and>
    w_peer w' p = Some x' \<and> p_outq x' = remove_nth i (p_outq x) \<and> p_outq_off x' = p_outq_off x \<and>
    (\<forall>q. pf w' q - {PF_ON_WRITEQ} = pf w q - {PF_ON_WRITEQ})"
proof -
  let ?nb = "p_outq x ! i" and ?q = "remove_nth i (p_outq x)"
  have pq: "peer_q_ok w x" and fin: "finite (dom (w_peer w))" and mp: "w_mp w p \<noteq> None"
    using assms(1,2) by (auto simp: queues_ok_def)
  have nbq: "?nb \<in> set (p_outq x)" using assms(3) by simp
  have c: "cnt_addr a ?q + (if nb_addr ?nb = a then 1 else 0) = cnt_addr a (p_outq x)" for a
    by (rule cnt_addr_remove_nth [OF assms(3)])
  have d: "cnt_data ?q + (if nb_type ?nb = NB_TORRENTDATA then 1 else 0) = p_npiece_msgs x"
    using cnt_data_remove_nth [OF assms(3)] pq by (simp add: peer_q_ok_def)
  have held1: "1 \<le> held w (nb_addr ?nb)"
    using held_ge [OF fin assms(2), of "nb_addr ?nb"] cnt_addr_pos [OF nbq] by simp
  then have r1: "nw_refs w (nb_addr ?nb) > 0" using assms(1) unfolding queues_ok_def by (metis less_le_trans zero_less_one)
  have r2: "nw_refs w (nb_addr ?nb) - 1 \<noteq> 0" if "nb_kill ?nb = Kill_Abort"
  proof -
    from that nbq pq obtain ty where "nw_single w ty = Some ?nb" by (auto simp: peer_q_ok_def msg_ok_def)
    from queues_ok_single [OF assms(1) this] held1 show ?thesis by simp
  qed
  let ?x1 = "x\<lparr>p_outq := ?q, p_npiece_msgs := (if nb_type ?nb = NB_TORRENTDATA then p_npiece_msgs x - 1 else p_npiece_msgs x)\<rparr>"
  define w1 where "w1 = (if nb_type ?nb = NB_TORRENTDATA then upd_peer p (\<lambda>x. x\<lparr>p_npiece_msgs := p_npiece_msgs x - 1\<rparr>)
             (upd_peer p (\<lambda>x. x\<lparr>p_outq := remove_nth i (p_outq x)\<rparr>) w)
           else upd_peer p (\<lambda>x. x\<lparr>p_outq := remove_nth i (p_outq x)\<rparr>) w)
          \<lparr>nw_refs := (nw_refs w)(nb_addr ?nb := nw_refs w (nb_addr ?nb) - 1)\<rparr>"
  have p1: "w_peer w1 = (w_peer w)(p \<mapsto> ?x1)" "w_mp w1 = w_mp w" "cw_tor w1 = cw_tor w" "w_peerq w1 = w_peerq w" "w_ul_npeers w1 = w_ul_npeers w"
      "nw_single w1 = nw_single w" "nw_fresh w1 = nw_fresh w" "pf w1 = pf w"
      "nw_refs w1 = (nw_refs w)(nb_addr ?nb := nw_refs w (nb_addr ?nb) - 1)"
    using assms(2) by (auto simp: w1_def pf_def fun_eq_iff)
  let ?w' = "if ?q = [] then if PF_ON_WRITEQ \<in> pf w1 p then clr_flag PF_ON_WRITEQ p (w1\<lparr>w_writeq := q_remove (w_writeq w1) p\<rparr>)
     else ev_disable EV_WRITE p w1 else w1"
  have u: "peer_unsend p i w = Some (True, ?w')"
    by (rule peer_unsend_eq [OF assms(2-4) refl _ r1 _ w1_def]) (use d r2 in auto)
  let ?x' = "if ?q = [] \<and> PF_ON_WRITEQ \<notin> pf w1 p then ?x1\<lparr>p_ev := p_ev ?x1 - {EV_WRITE}\<rparr> else ?x1"
  have p': "w_peer ?w' = (w_peer w)(p \<mapsto> ?x')" "cw_tor ?w' = cw_tor w" "w_peerq ?w' = w_peerq w"
      "nw_single ?w' = nw_single w" "nw_fresh ?w' = nw_fresh w" "nw_refs ?w' = nw_refs w1"
      "\<And>q. w_mp w q \<noteq> None \<Longrightarrow> w_mp ?w' q \<noteq> None"
      "w_ul_npeers ?w' = w_ul_npeers w" "\<And>q. pf ?w' q = (if q = p \<and> ?q = [] then pf w q - {PF_ON_WRITEQ} else pf w q)"
    using p1 by (auto simp: ev_disable_def clr_flag_def pf_def upd_mp_def split: option.splits)
  have "queues_ok ?w'"
  proof (rule queues_ok_step [OF assms(1,2) p'(1)])
    have "p_outq_off x = 0" if "?q = []" using that assms(3,4) by (cases i) (auto simp: remove_nth_def)
    then show "peer_q_ok w ?x'" using pq d set_remove_nth [of i "p_outq x"] by (auto simp: peer_q_ok_def)
    show "nw_refs ?w' a + cnt_addr a (p_outq x) = nw_refs w a + cnt_addr a (p_outq ?x')" for a
      unfolding p'(6) p1(9) using c [of a] r1 by (auto split: if_split_asm)
  qed (use p' in auto)
  moreover have "frame p w ?w'" using p' assms(2) by (auto simp: frame_def)
  ultimately show ?thesis using u p' by auto
qed


section \<open>Choking and unchoking\<close>

text \<open>The queue without block messages and their data.\<close>

fun drop_blocks :: "net_buf list \<Rightarrow> net_buf list" where
  "drop_blocks [] = []"
| "drop_blocks (nb # q) =
     (if nb_type nb = NB_PIECE then (case q of [] \<Rightarrow> [] | d # r \<Rightarrow> drop_blocks r) else nb # drop_blocks q)"

definition plain :: "net_buf \<Rightarrow> bool" where
  "plain nb \<longleftrightarrow> nb_type nb \<noteq> NB_PIECE \<and> nb_type nb \<noteq> NB_TORRENTDATA"

lemma drop_blocks_plain: "paired q \<Longrightarrow> list_all plain (drop_blocks q)"
  by (induction q rule: drop_blocks.induct) (auto simp: plain_def split: list.splits if_splits)

lemma paired_plain: "list_all plain q \<Longrightarrow> paired q"
  by (induction q) (auto simp: plain_def)

lemma paired_append: "paired q \<Longrightarrow> list_all plain r \<Longrightarrow> paired (q @ r)"
proof (induction q rule: paired.induct)
  case (2 nb q)
  then show ?case by (cases q) (auto split: if_splits)
qed (simp add: paired_plain)

lemma outq_paired_append: "outq_paired q \<Longrightarrow> list_all plain r \<Longrightarrow> outq_paired (q @ r)"
proof (cases q)
  case Nil
  assume r: "list_all plain r"
  show ?thesis
  proof (cases r)
    case (Cons nb s)
    with r have "nb_type nb \<noteq> NB_TORRENTDATA" "paired (nb # s)" using paired_plain [OF r] by (simp_all add: plain_def)
    with Nil Cons show ?thesis unfolding outq_paired_def by simp
  qed (simp add: Nil outq_paired_def)
next
  case (Cons nb s)
  assume "outq_paired q" "list_all plain r"
  with Cons paired_append [of s r] paired_append [of "nb # s" r] show ?thesis
    unfolding outq_paired_def by (cases "nb_type nb = NB_TORRENTDATA") simp_all
qed

lemma choke_loop_end: "w_peer w p = Some x \<Longrightarrow> length (p_outq x) \<le> i \<Longrightarrow> choke_loop n p i w = Some w"
  by (cases n) simp_all

lemma choke_loop_pass:
  "w_peer w p = Some x \<Longrightarrow> i < length (p_outq x) \<Longrightarrow> nb_type (p_outq x ! i) \<noteq> NB_PIECE \<Longrightarrow>
    choke_loop (Suc n) p i w = choke_loop n p (Suc i) w"
  by simp

lemma choke_loop_take:
  "w_peer w p = Some x \<Longrightarrow> Suc i < length (p_outq x) \<Longrightarrow> nb_type (p_outq x ! i) = NB_PIECE \<Longrightarrow>
    peer_unsend p i w = Some (True, w1) \<Longrightarrow> peer_unsend p i w1 = Some (True, w2) \<Longrightarrow>
    choke_loop (Suc n) p i w = choke_loop n p i w2"
  by simp

lemma choke_loop_keep:
  "w_peer w p = Some x \<Longrightarrow> Suc i < length (p_outq x) \<Longrightarrow> nb_type (p_outq x ! i) = NB_PIECE \<Longrightarrow>
    peer_unsend p i w = Some (False, w1) \<Longrightarrow> choke_loop (Suc n) p i w = choke_loop n p (i + 2) w1"
  by simp

declare choke_loop.simps [simp del]

lemma choke_loop_ok:
  assumes "queues_ok w" "w_peer w p = Some x" "p_outq x = pre @ rest" "paired rest" "length rest \<le> n"
    "pre = [] \<longrightarrow> p_outq_off x = 0"
  shows "\<exists>w' x'. choke_loop n p (length pre) w = Some w' \<and> queues_ok w' \<and> frame p w w' \<and> w_peer w' p = Some x' \<and>
    p_outq x' = pre @ drop_blocks rest \<and> p_outq_off x' = p_outq_off x \<and>
    (\<forall>q. pf w' q - {PF_ON_WRITEQ} = pf w q - {PF_ON_WRITEQ})"
  using assms
proof (induction n arbitrary: w x pre rest)
  case 0
  then have "choke_loop 0 p (length pre) w = Some w" by (intro choke_loop_end) auto
  with 0 show ?case by auto
next
  case (Suc n)
  show ?case
  proof (cases rest)
    case Nil
    with Suc.prems have "choke_loop (Suc n) p (length pre) w = Some w" by (intro choke_loop_end) auto
    with Nil Suc.prems show ?thesis by auto
  next
    case (Cons nb q)
    have i: "p_outq x ! length pre = nb" "length pre < length (p_outq x)" using Suc.prems(3) Cons by simp_all
    show ?thesis
    proof (cases "nb_type nb = NB_PIECE")
      case False
      from Suc.prems(4,5) Cons False have "paired q" "length q \<le> n" by simp_all
      with Suc.IH [OF Suc.prems(1,2), of "pre @ [nb]" q] Suc.prems(3) Cons
      obtain w' x' where w': "choke_loop n p (Suc (length pre)) w = Some w'" "queues_ok w'" "frame p w w'" "w_peer w' p = Some x'"
        "p_outq x' = pre @ nb # drop_blocks q" "p_outq_off x' = p_outq_off x"
        "\<forall>q. pf w' q - {PF_ON_WRITEQ} = pf w q - {PF_ON_WRITEQ}" by auto
      have "choke_loop (Suc n) p (length pre) w = Some w'"
        using choke_loop_pass [OF Suc.prems(2) i(2)] i(1) False w'(1) by simp
      with w'(2-) False Cons show ?thesis by auto
    next
      case True
      with Suc.prems(4) Cons obtain d r where q: "q = d # r" "nb_type d = NB_TORRENTDATA" "paired r"
        by (auto split: list.splits)
      have "length pre = 0 \<longrightarrow> p_outq_off x = 0" using Suc.prems(6) by simp
      from peer_unsend_ok [OF Suc.prems(1,2) i(2) this]
      obtain w1 x1 where w1: "peer_unsend p (length pre) w = Some (True, w1)" "queues_ok w1" "frame p w w1"
        "w_peer w1 p = Some x1" "p_outq x1 = remove_nth (length pre) (p_outq x)" "p_outq_off x1 = p_outq_off x"
        "\<forall>q. pf w1 q - {PF_ON_WRITEQ} = pf w q - {PF_ON_WRITEQ}" by blast
      have o1: "p_outq x1 = pre @ d # r" using w1(5) Suc.prems(3) Cons q by simp
      have "length pre < length (p_outq x1)" "length pre = 0 \<longrightarrow> p_outq_off x1 = 0" using o1 w1(6) Suc.prems(6) by auto
      from peer_unsend_ok [OF w1(2,4) this]
      obtain w2 x2 where w2: "peer_unsend p (length pre) w1 = Some (True, w2)" "queues_ok w2" "frame p w1 w2"
        "w_peer w2 p = Some x2" "p_outq x2 = remove_nth (length pre) (p_outq x1)" "p_outq_off x2 = p_outq_off x1"
        "\<forall>q. pf w2 q - {PF_ON_WRITEQ} = pf w1 q - {PF_ON_WRITEQ}" by blast
      have o2: "p_outq x2 = pre @ r" using w2(5) o1 by simp
      have "pre = [] \<longrightarrow> p_outq_off x2 = 0" using w1(6) w2(6) Suc.prems(6) by simp
      moreover have "length r \<le> n" using Suc.prems(5) Cons q by simp
      ultimately obtain w' x' where w': "choke_loop n p (length pre) w2 = Some w'" "queues_ok w'" "frame p w2 w'" "w_peer w' p = Some x'"
        "p_outq x' = pre @ drop_blocks r" "p_outq_off x' = p_outq_off x2"
        "\<forall>q. pf w' q - {PF_ON_WRITEQ} = pf w2 q - {PF_ON_WRITEQ}"
        using Suc.IH [OF w2(2,4) o2 q(3)] by blast
      have "Suc (length pre) < length (p_outq x)" using Suc.prems(3) Cons q by simp
      from choke_loop_take [OF Suc.prems(2) this _ w1(1) w2(1), of n] i(1) True w'(1)
      have "choke_loop (Suc n) p (length pre) w = Some w'" by simp
      moreover have "frame p w w'" using w1(3) w2(3) w'(3) frame_trans by blast
      moreover have "\<forall>q. pf w' q - {PF_ON_WRITEQ} = pf w q - {PF_ON_WRITEQ}"
        using w1(7) w2(7) w'(7) by (metis (no_types))
      moreover have "p_outq x' = pre @ drop_blocks rest" "p_outq_off x' = p_outq_off x"
        using w'(5,6) w1(6) w2(6) True Cons q by simp_all
      ultimately show ?thesis using w'(2,4) by blast
    qed
  qed
qed

text \<open>At the front there may be a message that is written in part.\<close>

definition choked_queue :: "nat \<Rightarrow> net_buf list \<Rightarrow> net_buf list" where
  "choked_queue off q =
     (case q of
        [] \<Rightarrow> []
      | nb # r \<Rightarrow>
          if nb_type nb = NB_TORRENTDATA then nb # drop_blocks r
          else if nb_type nb = NB_PIECE \<and> off > 0 then nb # take 1 r @ drop_blocks (drop 1 r)
          else drop_blocks q)"

lemma choked_queue_paired: "outq_paired q \<Longrightarrow> outq_paired (choked_queue off q)"
proof (cases q)
  case (Cons nb r)
  assume p: "outq_paired q"
  show ?thesis
  proof (cases "nb_type nb = NB_TORRENTDATA")
    case True
    with p Cons show ?thesis by (simp add: outq_paired_def choked_queue_def drop_blocks_plain paired_plain)
  next
    case False
    with p Cons have pq: "paired q" by (simp add: outq_paired_def)
    have "outq_paired ([] @ drop_blocks q)"
      by (rule outq_paired_append) (simp_all add: outq_paired_def drop_blocks_plain [OF pq])
    then have "outq_paired (drop_blocks q)" by simp
    moreover have "outq_paired (nb # take 1 r @ drop_blocks (drop 1 r))" if "nb_type nb = NB_PIECE"
      using that pq Cons by (auto simp: outq_paired_def drop_blocks_plain paired_plain split: list.splits)
    ultimately show ?thesis using False Cons by (simp add: choked_queue_def)
  qed
qed (simp add: choked_queue_def outq_paired_def)

lemma choke_loop_all_ok:
  assumes "queues_ok w" "w_peer w p = Some x" "outq_paired (p_outq x)"
  shows "\<exists>w' x'. choke_loop (length (p_outq x)) p 0 w = Some w' \<and> queues_ok w' \<and> frame p w w' \<and> w_peer w' p = Some x' \<and>
    p_outq x' = choked_queue (p_outq_off x) (p_outq x) \<and>
    (\<forall>q. pf w' q - {PF_ON_WRITEQ} = pf w q - {PF_ON_WRITEQ})"
proof (cases "p_outq x")
  case Nil
  with choke_loop_end [OF assms(2)] assms show ?thesis by (auto simp: choked_queue_def)
next
  case (Cons nb r)
  show ?thesis
  proof (cases "nb_type nb = NB_PIECE")
    case False
    have "paired r" using assms(3) Cons False by (auto simp: outq_paired_def split: if_splits)
    moreover have "choke_loop (length (p_outq x)) p 0 w = choke_loop (length r) p (length [nb]) w"
      using choke_loop_pass [OF assms(2), of 0 "length r"] Cons False by simp
    moreover have "choked_queue (p_outq_off x) (p_outq x) = [nb] @ drop_blocks r"
      using Cons False by (simp add: choked_queue_def)
    ultimately show ?thesis
      using choke_loop_ok [OF assms(1,2), of "[nb]" r "length r"] Cons by (metis append_Cons append_Nil list.distinct(1) order_refl)
  next
    case True
    with assms(3) Cons obtain d s where s: "r = d # s" "nb_type d = NB_TORRENTDATA" "paired s" "paired (p_outq x)"
      by (auto simp: outq_paired_def split: list.splits if_splits)
    show ?thesis
    proof (cases "p_outq_off x = 0")
      case off: True
      have "choked_queue (p_outq_off x) (p_outq x) = [] @ drop_blocks (p_outq x)"
        using Cons off True by (simp add: choked_queue_def)
      with choke_loop_ok [OF assms(1,2), of "[]" "p_outq x" "length (p_outq x)"] s(4) off show ?thesis by auto
    next
      case off: False
      with assms(2) Cons True have u: "peer_unsend p 0 w = Some (False, w)" by (simp add: peer_unsend_def)
      have "choke_loop (length (p_outq x)) p 0 w = choke_loop (length r) p (length [nb, d]) w"
        using choke_loop_keep [OF assms(2) _ _ u, of "length r"] Cons True s(1) by (simp add: numeral_2_eq_2)
      moreover have "choked_queue (p_outq_off x) (p_outq x) = [nb, d] @ drop_blocks s"
        using Cons s(1,2) off True by (simp add: choked_queue_def)
      moreover have "p_outq x = [nb, d] @ s" "length s \<le> length r" using Cons s(1) by simp_all
      ultimately show ?thesis
        using choke_loop_ok [OF assms(1,2), of "[nb, d]" s "length r"] s(3) by (metis list.distinct(1))
    qed
  qed
qed

lemma queues_ok_flags:
  "queues_ok w \<Longrightarrow> queues_ok (set_flag F p w)" "queues_ok w \<Longrightarrow> queues_ok (clr_flag F p w)"
  by (erule queues_ok_cong; auto simp: set_flag_def clr_flag_def)+

lemma frame_flags:
  "F \<in> {PF_I_CHOKE, PF_ON_WRITEQ} \<Longrightarrow> frame p w (set_flag F p w)"
  "F \<in> {PF_I_CHOKE, PF_ON_WRITEQ} \<Longrightarrow> frame p w (clr_flag F p w)"
  by (auto simp: frame_def pf_def set_flag_def clr_flag_def upd_mp_def split: option.splits)

lemma net_ok_step:
  assumes "net_ok w" "\<And>q. q \<noteq> p \<Longrightarrow> w_peer w' q = w_peer w q" "queues_ok w'" "w_peer w' p = Some x'" "outq_paired (p_outq x')"
  shows "net_ok w'"
  unfolding net_ok_def
proof (intro conjI allI impI)
  fix q y assume "w_peer w' q = Some y"
  then show "outq_paired (p_outq y)" using assms by (cases "q = p") (auto simp: net_ok_def)
qed (rule assms(3))

lemma net_ok_frame:
  assumes "net_ok w" "frame p w w'" "queues_ok w'" "w_peer w' p = Some x'" "outq_paired (p_outq x')"
  shows "net_ok w'"
  by (rule net_ok_step [OF assms(1) _ assms(3-5)]) (use assms(2) in \<open>simp add: frame_def\<close>)

lemma net_okD: "net_ok w \<Longrightarrow> w_peer w p = Some x \<Longrightarrow> outq_paired (p_outq x) \<and> w_mp w p \<noteq> None"
  by (simp add: net_ok_def queues_ok_def)

lemma peer_unchoke_ok:
  assumes "net_ok w" "w_peer w p = Some x"
  shows "\<exists>w'. peer_unchoke p w = Some w' \<and> net_ok w' \<and> frame p w w' \<and> PF_I_CHOKE \<notin> pf w' p"
proof -
  let ?w = "clr_flag PF_I_CHOKE p w"
  have q: "queues_ok ?w" using assms(1) by (simp add: net_ok_def queues_ok_flags)
  have x: "w_peer ?w p = Some x" using assms(2) by simp
  from peer_send_new_ok [OF x, of "nb_create_unchoke ?w" NB_UNCHOKE] once_ok [OF q, of NB_UNCHOKE]
  obtain w' x' nb where w': "peer_unchoke p w = Some w'" "queues_ok w'" "frame p ?w w'" "pf w' = pf ?w"
    "w_peer w' p = Some x'" "p_outq x' = p_outq x @ [nb]" "nb_type nb = NB_UNCHOKE"
    by (auto simp: peer_unchoke_def nb_create_unchoke_def nb_create_onesized_def)
  have f: "frame p w w'" using frame_trans [OF frame_flags(2) w'(3)] by simp
  have "outq_paired (p_outq x')"
    using outq_paired_append [of "p_outq x" "[nb]"] net_okD [OF assms] w'(6,7) by (simp add: plain_def)
  then have "net_ok w'" using net_ok_frame [OF assms(1) f w'(2,5)] by simp
  with w' f show ?thesis by auto
qed

lemma peer_choke_ok:
  assumes "net_ok w" "w_peer w p = Some x"
  shows "\<exists>w' x' nb. peer_choke p w = Some w' \<and> net_ok w' \<and> frame p w w' \<and> PF_I_CHOKE \<in> pf w' p \<and>
    w_peer w' p = Some x' \<and> p_outq x' = choked_queue (p_outq_off x) (p_outq x) @ [nb] \<and> nb_type nb = NB_CHOKE \<and>
    p_npiece_msgs x' = cnt_data (choked_queue (p_outq_off x) (p_outq x))"
proof -
  have q: "queues_ok w" and op: "outq_paired (p_outq x)" and mp: "w_mp w p \<noteq> None"
    using assms by (auto simp: net_ok_def queues_ok_def)
  obtain w1 x1 where w1: "choke_loop (length (p_outq x)) p 0 w = Some w1" "queues_ok w1" "frame p w w1"
    "w_peer w1 p = Some x1" "p_outq x1 = choked_queue (p_outq_off x) (p_outq x)"
    using choke_loop_all_ok [OF q assms(2) op] by blast
  let ?w = "set_flag PF_I_CHOKE p w1"
  have q2: "queues_ok ?w" and x2: "w_peer ?w p = Some x1" using w1 by (simp_all add: queues_ok_flags)
  have mp1: "w_mp w1 p \<noteq> None" using w1(2,4) by (simp add: queues_ok_def)
  from peer_send_new_ok [OF x2, of "nb_create_choke ?w" NB_CHOKE] once_ok [OF q2, of NB_CHOKE]
  obtain w' x' nb where w': "peer_send_new p (nb_create_choke ?w) = Some w'" "queues_ok w'" "frame p ?w w'" "pf w' = pf ?w"
    "w_peer w' p = Some x'" "p_outq x' = p_outq x1 @ [nb]" "nb_type nb = NB_CHOKE"
    by (auto simp: nb_create_choke_def nb_create_onesized_def)
  have f: "frame p w w'" using frame_trans [OF w1(3) frame_trans [OF frame_flags(1) w'(3)]] by simp
  have "outq_paired (p_outq x')"
    using outq_paired_append [OF choked_queue_paired [OF op], of "[nb]"] w'(6,7) w1(5) by (simp add: plain_def)
  then have n: "net_ok w'" using net_ok_frame [OF assms(1) f w'(2,5)] by simp
  then have "p_npiece_msgs x' = cnt_data (p_outq x')" using w'(5) by (simp add: net_ok_def queues_ok_def peer_q_ok_def)
  then have "p_npiece_msgs x' = cnt_data (choked_queue (p_outq_off x) (p_outq x))" using w'(6,7) w1(5) by simp
  moreover have "peer_choke p w = Some w'" using assms(2) w1(1) w'(1) by (simp add: peer_choke_def)
  moreover have "PF_I_CHOKE \<in> pf w' p" using w'(4) mp1 by simp
  ultimately show ?thesis using n f w' w1(5) by auto
qed

text \<open>C13. Choking a peer always succeeds from a state in which the queues are in order, and leaves such a
  state: every block that waits in the queue is withdrawn together with its data, except for a block of which
  a part is written already; the other messages stay in order and the choke message goes behind
  them. No other peer is touched.\<close>

theorem peer_choke_withdraws_blocks:
  assumes "net_ok w" "w_peer w p = Some x"
  shows "\<exists>w' x' nb. peer_choke p w = Some w' \<and> net_ok w' \<and> frame p w w' \<and> PF_I_CHOKE \<in> pf w' p \<and>
    w_peer w' p = Some x' \<and> p_outq x' = choked_queue (p_outq_off x) (p_outq x) @ [nb] \<and> nb_type nb = NB_CHOKE \<and>
    p_npiece_msgs x' = cnt_data (choked_queue (p_outq_off x) (p_outq x))"
  by (rule peer_choke_ok [OF assms])

lemma sample_net_ok: "net_ok sample_swarm"
proof -
  have "held sample_swarm a = 0" for a by (simp add: held_def sample_peer_def)
  then show ?thesis
    using sample_swarm_simps by (auto simp: net_ok_def queues_ok_def peer_q_ok_def outq_paired_def sample_peer_def split: if_split_asm)
qed

theorem peer_choke_withdraws_blocks_witness:
  "\<exists>w' x'. peer_choke 0 sample_swarm = Some w' \<and> PF_I_CHOKE \<in> pf w' 0 \<and> w_peer w' 0 = Some x' \<and>
     map nb_type (p_outq x') = [NB_CHOKE]"
  using peer_choke_withdraws_blocks [OF sample_net_ok, of 0 sample_peer]
  by (auto simp: sample_peer_def choked_queue_def)

end
