(* ===== verification/UploadSlots.thy ===== *)
theory UploadSlots
  imports Upload PeerQueue
begin

text \<open>
  The upload slots: whatever the rates are, \<^verbatim>\<open>choke_do\<close> leaves at most \<^verbatim>\<open>m_max_uploads\<close> interested peers
  unchoked, and it leaves no slot empty as long as a peer could use it.
\<close>

definition upload_ok :: "world \<Rightarrow> bool" where
  "upload_ok w \<longleftrightarrow> distinct (w_peerq w) \<and> length (w_peerq w) = w_ul_npeers w \<and>
     (\<forall>p \<in> set (w_peerq w). w_peer w p \<noteq> None \<and> peer_tp w p \<noteq> None)"

text \<open>What a run over the peers leaves alone.\<close>

definition gframe :: "world \<Rightarrow> world \<Rightarrow> bool" where
  "gframe w w' \<longleftrightarrow>
     (\<forall>p x. w_peer w p = Some x \<longrightarrow> (\<exists>x'. w_peer w' p = Some x' \<and> p_npieces x' = p_npieces x \<and> p_n x' = p_n x)) \<and>
     (\<forall>p. w_peer w p = None \<longrightarrow> w_peer w' p = None) \<and>
     (\<forall>p. pf w' p - {PF_I_CHOKE, PF_ON_WRITEQ} = pf w p - {PF_I_CHOKE, PF_ON_WRITEQ}) \<and>
     cw_tor w' = cw_tor w \<and> w_peerq w' = w_peerq w \<and> w_ul_npeers w' = w_ul_npeers w"

lemma gframe_refl [simp]: "gframe w w"
  by (simp add: gframe_def)

lemma gframe_trans [trans]: "gframe w1 w2 \<Longrightarrow> gframe w2 w3 \<Longrightarrow> gframe w1 w3"
  unfolding gframe_def by (intro conjI allI impI) (fastforce | blast | simp)+

lemma frame_gframe:
  assumes "frame p w w'" "w_peer w p \<noteq> None"
  shows "gframe w w'"
proof -
  have "\<exists>x'. w_peer w' q = Some x' \<and> p_npieces x' = p_npieces x \<and> p_n x' = p_n x" if "w_peer w q = Some x" for q x
    using assms(1) that unfolding frame_def by (cases "q = p") auto
  moreover have "w_peer w' q = None" if "w_peer w q = None" for q
    using assms that unfolding frame_def by (cases "q = p") auto
  moreover have "pf w' q - {PF_I_CHOKE, PF_ON_WRITEQ} = pf w q - {PF_I_CHOKE, PF_ON_WRITEQ}" for q
    using assms(1) unfolding frame_def by (cases "q = p") auto
  ultimately show ?thesis using assms(1) unfolding gframe_def frame_def by blast
qed

lemma gframe_flag: "gframe w w' \<Longrightarrow> F \<noteq> PF_I_CHOKE \<Longrightarrow> F \<noteq> PF_ON_WRITEQ \<Longrightarrow> F \<in> pf w' p \<longleftrightarrow> F \<in> pf w p"
  unfolding gframe_def by (metis Diff_iff empty_iff insert_iff)

lemma gframe_wants: "gframe w w' \<Longrightarrow> wants w' p = wants w p"
  by (simp add: wants_def gframe_flag)

lemma gframe_tp: "gframe w w' \<Longrightarrow> peer_tp w' p = peer_tp w p"
  unfolding gframe_def peer_tp_def peer_net_def by (cases "w_peer w p") fastforce+

lemma gframe_full: "gframe w w' \<Longrightarrow> peer_full w' p = peer_full w p"
  unfolding peer_full_def using gframe_tp [of w w' p]
  by (cases "w_peer w p") (fastforce simp: gframe_def split: option.splits)+

lemma gframe_live: "gframe w w' \<Longrightarrow> w_peer w p \<noteq> None \<Longrightarrow> w_peer w' p \<noteq> None"
  unfolding gframe_def by blast

section \<open>One peer\<close>

lemma unchoke_if_ok:
  assumes "net_ok w" "w_peer w p \<noteq> None"
  shows "\<exists>w'. unchoke_if p w = Some w' \<and> net_ok w' \<and> gframe w w' \<and> PF_I_CHOKE \<notin> pf w' p \<and> (\<forall>q. q \<noteq> p \<longrightarrow> pf w' q = pf w q)"
proof (cases "PF_I_CHOKE \<in> pf w p")
  case True
  from assms(2) obtain x where x: "w_peer w p = Some x" by blast
  from peer_unchoke_ok [OF assms(1) x] obtain w' where w': "peer_unchoke p w = Some w'" "net_ok w'" "frame p w w'" "PF_I_CHOKE \<notin> pf w' p"
    by blast
  then have "\<forall>q. q \<noteq> p \<longrightarrow> pf w' q = pf w q" by (simp add: frame_def)
  with w' frame_gframe [OF w'(3) assms(2)] True show ?thesis by (simp add: unchoke_if_def)
next
  case False
  with assms show ?thesis by (simp add: unchoke_if_def)
qed

lemma choke_if_ok:
  assumes "net_ok w" "w_peer w p \<noteq> None"
  shows "\<exists>w'. choke_if p w = Some w' \<and> net_ok w' \<and> gframe w w' \<and> PF_I_CHOKE \<in> pf w' p \<and> (\<forall>q. q \<noteq> p \<longrightarrow> pf w' q = pf w q)"
proof (cases "PF_I_CHOKE \<in> pf w p")
  case False
  from assms(2) obtain x where x: "w_peer w p = Some x" by blast
  from peer_choke_ok [OF assms(1) x] obtain w' where w': "peer_choke p w = Some w'" "net_ok w'" "frame p w w'" "PF_I_CHOKE \<in> pf w' p"
    by blast
  then have "\<forall>q. q \<noteq> p \<longrightarrow> pf w' q = pf w q" by (simp add: frame_def)
  with w' frame_gframe [OF w'(3) assms(2)] False show ?thesis by (simp add: choke_if_def)
next
  case True
  with assms show ?thesis by (simp add: choke_if_def)
qed

lemma foreach_flag_ok:
  assumes "net_ok w" "\<forall>p \<in> set q. w_peer w p \<noteq> None"
    and step: "\<And>v p. net_ok v \<Longrightarrow> w_peer v p \<noteq> None \<Longrightarrow>
      \<exists>v'. f p v = Some v' \<and> net_ok v' \<and> gframe v v' \<and> P (pf v' p) \<and> (\<forall>r. r \<noteq> p \<longrightarrow> pf v' r = pf v r)"
  shows "\<exists>w'. foreach q f w = Some w' \<and> net_ok w' \<and> gframe w w' \<and> (\<forall>p \<in> set q. P (pf w' p)) \<and>
    (\<forall>p. p \<notin> set q \<longrightarrow> pf w' p = pf w p)"
  using assms(1,2)
proof (induction q rule: rev_induct)
  case (snoc p q)
  then obtain v where v: "foreach q f w = Some v" "net_ok v" "gframe w v" "\<forall>r \<in> set q. P (pf v r)"
    "\<forall>r. r \<notin> set q \<longrightarrow> pf v r = pf w r" by auto
  have "w_peer v p \<noteq> None" using gframe_live [OF v(3)] snoc.prems by simp
  from step [OF v(2) this] obtain v' where v': "f p v = Some v'" "net_ok v'" "gframe v v'" "P (pf v' p)"
    "\<forall>r. r \<noteq> p \<longrightarrow> pf v' r = pf v r" by blast
  have "foreach (q @ [p]) f w = Some v'" using v(1) v'(1) by (simp add: foreach_append)
  moreover have "\<forall>r \<in> set (q @ [p]). P (pf v' r)" using v(4) v'(4,5) by (metis in_set_conv_decomp rotate1.simps(2) set_ConsD set_rotate1)
  moreover have "\<forall>r. r \<notin> set (q @ [p]) \<longrightarrow> pf v' r = pf w r" using v(5) v'(5) by simp
  ultimately show ?case using v'(2) gframe_trans [OF v(3) v'(3)] by blast
qed simp

section \<open>The best peers\<close>

lemma wants_le: "wants w p \<le> 1"
  by (simp add: wants_def)

lemma unchoke_best_ok:
  assumes "net_ok w" "\<forall>a \<in> set L. w_peer w (fst a) \<noteq> None" "int found \<le> m - 1"
  shows "\<exists>k w'. unchoke_best m L found unch w =
      Some (found + sum_list (map (\<lambda>a. wants w (fst a)) (take k L)), rev (map snd (take k L)) @ unch, w') \<and>
    net_ok w' \<and> gframe w w' \<and> (\<forall>a \<in> set (take k L). PF_I_CHOKE \<notin> pf w' (fst a)) \<and>
    (\<forall>q. PF_I_CHOKE \<notin> pf w q \<longrightarrow> PF_I_CHOKE \<notin> pf w' q) \<and>
    int (found + sum_list (map (\<lambda>a. wants w (fst a)) (take k L))) \<le> m - 1"
  using assms
proof (induction L arbitrary: found unch w)
  case Nil
  then show ?case by auto
next
  case (Cons a L)
  obtain p i where a: "a = (p, i)" by (cases a)
  show ?case
  proof (cases "int found < m - 1")
    case False
    with Cons.prems a have "unchoke_best m (a # L) found unch w = Some (found, unch, w)" by simp
    with Cons.prems show ?thesis by (intro exI [of _ 0] exI [of _ w]) simp
  next
    case True
    from Cons.prems(2) a have "w_peer w p \<noteq> None" by simp
    from unchoke_if_ok [OF Cons.prems(1) this] obtain w1 where w1: "unchoke_if p w = Some w1" "net_ok w1" "gframe w w1"
      "PF_I_CHOKE \<notin> pf w1 p" "\<forall>q. q \<noteq> p \<longrightarrow> pf w1 q = pf w q" by blast
    have "\<forall>b \<in> set L. w_peer w1 (fst b) \<noteq> None" using Cons.prems(2) gframe_live [OF w1(3)] by simp
    moreover have "int (found + wants w p) \<le> m - 1" using True wants_le [of w p] by simp
    ultimately obtain k w' where w': "unchoke_best m L (found + wants w p) (i # unch) w1 =
        Some (found + wants w p + sum_list (map (\<lambda>a. wants w1 (fst a)) (take k L)), rev (map snd (take k L)) @ i # unch, w')"
      "net_ok w'" "gframe w1 w'" "\<forall>a \<in> set (take k L). PF_I_CHOKE \<notin> pf w' (fst a)"
      "\<forall>q. PF_I_CHOKE \<notin> pf w1 q \<longrightarrow> PF_I_CHOKE \<notin> pf w' q"
      "int (found + wants w p + sum_list (map (\<lambda>a. wants w1 (fst a)) (take k L))) \<le> m - 1"
      using Cons.IH [OF w1(2), of "found + wants w p" "i # unch"] by blast
    have "unchoke_best m (a # L) found unch w =
        Some (found + sum_list (map (\<lambda>a. wants w (fst a)) (take (Suc k) (a # L))), rev (map snd (take (Suc k) (a # L))) @ unch, w')"
      using a True w1(1) w'(1) by (simp add: gframe_wants [OF w1(3)] add.assoc)
    moreover have "\<forall>b \<in> set (take (Suc k) (a # L)). PF_I_CHOKE \<notin> pf w' (fst b)" using w'(4,5) w1(4) a by simp
    moreover have "\<forall>q. PF_I_CHOKE \<notin> pf w q \<longrightarrow> PF_I_CHOKE \<notin> pf w' q" using w'(5) w1(4,5) by metis
    moreover have "int (found + sum_list (map (\<lambda>a. wants w (fst a)) (take (Suc k) (a # L)))) \<le> m - 1"
      using w'(6) a by (simp add: gframe_wants [OF w1(3)] add.assoc)
    ultimately show ?thesis using w'(2) gframe_trans [OF w1(3) w'(3)] by blast
  qed
qed

section \<open>The other slots\<close>

text \<open>The interested peers among some that are not choked.\<close>

definition using_slot :: "world \<Rightarrow> pid set \<Rightarrow> pid set" where
  "using_slot w S = {p \<in> S. PF_P_WANT \<in> pf w p \<and> PF_I_CHOKE \<notin> pf w p}"

lemma using_slot_insert:
  assumes "p \<notin> S" "finite S" "gframe w w1" "\<forall>q. q \<noteq> p \<longrightarrow> pf w1 q = pf w q"
  shows "card (using_slot w1 (insert p S)) =
    card (using_slot w S) + (if PF_P_WANT \<in> pf w p \<and> PF_I_CHOKE \<notin> pf w1 p then 1 else 0)"
proof -
  have s: "using_slot w1 S = using_slot w S" using assms(1,4) unfolding using_slot_def by (metis (no_types, lifting))
  have i: "using_slot w1 (insert p S) = (if PF_P_WANT \<in> pf w p \<and> PF_I_CHOKE \<notin> pf w1 p then {p} else {}) \<union> using_slot w1 S"
    using gframe_flag [OF assms(3), of PF_P_WANT p] by (auto simp: using_slot_def)
  have "finite (using_slot w1 S)" "p \<notin> using_slot w1 S" using assms(1,2) by (simp_all add: using_slot_def)
  then show ?thesis unfolding i by (simp add: s)
qed

lemma fill_slots_ok:
  assumes "net_ok w" "\<forall>p \<in> set q. w_peer w p \<noteq> None" "distinct (pre @ q)"
    "A = {(pre @ q) ! j | j. j \<in> set unch \<and> j < length (pre @ q)}"
    "card (using_slot w (A \<union> set pre)) = found" "int found \<le> m"
  shows "\<exists>found' w'. fill_slots m q (length pre) found unch w = Some (found', w') \<and> net_ok w' \<and> gframe w w' \<and>
    found \<le> found' \<and> int found' \<le> m \<and> card (using_slot w' (A \<union> set (pre @ q))) = found' \<and>
    (\<forall>p \<in> A \<union> set pre. PF_I_CHOKE \<in> pf w' p \<longleftrightarrow> PF_I_CHOKE \<in> pf w p) \<and>
    (int found' < m \<longrightarrow> (\<forall>p \<in> set q - A. \<not> peer_full w p \<longrightarrow> PF_I_CHOKE \<notin> pf w' p))"
  using assms
proof (induction q arbitrary: pre found w)
  case Nil
  then show ?case by auto
next
  case (Cons p q)
  have e: "(pre @ [p]) @ q = pre @ p # q" by simp
  have fin: "finite (A \<union> set pre)" unfolding Cons.prems(4) by simp
  have pn: "p \<notin> set pre" using Cons.prems(3) by simp
  have pA: "p \<in> A \<longleftrightarrow> length pre \<in> set unch"
  proof
    assume "p \<in> A"
    then obtain j where j: "p = (pre @ p # q) ! j" "j \<in> set unch" "j < length (pre @ p # q)" unfolding Cons.prems(4) by blast
    then have "j = length pre" using nth_eq_iff_index_eq [OF Cons.prems(3), of j "length pre"] by simp
    with j show "length pre \<in> set unch" by simp
  next
    assume "length pre \<in> set unch"
    then show "p \<in> A" unfolding Cons.prems(4) by (auto intro!: exI [of _ "length pre"])
  qed
  have IH: "\<exists>found' w'. fill_slots m q (Suc (length pre)) fd unch v = Some (found', w') \<and> net_ok w' \<and> gframe v w' \<and>
      fd \<le> found' \<and> int found' \<le> m \<and> card (using_slot w' (A \<union> set (pre @ p # q))) = found' \<and>
      (\<forall>r \<in> insert p (A \<union> set pre). PF_I_CHOKE \<in> pf w' r \<longleftrightarrow> PF_I_CHOKE \<in> pf v r) \<and>
      (int found' < m \<longrightarrow> (\<forall>r \<in> set q - A. \<not> peer_full v r \<longrightarrow> PF_I_CHOKE \<notin> pf w' r))"
    if "net_ok v" "gframe w v" "card (using_slot v (insert p (A \<union> set pre))) = fd" "int fd \<le> m" for v fd
  proof -
    have l: "\<forall>r \<in> set q. w_peer v r \<noteq> None" using Cons.prems(2) gframe_live [OF that(2)] by simp
    have d: "distinct ((pre @ [p]) @ q)" using Cons.prems(3) by simp
    have a: "A = {((pre @ [p]) @ q) ! j | j. j \<in> set unch \<and> j < length ((pre @ [p]) @ q)}" unfolding e by (rule Cons.prems(4))
    have "A \<union> set (pre @ [p]) = insert p (A \<union> set pre)" by auto
    with Cons.IH [OF that(1) l d a, of fd] that(3,4) show ?thesis by simp
  qed
  show ?case
  proof (cases "length pre \<in> set unch")
    case True
    with pA have "insert p (A \<union> set pre) = A \<union> set pre" by auto
    with IH [OF Cons.prems(1) gframe_refl, of found] Cons.prems(5,6) pA True show ?thesis
      by (auto split: if_split_asm)
  next
    case False
    with pA pn have pnot: "p \<notin> A \<union> set pre" by simp
    have live: "w_peer w p \<noteq> None" using Cons.prems(2) by simp
    show ?thesis
    proof (cases "int found < m \<and> \<not> peer_full w p")
      case slot: True
      from unchoke_if_ok [OF Cons.prems(1) live] obtain w1 where w1: "unchoke_if p w = Some w1" "net_ok w1" "gframe w w1"
        "PF_I_CHOKE \<notin> pf w1 p" "\<forall>q. q \<noteq> p \<longrightarrow> pf w1 q = pf w q" by blast
      have c: "card (using_slot w1 (insert p (A \<union> set pre))) = found + wants w p"
        using using_slot_insert [OF pnot fin w1(3,5)] w1(4) Cons.prems(5) by (simp add: wants_def)
      have "int (found + wants w p) \<le> m" using slot wants_le [of w p] by simp
      from IH [OF w1(2,3) c this] obtain f' w' where w': "fill_slots m q (Suc (length pre)) (found + wants w p) unch w1 = Some (f', w')"
        "net_ok w'" "gframe w1 w'" "found + wants w p \<le> f'" "int f' \<le> m" "card (using_slot w' (A \<union> set (pre @ p # q))) = f'"
        "\<forall>r \<in> insert p (A \<union> set pre). PF_I_CHOKE \<in> pf w' r \<longleftrightarrow> PF_I_CHOKE \<in> pf w1 r"
        "int f' < m \<longrightarrow> (\<forall>r \<in> set q - A. \<not> peer_full w1 r \<longrightarrow> PF_I_CHOKE \<notin> pf w' r)" by blast
      have "fill_slots m (p # q) (length pre) found unch w = Some (f', w')" using False slot w1(1) w'(1) by simp
      moreover have "\<forall>r \<in> A \<union> set pre. PF_I_CHOKE \<in> pf w' r \<longleftrightarrow> PF_I_CHOKE \<in> pf w r" using w'(7) w1(5) pnot by (metis insertCI)
      moreover have "int f' < m \<longrightarrow> (\<forall>r \<in> set (p # q) - A. \<not> peer_full w r \<longrightarrow> PF_I_CHOKE \<notin> pf w' r)"
        using w'(7,8) w1(4) by (auto simp: gframe_full [OF w1(3)])
      ultimately show ?thesis using w'(2,4-6) gframe_trans [OF w1(3) w'(3)] by (metis add_leE)
    next
      case slot: False
      from choke_if_ok [OF Cons.prems(1) live] obtain w1 where w1: "choke_if p w = Some w1" "net_ok w1" "gframe w w1"
        "PF_I_CHOKE \<in> pf w1 p" "\<forall>q. q \<noteq> p \<longrightarrow> pf w1 q = pf w q" by blast
      have c: "card (using_slot w1 (insert p (A \<union> set pre))) = found"
        using using_slot_insert [OF pnot fin w1(3,5)] w1(4) Cons.prems(5) by simp
      from IH [OF w1(2,3) c Cons.prems(6)] obtain f' w' where w': "fill_slots m q (Suc (length pre)) found unch w1 = Some (f', w')"
        "net_ok w'" "gframe w1 w'" "found \<le> f'" "int f' \<le> m" "card (using_slot w' (A \<union> set (pre @ p # q))) = f'"
        "\<forall>r \<in> insert p (A \<union> set pre). PF_I_CHOKE \<in> pf w' r \<longleftrightarrow> PF_I_CHOKE \<in> pf w1 r"
        "int f' < m \<longrightarrow> (\<forall>r \<in> set q - A. \<not> peer_full w1 r \<longrightarrow> PF_I_CHOKE \<notin> pf w' r)" by blast
      have "fill_slots m (p # q) (length pre) found unch w = Some (f', w')" using False slot w1(1) w'(1) by auto
      moreover have "\<forall>r \<in> A \<union> set pre. PF_I_CHOKE \<in> pf w' r \<longleftrightarrow> PF_I_CHOKE \<in> pf w r" using w'(7) w1(5) pnot by (metis insertCI)
      moreover have "int f' < m \<longrightarrow> (\<forall>r \<in> set (p # q) - A. \<not> peer_full w r \<longrightarrow> PF_I_CHOKE \<notin> pf w' r)"
        using w'(4,8) slot by (auto simp: gframe_full [OF w1(3)])
      ultimately show ?thesis using w'(2,4-6) gframe_trans [OF w1(3) w'(3)] by blast
    qed
  qed
qed

section \<open>All together\<close>

lemma sum_wants:
  assumes "distinct ps" "\<forall>p \<in> set ps. PF_I_CHOKE \<notin> pf w1 p" "gframe w w1"
  shows "card (using_slot w1 (set ps)) = sum_list (map (wants w) ps)"
proof -
  have "using_slot w1 (set ps) = set (filter (\<lambda>p. PF_P_WANT \<in> pf w p) ps)"
    using assms(2) gframe_flag [OF assms(3), of PF_P_WANT] by (auto simp: using_slot_def)
  then have "card (using_slot w1 (set ps)) = length (filter (\<lambda>p. PF_P_WANT \<in> pf w p) ps)"
    using distinct_card [OF distinct_filter [OF assms(1)], of "\<lambda>p. PF_P_WANT \<in> pf w p"] by simp
  also have "\<dots> = sum_list (map (wants w) ps)" by (induction ps) (simp_all add: wants_def)
  finally show ?thesis .
qed

lemma choke_do_limited:
  assumes "net_ok w" "upload_ok w" "w_max_uploads w > 0"
  shows "\<exists>w'. choke_do w = Some w' \<and> net_ok w' \<and> gframe w w' \<and>
    int (card (using_slot w' (set (w_peerq w)))) \<le> w_max_uploads w \<and>
    (int (card (using_slot w' (set (w_peerq w)))) < w_max_uploads w \<longrightarrow>
      (\<forall>p \<in> set (w_peerq w). \<not> peer_full w p \<longrightarrow> PF_I_CHOKE \<notin> pf w' p))"
proof -
  let ?q = "w_peerq w" and ?m = "w_max_uploads w"
  define L where "L = rev (sort_worthy w (filter (\<lambda>a. is_worthy w (fst a)) (zip ?q [0 ..< length ?q])))"
  have d: "distinct ?q" and live: "\<forall>p \<in> set ?q. w_peer w p \<noteq> None" using assms(2) by (auto simp: upload_ok_def)
  have Lset: "set L \<subseteq> set (zip ?q [0 ..< length ?q])" by (auto simp: L_def sort_worthy_def)
  have Lnth: "snd a < length ?q \<and> ?q ! snd a = fst a" if "a \<in> set L" for a
    using that Lset by (auto simp: set_zip)
  have Ld: "distinct (map fst L)"
  proof -
    have "distinct (map fst (filter (\<lambda>a. is_worthy w (fst a)) (zip ?q [0 ..< length ?q])))"
      using d distinct_map_filter [of fst "zip ?q [0 ..< length ?q]"] by simp
    then have "distinct (map fst (sort_worthy w (filter (\<lambda>a. is_worthy w (fst a)) (zip ?q [0 ..< length ?q]))))"
      unfolding sort_worthy_def by (metis mset_map mset_sort mset_eq_imp_distinct_iff)
    then show ?thesis by (simp add: L_def rev_map [symmetric])
  qed
  have "\<forall>a \<in> set L. w_peer w (fst a) \<noteq> None" using Lnth live by (metis nth_mem)
  from unchoke_best_ok [OF assms(1) this, of 0 ?m "[]"] assms(3)
  obtain k w1 where best: "unchoke_best ?m L 0 [] w =
      Some (sum_list (map (\<lambda>a. wants w (fst a)) (take k L)), rev (map snd (take k L)), w1)"
    "net_ok w1" "gframe w w1" "\<forall>a \<in> set (take k L). PF_I_CHOKE \<notin> pf w1 (fst a)"
    "int (sum_list (map (\<lambda>a. wants w (fst a)) (take k L))) \<le> ?m - 1" by auto
  define A where "A = {([] @ ?q) ! j | j. j \<in> set (rev (map snd (take k L))) \<and> j < length ([] @ ?q)}"
  have "A = fst ` set (take k L)"
  proof (intro equalityI subsetI)
    fix p assume "p \<in> A"
    then obtain a where "a \<in> set (take k L)" "p = ?q ! snd a" by (auto simp: A_def)
    then show "p \<in> fst ` set (take k L)" using Lnth by (metis imageI in_set_takeD)
  next
    fix p assume "p \<in> fst ` set (take k L)"
    then obtain a where "a \<in> set (take k L)" "p = fst a" by auto
    moreover then have "snd a < length ?q" "?q ! snd a = fst a" using Lnth in_set_takeD by metis+
    ultimately show "p \<in> A" by (auto simp: A_def intro!: exI [of _ "snd a"])
  qed
  then have A: "A = set (map fst (take k L))" by simp
  have "distinct (map fst (take k L))" using Ld by (simp add: take_map [symmetric])
  then have c: "card (using_slot w1 (A \<union> set [])) = sum_list (map (\<lambda>a. wants w (fst a)) (take k L))"
    using sum_wants [of "map fst (take k L)" w1 w] best(3,4) A by (simp add: comp_def)
  have live1: "\<forall>p \<in> set ?q. w_peer w1 p \<noteq> None" using live gframe_live [OF best(3)] by blast
  have le: "int (sum_list (map (\<lambda>a. wants w (fst a)) (take k L))) \<le> ?m" using best(5) by simp
  have "distinct ([] @ ?q)" using d by simp
  from fill_slots_ok [OF best(2) live1 this A_def c le]
  obtain f' w' where fill: "fill_slots ?m ?q 0 (sum_list (map (\<lambda>a. wants w (fst a)) (take k L))) (rev (map snd (take k L))) w1 = Some (f', w')"
    "net_ok w'" "gframe w1 w'" "int f' \<le> ?m" "card (using_slot w' (A \<union> set ?q)) = f'"
    "\<forall>p \<in> A. PF_I_CHOKE \<in> pf w' p \<longleftrightarrow> PF_I_CHOKE \<in> pf w1 p"
    "int f' < ?m \<longrightarrow> (\<forall>p \<in> set ?q - A. \<not> peer_full w1 p \<longrightarrow> PF_I_CHOKE \<notin> pf w' p)" by auto
  have "A \<subseteq> set ?q" by (auto simp: A_def)
  then have card: "card (using_slot w' (set ?q)) = f'" using fill(5) by (simp add: Un_absorb1)
  have "choke_do w = Some w'"
    using assms(2,3) best(1) fill(1) by (simp add: choke_do_def upload_ok_def L_def list_all_iff)
  moreover have "int f' < ?m \<longrightarrow> (\<forall>p \<in> set ?q. \<not> peer_full w p \<longrightarrow> PF_I_CHOKE \<notin> pf w' p)"
  proof (intro impI ballI)
    fix p assume p: "int f' < ?m" "p \<in> set ?q" "\<not> peer_full w p"
    show "PF_I_CHOKE \<notin> pf w' p"
    proof (cases "p \<in> A")
      case True
      then have "PF_I_CHOKE \<notin> pf w1 p" using best(4) A by auto
      with fill(6) True show ?thesis by blast
    next
      case False
      with fill(7) p gframe_full [OF best(3), of p] show ?thesis by blast
    qed
  qed
  ultimately show ?thesis using fill(2,4) gframe_trans [OF best(3) fill(3)] card by blast
qed

text \<open>C12. The upload slots: from a state in which the queues are in order, \<^verbatim>\<open>choke_do\<close> always
  succeeds and leaves such a state. Without a limit nobody is choked; with the limit 0 everybody is; with
  another limit at most that many interested peers are unchoked afterwards, and as long as a slot is left
  every peer that could use it, that is every one that does not have the whole torrent, is unchoked. What the
  peers want, and all else that is theirs, stays.\<close>

theorem choke_do_fills_slots:
  assumes "net_ok w" "upload_ok w"
  shows "\<exists>w'. choke_do w = Some w' \<and> net_ok w' \<and> upload_ok w' \<and> gframe w w' \<and>
    (if w_max_uploads w < 0 then \<forall>p \<in> set (w_peerq w). PF_I_CHOKE \<notin> pf w' p
     else if w_max_uploads w = 0 then \<forall>p \<in> set (w_peerq w). PF_I_CHOKE \<in> pf w' p
     else int (card (using_slot w' (set (w_peerq w)))) \<le> w_max_uploads w \<and>
       (int (card (using_slot w' (set (w_peerq w)))) < w_max_uploads w \<longrightarrow>
         (\<forall>p \<in> set (w_peerq w). \<not> peer_full w p \<longrightarrow> PF_I_CHOKE \<notin> pf w' p)))"
proof -
  have live: "\<forall>p \<in> set (w_peerq w). w_peer w p \<noteq> None" using assms(2) by (auto simp: upload_ok_def)
  have u: "upload_ok w'" if g: "gframe w w'" for w'
  proof -
    have q: "w_peerq w' = w_peerq w" "w_ul_npeers w' = w_ul_npeers w" using g by (simp_all add: gframe_def)
    show ?thesis using assms(2) gframe_live [OF g] by (simp add: upload_ok_def q gframe_tp [OF g])
  qed
  consider "w_max_uploads w < 0" | "w_max_uploads w = 0" | "w_max_uploads w > 0" by linarith
  then show ?thesis
  proof cases
    case 1
    from foreach_flag_ok [OF assms(1) live, of unchoke_if "\<lambda>f. PF_I_CHOKE \<notin> f"] unchoke_if_ok
    obtain w' where "foreach (w_peerq w) unchoke_if w = Some w'" "net_ok w'" "gframe w w'"
      "\<forall>p \<in> set (w_peerq w). PF_I_CHOKE \<notin> pf w' p" by blast
    with 1 u show ?thesis by (simp add: choke_do_def)
  next
    case 2
    from foreach_flag_ok [OF assms(1) live, of choke_if "\<lambda>f. PF_I_CHOKE \<in> f"] choke_if_ok
    obtain w' where "foreach (w_peerq w) choke_if w = Some w'" "net_ok w'" "gframe w w'"
      "\<forall>p \<in> set (w_peerq w). PF_I_CHOKE \<in> pf w' p" by blast
    with 2 u show ?thesis by (simp add: choke_do_def)
  next
    case 3
    from choke_do_limited [OF assms 3] obtain w' where "choke_do w = Some w'" "net_ok w'" "gframe w w'"
      "int (card (using_slot w' (set (w_peerq w)))) \<le> w_max_uploads w"
      "int (card (using_slot w' (set (w_peerq w)))) < w_max_uploads w \<longrightarrow>
        (\<forall>p \<in> set (w_peerq w). \<not> peer_full w p \<longrightarrow> PF_I_CHOKE \<notin> pf w' p)" by blast
    with 3 u show ?thesis by auto
  qed
qed

theorem choke_do_fills_slots_witness:
  "\<exists>w'. choke_do sample_swarm = Some w' \<and> card (using_slot w' {0}) \<le> 2"
proof -
  have "upload_ok sample_swarm" by (simp add: upload_ok_def sample_peer_def)
  from choke_do_fills_slots [OF sample_net_ok this] show ?thesis by auto
qed

end
