(* ===== verification/Wire.thy ===== *)
theory Wire
  imports Net PeerQueue
begin

text \<open>
  Two ends of a connection: the bytes of a request message, however they arrive, make the receiver queue the
  block that is asked for.
\<close>

section \<open>Parser states\<close>

definition with_in :: "pid \<Rightarrow> input \<Rightarrow> world \<Rightarrow> world" where
  "with_in p inp w = upd_peer p (\<lambda>x. x\<lparr>p_in := inp\<rparr>) w"

lemma with_in_in: "with_in p a (with_in p b w) = with_in p a w"
  by (simp add: with_in_def upd_peer_twice comp_def)

lemma with_in_set: "peer_set_in_state p st n (with_in p a w) = with_in p (a\<lparr>in_state := st, in_st_bytes := n\<rparr>) w"
  by (simp add: with_in_def peer_set_in_state_def upd_peer_twice comp_def)

lemma with_in_upd:
  "upd_peer p (\<lambda>x. x\<lparr>p_in := f (p_in x)\<rparr>) (with_in p a w) = with_in p (f a) w"
  by (simp add: with_in_def upd_peer_twice comp_def)

lemma with_in_same: "w_peer w p = Some x \<Longrightarrow> with_in p (p_in x) w = w"
  by (simp add: with_in_def upd_peer_def fun_upd_idem)

lemma with_in_simps [simp]:
  "w_peer w p = Some x \<Longrightarrow> w_peer (with_in p a w) p = Some (x\<lparr>p_in := a\<rparr>)"
  "pf (with_in p a w) = pf w" "cw_tor (with_in p a w) = cw_tor w" "peer_tp (with_in p a w) p = peer_tp w p"
  by (simp_all add: with_in_def peer_tp_def peer_net_def split: option.split) (cases "w_peer w p"; simp)+

lemma net_ok_with_in:
  assumes "net_ok w" "w_peer w p = Some x"
  shows "net_ok (with_in p a w)"
proof -
  let ?w = "with_in p a w"
  have q: "queues_ok w" "peer_q_ok w x" using assms by (auto simp: net_ok_def queues_ok_def)
  have x: "w_peer ?w = (w_peer w)(p \<mapsto> x\<lparr>p_in := a\<rparr>)" using assms(2) by (auto simp: with_in_def)
  have "queues_ok ?w"
  proof (rule queues_ok_step [OF q(1) assms(2) x])
    show "peer_q_ok w (x\<lparr>p_in := a\<rparr>)" using q(2) by (simp add: peer_q_ok_def)
  qed (auto simp: with_in_def)
  from net_ok_step [OF assms(1) _ this, of p "x\<lparr>p_in := a\<rparr>"] x net_okD [OF assms] show ?thesis by simp
qed

section \<open>Data messages\<close>

lemma create_set_ok:
  assumes "queues_ok w" "kill \<noteq> Kill_Abort"
  shows "queues_ok (snd (nb_create_set ty b n kill w)) \<and> msg_ok (snd (nb_create_set ty b n kill w)) (fst (nb_create_set ty b n kill w)) \<and>
    nb_type (fst (nb_create_set ty b n kill w)) = ty \<and> same_but_nb w (snd (nb_create_set ty b n kill w))"
  using create_alloc_ok [OF assms(1), of ty "[]"] assms(2)
  by (auto simp: nb_create_set_def nb_create_alloc_def msg_ok_def)

text \<open>The data message and the counter.\<close>

lemma send_data_ok:
  assumes "queues_ok w" "w_peer w p = Some x"
  shows "\<exists>w' x' d. (do { v \<leftarrow> peer_send_new p (nb_create_torrentdata w);
       Some (upd_peer p (\<lambda>x. x\<lparr>p_npiece_msgs := p_npiece_msgs x + 1\<rparr>) v) }) = Some w' \<and> queues_ok w' \<and>
    (\<forall>q. q \<noteq> p \<longrightarrow> w_peer w' q = w_peer w q) \<and> pf w' = pf w \<and> w_peer w' p = Some x' \<and>
    p_outq x' = p_outq x @ [d] \<and> nb_type d = NB_TORRENTDATA \<and> nb_buf d = Null_Buf \<and>
    p_npiece_msgs x' = p_npiece_msgs x + 1 \<and> p_in x' = p_in x"
proof -
  obtain d v where c: "nb_create_torrentdata w = (d, v)" by fastforce
  have v: "queues_ok v" "msg_ok v d" "nb_type d = NB_TORRENTDATA" "same_but_nb w v" "nb_buf d = Null_Buf"
    using create_set_ok [OF assms(1), of Kill_No NB_TORRENTDATA Null_Buf 0] c
    by (auto simp: nb_create_torrentdata_def nb_create_set_def)
  have x: "w_peer v p = Some x" and pq: "peer_q_ok v x"
    using v(1,4) assms(2) by (auto simp: same_but_nb_def queues_ok_def)
  then have o: "p_outq x = [] \<longrightarrow> p_outq_off x = 0" by (simp add: peer_q_ok_def)
  define v1 where "v1 = upd_peer p (\<lambda>x. x\<lparr>p_outq := p_outq x @ [d]\<rparr>)
    (if p_outq x = [] then upd_peer p (\<lambda>x. x\<lparr>p_t_wantwrite := w_seconds v\<rparr>) (ev_enable EV_WRITE p (nb_hold d v))
     else nb_hold d v)"
  define w' where "w' = upd_peer p (\<lambda>x. x\<lparr>p_npiece_msgs := p_npiece_msgs x + 1\<rparr>) v1"
  have s: "peer_send p d v = Some v1" unfolding v1_def by (rule peer_send_eq [OF x o])
  let ?x = "(if p_outq x = [] then x\<lparr>p_ev := insert EV_WRITE (p_ev x), p_t_wantwrite := w_seconds v\<rparr> else x)
      \<lparr>p_outq := p_outq x @ [d], p_npiece_msgs := p_npiece_msgs x + 1\<rparr>"
  have p': "w_peer w' = (w_peer v)(p \<mapsto> ?x)" "w_mp w' = w_mp v" "nw_single w' = nw_single v" "nw_fresh w' = nw_fresh v"
      "nw_refs w' = (nw_refs v)(nb_addr d := nw_refs v (nb_addr d) + 1)"
    using x by (auto simp: w'_def v1_def ev_enable_def)
  have "queues_ok w'"
  proof (rule queues_ok_step [OF v(1) x p'(1)])
    show "peer_q_ok v ?x" using pq v(2,3) by (auto simp: peer_q_ok_def)
  qed (auto simp: p')
  moreover have "pf w' = pf w" using p'(2) v(4) by (auto simp: pf_def same_but_nb_def fun_eq_iff)
  ultimately show ?thesis using s p'(1) v(3-5) c by (auto simp: peer_send_new_def w'_def same_but_nb_def)
qed

section \<open>Answering a request\<close>

text \<open>What a request adds to the queue: the block, its data and, if too many blocks wait, choke and unchoke.\<close>

definition answer :: "u32 \<Rightarrow> u32 \<Rightarrow> u32 \<Rightarrow> nat \<Rightarrow> net_buf list \<Rightarrow> bool" where
  "answer i b l npiece q \<longleftrightarrow>
     (case q of
        pc # d # rest \<Rightarrow>
          nb_type pc = NB_PIECE \<and> nb_get_index pc = Some i \<and> nb_get_begin pc = Some b \<and> nb_get_length pc = Some l \<and>
          nb_type d = NB_TORRENTDATA \<and> nb_buf d = Null_Buf \<and>
          map nb_type rest = (if npiece \<ge> MAXPIECEMSGS then [NB_CHOKE, NB_UNCHOKE] else [])
      | _ \<Rightarrow> False)"

lemma outq_paired_block:
  assumes "outq_paired q" "nb_type pc = NB_PIECE" "nb_type d = NB_TORRENTDATA" "list_all plain r"
  shows "outq_paired (q @ pc # d # r)"
proof -
  have p: "paired (q' @ pc # d # r)" if "paired q'" for q'
    using that
  proof (induction q' rule: paired.induct)
    case (2 nb s)
    then show ?case by (cases s) (auto split: if_splits)
  qed (use assms(2-4) in \<open>simp add: paired_plain\<close>)
  show ?thesis
  proof (cases q)
    case Nil
    with p [of "[]"] assms(2) show ?thesis by (simp add: outq_paired_def)
  next
    case (Cons nb s)
    with assms(1) p [of s] p [of q] show ?thesis by (auto simp: outq_paired_def split: if_split_asm)
  qed
qed

lemma peer_on_request_ok:
  assumes "net_ok w" "w_peer w p = Some x" "PF_NO_REQUESTS \<notin> pf w p"
  shows "\<exists>w' x' q. peer_on_request p i b l w = Some w' \<and> net_ok w' \<and> w_peer w' p = Some x' \<and>
    p_outq x' = p_outq x @ q \<and> answer i b l (p_npiece_msgs x + 1) q \<and> p_in x' = p_in x"
proof -
  have q: "queues_ok w" and op: "outq_paired (p_outq x)" using assms by (auto simp: net_ok_def)
  obtain pc v where c: "nb_create_piece i b l w = (pc, v)" by fastforce
  have pc: "nb_get_index pc = Some i" "nb_get_begin pc = Some b" "nb_get_length pc = Some l"
    using nb_piece_fields [of i b l w] c by simp_all
  have v: "queues_ok v" "msg_ok v pc" "nb_type pc = NB_PIECE" "same_but_nb w v"
    using create_alloc_ok [OF q, of NB_PIECE "enc_be32 (9 + l) @ [MSG_PIECE] @ enc_be32 i @ enc_be32 b"] c
    by (auto simp: nb_create_piece_def)
  have xv: "w_peer v p = Some x" using assms(2) v(4) by (simp add: same_but_nb_def)
  from peer_send_ok [OF v(1) xv v(2)] v(3)
  obtain w1 x1 where w1: "peer_send p pc v = Some w1" "queues_ok w1" "frame p v w1" "pf w1 = pf v" "w_peer w1 p = Some x1"
    "p_outq x1 = p_outq x @ [pc]" "p_in x1 = p_in x" by auto
  from send_data_ok [OF w1(2,5)] obtain w3 x3 d where w3: "(do { v \<leftarrow> peer_send_new p (nb_create_torrentdata w1);
       Some (upd_peer p (\<lambda>x. x\<lparr>p_npiece_msgs := p_npiece_msgs x + 1\<rparr>) v) }) = Some w3" "queues_ok w3"
    "\<forall>r. r \<noteq> p \<longrightarrow> w_peer w3 r = w_peer w1 r" "pf w3 = pf w1" "w_peer w3 p = Some x3"
    "p_outq x3 = p_outq x1 @ [d]" "nb_type d = NB_TORRENTDATA" "nb_buf d = Null_Buf"
    "p_npiece_msgs x3 = p_npiece_msgs x1 + 1" "p_in x3 = p_in x1" by blast
  have n: "p_npiece_msgs x1 = p_npiece_msgs x"
    using w1(2,5,6) q assms(2) v(3) by (auto simp: queues_ok_def peer_q_ok_def)
  have oth: "w_peer w3 r = w_peer w r" if "r \<noteq> p" for r
    using that w3(3) w1(3) v(4) by (simp add: frame_def same_but_nb_def)
  have "outq_paired (p_outq x3)" using outq_paired_block [OF op v(3) w3(7), of "[]"] w3(6) w1(6) by simp
  with net_ok_step [OF assms(1) oth w3(2,5)] have ok3: "net_ok w3" by simp
  have step: "peer_on_request p i b l w =
      (if MAXPIECEMSGS \<le> p_npiece_msgs x + 1
       then do { w4 \<leftarrow> peer_send_new p (nb_create_choke w3); w5 \<leftarrow> peer_send_new p (nb_create_unchoke w4);
                 Some (set_flag PF_NO_REQUESTS p w5) }
       else Some w3)"
    using assms(3) c w1(1) w3(1,5,9) n
    by (auto simp: peer_on_request_def peer_send_new_def bind_Some_iff split: bind_split_asm)
  show ?thesis
  proof (cases "MAXPIECEMSGS \<le> p_npiece_msgs x + 1")
    case False
    then show ?thesis using step ok3 w3 w1 v(3) pc by (auto simp: answer_def)
  next
    case True
    have q3: "queues_ok w3" using ok3 by (simp add: net_ok_def)
    from peer_send_new_ok [OF w3(5), of "nb_create_choke w3" NB_CHOKE] once_ok [OF q3, of NB_CHOKE]
    obtain w4 x4 c4 where w4: "peer_send_new p (nb_create_choke w3) = Some w4" "queues_ok w4" "frame p w3 w4"
      "w_peer w4 p = Some x4" "p_outq x4 = p_outq x3 @ [c4]" "nb_type c4 = NB_CHOKE" "p_in x4 = p_in x3"
      by (auto simp: nb_create_choke_def nb_create_onesized_def)
    from peer_send_new_ok [OF w4(4), of "nb_create_unchoke w4" NB_UNCHOKE] once_ok [OF w4(2), of NB_UNCHOKE]
    obtain w5 x5 c5 where w5: "peer_send_new p (nb_create_unchoke w4) = Some w5" "queues_ok w5" "frame p w4 w5"
      "w_peer w5 p = Some x5" "p_outq x5 = p_outq x4 @ [c5]" "nb_type c5 = NB_UNCHOKE" "p_in x5 = p_in x4"
      by (auto simp: nb_create_unchoke_def nb_create_onesized_def)
    have o: "p_outq x5 = p_outq x @ pc # d # [c4, c5]" using w5(5) w4(5) w3(6) w1(6) by simp
    have "outq_paired (p_outq x5)" using outq_paired_block [OF op v(3) w3(7), of "[c4, c5]"] o w4(6) w5(6) by (simp add: plain_def)
    moreover have "w_peer (set_flag PF_NO_REQUESTS p w5) r = w_peer w r" if "r \<noteq> p" for r
      using that oth w4(3) w5(3) by (simp add: frame_def)
    ultimately have "net_ok (set_flag PF_NO_REQUESTS p w5)"
      using net_ok_step [OF assms(1), of p "set_flag PF_NO_REQUESTS p w5" x5] queues_ok_flags(1) [OF w5(2)] w5(4) by simp
    moreover have "peer_on_request p i b l w = Some (set_flag PF_NO_REQUESTS p w5)" using step True w4(1) w5(1) by simp
    moreover have "answer i b l (p_npiece_msgs x + 1) [pc, d, c4, c5]"
      using True v(3) pc w3(7,8) w4(6) w5(6) by (simp add: answer_def)
    ultimately show ?thesis using o w5(4,7) w4(7) w3(10) w1(7)
      by (intro exI [of _ "set_flag PF_NO_REQUESTS p w5"] exI [of _ x5] exI [of _ "[pc, d, c4, c5]"]) simp
  qed
qed

section \<open>From the wire\<close>

lemma net_state_step:
  "net_step p buf w = Some (True, w1) \<Longrightarrow> net_state p buf w = Some (True, w1)"
  by (simp add: net_state_def)

text \<open>A unit that is passed on whole, of a message that is not a block.\<close>

lemma net_rest_step:
  assumes "w_peer w p = Some x" "in_st_bytes (p_in x) = length buf" "in_state (p_in x) = BTP_MSGBODY \<longrightarrow> in_msg_num (p_in x) \<noteq> MSG_PIECE"
    "net_step p buf w = Some (True, w1)"
  shows "net_rest p (buf @ data) w = net_rest p data w1"
proof -
  have "net_progress p (length buf) w = Some w" using assms(1,3) by (auto simp: net_progress_def)
  with net_rest_unit [OF assms(1), of "buf @ data"] assms(2) net_state_step [OF assms(4)] show ?thesis by simp
qed

text \<open>C14. From one end of the wire to the other: the bytes of a request message that one daemon creates, when
  they reach a daemon that is between two messages, make it queue exactly that block: a block message with
  the same index, begin and length, followed by the data message that will carry the bytes, behind all
  messages that wait already. This is so whenever the sender is interested and not choked and the request
  is not out of the bounds; the parser is between two messages again, and the queues are in
  order. If too many blocks wait, a choke and an unchoke follow, which tell the sender to ask again.\<close>

theorem request_message_is_answered:
  assumes "net_ok w" "w_peer w p = Some x" "in_state (p_in x) = BTP_MSGSIZE" "in_st_bytes (p_in x) = 4"
    "PF_P_WANT \<in> pf w p" "PF_I_CHOKE \<notin> pf w p" "PF_NO_REQUESTS \<notin> pf w p"
    "peer_tp w p = Some tp" "\<not> bad_request tp i b l"
  shows "\<exists>w' x' q. net_feed p [] (nb_bytes v (fst (nb_create_request i b l v))) w = Some (Some [], w') \<and> net_ok w' \<and>
    w_peer w' p = Some x' \<and> p_outq x' = p_outq x @ q \<and> answer i b l (p_npiece_msgs x + 1) q \<and>
    in_state (p_in x') = BTP_MSGSIZE \<and> in_st_bytes (p_in x') = 4"
proof -
  let ?a1 = "(p_in x)\<lparr>in_msg_len := 13, in_state := BTP_MSGHEAD, in_st_bytes := 1\<rparr>"
  let ?a2 = "?a1\<lparr>in_msg_num := MSG_REQUEST, in_state := BTP_MSGBODY, in_st_bytes := 12\<rparr>"
  let ?w1 = "with_in p ?a1 w" and ?w2 = "with_in p ?a2 w"
  let ?body = "enc_be32 i @ enc_be32 b @ enc_be32 l"
  have bytes: "nb_bytes v (fst (nb_create_request i b l v)) = enc_be32 13 @ [MSG_REQUEST] @ ?body"
    by (simp add: nb_bytes_def nb_create_request_def nb_create_alloc_def)
  have s0: "upd_peer p (\<lambda>x. x\<lparr>p_in := f (p_in x)\<rparr>) w = with_in p (f (p_in x)) w" for f
    using with_in_upd [of p f "p_in x" w] with_in_same [OF assms(2)] by simp
  have st1: "net_step p (enc_be32 13) w = Some (True, ?w1)"
    using assms(2,3) by (simp add: net_step_def s0 with_in_set)
  have x1: "w_peer ?w1 p = Some (x\<lparr>p_in := ?a1\<rparr>)" and x2: "w_peer ?w2 p = Some (x\<lparr>p_in := ?a2\<rparr>)"
    using assms(2) by simp_all
  have tp1: "peer_tp ?w1 p = Some tp" and tp2: "peer_tp ?w2 p = Some tp" using assms(8) by simp_all
  have st2: "net_step p [MSG_REQUEST] ?w1 = Some (True, ?w2)"
    using x1 tp1 by (simp add: net_step_def q_first_def net_mh_ok_def with_in_upd with_in_set)
  have ok2: "net_ok ?w2" by (rule net_ok_with_in [OF assms(1,2)])
  have nr: "PF_NO_REQUESTS \<notin> pf ?w2 p" using assms(7) by simp
  from peer_on_request_ok [OF ok2 x2 nr, of i b l] obtain w3 x3 q where w3: "peer_on_request p i b l ?w2 = Some w3" "net_ok w3"
    "w_peer w3 p = Some x3" "p_outq x3 = p_outq x @ q" "answer i b l (p_npiece_msgs x + 1) q" "p_in x3 = ?a2" by auto
  have fl: "pf ?w2 p \<inter> {PF_P_WANT, PF_I_CHOKE} = {PF_P_WANT}" using assms(5,6) by auto
  have disp: "net_dispatch_msg p ?body ?w2 = Some (True, w3)"
    using x2 fl tp2 assms(9) w3(1) by (simp add: net_dispatch_msg_def good_def)
  let ?w4 = "peer_set_in_state p BTP_MSGSIZE 4 w3"
  have st3: "net_step p ?body ?w2 = Some (True, ?w4)"
    using x2 disp by (simp add: net_step_def)
  have w4: "?w4 = with_in p (?a2\<lparr>in_state := BTP_MSGSIZE, in_st_bytes := 4\<rparr>) w3"
    using with_in_set [of p BTP_MSGSIZE 4 "p_in x3" w3] with_in_same [OF w3(3)] w3(6) by simp
  have x4: "w_peer ?w4 p = Some (x3\<lparr>p_in := ?a2\<lparr>in_state := BTP_MSGSIZE, in_st_bytes := 4\<rparr>\<rparr>)"
    unfolding w4 using w3(3) by simp
  have "net_feed p [] (nb_bytes v (fst (nb_create_request i b l v))) w = net_rest p (enc_be32 13 @ [MSG_REQUEST] @ ?body) w"
    unfolding bytes by (rule net_feed_nil) (simp add: assms(2))
  also have "\<dots> = net_rest p ([MSG_REQUEST] @ ?body) ?w1"
    by (rule net_rest_step [OF assms(2) _ _ st1]) (simp_all add: assms(3,4))
  also have "\<dots> = net_rest p (?body @ []) ?w2"
    by (subst net_rest_step [OF x1 _ _ st2]) simp_all
  also have "\<dots> = net_rest p [] ?w4"
    by (rule net_rest_step [OF x2 _ _ st3]) simp_all
  also have "\<dots> = Some (Some [], ?w4)"
    using net_rest_short [OF x4, of "[]"] by simp
  finally show ?thesis
    using net_ok_with_in [OF w3(2,3), of "?a2\<lparr>in_state := BTP_MSGSIZE, in_st_bytes := 4\<rparr>"] w4 x4 w3(4,5) by auto
qed

theorem request_message_is_answered_witness:
  "\<exists>w' x' q. net_feed 0 [] (nb_bytes sample_swarm (fst (nb_create_request 0 1 2 sample_swarm))) sample_swarm = Some (Some [], w') \<and>
     w_peer w' 0 = Some x' \<and> p_outq x' = q \<and> answer 0 1 2 1 q"
proof -
  have "\<not> bad_request sample_torrent 0 1 2"
    by (simp add: bad_request_def PIECE_BLOCKLEN_def cm_has_piece_def torrent_piece_size_def)
  with request_message_is_answered [OF sample_net_ok, of 0 sample_peer sample_torrent 0 1 2 sample_swarm]
  show ?thesis by (auto simp: sample_peer_def)
qed

end
