(* ===== verification/NetWrite.thy ===== *)
theory NetWrite
  imports Net PeerQueue
begin

text \<open>
  The output side of a connection as a byte stream: what \<^verbatim>\<open>net_write\<close> hands to the kernel is the front of the
  bytes that wait, and what the kernel took is exactly what leaves the queue, whatever
  part of which message that is.
\<close>

section \<open>The bytes that wait\<close>

definition pending :: "world \<Rightarrow> peer \<Rightarrow> byte list" where
  "pending w x = drop (p_outq_off x) (concat (map (nb_bytes w) (p_outq x)))"

definition lens_ok :: "world \<Rightarrow> peer \<Rightarrow> bool" where
  "lens_ok w x \<longleftrightarrow> (\<forall>nb \<in> set (p_outq x). nb_len nb = length (nb_bytes w nb)) \<and>
     (p_outq x \<noteq> [] \<longrightarrow> p_outq_off x \<le> nb_len (hd (p_outq x)))"

lemma nb_bytes_cong: "cw_tor w' = cw_tor w \<Longrightarrow> nb_bytes w' = nb_bytes w"
  by (rule ext) (simp add: nb_bytes_def split: nb_mem.split)

lemma pending_cong: "cw_tor w' = cw_tor w \<Longrightarrow> pending w' x = pending w x"
  unfolding pending_def by (simp add: nb_bytes_cong [of w' w])

section \<open>A message that is sent\<close>

definition pop_sent :: "pid \<Rightarrow> nat \<Rightarrow> net_buf \<Rightarrow> world \<Rightarrow> world option" where
  "pop_sent p delta nb w =
     do {
       x \<leftarrow> w_peer w p;
       w1 \<leftarrow> peer_sent p nb w;
       w2 \<leftarrow> (if nb_type nb = NB_TORRENTDATA
              then do { t \<leftarrow> p_n x; Some (upd_peer p (\<lambda>x. x\<lparr>p_count_up := p_count_up x + delta\<rparr>)
                          (upd_net t (\<lambda>n. n\<lparr>n_uploaded := n_uploaded n + delta\<rparr>) w1)) }
              else Some w1);
       drop_nb nb (upd_peer p (\<lambda>x. x\<lparr>p_outq := tl (p_outq x), p_outq_off := 0\<rparr>) w2) }"

lemma net_drain_pop:
  assumes "w_peer w p = Some x" "p_outq x = nb # q" "bcount > 0" "nb_len nb - p_outq_off x \<le> bcount"
  shows "net_drain (Suc k) p bcount w =
    pop_sent p (nb_len nb - p_outq_off x) nb w \<bind> net_drain k p (bcount - (nb_len nb - p_outq_off x))"
proof (cases "peer_sent p nb w")
  case None
  with assms show ?thesis by (simp add: pop_sent_def q_first_def)
next
  case (Some w1)
  then show ?thesis using assms
    by (cases "nb_type nb = NB_TORRENTDATA"; cases "p_n x") (simp_all add: pop_sent_def q_first_def Let_def)
qed

lemma pop_sent_ok:
  assumes "queues_ok w" "w_peer w p = Some x" "p_outq x = nb # q" "p_n x = Some t"
  shows "\<exists>w' x'. pop_sent p delta nb w = Some w' \<and> queues_ok w' \<and> w_peer w' p = Some x' \<and> p_outq x' = q \<and>
    p_outq_off x' = 0 \<and> p_n x' = Some t \<and> cw_tor w' = cw_tor w"
proof -
  have pq: "peer_q_ok w x" and fin: "finite (dom (w_peer w))" using assms(1,2) by (auto simp: queues_ok_def)
  have held1: "1 \<le> held w (nb_addr nb)" using held_ge [OF fin assms(2), of "nb_addr nb"] assms(3) by simp
  then have r1: "nw_refs w (nb_addr nb) > 0" using assms(1) unfolding queues_ok_def by (metis less_le_trans zero_less_one)
  have r2: "nb_kill nb \<noteq> Kill_Abort" if "nw_refs w (nb_addr nb) = 1"
  proof
    assume "nb_kill nb = Kill_Abort"
    with pq assms(3) obtain ty where "nw_single w ty = Some nb" by (auto simp: peer_q_ok_def msg_ok_def)
    from queues_ok_single [OF assms(1) this] held1 that show False by simp
  qed
  let ?data = "nb_type nb = NB_TORRENTDATA"
  have n: "?data \<longrightarrow> p_npiece_msgs x > 0" using pq assms(3) by (simp add: peer_q_ok_def)
  define w1 where "w1 = (if ?data then upd_peer p (\<lambda>x. x\<lparr>p_npiece_msgs := p_npiece_msgs x - 1\<rparr>) w
    else if nb_type nb = NB_UNCHOKE then clr_flag PF_NO_REQUESTS p w else w)"
  have s1: "peer_sent p nb w = Some w1"
    using assms(2) n by (cases "nb_type nb") (simp_all add: peer_sent_def w1_def)
  define w2 where "w2 = (if ?data then upd_peer p (\<lambda>x. x\<lparr>p_count_up := p_count_up x + delta\<rparr>)
      (upd_net t (\<lambda>n. n\<lparr>n_uploaded := n_uploaded n + delta\<rparr>) w1) else w1)"
  define w3 where "w3 = upd_peer p (\<lambda>x. x\<lparr>p_outq := tl (p_outq x), p_outq_off := 0\<rparr>) w2"
  have refs: "nw_refs w3 = nw_refs w" by (simp add: w3_def w2_def w1_def)
  define w' where "w' = w3\<lparr>nw_refs := (nw_refs w)(nb_addr nb := nw_refs w (nb_addr nb) - 1)\<rparr>"
  have s3: "drop_nb nb w3 = Some w'"
    using nb_drop_eq [of w3 nb] r1 r2 by (simp add: drop_nb_def refs w'_def)
  have pop: "pop_sent p delta nb w = Some w'"
    using assms(2,4) s1 s3 unfolding w3_def w2_def by (cases ?data) (simp_all add: pop_sent_def)
  let ?x = "x\<lparr>p_npiece_msgs := (if ?data then p_npiece_msgs x - 1 else p_npiece_msgs x),
      p_count_up := (if ?data then p_count_up x + delta else p_count_up x), p_outq := q, p_outq_off := 0\<rparr>"
  have p': "w_peer w' = (w_peer w)(p \<mapsto> ?x)" "\<And>r. w_mp w r \<noteq> None \<Longrightarrow> w_mp w' r \<noteq> None"
    "nw_single w' = nw_single w" "nw_fresh w' = nw_fresh w" "cw_tor w' = cw_tor w"
    "nw_refs w' = (nw_refs w)(nb_addr nb := nw_refs w (nb_addr nb) - 1)"
  proof -
    have "w_peer w1 = (if ?data then (w_peer w)(p \<mapsto> x\<lparr>p_npiece_msgs := p_npiece_msgs x - 1\<rparr>) else w_peer w)"
      using assms(2) by (auto simp: w1_def)
    then show "w_peer w' = (w_peer w)(p \<mapsto> ?x)" using assms(2,3) unfolding w'_def w3_def w2_def
      by (cases ?data) (simp_all add: fun_eq_iff)
    show "w_mp w' r \<noteq> None" if "w_mp w r \<noteq> None" for r using that by (auto simp: w'_def w3_def w2_def w1_def clr_flag_def)
    show "nw_single w' = nw_single w" "nw_fresh w' = nw_fresh w" "cw_tor w' = cw_tor w"
      by (simp_all add: w'_def w3_def w2_def w1_def)
    show "nw_refs w' = (nw_refs w)(nb_addr nb := nw_refs w (nb_addr nb) - 1)" by (simp add: w'_def)
  qed
  have "queues_ok w'"
  proof (rule queues_ok_step [OF assms(1,2) p'(1,2) p'(3,4)])
    show "peer_q_ok w ?x" using pq assms(3) by (auto simp: peer_q_ok_def)
    show "nw_refs w' a + cnt_addr a (p_outq x) = nw_refs w a + cnt_addr a (p_outq ?x)" for a
      using r1 assms(3) by (auto simp: p'(6))
  qed
  with pop p' assms(4) show ?thesis by auto
qed

section \<open>What was written leaves the queue\<close>

lemma lens_ok_cong: "cw_tor w' = cw_tor w \<Longrightarrow> lens_ok w' x = lens_ok w x"
  unfolding lens_ok_def by (simp add: nb_bytes_cong [of w' w])

lemma pending_Cons:
  "p_outq x = nb # q \<Longrightarrow> p_outq_off x \<le> length (nb_bytes w nb) \<Longrightarrow>
    pending w x = drop (p_outq_off x) (nb_bytes w nb) @ concat (map (nb_bytes w) q)"
  by (simp add: pending_def)

text \<open>The bytes of a part of the first message leave it.\<close>

lemma net_drain_part:
  assumes "queues_ok w" "w_peer w p = Some x" "p_outq x = nb # q" "p_n x = Some t" "0 < n" "n < nb_len nb - p_outq_off x"
  shows "\<exists>w' x'. net_drain (Suc k) p n w = Some w' \<and> queues_ok w' \<and> w_peer w' p = Some x' \<and> p_outq x' = p_outq x \<and>
    p_outq_off x' = p_outq_off x + n \<and> cw_tor w' = cw_tor w"
proof -
  let ?data = "nb_type nb = NB_TORRENTDATA"
  define w1 where "w1 = (if ?data then upd_peer p (\<lambda>x. x\<lparr>p_count_up := p_count_up x + n\<rparr>)
      (upd_net t (\<lambda>m. m\<lparr>n_uploaded := n_uploaded m + n\<rparr>) w) else w)"
  define w' where "w' = upd_peer p (\<lambda>x. x\<lparr>p_outq_off := p_outq_off x + n\<rparr>) w1"
  have d: "net_drain (Suc k) p n w = Some w'"
    unfolding w'_def w1_def using assms(2-6) by (cases ?data) (simp_all add: q_first_def Let_def)
  let ?x = "x\<lparr>p_count_up := (if ?data then p_count_up x + n else p_count_up x), p_outq_off := p_outq_off x + n\<rparr>"
  have x': "w_peer w' = (w_peer w)(p \<mapsto> ?x)"
    unfolding w'_def w1_def using assms(2) by (cases ?data) (simp_all add: fun_eq_iff)
  have "queues_ok w'"
  proof (rule queues_ok_step [OF assms(1,2) x'])
    show "peer_q_ok w ?x" using assms(1-3) by (auto simp: queues_ok_def peer_q_ok_def)
  qed (auto simp: w'_def w1_def)
  moreover have "cw_tor w' = cw_tor w" by (simp add: w'_def w1_def)
  ultimately show ?thesis using d x' by auto
qed

lemma net_drain_ok:
  assumes "queues_ok w" "w_peer w p = Some x" "p_n x = Some t" "lens_ok w x" "n \<le> length (pending w x)"
    "length (p_outq x) < k"
  shows "\<exists>w' x'. net_drain k p n w = Some w' \<and> queues_ok w' \<and> w_peer w' p = Some x' \<and> lens_ok w' x' \<and>
    pending w' x' = drop n (pending w x) \<and> cw_tor w' = cw_tor w"
  using assms
proof (induction k arbitrary: w x n)
  case (Suc k)
  show ?case
  proof (cases "n = 0")
    case True
    with Suc.prems show ?thesis by auto
  next
    case False
    then obtain nb q where q: "p_outq x = nb # q" using Suc.prems(5) by (cases "p_outq x") (auto simp: pending_def)
    have len: "nb_len nb = length (nb_bytes w nb)" "p_outq_off x \<le> length (nb_bytes w nb)"
      using Suc.prems(4) q by (auto simp: lens_ok_def)
    note pend = pending_Cons [OF q len(2)]
    let ?d = "nb_len nb - p_outq_off x"
    show ?thesis
    proof (cases "?d \<le> n")
      case True
      from pop_sent_ok [OF Suc.prems(1,2) q Suc.prems(3)] obtain w1 x1 where w1: "pop_sent p ?d nb w = Some w1" "queues_ok w1"
        "w_peer w1 p = Some x1" "p_outq x1 = q" "p_outq_off x1 = 0" "p_n x1 = Some t" "cw_tor w1 = cw_tor w" by blast
      have p1: "pending w1 x1 = drop ?d (pending w x)"
        using w1(4,5) len by (simp add: pend pending_cong [OF w1(7)]) (simp add: pending_def)
      have "lens_ok w x1" using Suc.prems(4) q w1(4,5) by (auto simp: lens_ok_def)
      then have l1: "lens_ok w1 x1" by (simp add: lens_ok_cong [OF w1(7)])
      have "n - ?d \<le> length (pending w1 x1)" "length (p_outq x1) < k" using p1 Suc.prems(5,6) True q w1(4) by simp_all
      from Suc.IH [OF w1(2,3,6) l1 this] obtain w' x' where w': "net_drain k p (n - ?d) w1 = Some w'" "queues_ok w'"
        "w_peer w' p = Some x'" "lens_ok w' x'" "pending w' x' = drop (n - ?d) (pending w1 x1)" "cw_tor w' = cw_tor w1" by blast
      have "net_drain (Suc k) p n w = Some w'"
        using net_drain_pop [OF Suc.prems(2) q _ True] False w1(1) w'(1) by simp
      moreover have "pending w' x' = drop n (pending w x)" using w'(5) p1 True by simp
      ultimately show ?thesis using w' w1(7) by auto
    next
      case False
      with \<open>n \<noteq> 0\<close> have n: "0 < n" "n < ?d" by simp_all
      from net_drain_part [OF Suc.prems(1,2) q Suc.prems(3) n, of k] obtain w' x' where w': "net_drain (Suc k) p n w = Some w'"
        "queues_ok w'" "w_peer w' p = Some x'" "p_outq x' = p_outq x" "p_outq_off x' = p_outq_off x + n" "cw_tor w' = cw_tor w"
        by blast
      have off: "p_outq_off x' \<le> length (nb_bytes w' nb)" using n len w'(5) nb_bytes_cong [OF w'(6)] by simp
      have "pending w' x' = drop (p_outq_off x + n) (nb_bytes w nb) @ concat (map (nb_bytes w) q)"
        using pending_Cons [of x' nb q w'] q w'(4,5) off nb_bytes_cong [OF w'(6)] by simp
      also have "\<dots> = drop n (pending w x)" using pend n len by (simp add: add.commute)
      finally have p': "pending w' x' = drop n (pending w x)" .
      have "lens_ok w x'" using Suc.prems(4) q w'(4,5) off nb_bytes_cong [OF w'(6)] len by (simp add: lens_ok_def)
      then have "lens_ok w' x'" by (simp add: lens_ok_cong [OF w'(6)])
      with w' p' show ?thesis by blast
    qed
  qed
qed simp

section \<open>What is offered to the kernel\<close>

text \<open>The data of a block is put in.\<close>

definition fills :: "net_buf \<Rightarrow> net_buf \<Rightarrow> bool" where
  "fills a b \<longleftrightarrow> b = a \<or>
     nb_type a = NB_TORRENTDATA \<and> nb_buf a = Null_Buf \<and> nb_addr b = nb_addr a \<and> nb_type b = NB_TORRENTDATA \<and>
     nb_kill b = Kill_Free \<and> (\<exists>bs. nb_buf b = Own_Buf bs \<and> length bs = nb_len b)"

lemma fills_trans: "fills a b \<Longrightarrow> fills b c \<Longrightarrow> fills a c"
  by (auto simp: fills_def)

lemma bts_get_round_length:
  "bts_get_round k disk len acc bts = Some (Inr (acc', bts')) \<Longrightarrow> length acc \<le> len \<Longrightarrow> length acc' \<le> len"
proof -
  assume r: "bts_get_round k disk len acc bts = Some (Inr (acc', bts'))" and l: "length acc \<le> len"
  from r obtain b where o: "open_cur k bts = Some (None, b)"
    by (auto simp: bts_get_round_def bind_Some_iff split: option.splits)
  with r obtain a ba where fd: "bs_fd b = Some (a, ba)" by (cases "bs_fd b") (auto simp: bts_get_round_def)
  with r o l show ?thesis
    by (cases "k_read k disk a ba (min (len - length acc) (cur_len b - bs_f_off b))")
      (auto simp: bts_get_round_def Let_def split: if_split_asm, linarith+)
qed

lemma bts_get_loop_length:
  "bts_get_loop k disk n len acc bts = Some (None, buf, bts') \<Longrightarrow> length acc \<le> len \<Longrightarrow> length buf = len"
proof (induction n arbitrary: acc bts)
  case (Suc n)
  show ?case
  proof (cases "length acc < len")
    case True
    with Suc.prems(1) obtain r where r: "bts_get_round k disk len acc bts = Some r"
      "(case r of Inl res \<Rightarrow> Some res | Inr (acc', bts') \<Rightarrow> bts_get_loop k disk n len acc' bts') = Some (None, buf, bts')"
      by (auto simp: bind_Some_iff)
    show ?thesis
    proof (cases r)
      case (Inl res)
      with r bts_get_round_error [of k disk len acc bts "fst res" "snd res"] show ?thesis by auto
    next
      case (Inr y)
      obtain acc' b' where "y = (acc', b')" by (cases y)
      with r Inr Suc.IH [of acc' b'] bts_get_round_length [of k disk len acc bts acc' b'] Suc.prems(2) show ?thesis by simp
    qed
  next
    case False
    with Suc.prems show ?thesis by simp
  qed
qed (auto split: if_split_asm)

lemma bts_get_length: "bts_get k disk n bts off len = Some (None, buf, bts') \<Longrightarrow> length buf = len"
  unfolding bts_get_def bind_Some_iff
  by (auto split: option.split_asm dest: bts_get_loop_length)

lemma fill_block_ok:
  assumes "fill_block p i w = Some (True, w1)" "queues_ok w" "w_peer w p = Some x"
  shows "\<exists>x1. w_peer w1 p = Some x1 \<and> queues_ok w1 \<and> list_all2 fills (p_outq x) (p_outq x1) \<and>
    take (Suc i) (p_outq x1) = take (Suc i) (p_outq x) \<and> p_outq_off x1 = p_outq_off x \<and> p_n x1 = p_n x \<and>
    nb_bytes w1 = nb_bytes w"
proof (cases "nb_buf (p_outq x ! Suc i) = Null_Buf")
  case False
  with assms(1,3) have "w1 = w" by (auto simp: fill_block_def bind_Some_iff Let_def split: if_split_asm)
  with assms(2,3) show ?thesis by (auto simp: list_all2_refl fills_def)
next
  case True
  let ?d = "p_outq x ! Suc i"
  from assms(1,3) True obtain t idx b l r v where f: "Suc i < length (p_outq x)"
    "nb_torrentdata_fill ?d t idx b l w = Some (r, v)"
    "(case r of Inl err \<Rightarrow> Some (False, v) | Inr nb' \<Rightarrow> Some (True, upd_peer p (\<lambda>x. x\<lparr>p_outq := (p_outq x)[Suc i := nb']\<rparr>) v))
      = Some (True, w1)"
    by (auto simp: fill_block_def bind_Some_iff Let_def split: if_split_asm)
  then obtain nb' where nb': "r = Inr nb'" "w1 = upd_peer p (\<lambda>x. x\<lparr>p_outq := (p_outq x)[Suc i := nb']\<rparr>) v"
    by (cases r) auto
  from f(2) have d: "nb_type ?d = NB_TORRENTDATA" by (simp add: nb_torrentdata_fill_def split: if_split_asm)
  obtain gr gv where get: "cm_get_bytes t (unat idx) (unat b) (unat l) w = Some (gr, gv)"
    using f(2) by (cases "cm_get_bytes t (unat idx) (unat b) (unat l) w") (auto simp: nb_torrentdata_fill_def split: if_split_asm)
  obtain content where c: "nb_type ?d = NB_TORRENTDATA"
    "cm_get_bytes t (unat idx) (unat b) (unat l) w = Some (Inr content, v)"
    "nb' = ?d\<lparr>nb_buf := Own_Buf content, nb_len := unat l, nb_kill := Kill_Free\<rparr>"
    using f(2) get d True nb'(1) by (cases gr) (auto simp: nb_torrentdata_fill_def)
  from c(2) obtain tp rds rds1 where g: "cw_tor w t = Some tp"
    "bts_get (ce_rd (cw_env w)) (cw_disk w) (unat l) rds (unat idx * tp_piece_length tp + unat b) (unat l) = Some (None, content, rds1)"
    "v = upd_cm t (\<lambda>cm. cm\<lparr>cm_rds := Ptr rds1\<rparr>) w"
    by (auto simp: cm_get_bytes_def bind_Some_iff Let_def split: if_split_asm option.split_asm)
  have len: "length content = unat l" using bts_get_length [OF g(2)] .
  let ?x = "x\<lparr>p_outq := (p_outq x)[Suc i := nb']\<rparr>"
  have w1: "w_peer w1 = (w_peer w)(p \<mapsto> ?x)" "w_mp w1 = w_mp w" "nw_single w1 = nw_single w" "nw_fresh w1 = nw_fresh w"
    "nw_refs w1 = nw_refs w"
    unfolding nb'(2) g(3) using assms(3) by (auto simp: upd_cm_def upd_peer_def)
  have q: "p_outq x = take (Suc i) (p_outq x) @ ?d # drop (Suc (Suc i)) (p_outq x)"
    using f(1) by (rule id_take_nth_drop)
  have q': "(p_outq x)[Suc i := nb'] = take (Suc i) (p_outq x) @ nb' # drop (Suc (Suc i)) (p_outq x)"
    using f(1) by (rule upd_conv_take_nth_drop)
  have pq: "peer_q_ok w x" using assms(2,3) by (simp add: queues_ok_def)
  have ca: "cnt_addr a ((p_outq x)[Suc i := nb']) = cnt_addr a (p_outq x)" for a
    unfolding q' by (subst (3) q) (simp add: c(3))
  have "queues_ok w1"
  proof (rule queues_ok_step [OF assms(2,3) w1(1) _ w1(3,4)])
    have "cnt_data ((p_outq x)[Suc i := nb']) = cnt_data (p_outq x)"
      unfolding q' by (subst (3) q) (simp add: c)
    moreover have "msg_ok w nb'" using pq f(1) by (simp add: c(3) peer_q_ok_def msg_ok_def)
    ultimately show "peer_q_ok w ?x" using pq set_update_subset_insert [of "p_outq x" "Suc i" nb'] f(1)
      by (auto simp: peer_q_ok_def)
    show "nw_refs w1 a + cnt_addr a (p_outq x) = nw_refs w a + cnt_addr a (p_outq ?x)" for a
      using ca by (simp add: w1(5))
  qed (simp add: w1(2))
  moreover have "list_all2 fills (p_outq x) ((p_outq x)[Suc i := nb'])"
    unfolding q' by (subst (1) q) (auto simp: list_all2_append list_all2_refl fills_def c True len)
  moreover have "nb_bytes w1 = nb_bytes w"
    unfolding nb'(2) g(3) by (rule ext) (simp add: nb_bytes_def upd_cm_def cm_get_piece_field_def g(1) split: nb_mem.split option.split)
  ultimately show ?thesis using w1(1) f(1) by (intro exI [of _ ?x]) simp
qed

lemma fills_len: "fills a b \<Longrightarrow> nb_len a = length (nb_bytes w a) \<Longrightarrow> nb_len b = length (nb_bytes w b)"
  by (auto simp: fills_def nb_bytes_def)

lemma fills_lens:
  assumes "list_all2 fills (p_outq x) (p_outq x1)" "take (Suc i) (p_outq x1) = take (Suc i) (p_outq x)"
    "p_outq_off x1 = p_outq_off x" "lens_ok w x" "nb_bytes w1 = nb_bytes w"
  shows "lens_ok w1 x1"
proof -
  have "nb_len nb = length (nb_bytes w nb)" if n: "nb \<in> set (p_outq x1)" for nb
  proof -
    from n obtain j where j: "j < length (p_outq x1)" "nb = p_outq x1 ! j" by (auto simp: in_set_conv_nth)
    with assms(1) have "fills (p_outq x ! j) nb" "p_outq x ! j \<in> set (p_outq x)" by (auto simp: list_all2_conv_all_nth)
    with assms(4) fills_len show ?thesis by (auto simp: lens_ok_def)
  qed
  moreover have "p_outq x1 \<noteq> [] \<longrightarrow> hd (p_outq x1) = hd (p_outq x)"
    using assms(2) by (cases "p_outq x"; cases "p_outq x1") auto
  moreover have "p_outq x1 = [] \<longleftrightarrow> p_outq x = []" using assms(1) by (auto dest: list_all2_lengthD)
  ultimately show ?thesis using assms(3-5) by (auto simp: lens_ok_def)
qed

text \<open>The bytes of the first \<open>i\<close> messages that are not written yet.\<close>

definition front :: "world \<Rightarrow> peer \<Rightarrow> nat \<Rightarrow> byte list" where
  "front w x i = drop (p_outq_off x) (concat (map (nb_bytes w) (take i (p_outq x))))"

lemma front_pending:
  assumes "lens_ok w x" "i \<le> length (p_outq x)"
  shows "\<exists>r. pending w x = front w x i @ r"
proof (cases "i = 0")
  case True
  then show ?thesis by (simp add: front_def)
next
  case False
  then obtain j where j: "i = Suc j" by (cases i) auto
  with assms(2) obtain nb q where q: "p_outq x = nb # q" by (cases "p_outq x") auto
  with assms(1) have off: "p_outq_off x \<le> length (nb_bytes w nb)" by (simp add: lens_ok_def)
  have "concat (map (nb_bytes w) q) = concat (map (nb_bytes w) (take j q)) @ concat (map (nb_bytes w) (drop j q))"
    by (metis append_take_drop_id concat_append map_append)
  then show ?thesis using off q j by (simp add: pending_def front_def)
qed

lemma front_Suc:
  assumes "lens_ok w x" "i < length (p_outq x)"
  shows "front w x (Suc i) = front w x i @ drop (if i > 0 then 0 else p_outq_off x) (nb_bytes w (p_outq x ! i))"
proof (cases i)
  case 0
  with assms show ?thesis by (cases "p_outq x") (simp_all add: front_def)
next
  case (Suc j)
  with assms(2) obtain nb q where q: "p_outq x = nb # q" by (cases "p_outq x") auto
  with assms(1) have off: "p_outq_off x \<le> length (nb_bytes w nb)" by (simp add: lens_ok_def)
  have "take (Suc j) q = take j q @ [q ! j]" using assms(2) q Suc by (simp add: take_Suc_conv_app_nth)
  then show ?thesis using off q Suc by (simp add: front_def)
qed

lemma net_gather_ok:
  assumes "net_gather k p limited wmax i blocks iov w = Some (Some iov', w1)" "queues_ok w" "w_peer w p = Some x" "lens_ok w x"
    "i \<le> length (p_outq x)" "\<exists>r. front w x i = concat iov @ r" "\<not> (limited \<and> wmax = 0) \<longrightarrow> concat iov = front w x i"
  shows "\<exists>x1 r. w_peer w1 p = Some x1 \<and> queues_ok w1 \<and> lens_ok w1 x1 \<and> list_all2 fills (p_outq x) (p_outq x1) \<and>
    p_n x1 = p_n x \<and> pending w1 x1 = concat iov' @ r"
proof -
  have stop: "\<exists>r. pending v y = concat iv @ r"
    if "lens_ok v y" "j \<le> length (p_outq y)" "\<exists>r. front v y j = concat iv @ r" for v y j iv
    using front_pending [OF that(1,2)] that(3) by fastforce
  show ?thesis
    using assms
  proof (induction k arbitrary: wmax i blocks iov w x)
    case 0
    with stop [of w x i iov] show ?case by (auto simp: list_all2_refl fills_def)
  next
    case (Suc k)
    let ?nb = "p_outq x ! i" and ?piece = "nb_type (p_outq x ! i) = NB_PIECE"
    show ?case
    proof (cases "i < length (p_outq x) \<and> (limited \<longrightarrow> wmax > 0) \<and> \<not> (?piece \<and> blocks \<ge> BLOCK_MEM_COUNT)")
      case False
      with Suc.prems(1,3) have "iov' = iov" "w1 = w" by (auto split: if_split_asm)
      with stop [of w x i iov] Suc.prems show ?thesis by (auto simp: list_all2_refl fills_def)
    next
      case True
      with Suc.prems(1,3) obtain ok v where v: "(if ?piece then fill_block p i w else Some (True, w)) = Some (ok, v)" "ok"
        "net_gather k p limited (wmax - length (let bs = drop (if i > 0 then 0 else p_outq_off x) (nb_bytes v ?nb) in if limited then take wmax bs else bs))
           (Suc i) (if ?piece then blocks + 1 else blocks)
           (iov @ [let bs = drop (if i > 0 then 0 else p_outq_off x) (nb_bytes v ?nb) in if limited then take wmax bs else bs]) v
         = Some (Some iov', w1)"
        by (auto simp: bind_Some_iff Let_def split: if_split_asm)
      have "\<exists>y. w_peer v p = Some y \<and> queues_ok v \<and> list_all2 fills (p_outq x) (p_outq y) \<and>
          take (Suc i) (p_outq y) = take (Suc i) (p_outq x) \<and> p_outq_off y = p_outq_off x \<and> p_n y = p_n x \<and> nb_bytes v = nb_bytes w"
      proof (cases ?piece)
        case True
        with v(1,2) have "fill_block p i w = Some (True, v)" by simp
        from fill_block_ok [OF this Suc.prems(2,3)] show ?thesis by blast
      next
        case False
        with v(1) Suc.prems(2,3) show ?thesis by (auto simp: list_all2_refl fills_def)
      qed
      then obtain y where y: "w_peer v p = Some y" "queues_ok v" "list_all2 fills (p_outq x) (p_outq y)"
        "take (Suc i) (p_outq y) = take (Suc i) (p_outq x)" "p_outq_off y = p_outq_off x" "p_n y = p_n x" "nb_bytes v = nb_bytes w"
        by blast
      have ly: "lens_ok v y" by (rule fills_lens [OF y(3-5) Suc.prems(4) y(7)])
      have len: "i < length (p_outq y)" using True y(3) by (auto dest: list_all2_lengthD)
      have nth: "p_outq y ! i = ?nb" using y(4) by (metis lessI nth_take)
      have "take i (p_outq y) = take i (p_outq x)" using y(4) by (metis le_add2 min.absorb1 plus_1_eq_Suc take_take)
      then have fr: "front v y i = front w x i" by (simp add: front_def y(5,7))
      define bs where "bs = drop (if i > 0 then 0 else p_outq_off x) (nb_bytes v ?nb)"
      define u where "u = (if limited then take wmax bs else bs)"
      have fs: "front v y (Suc i) = front w x i @ bs" using front_Suc [OF ly len] by (simp add: fr nth bs_def y(5))
      have iov: "concat iov = front w x i" using Suc.prems(7) True by auto
      have g: "net_gather k p limited (wmax - length u) (Suc i) (if ?piece then blocks + 1 else blocks) (iov @ [u]) v = Some (Some iov', w1)"
        using v(3) unfolding u_def bs_def Let_def .
      have pre: "\<exists>r. front v y (Suc i) = concat (iov @ [u]) @ r"
        by (rule exI [of _ "if limited then drop wmax bs else []"]) (simp add: fs iov u_def)
      have all: "\<not> (limited \<and> wmax - length u = 0) \<longrightarrow> concat (iov @ [u]) = front v y (Suc i)"
        using True by (auto simp: fs iov u_def)
      have "Suc i \<le> length (p_outq y)" using len by simp
      from Suc.IH [OF g y(2,1) ly this pre all] obtain x1 r where r: "w_peer w1 p = Some x1" "queues_ok w1" "lens_ok w1 x1"
        "list_all2 fills (p_outq y) (p_outq x1)" "p_n x1 = p_n y" "pending w1 x1 = concat iov' @ r" by blast
      have "list_all2 fills (p_outq x) (p_outq x1)" by (rule list_all2_trans [OF fills_trans y(3) r(4)])
      with r y(6) show ?thesis by auto
    qed
  qed
qed

section \<open>The stream of bytes\<close>

text \<open>C10. The output of a connection is the byte stream of its messages: what \<^verbatim>\<open>net_write\<close> offers is a prefix
  of the bytes that wait, with the data of the next block filled in; when the kernel takes \<open>n\<close> bytes of it,
  \<^verbatim>\<open>net_write\<close> always succeeds, exactly those bytes leave the queue, and what waits then is the rest: no byte is lost,
  repeated or out of order, wherever the kernel cuts the messages and whatever the bandwidth limit
  is. The reference counts stay right.\<close>

theorem net_write_sends_stream:
  assumes "queues_ok w" "w_peer w p = Some x" "p_n x = Some t" "lens_ok w x" "p_outq x = nl # q"
    and gather: "net_gather IOV_MAX p (wmax > 0) wmax 0 (if nb_type nl = NB_TORRENTDATA then 1 else 0) [] w = Some (Some iov, w1)"
    and kernel: "io_write io w1 p iov = Inr n" "0 < n" "n \<le> length (concat iov)"
  shows "\<exists>x1 w' x'. w_peer w1 p = Some x1 \<and> list_all2 fills (p_outq x) (p_outq x1) \<and>
    net_write io p wmax w = Some (n, w') \<and> w_peer w' p = Some x' \<and> queues_ok w' \<and> lens_ok w' x' \<and>
    pending w1 x1 = take n (concat iov) @ pending w' x'"
proof -
  have f0: "front w x 0 = []" by (simp add: front_def)
  from net_gather_ok [OF gather assms(1,2,4)] obtain x1 r where x1: "w_peer w1 p = Some x1" "queues_ok w1" "lens_ok w1 x1"
    "list_all2 fills (p_outq x) (p_outq x1)" "p_n x1 = Some t" "pending w1 x1 = concat iov @ r"
    using assms(3) f0 by auto
  have "n \<le> length (pending w1 x1)" using kernel(3) x1(6) by simp
  from net_drain_ok [OF x1(2,1,5,3) this, of "length (p_outq x1) + 1"] obtain w2 x2 where w2:
    "net_drain (length (p_outq x1) + 1) p n w1 = Some w2" "queues_ok w2" "w_peer w2 p = Some x2" "lens_ok w2 x2"
    "pending w2 x2 = drop n (pending w1 x1)" by auto
  define w3 where "w3 = (if p_outq x2 \<noteq> [] then upd_peer p (\<lambda>x. x\<lparr>p_t_wantwrite := w_seconds w2\<rparr>) w2 else ev_disable EV_WRITE p w2)"
  define w' where "w' = upd_peer p (\<lambda>x. x\<lparr>p_t_lastwrite := w_seconds w3\<rparr>) w3"
  have nw: "net_write io p wmax w = Some (n, w')"
    using assms(2,5) gather kernel(1,2) x1(1) w2(1,3) by (simp add: net_write_def q_first_def w'_def w3_def Let_def del: net_drain.simps net_gather.simps)
  obtain x' where x': "w_peer w' = (w_peer w2)(p \<mapsto> x')" "p_outq x' = p_outq x2" "p_outq_off x' = p_outq_off x2"
    "p_npiece_msgs x' = p_npiece_msgs x2"
  proof (cases "p_outq x2 = []")
    case True
    with w2(3) show ?thesis
      by (intro that [of "x2\<lparr>p_ev := p_ev x2 - {EV_WRITE}, p_t_lastwrite := w_seconds w3\<rparr>"])
        (auto simp: w'_def w3_def ev_disable_def)
  next
    case False
    with w2(3) show ?thesis
      by (intro that [of "x2\<lparr>p_t_wantwrite := w_seconds w2, p_t_lastwrite := w_seconds w3\<rparr>"]) (auto simp: w'_def w3_def)
  qed
  have same: "cw_tor w' = cw_tor w2" "w_mp w' = w_mp w2" "nw_single w' = nw_single w2" "nw_fresh w' = nw_fresh w2" "nw_refs w' = nw_refs w2"
    by (simp_all add: w'_def w3_def ev_disable_def)
  have "queues_ok w'"
  proof (rule queues_ok_step [OF w2(2,3) x'(1)])
    show "peer_q_ok w2 x'" using w2(2,3) x'(2-4) by (simp add: queues_ok_def peer_q_ok_def)
  qed (simp_all add: same x'(2))
  moreover have "lens_ok w' x'" using w2(4) unfolding lens_ok_def x'(2,3) nb_bytes_cong [OF same(1)] .
  moreover have "pending w' x' = drop n (pending w1 x1)"
    using w2(5) x'(2,3) nb_bytes_cong [OF same(1)] by (simp add: pending_def)
  moreover have "take n (concat iov) = take n (pending w1 x1)" using x1(6) kernel(3) by simp
  ultimately show ?thesis using x1(1,4) nw x'(1) by auto
qed

text \<open>A keepalive waits, and the kernel takes three of its four bytes.\<close>

definition sample_io :: net_io where
  "sample_io = \<lparr>io_read = (\<lambda>_ _ _. Inl EAGAIN), io_write = (\<lambda>_ _ iov. Inr (min 3 (length (concat iov))))\<rparr>"

theorem net_write_sends_stream_witness:
  "\<exists>w w' x'. peer_keepalive 0 sample_swarm = Some w \<and> net_write sample_io 0 0 w = Some (3, w') \<and>
     w_peer w' 0 = Some x' \<and> pending w' x' = [0]"
proof -
  let ?r = "nb_create_keepalive sample_swarm"
  have q: "queues_ok sample_swarm" using sample_net_ok by (simp add: net_ok_def)
  have r: "queues_ok (snd ?r)" "msg_ok (snd ?r) (fst ?r)" "nb_type (fst ?r) = NB_KEEPALIVE" "same_but_nb sample_swarm (snd ?r)"
    using once_ok [OF q, of NB_KEEPALIVE "enc_be32 0"] by (auto simp: nb_create_keepalive_def)
  have b: "nb_len (fst ?r) = 4" "nb_buf (fst ?r) = Own_Buf [0, 0, 0, 0]"
    by (simp_all add: nb_create_keepalive_def nb_once_def nb_singleton_def nb_create_alloc_def enc_be32_def)
  have x0: "w_peer (snd ?r) 0 = Some sample_peer" using r(4) by (simp add: same_but_nb_def)
  from peer_send_ok [OF r(1) x0 r(2)] r(3) obtain w where w0: "peer_send 0 (fst ?r) (snd ?r) = Some w" "queues_ok w" by auto
  have "p_outq sample_peer = [] \<longrightarrow> p_outq_off sample_peer = 0" by (simp add: sample_peer_def)
  from w0(1) peer_send_eq [OF x0 this] obtain x where x: "w_peer w 0 = Some x" "p_n x = Some 0" "p_outq_off x = 0" "p_outq x = [fst ?r]"
    using x0 by (auto simp: sample_peer_def ev_enable_def)
  have "peer_keepalive 0 sample_swarm = Some w" using w0(1) by (cases ?r) (simp add: peer_keepalive_def peer_send_new_def)
  with w0 x r b obtain w x where w: "peer_keepalive 0 sample_swarm = Some w" "queues_ok w" "w_peer w 0 = Some x" "p_n x = Some 0"
    "p_outq_off x = 0" "\<exists>nb. p_outq x = [nb] \<and> nb_type nb = NB_KEEPALIVE \<and> nb_len nb = 4 \<and> nb_buf nb = Own_Buf [0, 0, 0, 0]"
    by blast
  then obtain nb where nb: "p_outq x = [nb]" "nb_type nb = NB_KEEPALIVE" "nb_len nb = 4" "nb_buf nb = Own_Buf [0, 0, 0, 0]" by blast
  have b: "nb_bytes w nb = [0, 0, 0, 0]" using nb(4) by (simp add: nb_bytes_def)
  have l: "lens_ok w x" using nb b w(5) by (simp add: lens_ok_def)
  have g: "net_gather IOV_MAX 0 False 0 0 0 [] w = Some (Some [[0, 0, 0, 0]], w)"
    using w(3,5) nb b by (simp add: IOV_MAX_def numeral_eq_Suc)
  have "io_write sample_io w 0 [[0, 0, 0, 0]] = Inr 3" by (simp add: sample_io_def)
  with net_write_sends_stream [OF w(2-4) l nb(1), of 0 "[[0, 0, 0, 0]]" w sample_io 3] g nb(2)
  obtain x1 w' x' where "w_peer w 0 = Some x1" "net_write sample_io 0 0 w = Some (3, w')" "w_peer w' 0 = Some x'"
    "pending w x1 = take 3 [0, 0, 0, 0] @ pending w' x'" by auto
  moreover have "pending w x = [0, 0, 0, 0]" using nb(1) b w(5) by (simp add: pending_def)
  ultimately show ?thesis using w(1,3) by (auto simp: numeral_3_eq_3)
qed

end
