(* ===== verification/Budget.thy ===== *)
theory Budget
  imports Net
begin

section \<open>The bandwidth limits\<close>

text \<open>The kernel transfers no more than it is asked to.\<close>

definition io_honest :: "net_io \<Rightarrow> bool" where
  "io_honest io \<longleftrightarrow>
     (\<forall>w p n bs. io_read io w p n = Inr bs \<longrightarrow> length bs \<le> n) \<and>
     (\<forall>w p iov n. io_write io w p iov = Inr n \<longrightarrow> n \<le> length (concat iov))"

lemma net_gather_limit:
  "net_gather k p True wmax i blocks iov w = Some (Some iov', w1) \<Longrightarrow> length (concat iov') \<le> length (concat iov) + wmax"
proof (induction k arbitrary: wmax i blocks iov w)
  case (Suc k)
  from Suc.prems obtain x where x: "w_peer w p = Some x" by (auto simp: bind_Some_iff)
  show ?case
  proof (cases "i < length (p_outq x) \<and> wmax > 0 \<and> \<not> (nb_type (p_outq x ! i) = NB_PIECE \<and> blocks \<ge> BLOCK_MEM_COUNT)")
    case False
    with Suc.prems x show ?thesis by (auto split: if_split_asm)
  next
    case True
    with Suc.prems x obtain v u b where
      u: "length u \<le> wmax" "net_gather k p True (wmax - length u) (Suc i) b (iov @ [u]) v = Some (Some iov', w1)"
    proof -
      from Suc.prems x True obtain ok v where v: "(if nb_type (p_outq x ! i) = NB_PIECE then fill_block p i w else Some (True, w)) = Some (ok, v)"
        "ok" by (auto simp: bind_Some_iff split: if_split_asm)
      define bs where "bs = drop (if i > 0 then 0 else p_outq_off x) (nb_bytes v (p_outq x ! i))"
      have "net_gather k p True (wmax - length (take wmax bs)) (Suc i) (if nb_type (p_outq x ! i) = NB_PIECE then blocks + 1 else blocks)
          (iov @ [take wmax bs]) v = Some (Some iov', w1)"
        using Suc.prems x True v by (simp add: bs_def Let_def split: if_split_asm)
      then show ?thesis by (rule that [rotated]) simp
    qed
    from Suc.IH [OF u(2)] u(1) show ?thesis by simp
  qed
qed simp

text \<open>C11. The bandwidth limits hold and their counters never wrap: with a limit, a call of \<^verbatim>\<open>net_read\<close> or
  \<^verbatim>\<open>net_write\<close> transfers at most the bytes it was given, so what is subtracted from the unsigned counters
  \<^verbatim>\<open>m_bw_bytes_in\<close> and \<^verbatim>\<open>m_bw_bytes_out\<close> is never more than they hold. Without a limit a read takes at most the
  rest of the unit that was begun and one buffer.\<close>

theorem net_transfer_within_limit:
  assumes "io_honest io"
  shows "(net_write io p wmax w = Some (n, w') \<and> wmax > 0 \<longrightarrow> n \<le> wmax) \<and>
    (net_read io p rmax (ib, w) = Some (m, s') \<and> rmax > 0 \<longrightarrow> m \<le> rmax) \<and>
    (net_read io p 0 (ib, w) = Some (m, s') \<and> w_peer w p = Some x \<longrightarrow>
       m \<le> (if ib p = [] then 0 else in_st_bytes (p_in x) - length (ib p)) + GRBUFLEN)"
proof (intro conjI impI)
  assume a: "net_write io p wmax w = Some (n, w') \<and> wmax > 0"
  then obtain x where x: "w_peer w p = Some x" by (auto simp: net_write_def bind_Some_iff)
  with a obtain nl where nl: "q_first (p_outq x) = Some nl" by (auto simp: net_write_def bind_Some_iff)
  from a x nl have wm: "net_gather IOV_MAX p True wmax 0 (if nb_type nl = NB_TORRENTDATA then 1 else 0) [] w \<noteq> None"
    by (auto simp: net_write_def bind_Some_iff)
  then obtain r w1 where g: "net_gather IOV_MAX p True wmax 0 (if nb_type nl = NB_TORRENTDATA then 1 else 0) [] w = Some (r, w1)"
    by fast
  have w: "net_write io p wmax w = Some (n, w')" "wmax > 0" using a by auto
  show "n \<le> wmax"
  proof (cases r)
    case None
    with w x nl g show ?thesis by (auto simp: net_write_def Let_def bind_Some_iff)
  next
    case (Some iov)
    from g Some net_gather_limit have l: "length (concat iov) \<le> wmax" by fastforce
    show ?thesis
    proof (cases "io_write io w1 p iov")
      case (Inl e)
      then show ?thesis using w x nl g Some by (auto simp: net_write_def Let_def bind_Some_iff split: if_split_asm)
    next
      case (Inr k)
      with assms have "k \<le> length (concat iov)" by (auto simp: io_honest_def)
      then show ?thesis using w x nl g Some Inr l by (auto simp: net_write_def Let_def bind_Some_iff split: if_split_asm)
    qed
  qed
next
  have rd: "m \<le> read_room (p_in y) (ib p) k" if "net_read io p k (ib, w) = Some (m, s')" "w_peer w p = Some y" for k y
  proof (cases "io_read io w p (read_room (p_in y) (ib p) k)")
    case (Inl e)
    with that show ?thesis by (auto simp: net_read_def kill_in_def bind_Some_iff split: if_split_asm)
  next
    case (Inr bs)
    with assms have "length bs \<le> read_room (p_in y) (ib p) k" by (auto simp: io_honest_def)
    with that Inr show ?thesis by (auto simp: net_read_def kill_in_def bind_Some_iff split: if_split_asm)
  qed
  show "m \<le> rmax" if "net_read io p rmax (ib, w) = Some (m, s') \<and> rmax > 0"
  proof -
    from that obtain y where "w_peer w p = Some y" by (auto simp: net_read_def bind_Some_iff)
    with rd [of rmax y] that have "m \<le> read_room (p_in y) (ib p) rmax" by simp
    then show ?thesis using that by (auto simp: read_room_def Let_def split: if_split_asm)
  qed
  show "m \<le> (if ib p = [] then 0 else in_st_bytes (p_in x) - length (ib p)) + GRBUFLEN"
    if "net_read io p 0 (ib, w) = Some (m, s') \<and> w_peer w p = Some x"
    using rd [of 0 x] that by (simp add: read_room_def Let_def split: if_split_asm)
qed

theorem net_transfer_within_limit_witness:
  "\<exists>io m s'. net_read io 0 2 (\<lambda>_. [], sample_accepted) = Some (m, s') \<and> m \<le> 2"
proof -
  let ?io = "\<lparr>io_read = (\<lambda>_ _ n. Inr (replicate (min n 9) 7)), io_write = (\<lambda>_ _ _. Inr 0)\<rparr>"
  have h: "io_honest ?io" by (simp add: io_honest_def)
  from sample_accepted_peer obtain x where x: "w_peer sample_accepted 0 = Some x"
    "in_state (p_in x) = SHAKE_PSTR" "in_st_bytes (p_in x) = 28" by blast
  have "net_feed 0 [] [7, 7] sample_accepted = Some (Some [7, 7], sample_accepted)"
    using x net_rest_short [OF x(1), of "[7, 7]"] by (simp add: net_feed_nil net_progress_def)
  then have "net_read ?io 0 2 (\<lambda>_. [], sample_accepted) = Some (2, (\<lambda>_. [])(0 := [7, 7]), sample_accepted)"
    using x by (simp add: net_read_def read_room_def GRBUFLEN_def numeral_2_eq_2)
  with net_transfer_within_limit [OF h, where p = 0 and rmax = 2 and ib = "\<lambda>_. []" and w = sample_accepted] show ?thesis by blast
qed

section \<open>Messages that are accepted but should not be\<close>

text \<open>
  The sum in the check of a request wraps, so a request far behind the end of a piece passes; when the block is to be sent the
  assertion of \<^verbatim>\<open>bts_get\<close> fails.
\<close>

lemma wrapping_request_aborts:
  assumes "cw_tor w t = Some tp" "cm_rds (tp_cm tp) = Ptr rds" "\<not> cm_err (tp_cm tp)" "bs_totlen rds < 2 ^ 32 - 1"
    "unat i < tp_npieces tp" "cm_has_piece tp (unat i)" "torrent_piece_size tp (unat i) > 0"
  shows "\<not> bad_request tp i (- 1) 2 \<and> cm_get_bytes t (unat i) (unat (- 1 :: u32)) (unat (2 :: u32)) w = None"
proof -
  have m: "unat (- 1 :: u32) = 2 ^ 32 - 1" by (simp add: unsigned_minus_1_eq_mask mask_eq_exp_minus_1)
  have "\<not> bad_request tp i (- 1) 2" using assms by (simp add: bad_request_def PIECE_BLOCKLEN_def)
  moreover have "cm_get_bytes t (unat i) (unat (- 1 :: u32)) (unat (2 :: u32)) w = None"
    using assms(1-4) unfolding m by (simp add: cm_get_bytes_def bts_get_def)
  ultimately show ?thesis by simp
qed

text \<open>
  A block message has no least length: with a length below 9 the rest of the message is taken to be almost
  four gigabytes.
\<close>

lemma short_block_message_passes:
  "net_mh_ok npieces MSG_PIECE 2 \<and> unat ((2 :: u32) - 9) = 2 ^ 32 - 7"
  by (simp add: net_mh_ok_def PIECE_BLOCKLEN_def)

text \<open>The index of a have message is used without a check.\<close>

lemma have_out_of_range:
  "w_peer w p = Some x \<Longrightarrow> \<not> in_field (p_piece_field x) i \<Longrightarrow> peer_on_have p i w = None"
  by (simp add: peer_on_have_def)

text \<open>
  A peer under suspicion that is to be told of lost interest once its requests are done (\<^verbatim>\<open>PF_DO_UNWANT\<close>) is
  wanted again: \<^verbatim>\<open>peer_want\<close> returns before it takes the flag back, and when the last request is done
  the assertion of \<^verbatim>\<open>peer_on_no_reqs\<close> fails.
\<close>

lemma suspect_want_aborts:
  assumes "w_peer w p = Some x" "PF_SUSPECT \<in> pf w p" "PF_DO_UNWANT \<in> pf w p" "p_nwant x = 0" "p_npieces x > 0"
    "peer_has w p i" "\<not> peer_has_bad w p i"
  shows "\<exists>w'. peer_want p i w = Some w' \<and> PF_DO_UNWANT \<in> pf w' p \<and> peer_on_no_reqs p w' = None"
proof -
  have m: "w_mp w p \<noteq> None" using assms(2) by (auto simp: pf_def split: option.splits)
  then have m': "w_mp (upd_peer p (\<lambda>x. x\<lparr>p_nwant := p_nwant x + 1\<rparr>) w) p \<noteq> None" by simp
  let ?w = "set_flag PF_I_WANT p (upd_peer p (\<lambda>x. x\<lparr>p_nwant := p_nwant x + 1\<rparr>) w)"
  have f: "pf ?w p = insert PF_I_WANT (pf w p)" using pf_upd(5) [OF m'] by simp
  have "peer_want p i w = Some ?w"
    using assms f by (simp add: peer_want_def Let_def)
  moreover have "peer_on_no_reqs p ?w = None" using assms f by (simp add: peer_on_no_reqs_def)
  ultimately show ?thesis using assms(3) f by auto
qed

end
