(* ===== verification/Printf.thy ===== *)
theory Printf
  imports Benc
begin

text \<open>
  Numbers as the formatted output of the C library prints them (\<^verbatim>\<open>%u\<close>, \<^verbatim>\<open>%d\<close>, \<^verbatim>\<open>%llu\<close>, \<^verbatim>\<open>%lld\<close>, \<^verbatim>\<open>%x\<close>), with
  the lemmas that the scanners of the program read them back, and the bencoded pieces that the
  daemon and its clients print with \<^verbatim>\<open>iobuf_print\<close>.
\<close>

definition digit_char :: "nat \<Rightarrow> char" where
  "digit_char d = char_of (if d < 10 then 48 + d else 87 + d)"

text \<open>The digits of \<open>n\<close> in a base, without leading zeros.\<close>

function show_base :: "nat \<Rightarrow> nat \<Rightarrow> cstr" where
  "show_base b n = (if n < b \<or> b < 2 then [digit_char n] else show_base b (n div b) @ [digit_char (n mod b)])"
  by pat_completeness auto
termination
  by (relation "measure snd") auto

declare show_base.simps [simp del]

abbreviation show_nat :: "nat \<Rightarrow> cstr" where
  "show_nat \<equiv> show_base 10"

abbreviation show_hex :: "nat \<Rightarrow> cstr" where
  "show_hex \<equiv> show_base 16"

definition show_int :: "int \<Rightarrow> cstr" where
  "show_int i = (if i < 0 then CHR ''-'' # show_nat (nat (- i)) else show_nat (nat i))"

text \<open>\<^verbatim>\<open>i%de\<close> and \<^verbatim>\<open>%d:%s\<close>.\<close>

definition benc_num :: "int \<Rightarrow> cstr" where
  "benc_num i = CHR ''i'' # show_int i @ ''e''"

definition benc_text :: "cstr \<Rightarrow> cstr" where
  "benc_text s = show_nat (length s) @ CHR '':'' # s"

lemma digit_chars:
  "digit_char 0 = CHR ''0''" "digit_char 1 = CHR ''1''" "digit_char (Suc 0) = CHR ''1''" "digit_char 2 = CHR ''2''"
  "digit_char 3 = CHR ''3''" "digit_char 4 = CHR ''4''" "digit_char 5 = CHR ''5''" "digit_char 6 = CHR ''6''"
  "digit_char 7 = CHR ''7''" "digit_char 8 = CHR ''8''" "digit_char 9 = CHR ''9''" "digit_char 10 = CHR ''a''"
  "digit_char 11 = CHR ''b''" "digit_char 12 = CHR ''c''" "digit_char 13 = CHR ''d''" "digit_char 14 = CHR ''e''"
  "digit_char 15 = CHR ''f''"
  by (simp_all add: digit_char_def char_of_def bit_0)

section \<open>What the scanners make of them\<close>

lemma digit_char_dec: "d < 10 \<Longrightarrow> isdigit (digit_char d) \<and> digit (digit_char d) = d"
  by (simp add: digit_char_def isdigit_def digit_def Let_def)

lemma show_nat_induct:
  "(\<And>n. n < 10 \<Longrightarrow> P n) \<Longrightarrow> (\<And>n. 10 \<le> n \<Longrightarrow> P (n div 10) \<Longrightarrow> P n) \<Longrightarrow> P (n::nat)"
  by (induction n rule: less_induct) (metis div_less_dividend linorder_not_less one_less_numeral_iff semiring_norm(76) not_numeral_le_zero zero_less_iff_neq_zero)

lemma show_nat_rec: "show_nat n = (if n < 10 then [digit_char n] else show_nat (n div 10) @ [digit_char (n mod 10)])"
  by (simp add: show_base.simps [of 10 n])

lemma show_nat_small: "n < 10 \<Longrightarrow> show_nat n = [digit_char n]"
  by (simp add: show_nat_rec)

lemma show_nat_big: "10 \<le> n \<Longrightarrow> show_nat n = show_nat (n div 10) @ [digit_char (n mod 10)]"
  by (subst show_nat_rec) simp

lemma show_nat_digits: "show_nat n \<noteq> [] \<and> (\<forall>c \<in> set (show_nat n). isdigit c)"
proof (induction n rule: show_nat_induct)
  case (1 n)
  then show ?case by (simp add: show_nat_small digit_char_dec)
next
  case (2 n)
  then show ?case by (auto simp: show_nat_big [OF 2(1)] digit_char_dec)
qed

lemma dec_val_snoc: "dec_val (ds @ [d]) = dec_val ds * 10 + digit d"
  by (simp add: dec_val_def)

lemma dec_val_show [simp]: "dec_val (show_nat n) = n"
proof (induction n rule: show_nat_induct)
  case (1 n)
  then show ?case by (simp add: show_nat_small digit_char_dec dec_val_def)
next
  case (2 n)
  then show ?case by (simp add: show_nat_big [OF 2(1)] dec_val_snoc digit_char_dec)
qed

lemma takeWhile_show_nat:
  assumes "r = [] \<or> \<not> isdigit (hd r)"
  shows "takeWhile isdigit (show_nat n @ r) = show_nat n" "dropWhile isdigit (show_nat n @ r) = r"
  using assms show_nat_digits [of n] by (cases r; auto simp: takeWhile_append dropWhile_append)+

lemma hd_show_nat: "isdigit (hd (show_nat n))"
  using show_nat_digits [of n] by (simp add: hd_in_set)

lemma strtoll_show_int:
  assumes "r = [] \<or> \<not> isdigit (hd r)" "- (2 ^ 63) \<le> i" "i < 2 ^ 63"
  shows "strtoll (show_int i @ r) = (i, r)"
proof -
  have nm: "\<not> isdigit CHR ''-''" by (simp add: isdigit_def)
  have m: "(case show_nat k @ r of c # _ \<Rightarrow> c = CHR ''-'' | [] \<Rightarrow> False) = False" for k
    using hd_show_nat [of k] show_nat_digits [of k] nm by (cases "show_nat k") auto
  have ne: "show_nat k \<noteq> []" for k using show_nat_digits [of k] by simp
  show ?thesis
  proof (cases "i < 0")
    case True
    with assms show ?thesis
      by (simp add: strtoll_def show_int_def takeWhile_show_nat [OF assms(1)] Let_def ne)
  next
    case False
    with assms show ?thesis
      by (simp add: strtoll_def show_int_def m takeWhile_show_nat [OF assms(1)] Let_def ne)
  qed
qed

end
