(* ===== verification/Http.thy ===== *)
theory Http
  imports Iobuf Printf
begin

text \<open>
  \<^verbatim>\<open>misc/http_client.c\<close>: addresses, requests and the incremental parser of responses.

  The receive buffer is an \<open>iobuf\<close> of characters. Where the code scans memory up to a NUL, the scan is over the
  whole allocated block behind \<^verbatim>\<open>buf\<close>, and leaving the block is \<open>None\<close>. The callback of a request is a
  parameter: it answers whether it called \<^verbatim>\<open>http_cancel\<close>, and the state of its owner. A parsing function gives
  the request, or \<open>None\<close> for a request that was freed (the code returns 0 then).
\<close>

section \<open>Addresses\<close>

record http_url =
  hu_host :: cstr
  hu_uri :: cstr
  hu_port :: u16

text \<open>\<^verbatim>\<open>strchr\<close> from an index of a string.\<close>

definition strchr :: "cstr \<Rightarrow> nat \<Rightarrow> char \<Rightarrow> nat option" where
  "strchr s i c = (let d = length (takeWhile (\<lambda>x. x \<noteq> c) (drop i s)) in if i + d < length s then Some (i + d) else None)"

text \<open>Where the host, its optional port and the path are in an address: first and last index of each.\<close>

definition url_uri :: "cstr \<Rightarrow> nat" where
  "url_uri url =
     (let uri = strchr url 7 CHR ''/''; cur = strchr url 7 CHR ''?'' in
      case cur of
        Some c \<Rightarrow> (case uri of None \<Rightarrow> c | Some u \<Rightarrow> if c < u then c else u)
      | None \<Rightarrow> (case uri of None \<Rightarrow> length url | Some u \<Rightarrow> u))"

definition url_host :: "cstr \<Rightarrow> nat" where
  "url_host url =
     (case strchr url 7 CHR ''@'' of
        Some at \<Rightarrow> if at < url_uri url then at + 1 else 7
      | None \<Rightarrow> 7)"

definition url_part :: "cstr \<Rightarrow> nat \<Rightarrow> nat \<Rightarrow> cstr" where
  "url_part url b e = take (e - b) (drop b url)"

definition http_url_parse :: "bool \<Rightarrow> cstr \<Rightarrow> http_url option" where
  "http_url_parse ok url =
     (if take 7 url \<noteq> ''http://'' then None
      else
        let uri = url_uri url;
            host = url_host url;
            host_e = host + length (takeWhile (\<lambda>c. c \<noteq> CHR '':'') (url_part url host uri));
            port = (if host_e < uri then Some (host_e + 1) else None);
            path = drop uri url;
            res = \<lparr>hu_host = url_part url host host_e,
                   hu_uri = (if take 1 path \<noteq> ''/'' then CHR ''/'' # path else path),
                   hu_port = (case port of Some p \<Rightarrow> of_nat (strtoul (drop p url)) | None \<Rightarrow> 80)\<rparr>
        in
          if host_e = host then None
          else if (case port of
                     Some p \<Rightarrow> p = uri \<or> \<not> list_all isdigit (url_part url p uri)
                   | None \<Rightarrow> False) then None
          else if \<not> ok then None
          else Some res)"

section \<open>Requests\<close>

datatype pstate = PS_HEAD | PS_CHUNK_SIZE | PS_CHUNK_DATA | PS_CHUNK_CRLF | PS_ID_DATA

datatype http_response = HTTP_T_ERR | HTTP_T_CODE int | HTTP_T_HEADER cstr cstr | HTTP_T_DATA cstr | HTTP_T_DONE

record http_req =
  hr_pstate :: pstate
  hr_parsing :: bool
  hr_cancel :: bool
  hr_chunked :: bool
  hr_length :: int
  hr_url :: http_url
  hr_rbuf :: "char iobuf"
  hr_wbuf :: "char iobuf"

type_synonym 'u http_cb = "http_response \<Rightarrow> 'u \<Rightarrow> (bool \<times> 'u) option"

text \<open>
  \<^verbatim>\<open>http_cancel\<close> outside the parser frees the request; inside it only marks it. A callback of
  \<^verbatim>\<open>http_error\<close> that cancels a request that is not being parsed frees it twice.
\<close>

definition http_cancel :: "http_req \<Rightarrow> http_req option" where
  "http_cancel req = (if hr_parsing req then Some (req\<lparr>hr_cancel := True\<rparr>) else None)"

definition http_error :: "'u http_cb \<Rightarrow> http_req \<Rightarrow> 'u \<Rightarrow> (http_req option \<times> 'u) option" where
  "http_error cb req u =
     do {
       (canc, u1) \<leftarrow> cb HTTP_T_ERR u;
       guard_opt (canc \<longrightarrow> hr_parsing req);
       Some (None, u1) }"

definition http_want_read :: "http_req \<Rightarrow> bool" where
  "http_want_read req = True"

definition http_want_write :: "http_req \<Rightarrow> bool" where
  "http_want_write req \<longleftrightarrow> ib_off (hr_wbuf req) > 0"

section \<open>Scanning\<close>

definition NUL :: char where "NUL = CHR 0x00"
definition LF :: char where "LF = CHR 0x0A"
definition CR :: char where "CR = CHR 0x0D"

definition isblank :: "char \<Rightarrow> bool" where
  "isblank c \<longleftrightarrow> c = CHR '' '' \<or> c = CHR 0x09"

definition isspace :: "char \<Rightarrow> bool" where
  "isspace c \<longleftrightarrow> c \<in> {CHR '' '', CHR 0x09, LF, CHR 0x0B, CHR 0x0C, CR}"

text \<open>The first index of memory, from \<open>i\<close> on, where \<open>P\<close> holds.\<close>

definition scan :: "(char \<Rightarrow> bool) \<Rightarrow> cstr \<Rightarrow> nat \<Rightarrow> nat option" where
  "scan P m i = (let d = length (takeWhile (\<lambda>x. \<not> P x) (drop i m)) in if i + d < length m then Some (i + d) else None)"

definition strchr_mem :: "cstr \<Rightarrow> nat \<Rightarrow> char \<Rightarrow> nat option option" where
  "strchr_mem m i c = do { j \<leftarrow> scan (\<lambda>x. x = c \<or> x = NUL) m i; Some (if m ! j = c then Some j else None) }"

text \<open>\<^verbatim>\<open>strnl\<close>: the end of the line, NULL or an index, and how many characters end it.\<close>

definition strnl :: "cstr \<Rightarrow> nat \<Rightarrow> (nat option \<times> nat) option" where
  "strnl m i =
     do {
       r \<leftarrow> strchr_mem m i LF;
       Some (case r of
          Some nl \<Rightarrow> if nl > i \<and> m ! (nl - 1) = CR then (Some (nl - 1), 2) else (Some nl, 1)
        | None \<Rightarrow> (None, 1)) }"

definition LONG_MAX :: int where "LONG_MAX = 2 ^ 63 - 1"

definition clamp_long :: "int \<Rightarrow> int" where
  "clamp_long v = max (- LONG_MAX - 1) (min LONG_MAX v)"

text \<open>
  The sign and the digits of \<^verbatim>\<open>strtol\<close> in a NUL-terminated string; the second component tells
  whether \<^verbatim>\<open>errno\<close> was set.
\<close>

fun sign_of :: "cstr \<Rightarrow> int \<times> cstr" where
  "sign_of (c # s) = (if c = CHR ''-'' then (-1, s) else if c = CHR ''+'' then (1, s) else (1, c # s))"
| "sign_of [] = (1, [])"

definition strtol10 :: "cstr \<Rightarrow> int \<times> bool" where
  "strtol10 v =
     (let (sg, s) = sign_of (dropWhile isspace v); x = sg * int (dec_val (takeWhile isdigit s)) in
      (clamp_long x, clamp_long x \<noteq> x))"

text \<open>\<^verbatim>\<open>strtol\<close> to base 16 on memory: the value, whether there were digits, and whether \<^verbatim>\<open>errno\<close> was set.\<close>

definition hex_val :: "cstr \<Rightarrow> nat" where
  "hex_val ds = foldl (\<lambda>l c. l * 16 + (case hex2i c of Some b \<Rightarrow> unat b | None \<Rightarrow> 0)) 0 ds"

definition isxdigit :: "char \<Rightarrow> bool" where
  "isxdigit c \<longleftrightarrow> hex2i c \<noteq> None \<or> c \<in> set ''ABCDEF''"

definition lower :: "char \<Rightarrow> char" where
  "lower c = (let n = (of_char c :: nat) in if 65 \<le> n \<and> n \<le> 90 then char_of (n + 32) else c)"

fun skip_0x :: "cstr \<Rightarrow> cstr" where
  "skip_0x (a # b # c # s) = (if a = CHR ''0'' \<and> lower b = CHR ''x'' \<and> isxdigit c then c # s else a # b # c # s)"
| "skip_0x s = s"

definition strtol16 :: "cstr \<Rightarrow> (int \<times> bool \<times> bool) option" where
  "strtol16 m =
     (let (sg, s) = sign_of (dropWhile isspace m); t = skip_0x s; ds = takeWhile isxdigit t;
          x = sg * int (hex_val (map lower ds)) in
      if dropWhile isxdigit t = [] then None
      else Some (clamp_long x, ds \<noteq> [], clamp_long x \<noteq> x))"

text \<open>\<^verbatim>\<open>%d\<close> of \<^verbatim>\<open>sscanf\<close>: the number is read as a \<^verbatim>\<open>long\<close> and stored in an \<^verbatim>\<open>int\<close>.\<close>

definition scan_d :: "cstr \<Rightarrow> (int \<times> cstr) option" where
  "scan_d s =
     (let (sg, t) = sign_of (dropWhile isspace s); ds = takeWhile isdigit t in
      if ds = [] then None
      else Some (sint (word_of_int (clamp_long (sg * int (dec_val ds))) :: 32 word), dropWhile isdigit t))"

text \<open>\<^verbatim>\<open>sscanf(buf, "HTTP/%d.%d %d", ...)\<close>: the status code when all three numbers are there.\<close>

definition scan_status :: "cstr \<Rightarrow> int option" where
  "scan_status s =
     (if take 5 s \<noteq> ''HTTP/'' then None
      else do {
        (maj, r) \<leftarrow> scan_d (drop 5 s);
        if take 1 r \<noteq> ''.'' then None
        else do { (mn, r1) \<leftarrow> scan_d (drop 1 r); (code, r2) \<leftarrow> scan_d r1; Some code } })"

definition strcaseeq :: "cstr \<Rightarrow> cstr \<Rightarrow> bool" where
  "strcaseeq a b \<longleftrightarrow> map lower a = map lower b"

lemma scan_bounds: "scan P m i = Some j \<Longrightarrow> i \<le> j \<and> j < length m"
  by (auto simp: scan_def Let_def split: if_split_asm)

lemma strchr_mem_bounds: "strchr_mem m i c = Some (Some j) \<Longrightarrow> i \<le> j \<and> j < length m"
  by (auto simp: strchr_mem_def bind_Some_iff dest: scan_bounds split: if_split_asm)

section \<open>Headers\<close>

text \<open>
  A pointer to the end of a line may be NULL. \<open>val_loop\<close> collects the value of a header, with its continuation
  lines, in an array of 872 bytes, from index \<open>cur\<close> on; it gives the next line and its end.
\<close>

definition before :: "nat \<Rightarrow> nat option \<Rightarrow> bool" where
  "before cur nl = (case nl of None \<Rightarrow> False | Some n \<Rightarrow> cur < n)"

definition put_value :: "cstr \<Rightarrow> cstr \<Rightarrow> cstr" where
  "put_value v xs = take 871 (v @ xs)"

function val_loop :: "cstr \<Rightarrow> nat \<Rightarrow> nat option \<times> nat \<Rightarrow> cstr \<Rightarrow> (nat \<times> (nat option \<times> nat) \<times> cstr) option" where
  "val_loop m cur nl v =
     (case scan (\<lambda>x. \<not> isblank x) m cur of
        None \<Rightarrow> None
      | Some c1 \<Rightarrow>
          let v1 = (if before c1 (fst nl) then put_value v (take (the (fst nl) - c1) (drop c1 m)) else v);
              c2 = (if before c1 (fst nl) then the (fst nl) else c1) + snd nl in
          (case strnl m c2 of
             None \<Rightarrow> None
           | Some nl' \<Rightarrow>
               if c2 < length m
               then (if isblank (m ! c2) then val_loop m (c2 + 1) nl' (put_value v1 '' '') else Some (c2, nl', v1))
               else None))"
  by pat_completeness auto
termination
  by (relation "measure (\<lambda>(m, cur, nl, v). length m - cur)") (auto simp: before_def dest!: scan_bounds split: if_split_asm option.split_asm)

declare val_loop.simps [simp del]

lemma val_loop_ge: "val_loop m cur nl v = Some (cur', nl', v') \<Longrightarrow> cur \<le> cur'"
proof (induction m cur nl v arbitrary: cur' nl' v' rule: val_loop.induct)
  case (1 m cur nl v)
  from "1.prems" obtain c1 where c1: "scan (\<lambda>x. \<not> isblank x) m cur = Some c1"
    by (auto simp: val_loop.simps [of m cur] split: option.split_asm)
  let ?c2 = "(if before c1 (fst nl) then the (fst nl) else c1) + snd nl"
  from "1.prems" c1 obtain nl2 where n: "strnl m ?c2 = Some nl2" "?c2 < length m"
    by (auto simp: val_loop.simps [of m cur] Let_def split: option.split_asm if_split_asm)
  have c: "cur \<le> ?c2" using scan_bounds [OF c1] by (auto simp: before_def split: option.split_asm)
  show ?case
  proof (cases "isblank (m ! ?c2)")
    case True
    with "1.prems" c1 n have "\<exists>v2. val_loop m (?c2 + 1) nl2 v2 = Some (cur', nl', v')"
      by (auto simp: val_loop.simps [of m cur] Let_def)
    with "1.IH" [OF c1 refl refl n True] c "1.prems" c1 n True show ?thesis
      by (fastforce simp: val_loop.simps [of m cur] Let_def)
  next
    case False
    with "1.prems" c1 n c show ?thesis by (auto simp: val_loop.simps [of m cur] Let_def)
  qed
qed

definition trim_blanks :: "cstr \<Rightarrow> cstr" where
  "trim_blanks v = rev (dropWhile isblank (rev v))"

text \<open>What a header changes in the request.\<close>

definition note_header :: "cstr \<Rightarrow> cstr \<Rightarrow> http_req \<Rightarrow> http_req" where
  "note_header name value req =
     (let req1 = (if \<not> hr_chunked req \<and> strcaseeq ''Transfer-Encoding'' name \<and> strcaseeq ''chunked'' value
                  then req\<lparr>hr_chunked := True\<rparr> else req)
      in if \<not> hr_chunked req1 \<and> hr_length req1 = - 1 \<and> strcaseeq ''Content-Length'' name
         then req1\<lparr>hr_length := (let (x, err) = strtol10 value in if err then - 1 else x)\<rparr>
         else req1)"

function headers_loop :: "cstr \<Rightarrow> nat \<Rightarrow> 'u http_cb \<Rightarrow> nat \<Rightarrow> nat option \<times> nat \<Rightarrow> http_req \<Rightarrow> 'u \<Rightarrow>
    (bool \<times> http_req \<times> 'u) option" where
  "headers_loop m en cb cur nl req u =
     (if cur < en
      then (case strchr_mem m cur CHR '':'' of
          None \<Rightarrow> None
        | Some None \<Rightarrow> Some (False, req, u)
        | Some (Some colon) \<Rightarrow>
            if fst nl = None \<or> colon > the (fst nl) then Some (False, req, u)
            else let name = take 127 (take (colon - cur) (drop cur m)) in
              (case val_loop m (colon + 1) nl '''' of
                 None \<Rightarrow> None
               | Some (cur', nl', v) \<Rightarrow>
                   let value = trim_blanks v in
                   (case cb (HTTP_T_HEADER name value) u of
                      None \<Rightarrow> None
                    | Some (canc, u1) \<Rightarrow>
                        if canc then Some (True, req\<lparr>hr_cancel := True\<rparr>, u1)
                        else headers_loop m en cb cur' nl' (note_header name value req) u1)))
      else Some (True, req\<lparr>hr_pstate := if hr_chunked req then PS_CHUNK_SIZE else PS_ID_DATA\<rparr>, u))"
  by pat_completeness auto
termination
  by (relation "measure (\<lambda>(m, en, cb, cur, nl, req, u). en - cur)")
    (auto dest!: val_loop_ge strchr_mem_bounds)

declare headers_loop.simps [simp del]

text \<open>\<^verbatim>\<open>strchr(buf, '\n') + 1\<close> is not an address when a NUL comes before the first line break.\<close>

definition headers_parse :: "cstr \<Rightarrow> nat \<Rightarrow> 'u http_cb \<Rightarrow> http_req \<Rightarrow> 'u \<Rightarrow> (bool \<times> http_req \<times> 'u) option" where
  "headers_parse m en cb req u =
     (let req0 = req\<lparr>hr_chunked := False, hr_length := - 1\<rparr> in
      case scan_status (takeWhile (\<lambda>c. c \<noteq> NUL) m) of
        None \<Rightarrow> Some (False, req0, u)
      | Some code \<Rightarrow>
          do {
            (canc, u1) \<leftarrow> cb (HTTP_T_CODE code) u;
            if canc then Some (True, req0\<lparr>hr_cancel := True\<rparr>, u1)
            else do {
              r \<leftarrow> strchr_mem m 0 LF;
              eol \<leftarrow> r;
              nl \<leftarrow> strnl m (eol + 1);
              headers_loop m en cb (eol + 1) nl req0 u1 } })"

section \<open>The parser\<close>

text \<open>\<^verbatim>\<open>buf\<close> up to the end of its block.\<close>

definition iobuf_mem :: "'a iobuf \<Rightarrow> 'a list" where
  "iobuf_mem iob = drop (ib_skip iob) (the (ib_mem iob))"

text \<open>The end of the headers: index of the blank line and how many characters it takes.\<close>

definition head_end :: "char iobuf \<Rightarrow> (nat \<times> nat) option option" where
  "head_end rb =
     do {
       e \<leftarrow> iobuf_find rb [CR, LF, CR, LF];
       case e of
         Some i \<Rightarrow> Some (Some (i, 4))
       | None \<Rightarrow> do { e2 \<leftarrow> iobuf_find rb [LF, LF]; Some (map_option (\<lambda>i. (i, 2)) e2) } }"

text \<open>
  The terminating NUL is written behind the data. When the block is moved inside itself the pointer \<^verbatim>\<open>end\<close> stays where
  it was, and when it is reallocated the pointer is invalid.
\<close>

definition head_ready :: "char alloc \<Rightarrow> 'u http_cb \<Rightarrow> nat \<Rightarrow> nat \<Rightarrow> http_req \<Rightarrow> 'u \<Rightarrow>
    (bool \<times> http_req \<times> 'u) option" where
  "head_ready alloc cb en dlen req u =
     (case iobuf_write alloc (hr_rbuf req) [NUL] of
        (False, rb) \<Rightarrow> Some (False, req\<lparr>hr_rbuf := rb\<rparr>, u)
      | (True, rb) \<Rightarrow>
          do {
            guard_opt (ib_size rb = ib_size (hr_rbuf req));
            headers_parse (iobuf_mem rb) (en + ib_skip (hr_rbuf req) - ib_skip rb) cb
              (req\<lparr>hr_rbuf := rb\<lparr>ib_off := ib_off rb - 1\<rparr>\<rparr>) u })"

definition consume :: "nat \<Rightarrow> http_req \<Rightarrow> http_req option" where
  "consume n req = do { rb \<leftarrow> iobuf_consumed (hr_rbuf req) n; Some (req\<lparr>hr_rbuf := rb\<rparr>) }"

text \<open>
  One turn of \<^verbatim>\<open>again\<close>: the function returns (\<open>Inl\<close>) or goes on with a changed request. \<open>got\<close>: the
  number of bytes just read is not 0.
\<close>

type_synonym 'u http_turn = "((http_req option \<times> 'u) + (http_req \<times> 'u)) option"

definition ret :: "(http_req option \<times> 'u) option \<Rightarrow> 'u http_turn" where
  "ret r = map_option Inl r"

definition done_req :: "'u http_cb \<Rightarrow> 'u \<Rightarrow> (http_req option \<times> 'u) option" where
  "done_req cb u = do { (canc, u1) \<leftarrow> cb HTTP_T_DONE u; Some (None, u1) }"

definition turn_head :: "char alloc \<Rightarrow> 'u http_cb \<Rightarrow> http_req \<Rightarrow> 'u \<Rightarrow> 'u http_turn" where
  "turn_head alloc cb req u =
     do {
       e \<leftarrow> head_end (hr_rbuf req);
       case e of
         None \<Rightarrow> if ib_off (hr_rbuf req) < 32768 then Some (Inl (Some req, u)) else ret (http_error cb req u)
       | Some (en, dlen) \<Rightarrow>
           do {
             (ok, req1, u1) \<leftarrow> head_ready alloc cb en dlen req u;
             if \<not> ok then ret (http_error cb req1 u1)
             else if hr_cancel req1 then Some (Inl (None, u1))
             else do { req2 \<leftarrow> consume (en + dlen) req1; Some (Inr (req2, u1)) } } }"

definition turn_chunk_size :: "'u http_cb \<Rightarrow> http_req \<Rightarrow> 'u \<Rightarrow> 'u http_turn" where
  "turn_chunk_size cb req u =
     do {
       e \<leftarrow> iobuf_find (hr_rbuf req) [LF];
       case e of
         None \<Rightarrow> if ib_off (hr_rbuf req) < 20 then Some (Inl (Some req, u)) else ret (http_error cb req u)
       | Some en \<Rightarrow>
           do {
             (l, digs, err) \<leftarrow> strtol16 (iobuf_mem (hr_rbuf req));
             let req1 = req\<lparr>hr_length := l\<rparr>;
             if l < 0 \<or> \<not> digs \<or> err then ret (http_error cb req1 u)
             else if l = 0 then ret (done_req cb u)
             else do { req2 \<leftarrow> consume (en + 1) req1; Some (Inr (req2\<lparr>hr_pstate := PS_CHUNK_DATA\<rparr>, u)) } } }"

definition data_len :: "http_req \<Rightarrow> nat" where
  "data_len req = nat (min (int (ib_off (hr_rbuf req))) (hr_length req))"

definition turn_chunk_data :: "'u http_cb \<Rightarrow> http_req \<Rightarrow> 'u \<Rightarrow> 'u http_turn" where
  "turn_chunk_data cb req u =
     (let dlen = data_len req in
      if dlen > 0
      then do {
        (canc, u1) \<leftarrow> cb (HTTP_T_DATA (take dlen (iobuf_mem (hr_rbuf req)))) u;
        if canc then Some (Inl (None, u1))
        else do {
          req1 \<leftarrow> consume dlen req;
          let req2 = req1\<lparr>hr_length := hr_length req1 - int dlen\<rparr>;
          if hr_length req2 = 0 then Some (Inr (req2\<lparr>hr_pstate := PS_CHUNK_CRLF\<rparr>, u1))
          else Some (Inl (Some req2, u1)) } }
      else Some (Inl (Some req, u)))"

definition turn_chunk_crlf :: "'u http_cb \<Rightarrow> http_req \<Rightarrow> 'u \<Rightarrow> 'u http_turn" where
  "turn_chunk_crlf cb req u =
     (if ib_off (hr_rbuf req) < 2 then Some (Inl (Some req, u))
      else let b = iobuf_mem (hr_rbuf req) in
        if b ! 0 = CR \<and> b ! 1 = LF
        then do { req1 \<leftarrow> consume 2 req; Some (Inr (req1\<lparr>hr_pstate := PS_CHUNK_SIZE\<rparr>, u)) }
        else if b ! 0 = LF
        then do { req1 \<leftarrow> consume 1 req; Some (Inr (req1\<lparr>hr_pstate := PS_CHUNK_SIZE\<rparr>, u)) }
        else ret (http_error cb req u))"

definition turn_id_data :: "'u http_cb \<Rightarrow> http_req \<Rightarrow> 'u \<Rightarrow> 'u http_turn" where
  "turn_id_data cb req u =
     (let dlen = (if hr_length req < 0 then ib_off (hr_rbuf req) else data_len req) in
      if dlen > 0
      then do {
        (canc, u1) \<leftarrow> cb (HTTP_T_DATA (take dlen (iobuf_mem (hr_rbuf req)))) u;
        if canc then Some (Inl (None, u1))
        else do {
          req1 \<leftarrow> consume dlen req;
          let req2 = (if hr_length req1 > 0 then req1\<lparr>hr_length := hr_length req1 - int dlen\<rparr> else req1);
          if hr_length req1 > 0 \<and> hr_length req2 = 0 then ret (done_req cb u1)
          else Some (Inl (Some req2, u1)) } }
      else Some (Inl (Some req, u)))"

definition http_turn :: "char alloc \<Rightarrow> 'u http_cb \<Rightarrow> bool \<Rightarrow> http_req \<Rightarrow> 'u \<Rightarrow> 'u http_turn" where
  "http_turn alloc cb got req u =
     (case hr_pstate req of
        PS_HEAD \<Rightarrow> if \<not> got then ret (http_error cb req u) else turn_head alloc cb req u
      | PS_CHUNK_SIZE \<Rightarrow>
          do { guard_opt (hr_chunked req);
               if \<not> got then ret (http_error cb req u) else turn_chunk_size cb req u }
      | PS_CHUNK_DATA \<Rightarrow>
          if \<not> got then ret (http_error cb req u)
          else do { guard_opt (hr_length req > 0); turn_chunk_data cb req u }
      | PS_CHUNK_CRLF \<Rightarrow>
          if \<not> got then ret (http_error cb req u)
          else do { guard_opt (hr_length req = 0); turn_chunk_crlf cb req u }
      | PS_ID_DATA \<Rightarrow>
          if \<not> got \<and> hr_length req < 0 then ret (done_req cb u)
          else if \<not> got then ret (http_error cb req u)
          else turn_id_data cb req u)"

text \<open>Every turn that goes on has consumed input, so \<open>n\<close> turns are enough when \<open>n\<close> is more than the buffer holds.\<close>

fun http_parse :: "nat \<Rightarrow> char alloc \<Rightarrow> 'u http_cb \<Rightarrow> bool \<Rightarrow> http_req \<Rightarrow> 'u \<Rightarrow> (http_req option \<times> 'u) option" where
  "http_parse 0 alloc cb got req u = None"
| "http_parse (Suc n) alloc cb got req u =
     (case http_turn alloc cb got req u of
        None \<Rightarrow> None
      | Some (Inl r) \<Rightarrow> Some r
      | Some (Inr (req1, u1)) \<Rightarrow> http_parse n alloc cb got req1 u1)"

section \<open>Reading, writing, starting\<close>

definition http_read :: "char alloc \<Rightarrow> 'u http_cb \<Rightarrow> errno + cstr \<Rightarrow> http_req \<Rightarrow> 'u \<Rightarrow> (http_req option \<times> 'u) option" where
  "http_read alloc cb ans req u =
     (case iobuf_accommodate alloc (hr_rbuf req) 4096 of
        (False, rb) \<Rightarrow> http_error cb (req\<lparr>hr_rbuf := rb\<rparr>) u
      | (True, rb) \<Rightarrow>
          (case ans of
             Inl e \<Rightarrow> if e = EAGAIN then Some (Some (req\<lparr>hr_rbuf := rb\<rparr>), u) else http_error cb (req\<lparr>hr_rbuf := rb\<rparr>) u
           | Inr bs \<Rightarrow>
               let rb1 = rb\<lparr>ib_mem := Some (overwrite (the (ib_mem rb)) (ib_skip rb + ib_off rb) bs),
                            ib_off := ib_off rb + length bs\<rparr>;
                   req1 = req\<lparr>hr_rbuf := rb1, hr_parsing := True\<rparr> in
               (case http_parse (ib_off rb1 + 2) alloc cb (bs \<noteq> []) req1 u of
                  None \<Rightarrow> None
                | Some (None, u1) \<Rightarrow> Some (None, u1)
                | Some (Some req2, u1) \<Rightarrow> Some (Some (req2\<lparr>hr_parsing := False\<rparr>), u1))))"

definition http_write :: "'u http_cb \<Rightarrow> errno + nat \<Rightarrow> http_req \<Rightarrow> 'u \<Rightarrow> (http_req option \<times> 'u) option" where
  "http_write cb ans req u =
     do {
       guard_opt (ib_off (hr_wbuf req) > 0);
       case ans of
         Inl e \<Rightarrow> if e = EAGAIN then Some (Some req, u) else http_error cb req u
       | Inr nw \<Rightarrow> do { wb \<leftarrow> iobuf_consumed (hr_wbuf req) nw; Some (Some (req\<lparr>hr_wbuf := wb\<rparr>), u) } }"

definition http_request_text :: "http_url \<Rightarrow> cstr \<Rightarrow> cstr" where
  "http_request_text url hdrs =
     ''GET '' @ hu_uri url @ '' HTTP/1.1'' @ [CR, LF] @
     ''Host: '' @ hu_host url @ '':'' @ show_nat (unat (hu_port url)) @ [CR, LF] @
     ''Accept-Encoding:'' @ [CR, LF] @
     ''Connection: close'' @ [CR, LF] @ hdrs @ [CR, LF]"

definition http_get :: "bool \<Rightarrow> char alloc \<Rightarrow> cstr \<Rightarrow> cstr \<Rightarrow> http_req option" where
  "http_get mem_ok alloc url hdrs =
     (if \<not> mem_ok then None
      else case http_url_parse mem_ok url of
        None \<Rightarrow> None
      | Some u \<Rightarrow>
          (case iobuf_print alloc NUL (iobuf_init alloc 1024) (http_request_text u hdrs) of
             (False, wb) \<Rightarrow> None
           | (True, wb) \<Rightarrow>
               Some \<lparr>hr_pstate = PS_HEAD, hr_parsing = False, hr_cancel = False, hr_chunked = False, hr_length = 0,
                     hr_url = u, hr_rbuf = iobuf_init alloc 4096, hr_wbuf = wb\<rparr>))"

end
