(* ===== verification/HttpBody.thy ===== *)
theory HttpBody
  imports Http
begin

text \<open>
  A chunked body: whatever pieces the network delivers it in, the parser hands out exactly its bytes,
  then reports the end and frees the request.
\<close>

section \<open>The scanners on well-formed input\<close>

lemma occurs_single: "occurs_at [c] xs j \<longleftrightarrow> j < length xs \<and> xs ! j = c"
proof -
  have "take 1 (drop j xs) = [c] \<longleftrightarrow> xs ! j = c" if "j < length xs"
    using that by (simp add: drop_nth_Cons)
  then show ?thesis by (auto simp: occurs_at_def)
qed

lemma iobuf_data_bound: "iobuf_wf rb \<Longrightarrow> \<not> ib_error rb \<Longrightarrow> ib_off rb = length (iobuf_data rb)"
  by (auto simp: iobuf_wf_def iobuf_data_def)

lemma iobuf_mem_data:
  assumes "iobuf_wf rb" "\<not> ib_error rb"
  shows "\<exists>t. iobuf_mem rb = iobuf_data rb @ t"
  unfolding iobuf_mem_def iobuf_data_def by (metis append_take_drop_id)

lemma find_char:
  assumes "iobuf_wf rb" "\<not> ib_error rb" "length (iobuf_data rb) < 2 ^ 64"
  shows "iobuf_find rb [c] = Some (if c \<in> set (iobuf_data rb)
    then Some (length (takeWhile (\<lambda>x. x \<noteq> c) (iobuf_data rb))) else None)"
proof -
  let ?d = "iobuf_data rb"
  have o: "ib_off rb = length ?d" using iobuf_data_bound assms by blast
  have m: "drop (ib_skip rb) (the (ib_mem rb)) = iobuf_mem rb" by (simp add: iobuf_mem_def)
  from iobuf_mem_data assms obtain t where t: "iobuf_mem rb = ?d @ t" by blast
  have u: "unat (of_nat (length ?d) :: u64) = length ?d"
    using assms(3) by (simp add: unsigned_of_nat take_bit_eq_mod)
  have f: "iobuf_find rb [c] = memfind_from [c] (?d @ t) (length ?d) 0"
    using assms(2) by (simp add: iobuf_find_def memfind_def m o t u)
  from memfind_from_spec [of "length ?d" "[c]" "length ?d" "?d @ t" 0]
  obtain r where r: "memfind_from [c] (?d @ t) (length ?d) 0 = Some r"
    "case r of None \<Rightarrow> \<forall>j. \<not> occurs_at [c] ?d j | Some k \<Rightarrow> occurs_at [c] ?d k \<and> (\<forall>j<k. \<not> occurs_at [c] ?d j)"
    by (auto split: option.splits)
  show ?thesis
  proof (cases r)
    case None
    with r have "c \<notin> set ?d" by (auto simp: occurs_single in_set_conv_nth)
    with f r None show ?thesis by simp
  next
    case (Some k)
    with r(2) have k: "k < length ?d" "?d ! k = c" "\<forall>j<k. ?d ! j \<noteq> c" by (auto simp: occurs_single)
    then have "takeWhile (\<lambda>x. x \<noteq> c) ?d = take k ?d"
      by (intro takeWhile_eq_take_P_nth) auto
    with k(1) have "length (takeWhile (\<lambda>x. x \<noteq> c) ?d) = k" by simp
    with f r Some k show ?thesis by auto
  qed
qed

text \<open>Hexadecimal sizes.\<close>

definition hexdig :: "char \<Rightarrow> nat \<Rightarrow> bool" where
  "hexdig c d \<longleftrightarrow> isxdigit c \<and> lower c = c \<and> c \<noteq> CHR ''x'' \<and> \<not> isspace c \<and> c \<noteq> CHR ''-'' \<and> c \<noteq> CHR ''+'' \<and> c \<noteq> LF \<and>
     map_option unat (hex2i c) = Some d"

lemma hexdig_digit_char: "d < 16 \<Longrightarrow> hexdig (digit_char d) d"
proof -
  assume "d < 16"
  then have "d = 0 \<or> d = 1 \<or> d = 2 \<or> d = 3 \<or> d = 4 \<or> d = 5 \<or> d = 6 \<or> d = 7 \<or> d = 8 \<or>
    d = 9 \<or> d = 10 \<or> d = 11 \<or> d = 12 \<or> d = 13 \<or> d = 14 \<or> d = 15" by arith
  then show ?thesis
    by (elim disjE; simp add: hexdig_def digit_chars isxdigit_def lower_def isspace_def LF_def CR_def hex2i_def Let_def)
qed

lemma show_hex_small: "n < 16 \<Longrightarrow> show_hex n = [digit_char n]"
  by (subst show_base.simps) simp

lemma show_hex_big: "16 \<le> n \<Longrightarrow> show_hex n = show_hex (n div 16) @ [digit_char (n mod 16)]"
  by (subst show_base.simps) simp

lemma show_hex_induct:
  "(\<And>n. n < 16 \<Longrightarrow> P n) \<Longrightarrow> (\<And>n. 16 \<le> n \<Longrightarrow> P (n div 16) \<Longrightarrow> P n) \<Longrightarrow> P (n::nat)"
  by (induction n rule: less_induct) (metis div_less_dividend linorder_not_less one_less_numeral_iff semiring_norm(76) not_numeral_le_zero zero_less_iff_neq_zero)

lemma show_hex_digits: "show_hex n \<noteq> [] \<and> (\<forall>c \<in> set (show_hex n). \<exists>d. hexdig c d)"
proof (induction n rule: show_hex_induct)
  case (1 n)
  then show ?case using hexdig_digit_char by (auto simp: show_hex_small)
next
  case (2 n)
  have "\<exists>d. hexdig (digit_char (n mod 16)) d" using hexdig_digit_char [of "n mod 16"] by auto
  with 2 show ?case by (auto simp: show_hex_big [OF 2(1)])
qed

lemma hex_val_snoc: "hex_val (ds @ [d]) = hex_val ds * 16 + (case hex2i d of Some b \<Rightarrow> unat b | None \<Rightarrow> 0)"
  by (simp add: hex_val_def)

lemma hex_val_show: "hex_val (show_hex n) = n"
proof (induction n rule: show_hex_induct)
  case (1 n)
  then show ?case using hexdig_digit_char [of n] by (auto simp: show_hex_small hex_val_def hexdig_def)
next
  case (2 n)
  then show ?case using hexdig_digit_char [of "n mod 16"]
    by (auto simp: show_hex_big [OF 2(1)] hex_val_snoc hexdig_def)
qed

lemma length_show_hex: "n < 16 ^ Suc k \<Longrightarrow> length (show_hex n) \<le> Suc k"
proof (induction k arbitrary: n)
  case 0
  then show ?case by (simp add: show_hex_small)
next
  case (Suc k)
  show ?case
  proof (cases "n < 16")
    case False
    from Suc.prems have "n div 16 < 16 ^ Suc k" by (simp add: less_mult_imp_div_less)
    from Suc.IH [OF this] False show ?thesis by (simp add: show_hex_big)
  qed (simp add: show_hex_small)
qed

lemma not_hex_CR: "\<not> isxdigit CR"
  by (simp add: isxdigit_def hex2i_def CR_def)

lemma strtol16_show:
  assumes "n < 2 ^ 63"
  shows "strtol16 (show_hex n @ CR # LF # r) = Some (int n, True, False)"
proof -
  obtain c cs where c: "show_hex n = c # cs" using show_hex_digits by (metis list.exhaust)
  with show_hex_digits [of n] obtain d where d: "hexdig c d" by auto
  have all: "\<forall>x \<in> set (show_hex n). isxdigit x" "map lower (show_hex n) = show_hex n"
    using show_hex_digits [of n] by (auto simp: hexdig_def intro!: map_idI)
  have tw: "takeWhile isxdigit (show_hex n @ CR # LF # r) = show_hex n"
    "dropWhile isxdigit (show_hex n @ CR # LF # r) = CR # LF # r"
    using all(1) not_hex_CR by (auto simp: takeWhile_append dropWhile_append)
  have x: "lower CR \<noteq> CHR ''x''" by (simp add: lower_def CR_def)
  have sk: "skip_0x (show_hex n @ CR # LF # r) = show_hex n @ CR # LF # r"
  proof (cases cs)
    case Nil
    with c x show ?thesis by simp
  next
    case (Cons c2 cs2)
    with c show_hex_digits [of n] obtain d2 where "hexdig c2 d2" by auto
    then have "lower c2 \<noteq> CHR ''x''" by (simp add: hexdig_def)
    then show ?thesis using c Cons by (cases "cs2 @ CR # LF # r") auto
  qed
  have sg: "sign_of (dropWhile isspace (show_hex n @ CR # LF # r)) = (1, show_hex n @ CR # LF # r)"
    using c d by (simp add: hexdig_def)
  then show ?thesis
    using assms show_hex_digits [of n]
    by (simp add: strtol16_def sg sk tw all(2) hex_val_show clamp_long_def LONG_MAX_def Let_def not_hex_CR)
qed

section \<open>What is still to come of a body\<close>

definition chunk_enc :: "cstr \<Rightarrow> cstr" where
  "chunk_enc c = show_hex (length c) @ CR # LF # c @ [CR, LF]"

definition chunk_body :: "cstr list \<Rightarrow> cstr" where
  "chunk_body cs = concat (map chunk_enc cs) @ show_hex 0 @ [CR, LF]"

definition chunk_ok :: "cstr \<Rightarrow> bool" where
  "chunk_ok c \<longleftrightarrow> c \<noteq> [] \<and> length c < 2 ^ 63"

fun rest_ok :: "pstate \<Rightarrow> int \<Rightarrow> cstr \<Rightarrow> cstr \<Rightarrow> bool" where
  "rest_ok PS_CHUNK_SIZE l s body \<longleftrightarrow> (\<exists>cs. list_all chunk_ok cs \<and> s = chunk_body cs \<and> body = concat cs)"
| "rest_ok PS_CHUNK_DATA l s body \<longleftrightarrow> (\<exists>c cs. c \<noteq> [] \<and> l = int (length c) \<and> list_all chunk_ok cs \<and>
     s = c @ CR # LF # chunk_body cs \<and> body = c @ concat cs)"
| "rest_ok PS_CHUNK_CRLF l s body \<longleftrightarrow> l = 0 \<and> (\<exists>cs. list_all chunk_ok cs \<and> s = CR # LF # chunk_body cs \<and> body = concat cs)"
| "rest_ok PS_HEAD l s body = False"
| "rest_ok PS_ID_DATA l s body = False"

text \<open>The bytes in the buffer and those the network will deliver, \<open>fut\<close>, are such a rest.\<close>

definition chunk_inv :: "http_req \<Rightarrow> cstr \<Rightarrow> cstr \<Rightarrow> bool" where
  "chunk_inv req fut body \<longleftrightarrow> iobuf_wf (hr_rbuf req) \<and> \<not> ib_error (hr_rbuf req) \<and> hr_chunked req \<and>
     length (iobuf_data (hr_rbuf req) @ fut) < 2 ^ 64 \<and>
     rest_ok (hr_pstate req) (hr_length req) (iobuf_data (hr_rbuf req) @ fut) body"

definition log_cb :: "http_response list http_cb" where
  "log_cb r u = Some (False, u @ [r])"

definition served :: "http_response list \<Rightarrow> cstr \<Rightarrow> cstr \<Rightarrow> http_req option \<times> http_response list \<Rightarrow> bool" where
  "served u fut body r \<longleftrightarrow> (case r of
     (Some req, u') \<Rightarrow> fut \<noteq> [] \<and> (\<exists>ds body'. u' = u @ map HTTP_T_DATA ds \<and> body = concat ds @ body' \<and> chunk_inv req fut body')
   | (None, u') \<Rightarrow> fut = [] \<and> (\<exists>ds. u' = u @ map HTTP_T_DATA ds @ [HTTP_T_DONE] \<and> body = concat ds))"

lemma chunk_body_simps:
  "chunk_body [] = ''0'' @ [CR, LF]"
  "chunk_body (c # cs) = show_hex (length c) @ CR # LF # c @ CR # LF # chunk_body cs"
  by (simp_all add: chunk_body_def chunk_enc_def show_hex_small digit_chars)

lemma split_line:
  assumes "d @ fut = h @ LF # r" "LF \<notin> set h"
  shows "(\<exists>d2. d = h @ LF # d2 \<and> d2 @ fut = r) \<or> LF \<notin> set d \<and> length d \<le> length h \<and> fut \<noteq> []"
proof -
  from assms(1) consider us where "h = d @ us" "us @ LF # r = fut" | us where "d = h @ us" "us @ fut = LF # r"
    by (auto simp: append_eq_append_conv2)
  then show ?thesis
  proof cases
    case 2
    with assms(2) show ?thesis by (cases us) auto
  qed (use assms(2) in auto)
qed

lemma no_LF_hex: "LF \<notin> set (show_hex n)"
  using show_hex_digits [of n] by (auto simp: hexdig_def)

lemma take_line: "LF \<notin> set h \<Longrightarrow> takeWhile (\<lambda>x. x \<noteq> LF) (h @ LF # d) = h"
  by (induction h) auto

lemma consume_ok:
  assumes "iobuf_wf (hr_rbuf req)" "\<not> ib_error (hr_rbuf req)" "n \<le> length (iobuf_data (hr_rbuf req))"
  obtains rb where "consume n req = Some (req\<lparr>hr_rbuf := rb\<rparr>)" "iobuf_wf rb" "\<not> ib_error rb"
    "iobuf_data rb = drop n (iobuf_data (hr_rbuf req))"
proof -
  from iobuf_consumed_spec [OF assms(1,2)] assms(3)
  obtain rb where rb: "iobuf_consumed (hr_rbuf req) n = Some rb" by blast
  with iobuf_consumed_wf [OF assms(1) rb] assms(2) that show ?thesis by (simp add: consume_def)
qed

definition turn_ok :: "http_response list \<Rightarrow> cstr \<Rightarrow> cstr \<Rightarrow> http_req \<Rightarrow> http_response list http_turn \<Rightarrow> bool" where
  "turn_ok u fut body req t \<longleftrightarrow> (case t of
     None \<Rightarrow> False
   | Some (Inl r) \<Rightarrow> served u fut body r
   | Some (Inr (req', u')) \<Rightarrow> \<exists>ds body'. u' = u @ map HTTP_T_DATA ds \<and> body = concat ds @ body' \<and> chunk_inv req' fut body' \<and>
       length (iobuf_data (hr_rbuf req')) < length (iobuf_data (hr_rbuf req)))"

lemma turn_wait:
  assumes "chunk_inv req fut body" "fut \<noteq> []"
  shows "turn_ok u fut body req (Some (Inl (Some req, u)))"
  using assms by (auto simp: turn_ok_def served_def intro!: exI [of _ "[]"])

lemma turn_back:
  assumes "chunk_inv req' fut body'" "body = concat ds @ body'" "fut \<noteq> []"
  shows "turn_ok u fut body req (Some (Inl (Some req', u @ map HTTP_T_DATA ds)))"
  using assms by (auto simp: turn_ok_def served_def)

lemma turn_on:
  assumes "chunk_inv req' fut body'" "body = concat ds @ body'"
    "length (iobuf_data (hr_rbuf req')) < length (iobuf_data (hr_rbuf req))"
  shows "turn_ok u fut body req (Some (Inr (req', u @ map HTTP_T_DATA ds)))"
  using assms by (auto simp: turn_ok_def)

lemma turn_size:
  assumes i: "chunk_inv req fut body" and ps: "hr_pstate req = PS_CHUNK_SIZE"
  shows "turn_ok u fut body req (turn_chunk_size log_cb req u)"
proof -
  let ?rb = "hr_rbuf req" and ?d = "iobuf_data (hr_rbuf req)"
  from i have wf: "iobuf_wf ?rb" "\<not> ib_error ?rb" "length ?d < 2 ^ 64" by (simp_all add: chunk_inv_def)
  from i ps obtain cs where cs: "list_all chunk_ok cs" "?d @ fut = chunk_body cs" "body = concat cs"
    by (auto simp: chunk_inv_def)
  define n where "n = (case cs of [] \<Rightarrow> 0 | c # _ \<Rightarrow> length c)"
  obtain r where r: "?d @ fut = (show_hex n @ [CR]) @ LF # r"
    "r = (case cs of [] \<Rightarrow> [] | c # cs' \<Rightarrow> c @ CR # LF # chunk_body cs')"
    using cs(2) by (cases cs) (auto simp: n_def chunk_body_simps show_hex_small digit_chars)
  have n: "n < 2 ^ 63" using cs(1) by (cases cs) (auto simp: n_def chunk_ok_def)
  have no: "LF \<notin> set (show_hex n @ [CR])" using no_LF_hex by (auto simp: LF_def CR_def)
  from split_line [OF r(1) no] consider d2 where "?d = (show_hex n @ [CR]) @ LF # d2" "d2 @ fut = r"
    | "LF \<notin> set ?d" "length ?d \<le> length (show_hex n @ [CR])" "fut \<noteq> []" by blast
  then show ?thesis
  proof cases
    case 1
    from iobuf_mem_data [OF wf(1,2)] obtain t where t: "iobuf_mem ?rb = ?d @ t" by blast
    have f: "iobuf_find ?rb [LF] = Some (Some (length (show_hex n) + 1))"
      using find_char [OF wf, of LF] take_line [OF no] 1(1) by simp
    have s: "strtol16 (iobuf_mem ?rb) = Some (int n, True, False)"
      using strtol16_show [OF n] 1(1) t by simp
    show ?thesis
    proof (cases "n = 0")
      case True
      with cs(1) have "cs = []" by (cases cs) (auto simp: n_def chunk_ok_def)
      with 1 r(2) have "fut = []" "body = []" using cs(3) by auto
      with True f s show ?thesis
        by (auto simp: turn_chunk_size_def done_req_def log_cb_def ret_def turn_ok_def served_def)
    next
      case False
      then obtain c cs' where c: "cs = c # cs'" by (cases cs) (auto simp: n_def)
      have len: "length (show_hex n) + 2 \<le> length ?d" using 1(1) by simp
      let ?r1 = "req\<lparr>hr_length := int n\<rparr>"
      from consume_ok [of ?r1 "length (show_hex n) + 2"] wf len obtain rb where
        rb: "consume (length (show_hex n) + 2) ?r1 = Some (?r1\<lparr>hr_rbuf := rb\<rparr>)" "iobuf_wf rb" "\<not> ib_error rb"
          "iobuf_data rb = drop (length (show_hex n) + 2) ?d" by auto
      have d: "iobuf_data rb = d2" using rb(4) 1(1) by simp
      have "turn_chunk_size log_cb req u = Some (Inr (?r1\<lparr>hr_rbuf := rb, hr_pstate := PS_CHUNK_DATA\<rparr>, u @ map HTTP_T_DATA []))"
        using f s False rb(1) by (simp add: turn_chunk_size_def)
      moreover have "chunk_inv (?r1\<lparr>hr_rbuf := rb, hr_pstate := PS_CHUNK_DATA\<rparr>) fut body"
        using i rb 1 r(2) c cs(1,3) d by (auto simp: chunk_inv_def chunk_ok_def n_def)
      ultimately show ?thesis
        using turn_on [of _ fut body body "[]" req u] d 1(1) by simp
    qed
  next
    case 2
    have l: "length (show_hex n) \<le> 16" using length_show_hex [of n 15] n by simp
    have "turn_chunk_size log_cb req u = Some (Inl (Some req, u))"
      using find_char [OF wf, of LF] 2 l iobuf_data_bound [OF wf(1,2)] by (simp add: turn_chunk_size_def)
    with turn_wait [OF i 2(3)] show ?thesis by simp
  qed
qed

lemma turn_data:
  assumes i: "chunk_inv req fut body" and ps: "hr_pstate req = PS_CHUNK_DATA"
  shows "hr_length req > 0 \<and> turn_ok u fut body req (turn_chunk_data log_cb req u)"
proof -
  let ?rb = "hr_rbuf req" and ?d = "iobuf_data (hr_rbuf req)"
  from i have wf: "iobuf_wf ?rb" "\<not> ib_error ?rb" by (simp_all add: chunk_inv_def)
  from i ps obtain c cs where c: "c \<noteq> []" "hr_length req = int (length c)" "list_all chunk_ok cs"
    "?d @ fut = c @ CR # LF # chunk_body cs" "body = c @ concat cs"
    by (auto simp: chunk_inv_def)
  define k where "k = min (length ?d) (length c)"
  have dl: "data_len req = k" using c(2) iobuf_data_bound [OF wf] by (simp add: data_len_def k_def)
  from iobuf_mem_data [OF wf] obtain t where t: "iobuf_mem ?rb = ?d @ t" by blast
  have mem: "take k (iobuf_mem ?rb) = take k ?d" by (simp add: t k_def)
  have tk: "take k ?d = take k c"
  proof -
    have "take k (?d @ fut) = take k (c @ CR # LF # chunk_body cs)" using c(4) by simp
    then show ?thesis by (simp add: k_def)
  qed
  show ?thesis
  proof (cases "k = 0")
    case True
    with c(1) have "?d = []" by (auto simp: k_def min_def split: if_split_asm)
    with c have "fut \<noteq> []" by auto
    with turn_wait [OF i] True dl c show ?thesis by (simp add: turn_chunk_data_def)
  next
    case False
    have "k \<le> length ?d" by (simp add: k_def)
    from consume_ok [OF wf this] obtain rb where
      rb: "consume k req = Some (req\<lparr>hr_rbuf := rb\<rparr>)" "iobuf_wf rb" "\<not> ib_error rb" "iobuf_data rb = drop k ?d" by blast
    have dr: "drop k ?d @ fut = drop k c @ CR # LF # chunk_body cs"
    proof -
      have "drop k (?d @ fut) = drop k (c @ CR # LF # chunk_body cs)" using c(4) by simp
      then show ?thesis by (simp add: k_def)
    qed
    have ln: "length (drop k ?d) + length fut < 2 ^ 64" using i by (auto simp: chunk_inv_def)
    let ?r1 = "req\<lparr>hr_rbuf := rb, hr_length := int (length c) - int k\<rparr>"
    show ?thesis
    proof (cases "k = length c")
      case True
      have lb: "length (chunk_body cs) + 2 < 2 ^ 64"
        using ln arg_cong [OF dr, of length] True by simp
      have "turn_chunk_data log_cb req u = Some (Inr (?r1\<lparr>hr_pstate := PS_CHUNK_CRLF\<rparr>, u @ map HTTP_T_DATA [take k c]))"
        using dl False rb(1) mem tk c(2) True by (simp add: turn_chunk_data_def log_cb_def Let_def)
      moreover have "chunk_inv (?r1\<lparr>hr_pstate := PS_CHUNK_CRLF\<rparr>) fut (concat cs)"
        using i rb dr True c(3) lb by (auto simp: chunk_inv_def)
      moreover have "length (drop k ?d) < length ?d" using False by (simp add: k_def)
      ultimately show ?thesis
        using turn_on [of "?r1\<lparr>hr_pstate := PS_CHUNK_CRLF\<rparr>" fut "concat cs" body "[take k c]" req u] c True rb(4) by simp
    next
      case False2: False
      then have l: "length ?d < length c" "k = length ?d" by (auto simp: k_def)
      have "turn_chunk_data log_cb req u = Some (Inl (Some ?r1, u @ map HTTP_T_DATA [take k c]))"
        using dl False rb(1) mem tk c(2) False2 by (simp add: turn_chunk_data_def log_cb_def Let_def)
      moreover have "chunk_inv ?r1 fut (drop k c @ concat cs)"
        using i rb dr ps c(3) l by (auto simp: chunk_inv_def intro!: exI [of _ "drop k c"])
      moreover have "fut \<noteq> []" using dr l by auto
      moreover have "body = concat [take k c] @ drop k c @ concat cs" using c(5) by simp
      ultimately show ?thesis using turn_back [of ?r1 fut "drop k c @ concat cs" body "[take k c]" u req] c by simp
    qed
  qed
qed

lemma turn_crlf:
  assumes i: "chunk_inv req fut body" and ps: "hr_pstate req = PS_CHUNK_CRLF"
  shows "hr_length req = 0 \<and> turn_ok u fut body req (turn_chunk_crlf log_cb req u)"
proof -
  let ?rb = "hr_rbuf req" and ?d = "iobuf_data (hr_rbuf req)"
  from i have wf: "iobuf_wf ?rb" "\<not> ib_error ?rb" by (simp_all add: chunk_inv_def)
  from i ps obtain cs where c: "hr_length req = 0" "list_all chunk_ok cs"
    "?d @ fut = CR # LF # chunk_body cs" "body = concat cs"
    by (auto simp: chunk_inv_def)
  note off = iobuf_data_bound [OF wf]
  show ?thesis
  proof (cases "length ?d < 2")
    case True
    then have "fut \<noteq> []" using c(3) by (auto simp: append_eq_Cons_conv)
    with turn_wait [OF i] True off c show ?thesis by (simp add: turn_chunk_crlf_def)
  next
    case False
    with c(3) obtain d2 where d: "?d = CR # LF # d2" "d2 @ fut = chunk_body cs"
      by (cases ?d; cases "tl ?d") auto
    from iobuf_mem_data [OF wf] obtain t where t: "iobuf_mem ?rb = ?d @ t" by blast
    from consume_ok [OF wf, of 2] False obtain rb where
      rb: "consume 2 req = Some (req\<lparr>hr_rbuf := rb\<rparr>)" "iobuf_wf rb" "\<not> ib_error rb" "iobuf_data rb = drop 2 ?d" by auto
    have "turn_chunk_crlf log_cb req u = Some (Inr (req\<lparr>hr_rbuf := rb, hr_pstate := PS_CHUNK_SIZE\<rparr>, u @ map HTTP_T_DATA []))"
      using False off d(1) t rb(1) by (simp add: turn_chunk_crlf_def Let_def)
    moreover have "chunk_inv (req\<lparr>hr_rbuf := rb, hr_pstate := PS_CHUNK_SIZE\<rparr>) fut body"
      using i rb d c(2,4) by (auto simp: chunk_inv_def)
    ultimately show ?thesis
      using turn_on [of "req\<lparr>hr_rbuf := rb, hr_pstate := PS_CHUNK_SIZE\<rparr>" fut body body "[]" req u] c rb(4) d(1) by simp
  qed
qed

lemma turn_ok_chunk:
  assumes "chunk_inv req fut body"
  shows "turn_ok u fut body req (http_turn alloc log_cb True req u)"
proof (cases "hr_pstate req")
  case PS_CHUNK_SIZE
  with turn_size [OF assms] assms show ?thesis by (simp add: http_turn_def chunk_inv_def)
next
  case PS_CHUNK_DATA
  with turn_data [OF assms, of u] show ?thesis by (simp add: http_turn_def)
next
  case PS_CHUNK_CRLF
  with turn_crlf [OF assms, of u] show ?thesis by (simp add: http_turn_def)
qed (use assms in \<open>simp_all add: chunk_inv_def\<close>)

lemma served_later:
  assumes "served (u @ map HTTP_T_DATA ds) fut body' r" "body = concat ds @ body'"
  shows "served u fut body r"
proof -
  have "\<exists>es. u @ map HTTP_T_DATA ds @ map HTTP_T_DATA ds' @ tl' = u @ map HTTP_T_DATA es @ tl' \<and> concat es = concat ds @ concat ds'"
    for ds' tl' by (rule exI [of _ "ds @ ds'"]) simp
  then show ?thesis using assms unfolding served_def
    by (auto split: option.splits) (metis append.assoc append.right_neutral concat_append map_append)+
qed

lemma http_parse_chunks:
  assumes "chunk_inv req fut body" "length (iobuf_data (hr_rbuf req)) < n"
  shows "\<exists>r. http_parse n alloc log_cb True req u = Some r \<and> served u fut body r"
  using assms
proof (induction n arbitrary: req body u)
  case (Suc n)
  note t = turn_ok_chunk [OF Suc.prems(1), of u alloc]
  show ?case
  proof (cases "http_turn alloc log_cb True req u")
    case None
    with t show ?thesis by (simp add: turn_ok_def)
  next
    case (Some s)
    show ?thesis
    proof (cases s)
      case (Inl r)
      with t Some show ?thesis by (simp add: turn_ok_def)
    next
      case (Inr x)
      obtain req' u' where x: "x = (req', u')" by force
      from t Some Inr x obtain ds body' where d: "u' = u @ map HTTP_T_DATA ds" "body = concat ds @ body'"
        "chunk_inv req' fut body'" "length (iobuf_data (hr_rbuf req')) < length (iobuf_data (hr_rbuf req))"
        by (auto simp: turn_ok_def)
      from Suc.IH [OF d(3), of u'] d(4) Suc.prems(2) obtain r where
        r: "http_parse n alloc log_cb True req' u' = Some r" "served u' fut body' r" by auto
      from r(2) d(1,2) have "served u fut body r" using served_later by blast
      with r(1) Some Inr x show ?thesis by simp
    qed
  qed
qed simp

section \<open>Reading\<close>

definition alloc_total :: "'a alloc \<Rightarrow> bool" where
  "alloc_total alloc \<longleftrightarrow> alloc_ok alloc \<and> (\<forall>n. alloc n \<noteq> None)"

lemma accommodate_total:
  assumes "alloc_total alloc" "iobuf_wf rb" "\<not> ib_error rb"
  obtains rb' where "iobuf_accommodate alloc rb n = (True, rb')" "iobuf_wf rb'" "\<not> ib_error rb'"
    "iobuf_data rb' = iobuf_data rb" "ib_skip rb' + ib_off rb' + n \<le> ib_size rb'"
proof -
  obtain ok rb' where r: "iobuf_accommodate alloc rb n = (ok, rb')" by force
  obtain m where "alloc (ib_size rb + n) = Some m" using assms(1) by (auto simp: alloc_total_def)
  with assms(3) r have "ok"
    by (auto simp: iobuf_accommodate_def Let_def split: if_split_asm)
  with r iobuf_accommodate_spec [OF assms(2) _ r] assms(1) that show ?thesis by (auto simp: alloc_total_def)
qed

lemma http_read_chunks:
  assumes "alloc_total alloc" "chunk_inv req (bs @ fut) body" "bs \<noteq> []" "length bs \<le> 4096"
  shows "\<exists>r. http_read alloc log_cb (Inr bs) req u = Some r \<and> served u fut body r"
proof -
  from assms(2) have wf: "iobuf_wf (hr_rbuf req)" "\<not> ib_error (hr_rbuf req)" by (simp_all add: chunk_inv_def)
  from accommodate_total [OF assms(1) wf, of 4096] obtain rb where
    rb: "iobuf_accommodate alloc (hr_rbuf req) 4096 = (True, rb)" "iobuf_wf rb" "\<not> ib_error rb"
      "iobuf_data rb = iobuf_data (hr_rbuf req)" "ib_skip rb + ib_off rb + 4096 \<le> ib_size rb" by blast
  let ?rb1 = "rb\<lparr>ib_mem := Some (overwrite (the (ib_mem rb)) (ib_skip rb + ib_off rb) bs), ib_off := ib_off rb + length bs\<rparr>"
  let ?r1 = "req\<lparr>hr_rbuf := ?rb1, hr_parsing := True\<rparr>"
  have s: "iobuf_wf ?rb1" "\<not> ib_error ?rb1" "iobuf_data ?rb1 = iobuf_data rb @ bs"
    using iobuf_store [of rb bs "[]"] rb assms(4) by simp_all
  have i: "chunk_inv ?r1 fut body" using assms(2) s rb(4) by (auto simp: chunk_inv_def)
  have "length (iobuf_data (hr_rbuf ?r1)) < ib_off ?rb1 + 2" using iobuf_data_bound [OF s(1,2)] by simp
  from http_parse_chunks [OF i this, of alloc u] obtain r where
    r: "http_parse (ib_off ?rb1 + 2) alloc log_cb True ?r1 u = Some r" "served u fut body r" by blast
  obtain ro u' where ru: "r = (ro, u')" by force
  show ?thesis
  proof (cases ro)
    case None
    with r ru rb(1) assms(3) show ?thesis by (simp add: http_read_def Let_def del: http_parse.simps)
  next
    case (Some req2)
    have p: "chunk_inv (req2\<lparr>hr_parsing := False\<rparr>) fut b = chunk_inv req2 fut b" for b by (simp add: chunk_inv_def)
    have "served u fut body (Some (req2\<lparr>hr_parsing := False\<rparr>), u')"
      using r(2) Some ru by (simp add: served_def p)
    with r(1) ru Some rb(1) assms(3) show ?thesis by (simp add: http_read_def Let_def del: http_parse.simps)
  qed
qed

text \<open>The reads of a connection, one after the other; there is none on a freed request.\<close>

fun http_reads :: "char alloc \<Rightarrow> 'u http_cb \<Rightarrow> cstr list \<Rightarrow> http_req \<Rightarrow> 'u \<Rightarrow> (http_req option \<times> 'u) option" where
  "http_reads alloc cb [] req u = Some (Some req, u)"
| "http_reads alloc cb (s # ss) req u =
     (case http_read alloc cb (Inr s) req u of
        Some (Some req1, u1) \<Rightarrow> http_reads alloc cb ss req1 u1
      | Some (None, u1) \<Rightarrow> if ss = [] then Some (None, u1) else None
      | None \<Rightarrow> None)"

text \<open>C16. A chunked body is delivered exactly: if what the buffer holds and what the network will deliver is a sequence of
  chunks and the last chunk, then however the network cuts it into reads, every read succeeds, the data handed to
  the owner of the request is the concatenation of the chunks, the end is reported once after it, with the
  last read, and the request is freed.\<close>

theorem http_chunks_delivered:
  assumes "alloc_total alloc" "iobuf_wf (hr_rbuf req)" "\<not> ib_error (hr_rbuf req)"
    "hr_pstate req = PS_CHUNK_SIZE" "hr_chunked req"
    "iobuf_data (hr_rbuf req) @ concat segs = chunk_body cs" "list_all chunk_ok cs"
    "list_all (\<lambda>s. s \<noteq> [] \<and> length s \<le> 4096) segs" "segs \<noteq> []" "length (chunk_body cs) < 2 ^ 64"
  shows "\<exists>ds. http_reads alloc log_cb segs req u = Some (None, u @ map HTTP_T_DATA ds @ [HTTP_T_DONE]) \<and>
    concat ds = concat cs"
proof -
  have "chunk_inv req (concat segs) (concat cs)"
    using assms(2-7,10) by (auto simp: chunk_inv_def)
  with assms(8,9) show ?thesis
  proof (induction segs arbitrary: req u cs)
    case (Cons s ss)
    from http_read_chunks [OF assms(1), of req s "concat ss" "concat cs" u] Cons.prems obtain r where
      r: "http_read alloc log_cb (Inr s) req u = Some r" "served u (concat ss) (concat cs) r" by auto
    obtain ro u' where ru: "r = (ro, u')" by force
    show ?case
    proof (cases ro)
      case None
      with r ru Cons.prems(1) have "ss = []" "\<exists>ds. u' = u @ map HTTP_T_DATA ds @ [HTTP_T_DONE] \<and> concat cs = concat ds"
        by (auto simp: served_def list_all_iff)
      with r(1) ru None show ?thesis by auto
    next
      case (Some req1)
      with r(2) ru obtain ds body where d: "concat ss \<noteq> []" "u' = u @ map HTTP_T_DATA ds" "concat cs = concat ds @ body"
        "chunk_inv req1 (concat ss) body" by (auto simp: served_def)
      then have ne: "ss \<noteq> []" by auto
      have "concat [body] = body" by simp
      with Cons.IH [OF _ ne, of req1 "[body]" u'] Cons.prems(1) d(4) obtain es where
        e: "http_reads alloc log_cb ss req1 u' = Some (None, u' @ map HTTP_T_DATA es @ [HTTP_T_DONE])" "concat es = body"
        by auto
      show ?thesis using r(1) ru Some e d(2,3) by (intro exI [of _ "ds @ es"]) simp
    qed
  qed simp
qed

definition sample_http :: http_req where
  "sample_http = \<lparr>hr_pstate = PS_CHUNK_SIZE, hr_parsing = False, hr_cancel = False, hr_chunked = True, hr_length = -1,
     hr_url = \<lparr>hu_host = ''h'', hu_uri = ''/'', hu_port = 80\<rparr>,
     hr_rbuf = iobuf_init (\<lambda>n. Some (replicate n CHR ''x'')) 4096, hr_wbuf = iobuf_init (\<lambda>n. Some (replicate n CHR ''x'')) 16\<rparr>"

theorem http_chunks_delivered_witness:
  "\<exists>ds. http_reads (\<lambda>n. Some (replicate n CHR ''x'')) log_cb [''3'', [CR, LF, CHR ''a'', CHR ''b''], CHR ''c'' # [CR, LF, CHR ''0'', CR], [LF]] sample_http [] =
     Some (None, [] @ map HTTP_T_DATA ds @ [HTTP_T_DONE]) \<and> concat ds = concat [''abc'']"
proof (rule http_chunks_delivered)
  let ?al = "\<lambda>n. Some (replicate n CHR ''x'')"
  show al: "alloc_total ?al" by (simp add: alloc_total_def alloc_ok_def)
  then show "iobuf_wf (hr_rbuf sample_http)"
    by (simp add: sample_http_def iobuf_wf_init alloc_total_def)
  show "iobuf_data (hr_rbuf sample_http) @ concat [''3'', [CR, LF, CHR ''a'', CHR ''b''], CHR ''c'' # [CR, LF, CHR ''0'', CR], [LF]] =
      chunk_body [''abc'']"
    by (simp add: sample_http_def chunk_body_simps show_hex_small digit_chars flip: numeral_3_eq_3)
  show "length (chunk_body [''abc'']) < 2 ^ 64"
    by (simp add: chunk_body_simps show_hex_small)
qed (simp_all add: sample_http_def iobuf_init_def chunk_ok_def)

section \<open>What the parser gets wrong\<close>

text \<open>A response without a body (\<^verbatim>\<open>Content-Length: 0\<close>) is reported as an error when the server closes the connection.\<close>

lemma empty_body_is_error:
  assumes "hr_pstate req = PS_ID_DATA" "hr_length req = 0"
  shows "http_turn alloc log_cb True req u = Some (Inl (Some req, u)) \<and>
    http_turn alloc log_cb False req u = Some (Inl (None, u @ [HTTP_T_ERR]))"
  using assms by (simp add: http_turn_def turn_id_data_def data_len_def http_error_def log_cb_def ret_def)

text \<open>A NUL in the status line makes the parser dereference a pointer made from NULL.\<close>

lemma nul_in_status_line_crashes:
  "headers_parse (''HTTP/1.1 200'' @ [NUL, LF, LF, NUL]) 13 log_cb req u = None"
proof -
  have s: "scan_status ''HTTP/1.1 200'' = Some 200" by code_simp
  have t: "takeWhile (\<lambda>c. c \<noteq> NUL) (''HTTP/1.1 200'' @ [NUL, LF, LF, NUL]) = ''HTTP/1.1 200''"
    by (simp add: NUL_def)
  have "strchr_mem (''HTTP/1.1 200'' @ [NUL, LF, LF, NUL]) 0 LF = Some None"
    by (simp add: strchr_mem_def scan_def NUL_def LF_def)
  with s show ?thesis unfolding headers_parse_def t by (simp add: log_cb_def)
qed

text \<open>
  When the blank line is found in a buffer that is full to the last byte, room for the terminating NUL is made by
  reallocation, and the loop over the headers compares with a pointer into the old block.
\<close>

lemma full_buffer_end_dangles:
  assumes "iobuf_wf (hr_rbuf req)" "\<not> ib_error (hr_rbuf req)" "ib_skip (hr_rbuf req) = 0"
    "ib_off (hr_rbuf req) = ib_size (hr_rbuf req)" "alloc_total alloc"
  shows "head_ready alloc cb en dlen req u = None"
proof -
  have "ib_size (snd (iobuf_write alloc (hr_rbuf req) [NUL])) = ib_size (hr_rbuf req) + 1 \<and>
      fst (iobuf_write alloc (hr_rbuf req) [NUL])"
    using assms by (auto simp: iobuf_write_def iobuf_accommodate_def alloc_total_def Let_def split: option.split)
  then show ?thesis by (auto simp: head_ready_def split: prod.split bool.split)
qed

end
