(* ===== verification/HttpReq.thy ===== *)
theory HttpReq
  imports Net Http
begin

text \<open>
  The requests to trackers: the first half of \<^verbatim>\<open>btpd/http_tr_if.c\<close>, and the state that \<^verbatim>\<open>tracker_req.c\<close> and
  \<^verbatim>\<open>http_tr_if.c\<close> share. Tiers, their entries and the requests are known by numbers; \<open>None\<close> in
  a store is a freed object. A timeout is a field of its owner and holds the delay in seconds it was last started
  with while it is pending; the theories Timeheap and Timer show that the timeouts of the program fire once
  when they are due.
\<close>

section \<open>The state\<close>

datatype tr_event = TR_EV_STARTED | TR_EV_STOPPED | TR_EV_COMPLETED | TR_EV_EMPTY

datatype tr_res_type = TR_RES_FAIL | TR_RES_CONN | TR_RES_BAD | TR_RES_OK

record tr_response =
  res_type :: tr_res_type
  res_failure :: cstr
  res_interval :: int

record tr_entry =
  tre_failure :: "cstr option"
  tre_url :: cstr

text \<open>\<open>tt_trackers\<close> is the queue of the entries of a tier, \<open>tt_entry\<close> holds them.\<close>

record tr_tier =
  tt_tp :: tid
  tt_cur :: "nat option"
  tt_trackers :: "nat list"
  tt_entry :: "nat \<Rightarrow> tr_entry option"
  tt_timer :: "int option"
  tt_req :: "nat option"
  tt_interval :: int
  tt_bad_conns :: int
  tt_active :: bool
  tt_has_responded :: bool
  tt_event :: tr_event

text \<open>\<open>hq_sd\<close>: the connection is there (\<^verbatim>\<open>sd != -1\<close>); before that a name lookup or a connect is under way.\<close>

record httptr_req =
  hq_tp :: tid
  hq_tr :: nat
  hq_req :: http_req
  hq_buf :: "char iobuf"
  hq_ev :: "ev set"
  hq_timer :: "int option"
  hq_sd :: bool
  hq_event :: tr_event

text \<open>
  The version (of the build), the options and what the environment answers. \<open>ts_tlast\<close> and \<open>ts_tnext\<close> are \<^verbatim>\<open>m_tlast_req\<close> and \<^verbatim>\<open>m_tnext_req\<close>,
  \<open>ts_trackers t\<close> is \<^verbatim>\<open>tp->tr\<close>, the tiers of a torrent.
\<close>

record tr_env =
  tv_alloc :: "char alloc"
  tv_mem :: bool
  tv_version :: cstr
  tv_key :: int
  tv_ip :: "cstr option"
  tv_port :: int
  tv_numwant :: nat
  tv_ipv4 :: bool
  tv_ipv6 :: bool
  tv_connect_name :: "cstr \<Rightarrow> int \<Rightarrow> errno option"
  tv_connect_addr :: "cstr \<Rightarrow> errno option"

record tr_state =
  ts_w :: world
  ts_env :: tr_env
  ts_tlast :: int
  ts_tnext :: int
  ts_tier :: "nat \<Rightarrow> tr_tier option"
  ts_treq :: "nat \<Rightarrow> httptr_req option"
  ts_fresh :: nat
  ts_trackers :: "tid \<Rightarrow> nat list option"

definition upd_tier :: "nat \<Rightarrow> (tr_tier \<Rightarrow> tr_tier) \<Rightarrow> tr_state \<Rightarrow> tr_state" where
  "upd_tier k f s = s\<lparr>ts_tier := (ts_tier s)(k := map_option f (ts_tier s k))\<rparr>"

definition upd_treq :: "nat \<Rightarrow> (httptr_req \<Rightarrow> httptr_req) \<Rightarrow> tr_state \<Rightarrow> tr_state" where
  "upd_treq q f s = s\<lparr>ts_treq := (ts_treq s)(q := map_option f (ts_treq s q))\<rparr>"

definition now :: "tr_state \<Rightarrow> int" where
  "now s = w_seconds (ts_w s)"

section \<open>The request\<close>

definition tr_event_name :: "tr_event \<Rightarrow> cstr" where
  "tr_event_name e = (case e of TR_EV_STARTED \<Rightarrow> ''started'' | TR_EV_STOPPED \<Rightarrow> ''stopped''
     | TR_EV_COMPLETED \<Rightarrow> ''completed'' | TR_EV_EMPTY \<Rightarrow> '''')"

text \<open>Every byte of an identifier as \<^verbatim>\<open>%xx\<close>.\<close>

definition url_bytes :: "byte list \<Rightarrow> cstr" where
  "url_bytes bs = concat (map (\<lambda>b. CHR ''%'' # bin2hex [b] 1) bs)"

definition tr_query :: "tr_env \<Rightarrow> world \<Rightarrow> torrent \<Rightarrow> net \<Rightarrow> cstr \<Rightarrow> tr_event \<Rightarrow> cstr" where
  "tr_query v w tp n aurl ev =
     aurl @ (if strchr aurl 0 CHR ''?'' = None then ''?'' else ''&'') @
     ''info_hash='' @ url_bytes (tp_hash tp) @ ''&peer_id='' @ url_bytes (w_peer_id w) @
     ''&key='' @ show_int (tv_key v) @
     (case tv_ip v of None \<Rightarrow> '''' | Some ip \<Rightarrow> ''&ip='' @ ip) @
     ''&port='' @ show_int (tv_port v) @
     ''&uploaded='' @ show_nat (n_uploaded n) @ ''&downloaded='' @ show_nat (n_downloaded n) @
     ''&left='' @ show_nat (unat (word_of_int (int (tp_total_length tp) - cm_content tp) :: u64)) @
     ''&compact=1&numwant='' @ show_nat (tv_numwant v) @
     (if ev = TR_EV_EMPTY then '''' else ''&event='') @ tr_event_name ev"

text \<open>
  \<^verbatim>\<open>httptr_req\<close>: \<open>None\<close> as the handle when the request cannot be made. The address is cut off at 511 characters.
\<close>

definition httptr_req :: "tid \<Rightarrow> nat \<Rightarrow> cstr \<Rightarrow> tr_event \<Rightarrow> tr_state \<Rightarrow> (nat option \<times> tr_state) option" where
  "httptr_req t k aurl ev s =
     do {
       tp \<leftarrow> cw_tor (ts_w s) t;
       n \<leftarrow> w_net (ts_w s) t;
       let v = ts_env s;
       case http_get (tv_mem v) (tv_alloc v) (take 511 (tr_query v (ts_w s) tp n aurl ev)) (''User-Agent: '' @ tv_version v @ [CR, LF]) of
         None \<Rightarrow> Some (None, s)
       | Some req \<Rightarrow>
           let q = ts_fresh s;
               treq = \<lparr>hq_tp = t, hq_tr = k, hq_req = req, hq_buf = iobuf_init (tv_alloc v) 4096, hq_ev = {},
                       hq_timer = Some 60, hq_sd = False, hq_event = ev\<rparr> in
           do {
             guard_opt (\<not> ib_error (hq_buf treq));
             Some (Some q, s\<lparr>ts_treq := (ts_treq s)(q \<mapsto> treq), ts_fresh := q + 1\<rparr>) } }"

text \<open>\<^verbatim>\<open>httptr_free\<close> takes the events and the timeout with it.\<close>

definition httptr_free :: "nat \<Rightarrow> tr_state \<Rightarrow> tr_state option" where
  "httptr_free q s =
     do {
       treq \<leftarrow> ts_treq s q;
       Some (s\<lparr>ts_treq := (ts_treq s)(q := None)\<rparr>) }"

text \<open>
  \<^verbatim>\<open>httptr_cancel\<close> outside of a callback of the HTTP request: \<^verbatim>\<open>http_cancel\<close> frees that. Inside one the request is
  marked and the parser frees it.
\<close>

definition httptr_cancel :: "nat \<Rightarrow> tr_state \<Rightarrow> tr_state option" where
  "httptr_cancel q s = httptr_free q s"

end
