(* ===== verification/Tracker.thy ===== *)
theory Tracker
  imports HttpReq Metainfo
begin

text \<open>
  \<^verbatim>\<open>btpd/tracker_req.c\<close>: the tiers of trackers of a torrent, the schedule of their requests, and what
  the answers do to them.
\<close>

section \<open>Entries\<close>

definition tre_ok :: "tr_tier \<Rightarrow> nat \<Rightarrow> bool" where
  "tre_ok t e = (case tt_entry t e of Some x \<Rightarrow> tre_failure x = None | None \<Rightarrow> False)"

definition first_nonfailed :: "tr_tier \<Rightarrow> nat option" where
  "first_nonfailed t = List.find (tre_ok t) (tt_trackers t)"

definition all_failed :: "tr_tier \<Rightarrow> bool" where
  "all_failed t \<longleftrightarrow> \<not> list_ex (tre_ok t) (tt_trackers t)"

text \<open>The loop of \<^verbatim>\<open>tr_result\<close>: the next entry behind \<open>e\<close> that has not failed.\<close>

definition next_nonfailed :: "tr_tier \<Rightarrow> nat \<Rightarrow> nat option" where
  "next_nonfailed t e = List.find (tre_ok t) (tl (dropWhile (\<lambda>x. x \<noteq> e) (tt_trackers t)))"

section \<open>Sending\<close>

definition REQ_DELAY :: int where "REQ_DELAY = 1"

definition req_send :: "nat \<Rightarrow> tr_state \<Rightarrow> (nat option \<times> tr_state) option" where
  "req_send k s =
     do {
       t \<leftarrow> ts_tier s k;
       c \<leftarrow> tt_cur t;
       e \<leftarrow> tt_entry t c;
       httptr_req (tt_tp t) k (tre_url e) (tt_event t) s }"

definition req_cancel :: "nat \<Rightarrow> tr_state \<Rightarrow> tr_state option" where
  "req_cancel k s =
     do {
       t \<leftarrow> ts_tier s k;
       q \<leftarrow> tt_req t;
       s1 \<leftarrow> httptr_cancel q s;
       Some (upd_tier k (\<lambda>t. t\<lparr>tt_req := None\<rparr>) s1) }"

text \<open>At most one request is sent in a second; the others wait for a second of their own.\<close>

definition entry_send :: "nat \<Rightarrow> nat \<Rightarrow> tr_event \<Rightarrow> tr_state \<Rightarrow> tr_state option" where
  "entry_send k e ev s =
     do {
       t \<leftarrow> ts_tier s k;
       s1 \<leftarrow> (if tt_req t \<noteq> None then req_cancel k s else Some s);
       let s2 = upd_tier k (\<lambda>t. t\<lparr>tt_event := ev, tt_cur := Some e\<rparr>) s1;
       if ts_tlast s2 > now s2 - REQ_DELAY
       then let tnext = max (ts_tnext s2) (ts_tlast s2) + REQ_DELAY in
         Some (upd_tier k (\<lambda>t. t\<lparr>tt_timer := Some (tnext - now s2)\<rparr>) (s2\<lparr>ts_tnext := tnext\<rparr>))
       else do {
         (r, s3) \<leftarrow> req_send k (upd_tier k (\<lambda>t. t\<lparr>tt_timer := None\<rparr>) s2);
         q \<leftarrow> r;
         Some ((upd_tier k (\<lambda>t. t\<lparr>tt_req := Some q\<rparr>) s3)\<lparr>ts_tlast := now s3\<rparr>) } }"

section \<open>Tiers\<close>

definition tier_active :: "tr_tier \<Rightarrow> bool" where
  "tier_active t \<longleftrightarrow> tt_active t"

text \<open>The timeout is no longer pending when its callback runs.\<close>

definition tier_timer_cb :: "nat \<Rightarrow> tr_state \<Rightarrow> tr_state option" where
  "tier_timer_cb k s =
     do {
       let s1 = upd_tier k (\<lambda>t. t\<lparr>tt_timer := None\<rparr>) s;
       t \<leftarrow> ts_tier s1 k;
       guard_opt (tier_active t \<and> \<not> all_failed t);
       e \<leftarrow> first_nonfailed t;
       entry_send k e (tt_event t) s1 }"

definition tier_start :: "nat \<Rightarrow> tr_state \<Rightarrow> tr_state option" where
  "tier_start k s =
     do {
       t \<leftarrow> ts_tier s k;
       guard_opt (\<not> tier_active t \<or> tt_event t = TR_EV_STOPPED);
       e \<leftarrow> q_first (tt_trackers t);
       entry_send k e TR_EV_STARTED
         (upd_tier k (\<lambda>t. t\<lparr>tt_entry := (\<lambda>i. if i \<in> set (tt_trackers t)
              then map_option (\<lambda>x. x\<lparr>tre_failure := None\<rparr>) (tt_entry t i) else tt_entry t i),
            tt_has_responded := False, tt_bad_conns := 0, tt_active := True\<rparr>) s) }"

definition tier_stop :: "nat \<Rightarrow> tr_state \<Rightarrow> tr_state option" where
  "tier_stop k s =
     do {
       t \<leftarrow> ts_tier s k;
       if \<not> tier_active t \<or> tt_event t = TR_EV_STOPPED then Some s
       else if \<not> tt_has_responded t \<and> tt_bad_conns t > 1
       then do {
         let s1 = upd_tier k (\<lambda>t. t\<lparr>tt_timer := None\<rparr>) s;
         s2 \<leftarrow> (if tt_req t \<noteq> None then req_cancel k s1 else Some s1);
         Some (upd_tier k (\<lambda>t. t\<lparr>tt_active := False\<rparr>) s2) }
       else do {
         e \<leftarrow> first_nonfailed t;
         entry_send k e TR_EV_STOPPED s } }"

definition tier_complete :: "nat \<Rightarrow> tr_state \<Rightarrow> tr_state option" where
  "tier_complete k s =
     do {
       t \<leftarrow> ts_tier s k;
       if tier_active t \<and> tt_event t = TR_EV_EMPTY
       then do { e \<leftarrow> q_first (tt_trackers t); entry_send k e TR_EV_COMPLETED s }
       else Some s }"

definition add_tracker :: "bool \<Rightarrow> cstr \<Rightarrow> tr_tier \<times> nat \<Rightarrow> tr_tier \<times> nat" where
  "add_tracker mem_ok url r =
     (case r of (t, fresh) \<Rightarrow>
        if http_url_parse mem_ok url = None then (t, fresh)
        else (t\<lparr>tt_trackers := q_insert_tail (tt_trackers t) fresh,
                tt_entry := (tt_entry t)(fresh \<mapsto> \<lparr>tre_failure = None, tre_url = url\<rparr>)\<rparr>, fresh + 1))"

text \<open>A tier without a usable tracker is not created.\<close>

definition tier_create :: "tid \<Rightarrow> cstr list \<Rightarrow> tr_state \<Rightarrow> nat option \<times> tr_state" where
  "tier_create t urls s =
     (let t0 = \<lparr>tt_tp = t, tt_cur = None, tt_trackers = [], tt_entry = (\<lambda>_. None), tt_timer = None, tt_req = None,
                tt_interval = 0, tt_bad_conns = 0, tt_active = False, tt_has_responded = False,
                tt_event = TR_EV_STARTED\<rparr>;
          k = ts_fresh s;
          (t1, fresh) = fold (add_tracker (tv_mem (ts_env s))) urls (t0, k + 1)
      in if tt_trackers t1 \<noteq> []
         then (Some k, s\<lparr>ts_tier := (ts_tier s)(k \<mapsto> t1\<lparr>tt_interval := - 1, tt_event := TR_EV_STOPPED\<rparr>), ts_fresh := fresh\<rparr>)
         else (None, s))"

definition tier_kill :: "nat \<Rightarrow> tr_state \<Rightarrow> tr_state option" where
  "tier_kill k s =
     do {
       t \<leftarrow> ts_tier s k;
       s1 \<leftarrow> (if tt_req t \<noteq> None then req_cancel k s else Some s);
       Some (s1\<lparr>ts_tier := (ts_tier s1)(k := None)\<rparr>) }"

section \<open>Torrents\<close>

fun tiers_create :: "tid \<Rightarrow> cstr list list \<Rightarrow> nat list \<Rightarrow> tr_state \<Rightarrow> nat list \<times> tr_state" where
  "tiers_create t [] ks s = (ks, s)"
| "tiers_create t (urls # us) ks s =
     (case tier_create t urls s of
        (Some k, s1) \<Rightarrow> tiers_create t us (q_insert_tail ks k) s1
      | (None, s1) \<Rightarrow> tiers_create t us ks s1)"

definition tr_create :: "(nat \<Rightarrow> nat \<Rightarrow> nat \<Rightarrow> nat) \<Rightarrow> tid \<Rightarrow> cstr \<Rightarrow> tr_state \<Rightarrow> tr_state option" where
  "tr_create rnd t mi s =
     do {
       ann \<leftarrow> mi_announce rnd mi;
       tiers \<leftarrow> ann;
       let (ks, s1) = tiers_create t tiers [] s;
       Some (s1\<lparr>ts_trackers := (ts_trackers s1)(t \<mapsto> ks)\<rparr>) }"

definition tr_kill :: "tid \<Rightarrow> tr_state \<Rightarrow> tr_state option" where
  "tr_kill t s =
     do {
       ks \<leftarrow> ts_trackers s t;
       s1 \<leftarrow> foreach ks tier_kill s;
       Some (s1\<lparr>ts_trackers := (ts_trackers s1)(t := None)\<rparr>) }"

definition tr_start :: "tid \<Rightarrow> tr_state \<Rightarrow> tr_state option" where
  "tr_start t s = do { ks \<leftarrow> ts_trackers s t; foreach ks tier_start s }"

definition tr_stop :: "tid \<Rightarrow> tr_state \<Rightarrow> tr_state option" where
  "tr_stop t s = do { ks \<leftarrow> ts_trackers s t; foreach ks tier_stop s }"

definition tr_complete :: "tid \<Rightarrow> tr_state \<Rightarrow> tr_state option" where
  "tr_complete t s = do { ks \<leftarrow> ts_trackers s t; foreach ks tier_complete s }"

definition tr_tiers :: "tid \<Rightarrow> tr_state \<Rightarrow> tr_tier list option" where
  "tr_tiers t s = do { ks \<leftarrow> ts_trackers s t; those (map (ts_tier s) ks) }"

definition tr_active :: "tid \<Rightarrow> tr_state \<Rightarrow> bool option" where
  "tr_active t s = map_option (list_ex tier_active) (tr_tiers t s)"

definition tr_good_count :: "tid \<Rightarrow> tr_state \<Rightarrow> nat option" where
  "tr_good_count t s =
     map_option (\<lambda>ts. length (filter (\<lambda>x. tier_active x \<and> tt_bad_conns x = 0) ts)) (tr_tiers t s)"

section \<open>Answers\<close>

definition rand :: "int \<Rightarrow> int \<Rightarrow> tr_state \<Rightarrow> int \<times> tr_state" where
  "rand lo hi s = (case rand_between lo hi (ts_w s) of (r, w1) \<Rightarrow> (r, s\<lparr>ts_w := w1\<rparr>))"

text \<open>The connection failed, or the tracker reported a failure and there are others.\<close>

definition result_conn :: "nat \<Rightarrow> tr_state \<Rightarrow> tr_state option" where
  "result_conn k s =
     do {
       t \<leftarrow> ts_tier s k;
       c \<leftarrow> tt_cur t;
       case next_nonfailed t c of
         Some e \<Rightarrow> entry_send k e (tt_event t) s
       | None \<Rightarrow>
           let bad = tt_bad_conns t + 1; s1 = upd_tier k (\<lambda>t. t\<lparr>tt_bad_conns := bad\<rparr>) s in
           if tt_event t = TR_EV_STOPPED \<and> bad > 1 then Some (upd_tier k (\<lambda>t. t\<lparr>tt_active := False\<rparr>) s1)
           else if bad = 1 then do { e \<leftarrow> q_first (tt_trackers t); entry_send k e (tt_event t) s1 }
           else if bad = 2
           then let (r, s2) = rand 0 120 s1 in Some (upd_tier k (\<lambda>t. t\<lparr>tt_timer := Some (240 + r)\<rparr>) s2)
           else let (r, s2) = rand 0 300 s1 in Some (upd_tier k (\<lambda>t. t\<lparr>tt_timer := Some (900 + r)\<rparr>) s2) }"

definition result_ok :: "nat \<Rightarrow> tr_response \<Rightarrow> tr_state \<Rightarrow> tr_state option" where
  "result_ok k res s =
     do {
       t \<leftarrow> ts_tier s k;
       c \<leftarrow> tt_cur t;
       let s1 = (if tt_event t = TR_EV_STOPPED then upd_tier k (\<lambda>t. t\<lparr>tt_active := False\<rparr>) s
                 else
                   let iv = (if res_interval res > 0 then res_interval res else tt_interval t);
                       (d, s2) = (if iv > 0 then (iv, s) else rand (25 * 60) (30 * 60) s)
                   in upd_tier k (\<lambda>t. t\<lparr>tt_event := TR_EV_EMPTY, tt_interval := iv, tt_timer := Some d\<rparr>) s2);
       Some (upd_tier k (\<lambda>t. t\<lparr>tt_bad_conns := 0, tt_has_responded := True,
          tt_trackers := q_insert_head (q_remove (tt_trackers t) c) c\<rparr>) s1) }"

definition tr_result :: "nat \<Rightarrow> tr_response \<Rightarrow> tr_state \<Rightarrow> tr_state option" where
  "tr_result k res s =
     do {
       let s1 = upd_tier k (\<lambda>t. t\<lparr>tt_req := None\<rparr>) s;
       case res_type res of
         TR_RES_FAIL \<Rightarrow>
           do {
             t \<leftarrow> ts_tier s1 k;
             c \<leftarrow> tt_cur t;
             msg \<leftarrow> benc_str (res_failure res);
             let s2 = upd_tier k (\<lambda>t. t\<lparr>tt_entry := (tt_entry t)(c := map_option (\<lambda>x. x\<lparr>tre_failure := msg\<rparr>) (tt_entry t c))\<rparr>) s1;
             t2 \<leftarrow> ts_tier s2 k;
             if all_failed t2 then Some (upd_tier k (\<lambda>t. t\<lparr>tt_active := False\<rparr>) s2)
             else result_conn k s2 }
       | TR_RES_CONN \<Rightarrow> result_conn k s1
       | TR_RES_BAD \<Rightarrow> result_ok k res s1
       | TR_RES_OK \<Rightarrow> result_ok k res s1 }"

definition tr_init :: "tr_state \<Rightarrow> tr_state" where
  "tr_init s =
     (let w = ts_w s in
      s\<lparr>ts_env := (ts_env s)\<lparr>tv_key := int (w_random w (w_random_no w))\<rparr>, ts_w := w\<lparr>w_random_no := w_random_no w + 1\<rparr>\<rparr>)"

end
