(* ===== verification/HttpTr.thy ===== *)
theory HttpTr
  imports Tracker
begin

text \<open>
  The second half of \<^verbatim>\<open>btpd/http_tr_if.c\<close>: the answer of a tracker, the callbacks of the HTTP request, of its
  socket and of the name lookup.
\<close>

section \<open>The peers of an answer\<close>

definition bytes_of :: "cstr \<Rightarrow> byte list" where
  "bytes_of s = map of_char s"

text \<open>\<^verbatim>\<open>peer_create_out_compact\<close>: four or sixteen bytes of address and two of port, which must be there.\<close>

definition peer_create_out_compact :: "tr_env \<Rightarrow> tid \<Rightarrow> bool \<Rightarrow> cstr \<Rightarrow> world \<Rightarrow> world option" where
  "peer_create_out_compact v t ip6 compact w =
     (let n = (if ip6 then 18 else 6) in
      if \<not> (if ip6 then tv_ipv6 v else tv_ipv4 v) then Some w
      else do {
        guard_opt (n \<le> length compact);
        peer_create_out t (tv_connect_addr v (take n compact)) w })"

definition maybe_connect_to :: "tr_env \<Rightarrow> tid \<Rightarrow> cstr \<Rightarrow> world \<Rightarrow> world option" where
  "maybe_connect_to v t pinfo w =
     do {
       r \<leftarrow> benc_dget_mem pinfo ''peer id'';
       case r of
         None \<Rightarrow> Some w
       | Some (len, pid) \<Rightarrow>
           if len \<noteq> 20 then Some w
           else do {
             guard_opt (20 \<le> length pid);
             let id = bytes_of (take 20 pid);
             if w_peer_id w = id then Some w
             else if net_torrent_has_peer w t id then Some w
             else do {
               ip \<leftarrow> benc_dget_str pinfo ''ip'';
               case ip of
                 None \<Rightarrow> Some w
               | Some a \<Rightarrow> do { port \<leftarrow> benc_dget_int pinfo ''port''; peer_create_out t (tv_connect_name v a port) w } } } }"

text \<open>A list of dictionaries.\<close>

function connect_list :: "tr_env \<Rightarrow> tid \<Rightarrow> cstr option \<Rightarrow> world \<Rightarrow> world option" where
  "connect_list v t None w = Some w"
| "connect_list v t (Some p) w =
     (if w_npeers w < w_opt_max_peers w
      then do { w1 \<leftarrow> maybe_connect_to v t p w; nx \<leftarrow> benc_next p; connect_list v t nx w1 }
      else Some w)"
  by pat_completeness auto
termination
  by (relation "measure (\<lambda>(v, t, x, w). case x of None \<Rightarrow> 0 | Some p \<Rightarrow> Suc (length p))")
    (auto dest!: benc_next_shrinks split: option.splits)

text \<open>A string of compact addresses, of which \<open>len\<close> bytes count and \<open>p\<close> is the memory behind its start.\<close>

function connect_compact :: "tr_env \<Rightarrow> tid \<Rightarrow> bool \<Rightarrow> nat \<Rightarrow> cstr \<Rightarrow> nat \<Rightarrow> world \<Rightarrow> world option" where
  "connect_compact v t ip6 len p i w =
     (if i < len \<and> w_npeers w < w_opt_max_peers w
      then (case peer_create_out_compact v t ip6 (drop i p) w of
              None \<Rightarrow> None
            | Some w1 \<Rightarrow> connect_compact v t ip6 len p (i + (if ip6 then 18 else 6)) w1)
      else Some w)"
  by pat_completeness auto
termination
  by (relation "measure (\<lambda>(v, t, ip6, len, p, i, w). len - i)") auto

declare connect_compact.simps [simp del]

section \<open>The answer\<close>

definition connect_key6 :: "tr_env \<Rightarrow> tid \<Rightarrow> cstr \<Rightarrow> cstr \<Rightarrow> world \<Rightarrow> world option" where
  "connect_key6 v t content key w =
     do {
       peers \<leftarrow> benc_dget_any content key;
       case peers of
         None \<Rightarrow> Some w
       | Some p \<Rightarrow>
           if \<not> benc_isstr p then Some w
           else do {
             m \<leftarrow> benc_dget_mem content key;
             (len, q) \<leftarrow> m;
             connect_compact v t True len q 0 w } }"

text \<open>Whether the value of \<^verbatim>\<open>peers\<close> was usable, and the peers connected to.\<close>

definition connect_peers :: "tr_env \<Rightarrow> tid \<Rightarrow> cstr \<Rightarrow> world \<Rightarrow> (bool \<times> world) option" where
  "connect_peers v t content w =
     do {
       peers \<leftarrow> benc_dget_any content ''peers'';
       case peers of
         None \<Rightarrow> Some (True, w)
       | Some p \<Rightarrow>
           if benc_islst p
           then do { f \<leftarrow> benc_first p; w1 \<leftarrow> connect_list v t f w; Some (True, w1) }
           else if benc_isstr p
           then (if tv_ipv4 v
                 then do {
                   m \<leftarrow> benc_dget_mem content ''peers'';
                   (len, q) \<leftarrow> m;
                   w1 \<leftarrow> connect_compact v t False len q 0 w;
                   Some (True, w1) }
                 else Some (True, w))
           else Some (False, w) }"

definition parse_reply :: "tid \<Rightarrow> cstr \<Rightarrow> tr_response \<Rightarrow> tr_state \<Rightarrow> (tr_response \<times> tr_state) option" where
  "parse_reply t content res s =
     (let v = ts_env s in
      if benc_validate content \<noteq> None then Some (res\<lparr>res_type := TR_RES_BAD\<rparr>, s)
      else do {
        fail \<leftarrow> benc_dget_any content ''failure reason'';
        case fail of
          Some buf \<Rightarrow>
            if \<not> benc_isstr buf then Some (res\<lparr>res_type := TR_RES_BAD\<rparr>, s)
            else Some (res\<lparr>res_type := TR_RES_FAIL, res_failure := buf\<rparr>, s)
        | None \<Rightarrow>
            do {
              buf \<leftarrow> benc_dget_any content ''interval'';
              res1 \<leftarrow> (case buf of
                  Some b \<Rightarrow> if benc_isint b
                    then do { i \<leftarrow> benc_int b; Some (res\<lparr>res_interval := sint (word_of_int i :: 32 word)\<rparr>) }
                    else Some res
                | None \<Rightarrow> Some res);
              (ok, w1) \<leftarrow> connect_peers v t content (ts_w s);
              if \<not> ok then Some (res1\<lparr>res_type := TR_RES_BAD\<rparr>, s\<lparr>ts_w := w1\<rparr>)
              else do {
                w2 \<leftarrow> (if tv_ipv6 v
                       then do { v1 \<leftarrow> connect_key6 v t content ''peers6'' w1; connect_key6 v t content ''peers_ipv6'' v1 }
                       else Some w1);
                Some (res1\<lparr>res_type := TR_RES_OK\<rparr>, s\<lparr>ts_w := w2\<rparr>) } } })"

section \<open>Callbacks\<close>

definition MAX_DOWNLOAD :: nat where "MAX_DOWNLOAD = 262144"

text \<open>\<^verbatim>\<open>http_cb\<close> of request \<open>q\<close>; the answer tells whether it cancelled the HTTP request.\<close>

definition http_cb :: "nat \<Rightarrow> tr_state http_cb" where
  "http_cb q res s =
     do {
       treq \<leftarrow> ts_treq s q;
       let tres = \<lparr>res_type = TR_RES_FAIL, res_failure = '''', res_interval = - 1\<rparr>;
       case res of
         HTTP_T_ERR \<Rightarrow>
           do {
             s1 \<leftarrow> tr_result (hq_tr treq) (tres\<lparr>res_type := TR_RES_BAD\<rparr>) s;
             s2 \<leftarrow> httptr_free q s1;
             Some (False, s2) }
       | HTTP_T_DATA p \<Rightarrow>
           if ib_off (hq_buf treq) + length p > MAX_DOWNLOAD
           then do {
             s1 \<leftarrow> tr_result (hq_tr treq) (tres\<lparr>res_type := TR_RES_BAD\<rparr>) s;
             s2 \<leftarrow> httptr_cancel q s1;
             Some (True, s2) }
           else (case iobuf_write (tv_alloc (ts_env s)) (hq_buf treq) p of
                   (False, b) \<Rightarrow> None
                 | (True, b) \<Rightarrow> Some (False, upd_treq q (\<lambda>x. x\<lparr>hq_buf := b\<rparr>) s))
       | HTTP_T_DONE \<Rightarrow>
           do {
             (tres1, s1) \<leftarrow> (if hq_event treq = TR_EV_STOPPED then Some (tres\<lparr>res_type := TR_RES_OK\<rparr>, s)
                            else parse_reply (hq_tp treq) (iobuf_data (hq_buf treq)) tres s);
             s2 \<leftarrow> tr_result (hq_tr treq) tres1 s1;
             s3 \<leftarrow> httptr_free q s2;
             Some (False, s3) }
       | HTTP_T_CODE c \<Rightarrow> Some (False, s)
       | HTTP_T_HEADER a b \<Rightarrow> Some (False, s) }"

text \<open>What is left of the request after reading or writing is stored back.\<close>

definition put_back :: "nat \<Rightarrow> ev \<Rightarrow> (http_req \<Rightarrow> bool) \<Rightarrow> http_req option \<times> tr_state \<Rightarrow> tr_state" where
  "put_back q e want r =
     (case r of
        (None, s) \<Rightarrow> s
      | (Some req, s) \<Rightarrow>
          upd_treq q (\<lambda>x. x\<lparr>hq_req := req, hq_ev := if want req then hq_ev x else hq_ev x - {e}\<rparr>) s)"

definition httptr_read_cb :: "nat \<Rightarrow> errno + cstr \<Rightarrow> tr_state \<Rightarrow> tr_state option" where
  "httptr_read_cb q ans s =
     do {
       treq \<leftarrow> ts_treq s q;
       r \<leftarrow> http_read (tv_alloc (ts_env s)) (http_cb q) ans (hq_req treq) s;
       Some (put_back q EV_READ http_want_read r) }"

definition httptr_write_cb :: "nat \<Rightarrow> errno + nat \<Rightarrow> tr_state \<Rightarrow> tr_state option" where
  "httptr_write_cb q ans s =
     do {
       treq \<leftarrow> ts_treq s q;
       r \<leftarrow> http_write (http_cb q) ans (hq_req treq) s;
       Some (put_back q EV_WRITE http_want_write r) }"

text \<open>The timeout is no longer pending when its callback runs.\<close>

definition httptr_timeout_cb :: "nat \<Rightarrow> tr_state \<Rightarrow> tr_state option" where
  "httptr_timeout_cb q s =
     do {
       let s0 = upd_treq q (\<lambda>x. x\<lparr>hq_timer := None\<rparr>) s;
       treq \<leftarrow> ts_treq s0 q;
       s1 \<leftarrow> tr_result (hq_tr treq) \<lparr>res_type = TR_RES_CONN, res_failure = '''', res_interval = 0\<rparr> s0;
       httptr_cancel q s1 }"

definition httptr_nc_cb :: "nat \<Rightarrow> bool \<Rightarrow> tr_state \<Rightarrow> tr_state option" where
  "httptr_nc_cb q error s =
     do {
       treq \<leftarrow> ts_treq s q;
       if error
       then do {
         s1 \<leftarrow> tr_result (hq_tr treq) \<lparr>res_type = TR_RES_CONN, res_failure = '''', res_interval = 0\<rparr> s;
         httptr_free q s1 }
       else Some (upd_treq q (\<lambda>x. x\<lparr>hq_sd := True,
           hq_ev := (if http_want_read (hq_req x) then {EV_READ} else {}) \<union>
                    (if http_want_write (hq_req x) then {EV_WRITE} else {}),
           hq_timer := Some 30\<rparr>) s) }"

end
