(* ===== verification/HttpOwner.thy ===== *)
theory HttpOwner
  imports Http
begin

text \<open>
  The interface between the HTTP client and the owner of a request: as long as the callback keeps its side, the
  owner's state is \<open>alive\<close> while the request exists and \<open>over\<close> once it is freed. The tracker
  requests are an instance in the theory TrackerInv.
\<close>

section \<open>What the HTTP client promises the owner of a request\<close>

text \<open>
  \<open>alive\<close> holds of the owner's state while the request exists, \<open>over\<close> once it is freed.
\<close>

definition final :: "http_response \<Rightarrow> bool" where
  "final r \<longleftrightarrow> r = HTTP_T_ERR \<or> r = HTTP_T_DONE"

locale http_owner =
  fixes cb :: "'u http_cb" and alive over :: "'u \<Rightarrow> bool"
  assumes goes_on: "alive u \<Longrightarrow> \<not> final r \<Longrightarrow> cb r u = Some (False, u') \<Longrightarrow> alive u'"
    and cancels: "alive u \<Longrightarrow> \<not> final r \<Longrightarrow> cb r u = Some (True, u') \<Longrightarrow> over u'"
    and ends: "alive u \<Longrightarrow> final r \<Longrightarrow> cb r u = Some (c, u') \<Longrightarrow> over u'"
begin

definition fine :: "http_req option \<times> 'u \<Rightarrow> bool" where
  "fine r \<longleftrightarrow> (case r of (None, u) \<Rightarrow> over u | (Some req, u) \<Rightarrow> alive u \<and> \<not> hr_cancel req)"

lemma fine_simps [simp]: "fine (None, u) = over u" "fine (Some req, u) = (alive u \<and> \<not> hr_cancel req)"
  by (simp_all add: fine_def)

lemma http_error_fine: "http_error cb req u = Some r \<Longrightarrow> alive u \<Longrightarrow> fine r"
  using ends [of u HTTP_T_ERR] by (auto simp: http_error_def bind_Some_iff fine_def final_def split: if_split_asm)

lemma done_fine: "done_req cb u = Some r \<Longrightarrow> alive u \<Longrightarrow> fine r"
  using ends [of u HTTP_T_DONE] by (auto simp: done_req_def bind_Some_iff fine_def final_def)

definition fine_turn :: "(http_req option \<times> 'u) + (http_req \<times> 'u) \<Rightarrow> bool" where
  "fine_turn t \<longleftrightarrow> (case t of Inl r \<Rightarrow> fine r | Inr (req, u) \<Rightarrow> alive u \<and> \<not> hr_cancel req)"

lemma ret_fine: "(\<And>x. r = Some x \<Longrightarrow> fine x) \<Longrightarrow> ret r = Some t \<Longrightarrow> fine_turn t"
  by (auto simp: ret_def fine_turn_def)

lemma consume_cancel: "consume n req = Some req' \<Longrightarrow> hr_cancel req' = hr_cancel req"
  by (auto simp: consume_def bind_Some_iff)

lemma headers_loop_fine:
  "headers_loop m en f cur nl req u = Some (ok, req', u') \<Longrightarrow> f = cb \<Longrightarrow> alive u \<Longrightarrow> \<not> hr_cancel req \<Longrightarrow>
     (if hr_cancel req' then ok \<and> over u' else alive u')"
proof (induction m en f cur nl req u rule: headers_loop.induct)
  case (1 m en f cur nl req u)
  have nh: "\<not> final (HTTP_T_HEADER a b)" for a b by (simp add: final_def)
  have nc: "hr_cancel (note_header a b req) = hr_cancel req" for a b by (simp add: note_header_def Let_def)
  note un = headers_loop.simps [of m en f cur nl req u]
  show ?case
  proof (cases "cur < en")
    case False
    with "1.prems"(1,3,4) show ?thesis by (auto simp: un)
  next
    case lt: True
    with "1.prems"(1) obtain mc where mc: "strchr_mem m cur CHR '':'' = Some mc"
      by (auto simp: un split: option.split_asm)
    show ?thesis
    proof (cases "mc = None \<or> fst nl = None \<or> the mc > the (fst nl)")
      case True
      with lt "1.prems"(1,3,4) mc show ?thesis by (auto simp: un split: option.split_asm if_split_asm)
    next
      case False
      then obtain colon where co: "mc = Some colon" "\<not> (fst nl = None \<or> colon > the (fst nl))" by (cases mc) auto
      let ?name = "take 127 (take (colon - cur) (drop cur m))"
      from lt "1.prems"(1) mc co obtain cur' nl' v where v: "val_loop m (colon + 1) nl '''' = Some (cur', nl', v)"
        by (auto simp: un Let_def split: option.split_asm)
      with lt "1.prems"(1) mc co obtain canc u1 where c: "f (HTTP_T_HEADER ?name (trim_blanks v)) u = Some (canc, u1)"
        by (auto simp: un Let_def split: option.split_asm)
      note cc = c [unfolded "1.prems"(2)]
      show ?thesis
      proof (cases canc)
        case True
        with lt "1.prems"(1) mc co v c have "ok" "req' = req\<lparr>hr_cancel := True\<rparr>" "u' = u1"
          by (simp_all add: un Let_def)
        with True cancels [OF "1.prems"(3) nh] cc show ?thesis by simp
      next
        case False
        have r: "headers_loop m en f cur' nl' (note_header ?name (trim_blanks v) req) u1 = Some (ok, req', u')"
          using lt "1.prems"(1) mc co v c False by (simp add: un Let_def)
        have a: "alive u1" using goes_on [OF "1.prems"(3) nh] cc False by simp
        show ?thesis
          using "1.IH" [OF lt mc co(1) co(2) refl v refl refl refl c refl False r "1.prems"(2) a] "1.prems"(4) nc by simp
      qed
    qed
  qed
qed

lemma headers_parse_fine:
  assumes "headers_parse m en cb req u = Some (ok, req', u')" "alive u" "\<not> hr_cancel req"
  shows "if hr_cancel req' then ok \<and> over u' else alive u'"
proof -
  have nc: "\<not> final (HTTP_T_CODE c)" for c by (simp add: final_def)
  show ?thesis
    using assms goes_on [OF assms(2) nc] cancels [OF assms(2) nc]
    by (auto simp: headers_parse_def Let_def bind_Some_iff dest!: headers_loop_fine
        split: option.split_asm if_split_asm)
qed

lemma not_final: "\<not> final (HTTP_T_HEADER a b)" "\<not> final (HTTP_T_CODE c)" "\<not> final (HTTP_T_DATA d)"
  by (simp_all add: final_def)

lemma data_cb:
  assumes "alive u" "cb (HTTP_T_DATA d) u = Some (c, u1)"
  shows "if c then over u1 else alive u1"
  using goes_on [OF assms(1) not_final(3)] cancels [OF assms(1) not_final(3)] assms(2) by (cases c) auto

lemma turn_head_fine:
  assumes "turn_head alloc cb req u = Some t" "alive u" "\<not> hr_cancel req"
  shows "fine_turn t"
proof -
  from assms(1) obtain e where e: "head_end (hr_rbuf req) = Some e" by (auto simp: turn_head_def bind_Some_iff)
  show ?thesis
  proof (cases e)
    case None
    with assms e show ?thesis
      by (auto simp: turn_head_def ret_def fine_turn_def dest: http_error_fine split: if_split_asm)
  next
    case (Some x)
    obtain en dlen where x: "x = (en, dlen)" by force
    from assms(1) e Some x obtain ok req1 u1 where h: "head_ready alloc cb en dlen req u = Some (ok, req1, u1)"
      by (auto simp: turn_head_def bind_Some_iff)
    have r1: "if hr_cancel req1 then ok \<and> over u1 else alive u1"
    proof (cases "iobuf_write alloc (hr_rbuf req) [NUL]")
      case (Pair b rb)
      with h assms(2,3) show ?thesis
        by (cases b) (auto simp: head_ready_def split: if_split_asm dest!: headers_parse_fine)
    qed
    show ?thesis
      using assms(1) e Some x h r1
      by (auto simp: turn_head_def fine_turn_def ret_def bind_Some_iff dest: http_error_fine consume_cancel
          split: if_split_asm)
  qed
qed

lemma turn_body_fine:
  assumes "alive u" "\<not> hr_cancel req"
  shows "turn_chunk_size cb req u = Some t \<Longrightarrow> fine_turn t" "turn_chunk_data cb req u = Some t \<Longrightarrow> fine_turn t"
    "turn_chunk_crlf cb req u = Some t \<Longrightarrow> fine_turn t" "turn_id_data cb req u = Some t \<Longrightarrow> fine_turn t"
proof -
  note d = fine_turn_def ret_def bind_Some_iff Let_def
  note err = http_error_fine [OF _ assms(1)] and dn = done_fine
  show "turn_chunk_size cb req u = Some t \<Longrightarrow> fine_turn t"
    using assms by (auto simp: turn_chunk_size_def d dest!: err dn consume_cancel split: if_split_asm option.split_asm)
  show "turn_chunk_crlf cb req u = Some t \<Longrightarrow> fine_turn t"
    using assms by (auto simp: turn_chunk_crlf_def d dest!: err consume_cancel split: if_split_asm)
  show "turn_chunk_data cb req u = Some t \<Longrightarrow> fine_turn t"
    using assms
    by (auto simp: turn_chunk_data_def d dest!: data_cb [OF assms(1)] consume_cancel split: if_split_asm)
  show "turn_id_data cb req u = Some t \<Longrightarrow> fine_turn t"
    using assms
    by (auto simp: turn_id_data_def d dest!: data_cb [OF assms(1)] consume_cancel dn split: if_split_asm)
qed

lemma http_turn_fine:
  assumes "http_turn alloc cb got req u = Some t" "alive u" "\<not> hr_cancel req"
  shows "fine_turn t"
  using assms turn_body_fine [OF assms(2,3)] turn_head_fine [OF _ assms(2,3)] http_error_fine [OF _ assms(2)] done_fine [OF _ assms(2)]
  by (auto simp: http_turn_def ret_def fine_turn_def split: pstate.split_asm if_split_asm)

lemma http_parse_fine:
  "http_parse n alloc cb got req u = Some r \<Longrightarrow> alive u \<Longrightarrow> \<not> hr_cancel req \<Longrightarrow> fine r"
proof (induction n arbitrary: req u)
  case (Suc n)
  from Suc.prems(1) obtain t where t: "http_turn alloc cb got req u = Some t" by (auto split: option.split_asm)
  note f = http_turn_fine [OF t Suc.prems(2,3)]
  with Suc t show ?case by (auto simp: fine_turn_def split: sum.split_asm)
qed simp

lemma http_read_fine:
  assumes "http_read alloc cb ans req u = Some r" "alive u" "\<not> hr_cancel req"
  shows "fine r"
proof (cases "iobuf_accommodate alloc (hr_rbuf req) 4096")
  case (Pair ok rb)
  show ?thesis
  proof (cases ok)
    case False
    with Pair assms show ?thesis by (auto simp: http_read_def dest: http_error_fine)
  next
    case True
    show ?thesis
    proof (cases ans)
      case (Inl e)
      with Pair True assms show ?thesis
        by (auto simp: http_read_def dest: http_error_fine split: if_split_asm)
    next
      case (Inr bs)
      let ?rb1 = "rb\<lparr>ib_mem := Some (overwrite (the (ib_mem rb)) (ib_skip rb + ib_off rb) bs), ib_off := ib_off rb + length bs\<rparr>"
      from Pair True assms(1) Inr obtain r1 where
        p: "http_parse (ib_off ?rb1 + 2) alloc cb (bs \<noteq> []) (req\<lparr>hr_rbuf := ?rb1, hr_parsing := True\<rparr>) u = Some r1"
        by (auto simp: http_read_def Let_def simp del: http_parse.simps split: option.split_asm)
      with http_parse_fine [OF p] assms(2,3) have "fine r1" by simp
      with Pair True assms(1) Inr p show ?thesis
        by (auto simp: http_read_def Let_def simp del: http_parse.simps split: option.split_asm prod.split_asm)
    qed
  qed
qed

lemma http_write_fine:
  assumes "http_write cb ans req u = Some r" "alive u" "\<not> hr_cancel req"
  shows "fine r"
  using assms by (auto simp: http_write_def bind_Some_iff dest: http_error_fine split: sum.split_asm if_split_asm)

end

end
