(* ===== verification/TrackerInv.thy ===== *)
theory TrackerInv
  imports HttpTr HttpOwner
begin

text \<open>
  The schedule of the tracker requests never gets stuck: in every reachable state an active tier waits
  either for its own timeout or for a request that is under way and has a timeout of its own.
\<close>

section \<open>The invariant\<close>

definition tier_wf :: "tr_tier \<Rightarrow> bool" where
  "tier_wf t \<longleftrightarrow> tt_trackers t \<noteq> [] \<and> (\<forall>e \<in> set (tt_trackers t). tt_entry t e \<noteq> None) \<and>
     (\<forall>c. tt_cur t = Some c \<longrightarrow> c \<in> set (tt_trackers t))"

definition settled :: "tr_tier \<Rightarrow> bool" where
  "settled t \<longleftrightarrow> (if tt_active t then tt_cur t \<noteq> None \<and> \<not> all_failed t \<and> (tt_req t = None) \<noteq> (tt_timer t = None)
     else tt_req t = None \<and> tt_timer t = None)"

text \<open>
  \<open>L\<close>: tiers in the middle of an operation. \<open>D\<close>: requests that are about to be freed and that no tier points to.
\<close>

definition links_ok :: "nat set \<Rightarrow> tr_state \<Rightarrow> bool" where
  "links_ok D s \<longleftrightarrow>
     (\<forall>k t q. ts_tier s k = Some t \<longrightarrow> tt_req t = Some q \<longrightarrow> q \<notin> D \<and> (\<exists>h. ts_treq s q = Some h \<and> hq_tr h = k)) \<and>
     (\<forall>q h. ts_treq s q = Some h \<longrightarrow> q \<notin> D \<longrightarrow>
        hq_timer h \<noteq> None \<and> \<not> hr_cancel (hq_req h) \<and> (\<exists>t. ts_tier s (hq_tr h) = Some t \<and> tt_req t = Some q)) \<and>
     (\<forall>i \<ge> ts_fresh s. ts_tier s i = None \<and> ts_treq s i = None)"

definition tiers_ok :: "nat set \<Rightarrow> tr_state \<Rightarrow> bool" where
  "tiers_ok L s \<longleftrightarrow> (\<forall>k t. ts_tier s k = Some t \<longrightarrow> tier_wf t \<and> (k \<notin> L \<longrightarrow> settled t))"

definition tr_inv :: "nat set \<Rightarrow> nat set \<Rightarrow> tr_state \<Rightarrow> bool" where
  "tr_inv D L s \<longleftrightarrow> links_ok D s \<and> tiers_ok L s"

lemma upd_tier_simps [simp]:
  "ts_tier (upd_tier k f s) i = (if i = k then map_option f (ts_tier s k) else ts_tier s i)"
  "ts_treq (upd_tier k f s) = ts_treq s" "ts_fresh (upd_tier k f s) = ts_fresh s" "ts_w (upd_tier k f s) = ts_w s"
  "ts_env (upd_tier k f s) = ts_env s" "ts_tlast (upd_tier k f s) = ts_tlast s" "ts_tnext (upd_tier k f s) = ts_tnext s"
  "ts_trackers (upd_tier k f s) = ts_trackers s" "now (upd_tier k f s) = now s"
  by (simp_all add: upd_tier_def now_def)

lemma upd_treq_simps [simp]:
  "ts_treq (upd_treq q f s) i = (if i = q then map_option f (ts_treq s q) else ts_treq s i)"
  "ts_tier (upd_treq q f s) = ts_tier s" "ts_fresh (upd_treq q f s) = ts_fresh s" "ts_trackers (upd_treq q f s) = ts_trackers s"
  by (simp_all add: upd_treq_def)

lemma tr_inv_links: "tr_inv D L s \<Longrightarrow> links_ok D s" "tr_inv D L s \<Longrightarrow> tiers_ok L s"
  by (simp_all add: tr_inv_def)

lemma links_treq:
  assumes "links_ok D s" "ts_treq s q = Some h" "q \<notin> D"
  obtains t where "hq_timer h \<noteq> None" "\<not> hr_cancel (hq_req h)" "ts_tier s (hq_tr h) = Some t" "tt_req t = Some q"
  using assms unfolding links_ok_def by blast

text \<open>Only the tiers, the requests and the counter matter.\<close>

lemma tr_inv_cong:
  "ts_tier s' = ts_tier s \<Longrightarrow> ts_treq s' = ts_treq s \<Longrightarrow> ts_fresh s' = ts_fresh s \<Longrightarrow> tr_inv D L s \<Longrightarrow> tr_inv D L s'"
  unfolding tr_inv_def links_ok_def tiers_ok_def by simp

lemma tr_inv_mono: "tr_inv D L s \<Longrightarrow> L \<subseteq> L' \<Longrightarrow> tr_inv D L' s"
  unfolding tr_inv_def tiers_ok_def by blast

lemma tr_inv_tier:
  assumes "tr_inv D L s" "ts_tier s k = Some t" "tier_wf (f t)" "tt_req (f t) = tt_req t" "L \<subseteq> insert k L'"
    "k \<notin> L' \<Longrightarrow> settled (f t)"
  shows "tr_inv D L' (upd_tier k f s)"
proof -
  have "links_ok D (upd_tier k f s)"
    unfolding links_ok_def
  proof (intro conjI allI impI)
    fix q h
    assume "ts_treq (upd_tier k f s) q = Some h" "q \<notin> D"
    then have "ts_treq s q = Some h" "q \<notin> D" by auto
    from links_treq [OF tr_inv_links(1) [OF assms(1)] this] obtain t' where
      "hq_timer h \<noteq> None" "\<not> hr_cancel (hq_req h)" "ts_tier s (hq_tr h) = Some t'" "tt_req t' = Some q" by blast
    then show "hq_timer h \<noteq> None" "\<not> hr_cancel (hq_req h)"
      "\<exists>t. ts_tier (upd_tier k f s) (hq_tr h) = Some t \<and> tt_req t = Some q" using assms(2,4) by auto
  qed (use assms(1,2,4) in \<open>auto simp: tr_inv_def links_ok_def split: if_split_asm\<close>)
  moreover have "tiers_ok L' (upd_tier k f s)"
    using assms(1,2,3,5,6) unfolding tr_inv_def tiers_ok_def by (auto split: if_split_asm)
  ultimately show ?thesis by (simp add: tr_inv_def)
qed

lemma tr_invD:
  assumes "tr_inv D L s" "ts_tier s k = Some t"
  shows "tier_wf t" "k \<notin> L \<Longrightarrow> settled t"
    "tt_req t = Some q \<Longrightarrow> q \<notin> D \<and> (\<exists>h. ts_treq s q = Some h \<and> hq_tr h = k)"
  using assms unfolding tr_inv_def links_ok_def tiers_ok_def by blast+

text \<open>A tier lets go of its request.\<close>

lemma tr_inv_detach:
  assumes "tr_inv D L s" "ts_tier s k = Some t" "tt_req t = Some q"
  shows "tr_inv (insert q D) (insert k L) (upd_tier k (\<lambda>t. t\<lparr>tt_req := None\<rparr>) s)"
proof -
  from tr_invD(3) [OF assms(1,2,3)] obtain h where h: "ts_treq s q = Some h" "hq_tr h = k" by blast
  have other: "tt_req t' \<noteq> Some q" if "ts_tier s k' = Some t'" "k' \<noteq> k" for k' t'
    using tr_invD(3) [OF assms(1) that(1), of q] h that(2) by auto
  have "links_ok (insert q D) (upd_tier k (\<lambda>t. t\<lparr>tt_req := None\<rparr>) s)"
    unfolding links_ok_def
  proof (intro conjI allI impI)
    fix k' t' q'
    assume t': "ts_tier (upd_tier k (\<lambda>t. t\<lparr>tt_req := None\<rparr>) s) k' = Some t'" "tt_req t' = Some q'"
    then have "k' \<noteq> k" "ts_tier s k' = Some t'" using assms(2) by (auto split: if_split_asm)
    with tr_invD(3) [OF assms(1) this(2) t'(2)] other t'(2)
    show "q' \<notin> insert q D" "\<exists>h. ts_treq (upd_tier k (\<lambda>t. t\<lparr>tt_req := None\<rparr>) s) q' = Some h \<and> hq_tr h = k'" by auto
  next
    fix q' h'
    assume h': "ts_treq (upd_tier k (\<lambda>t. t\<lparr>tt_req := None\<rparr>) s) q' = Some h'" "q' \<notin> insert q D"
    then have "ts_treq s q' = Some h'" "q' \<notin> D" by auto
    from links_treq [OF tr_inv_links(1) [OF assms(1)] this] obtain t' where t':
      "hq_timer h' \<noteq> None" "\<not> hr_cancel (hq_req h')" "ts_tier s (hq_tr h') = Some t'" "tt_req t' = Some q'" by blast
    with h' assms(2,3) show "hq_timer h' \<noteq> None" "\<not> hr_cancel (hq_req h')"
      "\<exists>t. ts_tier (upd_tier k (\<lambda>t. t\<lparr>tt_req := None\<rparr>) s) (hq_tr h') = Some t \<and> tt_req t = Some q'" by auto
  qed (use assms(1,2) in \<open>auto simp: tr_inv_def links_ok_def\<close>)
  moreover have "tiers_ok (insert k L) (upd_tier k (\<lambda>t. t\<lparr>tt_req := None\<rparr>) s)"
    using assms(1,2) unfolding tr_inv_def tiers_ok_def by (auto simp: tier_wf_def split: if_split_asm)
  ultimately show ?thesis by (simp add: tr_inv_def)
qed

text \<open>A detached request is freed.\<close>

lemma tr_inv_free:
  assumes "tr_inv (insert q D) L s" "httptr_free q s = Some s'" "q \<notin> D"
  shows "tr_inv D L s'"
proof -
  from assms(2) have s': "s' = s\<lparr>ts_treq := (ts_treq s)(q := None)\<rparr>" by (auto simp: httptr_free_def bind_Some_iff)
  show ?thesis
    using assms(1,3) unfolding s' tr_inv_def links_ok_def tiers_ok_def by (auto split: if_split_asm)
qed

lemma req_cancel_inv:
  assumes i: "tr_inv D L s" and t: "ts_tier s k = Some t" and c: "req_cancel k s = Some s'" and q: "tt_req t \<noteq> None"
  shows "tr_inv D (insert k L) s'" "ts_tier s' k = Some (t\<lparr>tt_req := None\<rparr>)"
    "\<forall>i. i \<noteq> k \<longrightarrow> ts_tier s' i = ts_tier s i" "ts_fresh s' = ts_fresh s" "ts_trackers s' = ts_trackers s"
    "\<forall>q \<in> D. ts_treq s' q = ts_treq s q"
proof -
  from q obtain r where r: "tt_req t = Some r" by blast
  from tr_invD(3) [OF i t r] obtain h where h: "ts_treq s r = Some h" "r \<notin> D" by blast
  let ?s1 = "upd_tier k (\<lambda>t. t\<lparr>tt_req := None\<rparr>) s"
  have "s' = ?s1\<lparr>ts_treq := (ts_treq s)(r := None)\<rparr>"
    using c t r h by (auto simp: req_cancel_def httptr_cancel_def httptr_free_def upd_tier_def)
  moreover from h have f: "httptr_free r ?s1 = Some (?s1\<lparr>ts_treq := (ts_treq s)(r := None)\<rparr>)"
    by (simp add: httptr_free_def)
  ultimately have "httptr_free r ?s1 = Some s'" by simp
  with tr_inv_free [OF tr_inv_detach [OF i t r] _ h(2)] show "tr_inv D (insert k L) s'" by blast
  show "ts_tier s' k = Some (t\<lparr>tt_req := None\<rparr>)" "\<forall>i. i \<noteq> k \<longrightarrow> ts_tier s' i = ts_tier s i" "ts_fresh s' = ts_fresh s"
    "ts_trackers s' = ts_trackers s" "\<forall>q \<in> D. ts_treq s' q = ts_treq s q"
    using \<open>s' = _\<close> t h by auto
qed

text \<open>A new request for a tier that has none.\<close>

lemma httptr_req_inv:
  assumes i: "tr_inv D L s" and t: "ts_tier s k = Some t" "tt_req t = None" "k \<in> L" and D: "\<forall>q \<in> D. q < ts_fresh s"
    and r: "httptr_req p k url ev s = Some (Some q, s1)"
  shows "tr_inv D L (upd_tier k (\<lambda>t. t\<lparr>tt_req := Some q\<rparr>) s1)" "ts_tier s1 = ts_tier s" "q = ts_fresh s"
    "ts_fresh s1 = q + 1" "ts_trackers s1 = ts_trackers s" "\<forall>i. i \<noteq> q \<longrightarrow> ts_treq s1 i = ts_treq s i"
proof -
  have nc: "\<not> hr_cancel req" if "http_get a b u x = Some req" for a b u x req
    using that by (auto simp: http_get_def split: if_split_asm option.split_asm prod.split_asm bool.split_asm)
  from r obtain req where g: "http_get (tv_mem (ts_env s)) (tv_alloc (ts_env s))
      (take 511 (tr_query (ts_env s) (ts_w s) (the (cw_tor (ts_w s) p)) (the (w_net (ts_w s) p)) url ev))
      (''User-Agent: '' @ tv_version (ts_env s) @ [CR, LF]) = Some req"
    and s1e: "q = ts_fresh s" "s1 = s\<lparr>ts_treq := (ts_treq s)(q \<mapsto> \<lparr>hq_tp = p, hq_tr = k, hq_req = req,
      hq_buf = iobuf_init (tv_alloc (ts_env s)) 4096, hq_ev = {}, hq_timer = Some 60, hq_sd = False, hq_event = ev\<rparr>), ts_fresh := q + 1\<rparr>"
    by (auto simp: httptr_req_def bind_Some_iff Let_def split: option.split_asm if_split_asm)
  with nc [OF g] obtain h where s1: "s1 = s\<lparr>ts_treq := (ts_treq s)(q \<mapsto> h), ts_fresh := q + 1\<rparr>" "q = ts_fresh s" "hq_tr h = k"
    "hq_timer h \<noteq> None" "\<not> hr_cancel (hq_req h)" by auto
  then show "ts_tier s1 = ts_tier s" "q = ts_fresh s" "ts_fresh s1 = q + 1" "ts_trackers s1 = ts_trackers s"
    "\<forall>i. i \<noteq> q \<longrightarrow> ts_treq s1 i = ts_treq s i" by auto
  have fr: "ts_treq s q = None" "q \<notin> D" "\<forall>i\<ge>ts_fresh s. ts_tier s i = None \<and> ts_treq s i = None"
    using i D s1(2) by (auto simp: tr_inv_def links_ok_def)
  have kq: "k < ts_fresh s" using fr(3) t(1) by (metis linorder_not_less option.distinct(1))
  have noq: "tt_req t' \<noteq> Some q" if "ts_tier s k' = Some t'" for k' t'
    using tr_invD(3) [OF i that, of q] fr(1) by auto
  have "links_ok D (upd_tier k (\<lambda>t. t\<lparr>tt_req := Some q\<rparr>) s1)"
    unfolding links_ok_def
  proof (intro conjI allI impI)
    fix k' t' q'
    assume t': "ts_tier (upd_tier k (\<lambda>t. t\<lparr>tt_req := Some q\<rparr>) s1) k' = Some t'" "tt_req t' = Some q'"
    show "q' \<notin> D" "\<exists>h. ts_treq (upd_tier k (\<lambda>t. t\<lparr>tt_req := Some q\<rparr>) s1) q' = Some h \<and> hq_tr h = k'"
      using t' t(1) s1 fr noq tr_invD(3) [OF i, of k' t' q'] by (auto split: if_split_asm)
  next
    fix q' h'
    assume h': "ts_treq (upd_tier k (\<lambda>t. t\<lparr>tt_req := Some q\<rparr>) s1) q' = Some h'" "q' \<notin> D"
    have old: "hq_timer h' \<noteq> None \<and> \<not> hr_cancel (hq_req h') \<and> (\<exists>t'. ts_tier s (hq_tr h') = Some t' \<and> tt_req t' = Some q')"
      if "q' \<noteq> q" using i h' that s1 unfolding tr_inv_def links_ok_def by auto
    show "hq_timer h' \<noteq> None" "\<not> hr_cancel (hq_req h')"
      "\<exists>t'. ts_tier (upd_tier k (\<lambda>t. t\<lparr>tt_req := Some q\<rparr>) s1) (hq_tr h') = Some t' \<and> tt_req t' = Some q'"
      using h' s1 t old by (cases "q' = q"; auto)+
  qed (use fr(3) s1 kq in auto)
  moreover have "tiers_ok L (upd_tier k (\<lambda>t. t\<lparr>tt_req := Some q\<rparr>) s1)"
    using i t s1 unfolding tr_inv_def tiers_ok_def by (auto simp: tier_wf_def split: if_split_asm)
  ultimately show "tr_inv D L (upd_tier k (\<lambda>t. t\<lparr>tt_req := Some q\<rparr>) s1)" by (simp add: tr_inv_def)
qed

lemma tr_inv_settle:
  "tr_inv D L s \<Longrightarrow> ts_tier s k = Some t \<Longrightarrow> settled t \<Longrightarrow> tr_inv D (L - {k}) s"
  unfolding tr_inv_def tiers_ok_def by auto

section \<open>The operations keep it\<close>

lemma all_failed_upd [simp]:
  "all_failed (t\<lparr>tt_timer := a\<rparr>) = all_failed t" "all_failed (t\<lparr>tt_req := b\<rparr>) = all_failed t"
  "all_failed (t\<lparr>tt_event := c\<rparr>) = all_failed t" "all_failed (t\<lparr>tt_cur := d\<rparr>) = all_failed t"
  "all_failed (t\<lparr>tt_active := f\<rparr>) = all_failed t" "all_failed (t\<lparr>tt_bad_conns := g\<rparr>) = all_failed t"
  "all_failed (t\<lparr>tt_interval := h\<rparr>) = all_failed t" "all_failed (t\<lparr>tt_has_responded := j\<rparr>) = all_failed t"
  by (simp_all add: all_failed_def tre_ok_def [abs_def])

lemma tier_wf_upd [simp]:
  "tier_wf (t\<lparr>tt_timer := a\<rparr>) = tier_wf t" "tier_wf (t\<lparr>tt_req := b\<rparr>) = tier_wf t"
  "tier_wf (t\<lparr>tt_event := c\<rparr>) = tier_wf t" "tier_wf (t\<lparr>tt_active := f\<rparr>) = tier_wf t"
  "tier_wf (t\<lparr>tt_bad_conns := g\<rparr>) = tier_wf t" "tier_wf (t\<lparr>tt_interval := h\<rparr>) = tier_wf t"
  "tier_wf (t\<lparr>tt_has_responded := j\<rparr>) = tier_wf t"
  by (simp_all add: tier_wf_def)

text \<open>What an operation on tier \<open>k\<close> leaves alone.\<close>

definition tier_frame :: "nat set \<Rightarrow> nat \<Rightarrow> tr_state \<Rightarrow> tr_state \<Rightarrow> bool" where
  "tier_frame D k s s' \<longleftrightarrow> (\<forall>i. i \<noteq> k \<longrightarrow> ts_tier s' i = ts_tier s i) \<and> ts_trackers s' = ts_trackers s \<and>
     ts_fresh s \<le> ts_fresh s' \<and> (\<forall>q \<in> D. ts_treq s' q = ts_treq s q) \<and> (ts_tier s k \<noteq> None \<longrightarrow> ts_tier s' k \<noteq> None)"

lemma tier_frame_refl [simp]: "tier_frame D k s s"
  by (simp add: tier_frame_def)

lemma tier_frame_trans: "tier_frame D k s s1 \<Longrightarrow> tier_frame D k s1 s' \<Longrightarrow> tier_frame D k s s'"
  unfolding tier_frame_def by auto

lemma tier_frame_upd [simp]: "tier_frame D k s (upd_tier k f s)"
  by (auto simp: tier_frame_def)

lemma tier_frame_upd_iff [simp]: "tier_frame D k s (upd_tier k f s1) = tier_frame D k s s1"
  by (auto simp: tier_frame_def)

lemma entry_send_inv:
  assumes i: "tr_inv D (insert k L) s" and t: "ts_tier s k = Some t" "tt_active t" "\<not> all_failed t" "e \<in> set (tt_trackers t)"
    and D: "\<forall>q \<in> D. q < ts_fresh s" and es: "entry_send k e ev s = Some s'"
  shows "tr_inv D (L - {k}) s' \<and> tier_frame D k s s'"
proof -
  obtain s1 where s1: "(if tt_req t \<noteq> None then req_cancel k s else Some s) = Some s1"
    using es t(1) by (auto simp: entry_send_def bind_Some_iff)
  have i1: "tr_inv D (insert k L) s1 \<and> ts_tier s1 k = Some (t\<lparr>tt_req := None\<rparr>) \<and> tier_frame D k s s1"
  proof (cases "tt_req t")
    case None
    then have "t\<lparr>tt_req := None\<rparr> = t" by simp
    with None s1 i t show ?thesis by simp
  next
    case (Some r)
    with s1 have c: "req_cancel k s = Some s1" "tt_req t \<noteq> None" by auto
    from req_cancel_inv [OF i t(1) c] show ?thesis by (auto simp: tier_frame_def)
  qed
  define t2 where "t2 = t\<lparr>tt_req := None, tt_event := ev, tt_cur := Some e\<rparr>"
  define s2 where "s2 = upd_tier k (\<lambda>t. t\<lparr>tt_event := ev, tt_cur := Some e\<rparr>) s1"
  have wf: "tier_wf t" using tr_invD(1) [OF i t(1)] .
  have t2: "ts_tier s2 k = Some t2" using i1 by (simp add: s2_def t2_def)
  have wf2: "tier_wf t2" using wf t(4) by (simp add: t2_def tier_wf_def)
  have i2: "tr_inv D (insert k L) s2"
    unfolding s2_def by (rule tr_inv_tier [where t = "t\<lparr>tt_req := None\<rparr>" and L = "insert k L"]) (use i1 wf2 in \<open>auto simp: t2_def\<close>)
  have f2: "tier_frame D k s s2" unfolding s2_def using i1 tier_frame_trans by auto
  show ?thesis
  proof (cases "ts_tlast s2 > now s2 - REQ_DELAY")
    case True
    let ?d = "max (ts_tnext s2) (ts_tlast s2) + REQ_DELAY"
    from es t(1) s1 True have s': "s' = upd_tier k (\<lambda>t. t\<lparr>tt_timer := Some (?d - now s2)\<rparr>) (s2\<lparr>ts_tnext := ?d\<rparr>)"
      by (simp add: entry_send_def s2_def Let_def)
    have n: "tr_inv D (insert k L) (s2\<lparr>ts_tnext := ?d\<rparr>)" by (rule tr_inv_cong [OF _ _ _ i2]) simp_all
    have "settled (t2\<lparr>tt_timer := Some x\<rparr>)" for x
      using t(2,3) by (simp add: settled_def t2_def)
    with n t2 wf2 have "tr_inv D (L - {k}) s'"
      unfolding s' by (intro tr_inv_tier [where t = t2 and L = "insert k L"]) (auto simp: tier_wf_def t2_def)
    moreover have "tier_frame D k s2 (s2\<lparr>ts_tnext := ?d\<rparr>)" by (simp add: tier_frame_def)
    ultimately show ?thesis using f2 unfolding s' by (metis tier_frame_trans tier_frame_upd)
  next
    case False
    let ?s3 = "upd_tier k (\<lambda>t. t\<lparr>tt_timer := None\<rparr>) s2"
    from es t(1) s1 False obtain r s4 where r: "req_send k ?s3 = Some (r, s4)"
      by (auto simp: entry_send_def s2_def Let_def bind_Some_iff)
    with es t(1) s1 False obtain q where q: "r = Some q" and s': "s' = (upd_tier k (\<lambda>t. t\<lparr>tt_req := Some q\<rparr>) s4)\<lparr>ts_tlast := now s4\<rparr>"
      by (auto simp: entry_send_def s2_def Let_def bind_Some_iff)
    have t3: "ts_tier ?s3 k = Some (t2\<lparr>tt_timer := None\<rparr>)" using t2 by simp
    have i3: "tr_inv D (insert k L) ?s3"
      by (rule tr_inv_tier [OF i2 t2]) (use wf2 in \<open>auto simp: tier_wf_def\<close>)
    have D3: "\<forall>q \<in> D. q < ts_fresh ?s3" using D f2 by (auto simp: tier_frame_def)
    obtain p url ev' where h: "httptr_req p k url ev' ?s3 = Some (Some q, s4)"
      using r q t2 by (auto simp: req_send_def bind_Some_iff)
    note n = httptr_req_inv [OF i3 t3 _ _ D3 h]
    have n1: "tr_inv D (insert k L) (upd_tier k (\<lambda>t. t\<lparr>tt_req := Some q\<rparr>) s4)"
      using n(1) by (simp add: t2_def)
    have tn: "ts_tier (upd_tier k (\<lambda>t. t\<lparr>tt_req := Some q\<rparr>) s4) k = Some (t2\<lparr>tt_timer := None, tt_req := Some q\<rparr>)"
      using n(2) t2 by (simp add: t2_def)
    have se: "settled (t2\<lparr>tt_timer := None, tt_req := Some q\<rparr>)"
      using t(2,3) by (simp add: settled_def t2_def)
    have "insert k L - {k} = L - {k}" by auto
    with tr_inv_settle [OF n1 tn se] have "tr_inv D (L - {k}) (upd_tier k (\<lambda>t. t\<lparr>tt_req := Some q\<rparr>) s4)" by simp
    then have "tr_inv D (L - {k}) s'" unfolding s' by (rule tr_inv_cong [rotated 3]) simp_all
    moreover have "tier_frame D k s2 s'"
      using n D f2 t2 unfolding s' by (auto simp: tier_frame_def t2_def)
    ultimately show ?thesis using f2 tier_frame_trans by blast
  qed
qed

lemma find_member: "List.find P xs = Some x \<Longrightarrow> x \<in> set xs"
  by (auto simp: find_Some_iff)

lemma q_first_member: "q_first xs = Some x \<Longrightarrow> x \<in> set xs"
  by (auto simp: q_first_Some)

lemma insert_minus_le: "insert k L - {k} \<subseteq> L"
  by auto

lemma tier_start_inv:
  assumes i: "tr_inv D {} s" and D: "\<forall>q \<in> D. q < ts_fresh s" and r: "tier_start k s = Some s'"
  shows "tr_inv D {} s' \<and> tier_frame D k s s'"
proof -
  from r obtain t e where t: "ts_tier s k = Some t" "q_first (tt_trackers t) = Some e"
    by (auto simp: tier_start_def bind_Some_iff split: if_split_asm)
  let ?f = "\<lambda>t. t\<lparr>tt_entry := (\<lambda>i. if i \<in> set (tt_trackers t)
              then map_option (\<lambda>x. x\<lparr>tre_failure := None\<rparr>) (tt_entry t i) else tt_entry t i),
            tt_has_responded := False, tt_bad_conns := 0, tt_active := True\<rparr>"
  from r t have es: "entry_send k e TR_EV_STARTED (upd_tier k ?f s) = Some s'"
    by (auto simp: tier_start_def split: if_split_asm)
  note e = q_first_member [OF t(2)]
  note wf = tr_invD(1) [OF i t(1)]
  have i1: "tr_inv D (insert k {}) (upd_tier k ?f s)"
    by (rule tr_inv_tier [OF i t(1)]) (use wf in \<open>auto simp: tier_wf_def\<close>)
  have "\<not> all_failed (?f t)"
    using e wf by (auto simp: all_failed_def tre_ok_def list_ex_iff tier_wf_def intro!: bexI [of _ e])
  with entry_send_inv [OF i1, of "?f t" e, OF _ _ _ _ _ es] t e D
  have "tr_inv D ({} - {k}) s' \<and> tier_frame D k (upd_tier k ?f s) s'" by simp
  then show ?thesis using tier_frame_trans [OF tier_frame_upd] by simp blast
qed

lemma entry_send_settled:
  assumes i: "tr_inv D {} s" and D: "\<forall>q \<in> D. q < ts_fresh s" and t: "ts_tier s k = Some t" "tt_active t"
    and e: "e \<in> set (tt_trackers t)" and es: "entry_send k e ev s = Some s'"
  shows "tr_inv D {} s' \<and> tier_frame D k s s'"
proof -
  have "\<not> all_failed t" using tr_invD(2) [OF i t(1)] t(2) by (simp add: settled_def)
  from entry_send_inv [OF tr_inv_mono [OF i] t(1,2) this e D es, of "{}"] show ?thesis by simp
qed

lemma tier_stop_inv:
  assumes i: "tr_inv D {} s" and D: "\<forall>q \<in> D. q < ts_fresh s" and r: "tier_stop k s = Some s'"
  shows "tr_inv D {} s' \<and> tier_frame D k s s'"
proof -
  from r obtain t where t: "ts_tier s k = Some t" by (auto simp: tier_stop_def bind_Some_iff)
  consider "\<not> tier_active t \<or> tt_event t = TR_EV_STOPPED" | "tier_active t" "tt_event t \<noteq> TR_EV_STOPPED"
    "\<not> tt_has_responded t \<and> tt_bad_conns t > 1" | "tier_active t" "tt_event t \<noteq> TR_EV_STOPPED"
    "\<not> (\<not> tt_has_responded t \<and> tt_bad_conns t > 1)" by blast
  then show ?thesis
  proof cases
    case 1
    with r t i show ?thesis by (auto simp: tier_stop_def)
  next
    case 2
    let ?s1 = "upd_tier k (\<lambda>t. t\<lparr>tt_timer := None\<rparr>) s"
    from r t 2 obtain s2 where s2: "(if tt_req t \<noteq> None then req_cancel k ?s1 else Some ?s1) = Some s2"
      and s': "s' = upd_tier k (\<lambda>t. t\<lparr>tt_active := False\<rparr>) s2"
      by (auto simp: tier_stop_def Let_def bind_Some_iff)
    have i1: "tr_inv D {k} ?s1" by (rule tr_inv_tier [OF i t]) (use tr_invD(1) [OF i t] in auto)
    have s2': "tr_inv D {k} s2 \<and> ts_tier s2 k = Some (t\<lparr>tt_timer := None, tt_req := None\<rparr>) \<and> tier_frame D k ?s1 s2"
    proof (cases "tt_req t")
      case None
      then have eq: "t\<lparr>tt_timer := None, tt_req := None\<rparr> = t\<lparr>tt_timer := None\<rparr>" by simp
      from None s2 have "s2 = ?s1" by simp
      with i1 t show ?thesis unfolding eq by simp
    next
      case (Some q)
      with s2 have c: "req_cancel k ?s1 = Some s2" by simp
      from req_cancel_inv [OF i1 _ c, of "t\<lparr>tt_timer := None\<rparr>"] t Some show ?thesis by (auto simp: tier_frame_def)
    qed
    have "tr_inv D {} s'"
      unfolding s' by (rule tr_inv_tier [where t = "t\<lparr>tt_timer := None, tt_req := None\<rparr>" and L = "{k}"])
        (use s2' tr_invD(1) [OF i t] in \<open>auto simp: settled_def\<close>)
    then show ?thesis using s2' unfolding s' by (meson tier_frame_trans tier_frame_upd)
  next
    case 3
    from r t 3 obtain e where e: "first_nonfailed t = Some e" "entry_send k e TR_EV_STOPPED s = Some s'"
      by (auto simp: tier_stop_def bind_Some_iff)
    with find_member have m: "e \<in> set (tt_trackers t)" by (auto simp: first_nonfailed_def)
    show ?thesis using entry_send_settled [OF i D t _ m e(2)] 3 by (simp add: tier_active_def)
  qed
qed

lemma tier_complete_inv:
  assumes i: "tr_inv D {} s" and D: "\<forall>q \<in> D. q < ts_fresh s" and r: "tier_complete k s = Some s'"
  shows "tr_inv D {} s' \<and> tier_frame D k s s'"
proof -
  from r obtain t where t: "ts_tier s k = Some t" by (auto simp: tier_complete_def bind_Some_iff)
  show ?thesis
  proof (cases "tier_active t \<and> tt_event t = TR_EV_EMPTY")
    case True
    with r t obtain e where e: "q_first (tt_trackers t) = Some e" "entry_send k e TR_EV_COMPLETED s = Some s'"
      by (auto simp: tier_complete_def bind_Some_iff)
    show ?thesis using entry_send_settled [OF i D t _ q_first_member [OF e(1)] e(2)] True by (simp add: tier_active_def)
  next
    case False
    with r t i show ?thesis by (auto simp: tier_complete_def)
  qed
qed

text \<open>When a timeout fires the assertions of its callback hold, so an entry is contacted.\<close>

lemma tier_timer_inv:
  assumes i: "tr_inv {} {} s" and t: "ts_tier s k = Some t" "tt_timer t \<noteq> None"
  shows "(\<exists>e. first_nonfailed t = Some e \<and>
      tier_timer_cb k s = entry_send k e (tt_event t) (upd_tier k (\<lambda>t. t\<lparr>tt_timer := None\<rparr>) s)) \<and>
    (\<forall>s'. tier_timer_cb k s = Some s' \<longrightarrow> tr_inv {} {} s' \<and> tier_frame {} k s s')"
proof -
  have se: "tt_active t" "\<not> all_failed t" using tr_invD(2) [OF i t(1)] t(2) by (auto simp: settled_def split: if_split_asm)
  then obtain e where e: "first_nonfailed t = Some e"
    by (cases "first_nonfailed t") (auto simp: first_nonfailed_def all_failed_def find_None_iff list_ex_iff)
  let ?s1 = "upd_tier k (\<lambda>t. t\<lparr>tt_timer := None\<rparr>) s"
  have fn: "first_nonfailed (t\<lparr>tt_timer := None\<rparr>) = Some e"
    using e by (simp add: first_nonfailed_def tre_ok_def [abs_def])
  have m: "e \<in> set (tt_trackers (t\<lparr>tt_timer := None\<rparr>))" using find_member e by (auto simp: first_nonfailed_def)
  have cb: "tier_timer_cb k s = entry_send k e (tt_event t) ?s1"
    using t(1) se fn by (simp add: tier_timer_cb_def tier_active_def)
  have i1: "tr_inv {} (insert k {}) ?s1" by (rule tr_inv_tier [OF i t(1)]) (use tr_invD(1) [OF i t(1)] in auto)
  have "tr_inv {} {} s' \<and> tier_frame {} k s s'" if "tier_timer_cb k s = Some s'" for s'
  proof -
    from that cb have es: "entry_send k e (tt_event t) ?s1 = Some s'" by simp
    from entry_send_inv [OF i1 _ _ _ m _ es] t(1) se have "tr_inv {} ({} - {k}) s' \<and> tier_frame {} k ?s1 s'" by simp
    then show ?thesis using tier_frame_trans [OF tier_frame_upd] by simp blast
  qed
  with e cb show ?thesis by blast
qed

section \<open>Answers\<close>

lemma rand_inv: "rand lo hi s = (r, s1) \<Longrightarrow> ts_tier s1 = ts_tier s \<and> ts_treq s1 = ts_treq s \<and> ts_fresh s1 = ts_fresh s \<and>
    ts_trackers s1 = ts_trackers s"
  by (auto simp: rand_def split: prod.split_asm)

text \<open>A tier whose request has just gone.\<close>

definition waiting :: "tr_tier \<Rightarrow> bool" where
  "waiting t \<longleftrightarrow> tt_active t \<and> \<not> all_failed t \<and> tt_req t = None \<and> tt_timer t = None \<and> tt_cur t \<noteq> None"

lemma tr_inv_timer:
  assumes "tr_inv D (insert k L) s" "ts_tier s k = Some t" "waiting t"
  shows "tr_inv D (L - {k}) (upd_tier k (\<lambda>t. t\<lparr>tt_timer := Some d\<rparr>) s) \<and>
    tr_inv D (L - {k}) (upd_tier k (\<lambda>t. t\<lparr>tt_active := False\<rparr>) s)"
proof
  have 1: "tier_wf t" "tr_inv D (insert k L) s" "ts_tier s k = Some t" using assms tr_invD(1) [OF assms(1,2)] by auto
  show "tr_inv D (L - {k}) (upd_tier k (\<lambda>t. t\<lparr>tt_timer := Some d\<rparr>) s)"
    by (rule tr_inv_tier [OF 1(2,3)]) (use 1(1) assms(3) in \<open>auto simp: settled_def waiting_def\<close>)
  show "tr_inv D (L - {k}) (upd_tier k (\<lambda>t. t\<lparr>tt_active := False\<rparr>) s)"
    by (rule tr_inv_tier [OF 1(2,3)]) (use 1(1) assms(3) in \<open>auto simp: settled_def waiting_def\<close>)
qed

lemma set_tl_dropWhile: "set (tl (dropWhile P xs)) \<subseteq> set xs"
  by (induction xs) auto

lemma result_conn_inv:
  assumes i: "tr_inv D {k} s" and t: "ts_tier s k = Some t" "waiting t" and D: "\<forall>q \<in> D. q < ts_fresh s"
    and r: "result_conn k s = Some s'"
  shows "tr_inv D {} s' \<and> tier_frame D k s s'"
proof -
  from t(2) obtain c where c: "tt_cur t = Some c" by (auto simp: waiting_def)
  have send: "tr_inv D {} v' \<and> tier_frame D k v v'"
    if "entry_send k e ev v = Some v'" "tr_inv D {k} v" "ts_tier v k = Some u" "waiting u" "e \<in> set (tt_trackers u)"
      "ts_fresh v = ts_fresh s" for e ev v v' u
    using entry_send_inv [of D k "{}" v u e ev v'] that D by (simp add: waiting_def)
  show ?thesis
  proof (cases "next_nonfailed t c")
    case (Some e)
    have "e \<in> set (tl (dropWhile (\<lambda>x. x \<noteq> c) (tt_trackers t)))"
      using Some find_member by (auto simp: next_nonfailed_def)
    then have "e \<in> set (tt_trackers t)" by (rule subsetD [OF set_tl_dropWhile])
    with r t c Some send [OF _ i t] show ?thesis by (simp add: result_conn_def)
  next
    case None
    define bad where "bad = tt_bad_conns t + 1"
    let ?s1 = "upd_tier k (\<lambda>t. t\<lparr>tt_bad_conns := bad\<rparr>) s"
    have i1: "tr_inv D {k} ?s1" by (rule tr_inv_tier [OF i t(1)]) (use tr_invD(1) [OF i t(1)] in auto)
    have t1: "ts_tier ?s1 k = Some (t\<lparr>tt_bad_conns := bad\<rparr>)" "waiting (t\<lparr>tt_bad_conns := bad\<rparr>)"
      using t by (simp_all add: waiting_def)
    have tm: "tr_inv D {} (upd_tier k (\<lambda>t. t\<lparr>tt_timer := Some d\<rparr>) s2) \<and> tier_frame D k s (upd_tier k (\<lambda>t. t\<lparr>tt_timer := Some d\<rparr>) s2)"
      if "rand lo hi ?s1 = (x, s2)" for lo hi x s2 d
    proof -
      note rr = rand_inv [OF that]
      have i2: "tr_inv D {k} s2" by (rule tr_inv_cong [OF _ _ _ i1]) (use rr in auto)
      have "ts_tier s2 k = Some (t\<lparr>tt_bad_conns := bad\<rparr>)" using rr t1 by simp
      with tr_inv_timer [OF i2 _ t1(2), of d] have "tr_inv D {} (upd_tier k (\<lambda>t. t\<lparr>tt_timer := Some d\<rparr>) s2)" by simp
      then show ?thesis using rr t(1) by (auto simp: tier_frame_def)
    qed
    have rc: "Some s' = (if tt_event t = TR_EV_STOPPED \<and> bad > 1 then Some (upd_tier k (\<lambda>t. t\<lparr>tt_active := False\<rparr>) ?s1)
      else if bad = 1 then q_first (tt_trackers t) \<bind> (\<lambda>e. entry_send k e (tt_event t) ?s1)
      else if bad = 2 then case rand 0 120 ?s1 of (r, s2) \<Rightarrow> Some (upd_tier k (\<lambda>t. t\<lparr>tt_timer := Some (240 + r)\<rparr>) s2)
      else case rand 0 300 ?s1 of (r, s2) \<Rightarrow> Some (upd_tier k (\<lambda>t. t\<lparr>tt_timer := Some (900 + r)\<rparr>) s2))"
      unfolding r [symmetric] by (simp only: result_conn_def t(1) c None bind.bind_lunit option.case bad_def Let_def)
    consider "tt_event t = TR_EV_STOPPED \<and> bad > 1" | "\<not> (tt_event t = TR_EV_STOPPED \<and> bad > 1)" "bad = 1"
      | "\<not> (tt_event t = TR_EV_STOPPED \<and> bad > 1)" "bad = 2" | "\<not> (tt_event t = TR_EV_STOPPED \<and> bad > 1)" "bad \<noteq> 1" "bad \<noteq> 2" by blast
    then show ?thesis
    proof cases
      case 1
      with rc have "s' = upd_tier k (\<lambda>t. t\<lparr>tt_active := False\<rparr>) ?s1"
        by simp
      then show ?thesis using tr_inv_timer [OF i1 t1] by (auto intro: tier_frame_trans [OF tier_frame_upd])
    next
      case 2
      from rc 2 obtain e where e: "q_first (tt_trackers t) = Some e" "entry_send k e (tt_event t) ?s1 = Some s'"
        by (auto dest!: sym [of "Some s'"] simp: bind_Some_iff)
      from send [OF e(2) i1 t1] q_first_member [OF e(1)] have "tr_inv D {} s' \<and> tier_frame D k ?s1 s'" by simp
      then show ?thesis using tier_frame_trans [OF tier_frame_upd] by blast
    next
      case 3
      obtain x s2 where x: "rand 0 120 ?s1 = (x, s2)" by force
      from rc 3 x have "s' = upd_tier k (\<lambda>t. t\<lparr>tt_timer := Some (240 + x)\<rparr>) s2"
        by simp
      with tm [OF x] show ?thesis by simp
    next
      case 4
      obtain x s2 where x: "rand 0 300 ?s1 = (x, s2)" by force
      from rc 4 x have "s' = upd_tier k (\<lambda>t. t\<lparr>tt_timer := Some (900 + x)\<rparr>) s2"
        by simp
      with tm [OF x] show ?thesis by simp
    qed
  qed
qed

lemma set_to_front: "c \<in> set xs \<Longrightarrow> set (q_insert_head (q_remove xs c) c) = set xs"
  by (auto simp: q_insert_head_def q_remove_def) (metis in_set_remove1 set_remove1_subset subsetD)+

lemma result_ok_inv:
  assumes i: "tr_inv D {k} s" and t: "ts_tier s k = Some t" "waiting t" and r: "result_ok k res s = Some s'"
  shows "tr_inv D {} s' \<and> tier_frame D k s s'"
proof -
  from t(2) obtain c where c: "tt_cur t = Some c" by (auto simp: waiting_def)
  note wf = tr_invD(1) [OF i t(1)]
  with c have cm: "c \<in> set (tt_trackers t)" by (simp add: tier_wf_def)
  let ?g = "\<lambda>t. t\<lparr>tt_bad_conns := 0, tt_has_responded := True, tt_trackers := q_insert_head (q_remove (tt_trackers t) c) c\<rparr>"
  have g: "tier_wf (?g u)" "settled u \<Longrightarrow> settled (?g u)" "tt_req (?g u) = tt_req u" if "tier_wf u" "tt_trackers u = tt_trackers t" for u
    using that set_to_front [OF cm] by (auto simp: tier_wf_def settled_def all_failed_def tre_ok_def [abs_def] list_ex_iff q_insert_head_def)
  have fin: "tr_inv D {} (upd_tier k ?g s1) \<and> tier_frame D k s (upd_tier k ?g s1)"
    if "tr_inv D {} s1" "ts_tier s1 k = Some u" "tt_trackers u = tt_trackers t" "tier_frame D k s s1" for s1 u
  proof -
    have "tr_inv D {} (upd_tier k ?g s1)"
      by (rule tr_inv_tier [OF that(1,2)]) (use g [OF tr_invD(1) [OF that(1,2)] that(3)] tr_invD(2) [OF that(1,2)] in auto)
    then show ?thesis using that(4) tier_frame_trans tier_frame_upd by blast
  qed
  show ?thesis
  proof (cases "tt_event t = TR_EV_STOPPED")
    case True
    with r t c have s': "s' = upd_tier k ?g (upd_tier k (\<lambda>t. t\<lparr>tt_active := False\<rparr>) s)"
      by (auto simp: result_ok_def)
    have "tr_inv D {} (upd_tier k (\<lambda>t. t\<lparr>tt_active := False\<rparr>) s)"
      using tr_inv_timer [OF i t] by simp
    from fin [OF this, of "t\<lparr>tt_active := False\<rparr>"] t(1) show ?thesis unfolding s' by simp
  next
    case False
    define iv where "iv = (if res_interval res > 0 then res_interval res else tt_interval t)"
    obtain d s2 where d: "(if iv > 0 then (iv, s) else rand (25 * 60) (30 * 60) s) = (d, s2)" by force
    let ?h = "\<lambda>t. t\<lparr>tt_event := TR_EV_EMPTY, tt_interval := iv, tt_timer := Some d\<rparr>"
    from r t c False d have s': "s' = upd_tier k ?g (upd_tier k ?h s2)"
      by (auto simp: result_ok_def Let_def iv_def)
    have rr: "ts_tier s2 = ts_tier s \<and> ts_treq s2 = ts_treq s \<and> ts_fresh s2 = ts_fresh s \<and> ts_trackers s2 = ts_trackers s"
      using d rand_inv by (auto split: if_split_asm)
    have i2: "tr_inv D {k} s2" by (rule tr_inv_cong [OF _ _ _ i]) (use rr in auto)
    have "tr_inv D {} (upd_tier k ?h s2)"
      by (rule tr_inv_tier [OF i2, where t = t]) (use rr t wf in \<open>auto simp: settled_def waiting_def\<close>)
    from fin [OF this, of "?h t"] rr t(1) show ?thesis unfolding s' by (auto simp: tier_frame_def)
  qed
qed

text \<open>The answer to the request that tier \<open>k\<close> has let go of.\<close>

lemma tr_result_inv:
  assumes i: "tr_inv D {k} (upd_tier k (\<lambda>t. t\<lparr>tt_req := None\<rparr>) s)" and t: "ts_tier s k = Some t"
    and w: "waiting (t\<lparr>tt_req := None\<rparr>)" and D: "\<forall>q \<in> D. q < ts_fresh s" and r: "tr_result k res s = Some s'"
  shows "tr_inv D {} s' \<and> tier_frame D k s s'"
proof -
  let ?s1 = "upd_tier k (\<lambda>t. t\<lparr>tt_req := None\<rparr>) s" and ?t = "t\<lparr>tt_req := None\<rparr>"
  have t1: "ts_tier ?s1 k = Some ?t" using t by simp
  have via: "tr_inv D {} s' \<and> tier_frame D k s s'" if "tr_inv D {} s' \<and> tier_frame D k ?s1 s'"
    using that tier_frame_trans [OF tier_frame_upd] by blast
  show ?thesis
  proof (cases "res_type res")
    case TR_RES_FAIL
    let ?f = "\<lambda>c msg t. t\<lparr>tt_entry := (tt_entry t)(c := map_option (\<lambda>x. x\<lparr>tre_failure := msg\<rparr>) (tt_entry t c))\<rparr>"
    from r TR_RES_FAIL t obtain c msg where c: "tt_cur t = Some c" "benc_str (res_failure res) = Some msg"
      by (auto simp: tr_result_def bind_Some_iff)
    let ?s2 = "upd_tier k (?f c msg) ?s1"
    have i2: "tr_inv D {k} ?s2"
      by (rule tr_inv_tier [OF i t1]) (use tr_invD(1) [OF i t1] in \<open>auto simp: tier_wf_def\<close>)
    have t2: "ts_tier ?s2 k = Some (?f c msg ?t)" using t by simp
    show ?thesis
    proof (cases "all_failed (?f c msg ?t)")
      case True
      with r TR_RES_FAIL t c t2 have "s' = upd_tier k (\<lambda>t. t\<lparr>tt_active := False\<rparr>) ?s2"
        by (simp add: tr_result_def)
      moreover have "tr_inv D {} (upd_tier k (\<lambda>t. t\<lparr>tt_active := False\<rparr>) ?s2)"
        by (rule tr_inv_tier [OF i2 t2]) (use w tr_invD(1) [OF i2 t2] in \<open>auto simp: settled_def waiting_def\<close>)
      ultimately show ?thesis by simp
    next
      case False
      with r TR_RES_FAIL t c t2 have rc: "result_conn k ?s2 = Some s'" by (simp add: tr_result_def)
      have "waiting (?f c msg ?t)" using False w by (simp add: waiting_def)
      from result_conn_inv [OF i2 t2 this _ rc] D have "tr_inv D {} s' \<and> tier_frame D k ?s2 s'" by simp
      then show ?thesis using tier_frame_trans [of D k s ?s2 s'] by simp
    qed
  next
    case TR_RES_CONN
    with r have "result_conn k ?s1 = Some s'" by (simp add: tr_result_def)
    with result_conn_inv [OF i t1 w _ this] D via show ?thesis by simp
  next
    case TR_RES_BAD
    with r have "result_ok k res ?s1 = Some s'" by (simp add: tr_result_def)
    with result_ok_inv [OF i t1 w this] via show ?thesis by simp
  next
    case TR_RES_OK
    with r have "result_ok k res ?s1 = Some s'" by (simp add: tr_result_def)
    with result_ok_inv [OF i t1 w this] via show ?thesis by simp
  qed
qed

section \<open>Torrents\<close>

lemma tier_kill_inv:
  assumes i: "tr_inv {} {} s" and r: "tier_kill k s = Some s'"
  shows "tr_inv {} {} s'"
proof -
  from r obtain t s1 where t: "ts_tier s k = Some t" and s1: "(if tt_req t \<noteq> None then req_cancel k s else Some s) = Some s1"
    and s': "s' = s1\<lparr>ts_tier := (ts_tier s1)(k := None)\<rparr>"
    by (auto simp: tier_kill_def bind_Some_iff)
  have "tr_inv {} {k} s1 \<and> (\<exists>t1. ts_tier s1 k = Some t1 \<and> tt_req t1 = None)"
  proof (cases "tt_req t")
    case None
    with s1 t tr_inv_mono [OF i, of "{k}"] show ?thesis by auto
  next
    case (Some q)
    with s1 have "req_cancel k s = Some s1" by simp
    from req_cancel_inv [OF i t this] Some show ?thesis by auto
  qed
  then obtain t1 where a: "tr_inv {} {k} s1" "ts_tier s1 k = Some t1" "tt_req t1 = None" by blast
  have "links_ok {} s'"
    unfolding links_ok_def
  proof (intro conjI allI impI)
    fix q h
    assume "ts_treq s' q = Some h"
    then have "ts_treq s1 q = Some h" unfolding s' by simp
    from links_treq [OF tr_inv_links(1) [OF a(1)] this] obtain u where u: "hq_timer h \<noteq> None" "\<not> hr_cancel (hq_req h)"
      "ts_tier s1 (hq_tr h) = Some u" "tt_req u = Some q" by blast
    moreover have "hq_tr h \<noteq> k" using a(2,3) u(3,4) by auto
    ultimately show "hq_timer h \<noteq> None" "\<not> hr_cancel (hq_req h)" "\<exists>u. ts_tier s' (hq_tr h) = Some u \<and> tt_req u = Some q"
      unfolding s' by simp_all
  qed (use a(1) in \<open>auto simp: s' tr_inv_def links_ok_def split: if_split_asm\<close>)
  moreover have "tiers_ok {} s'" using a(1) unfolding s' tr_inv_def tiers_ok_def by (auto split: if_split_asm)
  ultimately show ?thesis by (simp add: tr_inv_def)
qed

lemma foreach_tr_inv:
  assumes "foreach ks f s = Some s'" "tr_inv {} {} s" "\<And>k v v'. tr_inv {} {} v \<Longrightarrow> f k v = Some v' \<Longrightarrow> tr_inv {} {} v'"
  shows "tr_inv {} {} s'"
  using assms by (induction ks arbitrary: s) (auto simp: bind_Some_iff)

lemma tr_inv_trackers [simp]: "tr_inv D L (s\<lparr>ts_trackers := f\<rparr>) = tr_inv D L s"
  by (simp add: tr_inv_def links_ok_def tiers_ok_def)

lemma tr_ops_inv:
  assumes i: "tr_inv {} {} s"
  shows "tr_start t s = Some s' \<Longrightarrow> tr_inv {} {} s'" "tr_stop t s = Some s' \<Longrightarrow> tr_inv {} {} s'"
    "tr_complete t s = Some s' \<Longrightarrow> tr_inv {} {} s'" "tr_kill t s = Some s' \<Longrightarrow> tr_inv {} {} s'"
proof -
  show "tr_start t s = Some s' \<Longrightarrow> tr_inv {} {} s'"
    using i tier_start_inv [of "{}"] by (auto simp: tr_start_def bind_Some_iff elim!: foreach_tr_inv)
  show "tr_stop t s = Some s' \<Longrightarrow> tr_inv {} {} s'"
    using i tier_stop_inv [of "{}"] by (auto simp: tr_stop_def bind_Some_iff elim!: foreach_tr_inv)
  show "tr_complete t s = Some s' \<Longrightarrow> tr_inv {} {} s'"
    using i tier_complete_inv [of "{}"] by (auto simp: tr_complete_def bind_Some_iff elim!: foreach_tr_inv)
  show "tr_kill t s = Some s' \<Longrightarrow> tr_inv {} {} s'"
    using i tier_kill_inv by (auto simp: tr_kill_def bind_Some_iff elim!: foreach_tr_inv)
qed

text \<open>The entries of a new tier are there, and it is not active.\<close>

lemma add_trackers_wf:
  "fold (add_tracker m) urls (t, fresh) = (t', fresh') \<Longrightarrow>
     (\<forall>e \<in> set (tt_trackers t). tt_entry t e \<noteq> None) \<Longrightarrow> (tt_cur t = None \<and> tt_req t = None \<and> tt_timer t = None \<and> \<not> tt_active t) \<Longrightarrow>
   (\<forall>e \<in> set (tt_trackers t'). tt_entry t' e \<noteq> None) \<and> (tt_cur t' = None \<and> tt_req t' = None \<and> tt_timer t' = None \<and> \<not> tt_active t') \<and>
     fresh \<le> fresh'"
proof (induction urls arbitrary: t fresh)
  case (Cons u urls)
  obtain t1 f1 where a: "add_tracker m u (t, fresh) = (t1, f1)" by force
  then have "(\<forall>e \<in> set (tt_trackers t1). tt_entry t1 e \<noteq> None)" "fresh \<le> f1"
    "tt_cur t1 = None \<and> tt_req t1 = None \<and> tt_timer t1 = None \<and> \<not> tt_active t1"
    using Cons.prems by (auto simp: add_tracker_def q_insert_tail_def split: if_split_asm)
  with Cons.IH [of t1 f1] Cons.prems(1) a show ?case by simp
qed simp

lemma tier_create_inv:
  assumes i: "tr_inv {} {} s" and r: "tier_create t urls s = (ko, s')"
  shows "tr_inv {} {} s'"
proof -
  let ?t0 = "\<lparr>tt_tp = t, tt_cur = None, tt_trackers = [], tt_entry = (\<lambda>_. None), tt_timer = None, tt_req = None,
                tt_interval = 0, tt_bad_conns = 0, tt_active = False, tt_has_responded = False,
                tt_event = TR_EV_STARTED\<rparr>"
  obtain t1 fresh where f: "fold (add_tracker (tv_mem (ts_env s))) urls (?t0, ts_fresh s + 1) = (t1, fresh)" by force
  from add_trackers_wf [OF f] have w: "\<forall>e \<in> set (tt_trackers t1). tt_entry t1 e \<noteq> None" "ts_fresh s < fresh"
    "tt_cur t1 = None \<and> tt_req t1 = None \<and> tt_timer t1 = None \<and> \<not> tt_active t1" by auto
  show ?thesis
  proof (cases "tt_trackers t1 = []")
    case True
    with r f i show ?thesis by (auto simp: tier_create_def Let_def)
  next
    case False
    let ?t2 = "t1\<lparr>tt_interval := - 1, tt_event := TR_EV_STOPPED\<rparr>"
    from False r f have s': "s' = s\<lparr>ts_tier := (ts_tier s)(ts_fresh s \<mapsto> ?t2), ts_fresh := fresh\<rparr>"
      by (auto simp: tier_create_def Let_def)
    have n: "\<forall>j \<ge> ts_fresh s. ts_tier s j = None \<and> ts_treq s j = None" using i by (simp add: tr_inv_def links_ok_def)
    have "links_ok {} s'"
      unfolding links_ok_def
    proof (intro conjI allI impI)
      fix k u q
      assume "ts_tier s' k = Some u" "tt_req u = Some q"
      then show "q \<notin> {}" "\<exists>h. ts_treq s' q = Some h \<and> hq_tr h = k"
        using w(3) tr_invD(3) [OF i, of k u q] unfolding s' by (auto split: if_split_asm)
    next
      fix q h
      assume "ts_treq s' q = Some h"
      then have "ts_treq s q = Some h" unfolding s' by simp
      from links_treq [OF tr_inv_links(1) [OF i] this] obtain u where u: "hq_timer h \<noteq> None" "\<not> hr_cancel (hq_req h)"
        "ts_tier s (hq_tr h) = Some u" "tt_req u = Some q" by blast
      moreover have "hq_tr h \<noteq> ts_fresh s" using n u(3) by auto
      ultimately show "hq_timer h \<noteq> None" "\<not> hr_cancel (hq_req h)" "\<exists>u. ts_tier s' (hq_tr h) = Some u \<and> tt_req u = Some q"
        unfolding s' by simp_all
    qed (use n w(2) in \<open>auto simp: s'\<close>)
    moreover have "tiers_ok {} s'"
      using i w False unfolding s' tr_inv_def tiers_ok_def by (auto simp: tier_wf_def settled_def)
    ultimately show ?thesis by (simp add: tr_inv_def)
  qed
qed

lemma tiers_create_inv: "tr_inv {} {} s \<Longrightarrow> tiers_create t us ks s = (ks', s') \<Longrightarrow> tr_inv {} {} s'"
  by (induction t us ks s rule: tiers_create.induct)
    (auto split: prod.split_asm option.split_asm dest: tier_create_inv)

lemma tr_create_inv:
  assumes "tr_inv {} {} s" "tr_create rnd t mi s = Some s'"
  shows "tr_inv {} {} s'"
proof -
  from assms(2) obtain tiers where r: "(case tiers_create t tiers [] s of (ks, s1) \<Rightarrow>
      Some (s1\<lparr>ts_trackers := (ts_trackers s1)(t \<mapsto> ks)\<rparr>)) = Some s'"
    by (auto simp: tr_create_def bind_Some_iff)
  obtain ks s1 where c: "tiers_create t tiers [] s = (ks, s1)" by force
  from tiers_create_inv [OF assms(1) c] r c show ?thesis by auto
qed

section \<open>The events of a request\<close>

lemma tr_inv_treq:
  assumes i: "tr_inv {} {} s" and h: "ts_treq s q = Some h"
    and f: "hq_tr (f h) = hq_tr h" "hq_timer (f h) \<noteq> None" "\<not> hr_cancel (hq_req (f h))"
  shows "tr_inv {} {} (upd_treq q f s)"
proof -
  have old: "hq_timer g \<noteq> None \<and> \<not> hr_cancel (hq_req g) \<and> (\<exists>u. ts_tier s (hq_tr g) = Some u \<and> tt_req u = Some r)"
    if "ts_treq s r = Some g" for r g
    using i that unfolding tr_inv_def links_ok_def by blast
  have "links_ok {} (upd_treq q f s)"
    unfolding links_ok_def
  proof (intro conjI allI impI)
    fix k u r
    assume "ts_tier (upd_treq q f s) k = Some u" "tt_req u = Some r"
    then show "r \<notin> {}" "\<exists>h. ts_treq (upd_treq q f s) r = Some h \<and> hq_tr h = k"
      using tr_invD(3) [OF i, of k u r] f(1) h by auto
  next
    fix r g
    assume g: "ts_treq (upd_treq q f s) r = Some g"
    have new: "hq_timer g \<noteq> None \<and> \<not> hr_cancel (hq_req g) \<and> (\<exists>u. ts_tier (upd_treq q f s) (hq_tr g) = Some u \<and> tt_req u = Some r)"
    proof (cases "r = q")
      case True
      with g h have "g = f h" by simp
      with f old [OF h] True show ?thesis by simp
    next
      case False
      with g have "ts_treq s r = Some g" by simp
      from old [OF this] show ?thesis by simp
    qed
    show "hq_timer g \<noteq> None" "\<not> hr_cancel (hq_req g)" "\<exists>u. ts_tier (upd_treq q f s) (hq_tr g) = Some u \<and> tt_req u = Some r"
      using new by blast+
  qed (use i in \<open>auto simp: tr_inv_def links_ok_def\<close>)
  moreover have "tiers_ok {} (upd_treq q f s)" using i by (simp add: tr_inv_def tiers_ok_def)
  ultimately show ?thesis by (simp add: tr_inv_def)
qed

text \<open>The request \<open>q\<close> reports the end of what it did, and is freed.\<close>

lemma tr_inv_timer_off:
  "tr_inv D L (upd_tier k (\<lambda>t. t\<lparr>tt_req := None\<rparr>) s) \<Longrightarrow> q \<in> D \<Longrightarrow>
     tr_inv D L (upd_tier k (\<lambda>t. t\<lparr>tt_req := None\<rparr>) (upd_treq q (\<lambda>x. x\<lparr>hq_timer := a\<rparr>) s))"
  unfolding tr_inv_def links_ok_def tiers_ok_def by (auto split: if_split_asm)

lemma result_free_inv:
  assumes i: "tr_inv {} {} s" and h: "ts_treq s q = Some h" and v: "v = s \<or> v = upd_treq q (\<lambda>x. x\<lparr>hq_timer := None\<rparr>) s"
    and r: "tr_result (hq_tr h) res v = Some s1" and fr: "httptr_free q s1 = Some s'"
  shows "tr_inv {} {} s'"
proof -
  let ?k = "hq_tr h"
  from links_treq [OF tr_inv_links(1) [OF i] h] obtain t where t: "ts_tier s ?k = Some t" "tt_req t = Some q" by blast
  from tr_inv_detach [OF i t] have d: "tr_inv {q} {?k} (upd_tier ?k (\<lambda>t. t\<lparr>tt_req := None\<rparr>) s)" by simp
  then have d1: "tr_inv {q} {?k} (upd_tier ?k (\<lambda>t. t\<lparr>tt_req := None\<rparr>) v)"
    using v tr_inv_timer_off [OF d, of q] by auto
  have "settled t" using tr_invD(2) [OF i t(1)] by simp
  with t(2) have w: "waiting (t\<lparr>tt_req := None\<rparr>)" by (auto simp: settled_def waiting_def split: if_split_asm)
  have "q < ts_fresh s" using i h by (metis links_ok_def linorder_not_less option.distinct(1) tr_inv_links(1))
  with v have lt: "\<forall>x \<in> {q}. x < ts_fresh v" by auto
  have "ts_tier v ?k = Some t" using t(1) v by auto
  from tr_result_inv [OF d1 this w lt r] have "tr_inv {q} {} s1" by blast
  from tr_inv_free [of q "{}", OF _ fr] this show ?thesis by simp
qed

lemma parse_reply_frame:
  assumes "parse_reply t content res s = Some (res1, s1)"
  shows "\<exists>w. s1 = s\<lparr>ts_w := w\<rparr>"
proof (cases "benc_validate content")
  case None
  with assms obtain f where f: "benc_dget_any content ''failure reason'' = Some f"
    by (auto simp: parse_reply_def Let_def bind_Some_iff)
  have id: "\<exists>w. s = s\<lparr>ts_w := w\<rparr>" by (rule exI [of _ "ts_w s"]) simp
  show ?thesis
  proof (cases f)
    case None
    with assms f \<open>benc_validate content = None\<close> show ?thesis
      by (auto simp: parse_reply_def Let_def bind_Some_iff split: if_split_asm prod.split_asm)
  next
    case (Some b)
    with assms f \<open>benc_validate content = None\<close> id show ?thesis by (auto simp: parse_reply_def Let_def split: if_split_asm)
  qed
next
  case (Some x)
  with assms have "s1 = s\<lparr>ts_w := ts_w s\<rparr>" by (auto simp: parse_reply_def Let_def)
  then show ?thesis by blast
qed

lemma tr_inv_w [simp]: "tr_inv D L (s\<lparr>ts_w := w\<rparr>) = tr_inv D L s"
  by (simp add: tr_inv_def links_ok_def tiers_ok_def)

text \<open>The callback keeps the owner's side of the bargain.\<close>

interpretation htr: http_owner "http_cb q" "\<lambda>s. tr_inv {} {} s \<and> ts_treq s q \<noteq> None" "\<lambda>s. tr_inv {} {} s" for q
proof
  fix s s' :: tr_state and r c
  assume "tr_inv {} {} s \<and> ts_treq s q \<noteq> None"
  then obtain h where i: "tr_inv {} {} s" and h: "ts_treq s q = Some h" by blast
  show "\<not> final r \<Longrightarrow> http_cb q r s = Some (False, s') \<Longrightarrow> tr_inv {} {} s' \<and> ts_treq s' q \<noteq> None"
  proof -
    assume r: "\<not> final r" "http_cb q r s = Some (False, s')"
    have "s' = s \<or> (\<exists>b. s' = upd_treq q (\<lambda>x. x\<lparr>hq_buf := b\<rparr>) s)"
      using r h by (cases r) (auto simp: http_cb_def final_def Let_def bind_Some_iff split: if_split_asm prod.split_asm bool.split_asm)
    then show ?thesis
    proof
      assume "\<exists>b. s' = upd_treq q (\<lambda>x. x\<lparr>hq_buf := b\<rparr>) s"
      then obtain b where s': "s' = upd_treq q (\<lambda>x. x\<lparr>hq_buf := b\<rparr>) s" ..
      show ?thesis unfolding s'
        using tr_inv_treq [OF i h, of "\<lambda>x. x\<lparr>hq_buf := b\<rparr>"] links_treq [OF tr_inv_links(1) [OF i] h] h by auto
    qed (use i h in simp)
  qed
  show "\<not> final r \<Longrightarrow> http_cb q r s = Some (True, s') \<Longrightarrow> tr_inv {} {} s'"
    using h result_free_inv [OF i h] by (cases r) (auto simp: http_cb_def httptr_cancel_def final_def Let_def bind_Some_iff
        split: if_split_asm prod.split_asm bool.split_asm)
  show "final r \<Longrightarrow> http_cb q r s = Some (c, s') \<Longrightarrow> tr_inv {} {} s'"
  proof -
    assume r: "final r" "http_cb q r s = Some (c, s')"
    then consider "r = HTTP_T_ERR" | "r = HTTP_T_DONE" by (auto simp: final_def)
    then show ?thesis
    proof cases
      case 1
      with r h show ?thesis by (auto simp: http_cb_def bind_Some_iff intro: result_free_inv [OF i h])
    next
      case 2
      let ?tres = "\<lparr>res_type = TR_RES_FAIL, res_failure = '''', res_interval = - 1\<rparr>"
      define pr where "pr = (if hq_event h = TR_EV_STOPPED then Some (?tres\<lparr>res_type := TR_RES_OK\<rparr>, s)
           else parse_reply (hq_tp h) (iobuf_data (hq_buf h)) ?tres s)"
      from 2 r h have "pr \<bind> (\<lambda>(tres1, s1). tr_result (hq_tr h) tres1 s1 \<bind>
            (\<lambda>s2. httptr_free q s2 \<bind> (\<lambda>s3. Some (False, s3)))) = Some (c, s')"
        by (simp add: http_cb_def Let_def pr_def)
      then obtain res s1 s2 where e: "pr = Some (res, s1)"
        "tr_result (hq_tr h) res s1 = Some s2" "httptr_free q s2 = Some s'"
        by (auto simp: bind_Some_iff)
      have s1: "\<exists>w. s1 = s\<lparr>ts_w := w\<rparr>"
      proof (cases "hq_event h = TR_EV_STOPPED")
        case True
        with e(1) have "s1 = s\<lparr>ts_w := ts_w s\<rparr>" by (simp add: pr_def)
        then show ?thesis by blast
      qed (use e(1) parse_reply_frame in \<open>auto simp: pr_def\<close>)
      then have "tr_inv {} {} s1" "ts_treq s1 q = Some h" using i h by auto
      from result_free_inv [OF this _ e(2,3)] show ?thesis by simp
    qed
  qed
qed

lemma put_back_inv:
  assumes "htr.fine q r"
  shows "tr_inv {} {} (put_back q e want r)"
proof (cases "fst r")
  case None
  with assms [unfolded htr.fine_def] show ?thesis by (cases r) (simp add: put_back_def)
next
  case (Some req)
  obtain s where r: "r = (Some req, s)" using Some by (cases r) auto
  with assms [unfolded htr.fine_def] obtain h where i: "tr_inv {} {} s" and h: "ts_treq s q = Some h" and c: "\<not> hr_cancel req" by auto
  from links_treq [OF tr_inv_links(1) [OF i] h] have "hq_timer h \<noteq> None" by blast
  with tr_inv_treq [OF i h, of "\<lambda>x. x\<lparr>hq_req := req, hq_ev := if want req then hq_ev x else hq_ev x - {e}\<rparr>"] c r
  show ?thesis by (simp add: put_back_def)
qed

lemma httptr_cbs_inv:
  assumes i: "tr_inv {} {} s"
  shows "httptr_read_cb q ans s = Some s' \<Longrightarrow> tr_inv {} {} s'" "httptr_write_cb q ans' s = Some s' \<Longrightarrow> tr_inv {} {} s'"
    "httptr_timeout_cb q s = Some s' \<Longrightarrow> tr_inv {} {} s'" "httptr_nc_cb q err s = Some s' \<Longrightarrow> tr_inv {} {} s'"
proof -
  have a: "tr_inv {} {} s \<and> ts_treq s q \<noteq> None \<and> \<not> hr_cancel (hq_req h)" if "ts_treq s q = Some h" for h
    using i that by (auto simp: tr_inv_def links_ok_def)
  show "httptr_read_cb q ans s = Some s' \<Longrightarrow> tr_inv {} {} s'"
    by (auto simp: httptr_read_cb_def bind_Some_iff intro!: put_back_inv htr.http_read_fine dest: a)
  show "httptr_write_cb q ans' s = Some s' \<Longrightarrow> tr_inv {} {} s'"
    by (auto simp: httptr_write_cb_def bind_Some_iff intro!: put_back_inv htr.http_write_fine dest: a)
  show "httptr_timeout_cb q s = Some s' \<Longrightarrow> tr_inv {} {} s'"
    by (auto simp: httptr_timeout_cb_def httptr_cancel_def bind_Some_iff intro: result_free_inv [OF i])
  show "httptr_nc_cb q err s = Some s' \<Longrightarrow> tr_inv {} {} s'"
  proof -
    assume r: "httptr_nc_cb q err s = Some s'"
    then obtain h where h: "ts_treq s q = Some h" by (auto simp: httptr_nc_cb_def bind_Some_iff)
    show ?thesis
    proof (cases err)
      case True
      with r h show ?thesis by (auto simp: httptr_nc_cb_def bind_Some_iff intro: result_free_inv [OF i h])
    next
      case False
      with r h have "s' = upd_treq q (\<lambda>x. x\<lparr>hq_sd := True, hq_ev := (if http_want_read (hq_req x) then {EV_READ} else {}) \<union>
          (if http_want_write (hq_req x) then {EV_WRITE} else {}), hq_timer := Some 30\<rparr>) s"
        by (simp add: httptr_nc_cb_def)
      then show ?thesis using tr_inv_treq [OF i h] a [OF h] by simp
    qed
  qed
qed

section \<open>Reachable states\<close>

text \<open>What can happen to the trackers; the rest of the program may change the world in between.\<close>

inductive tr_step :: "tr_state \<Rightarrow> tr_state \<Rightarrow> bool" where
  others: "tr_step s (s\<lparr>ts_w := w\<rparr>)"
| create: "tr_create rnd t mi s = Some s' \<Longrightarrow> tr_step s s'"
| start: "tr_start t s = Some s' \<Longrightarrow> tr_step s s'"
| stop: "tr_stop t s = Some s' \<Longrightarrow> tr_step s s'"
| complete: "tr_complete t s = Some s' \<Longrightarrow> tr_step s s'"
| kill: "tr_kill t s = Some s' \<Longrightarrow> tr_step s s'"
| tier_timeout: "ts_tier s k = Some t \<Longrightarrow> tt_timer t \<noteq> None \<Longrightarrow> tier_timer_cb k s = Some s' \<Longrightarrow> tr_step s s'"
| readable: "httptr_read_cb q ans s = Some s' \<Longrightarrow> tr_step s s'"
| writable: "httptr_write_cb q ans' s = Some s' \<Longrightarrow> tr_step s s'"
| req_timeout: "httptr_timeout_cb q s = Some s' \<Longrightarrow> tr_step s s'"
| connected: "httptr_nc_cb q err s = Some s' \<Longrightarrow> tr_step s s'"

inductive tr_reach :: "tr_state \<Rightarrow> bool" where
  init: "ts_tier s = Map.empty \<Longrightarrow> ts_treq s = Map.empty \<Longrightarrow> tr_reach s"
| step: "tr_reach s \<Longrightarrow> tr_step s s' \<Longrightarrow> tr_reach s'"

lemma tr_step_inv: "tr_step s s' \<Longrightarrow> tr_inv {} {} s \<Longrightarrow> tr_inv {} {} s'"
  by (induction rule: tr_step.induct) (auto dest: tr_create_inv tr_ops_inv httptr_cbs_inv tier_timer_inv)

lemma tr_reach_inv: "tr_reach s \<Longrightarrow> tr_inv {} {} s"
  by (induction rule: tr_reach.induct) (auto dest: tr_step_inv simp: tr_inv_def links_ok_def tiers_ok_def)

text \<open>C17. In every reachable state of the trackers a tier that is active has a tracker that has not failed and is waiting for
  exactly one thing: for its own timeout, or for a request of its own that is under way and whose timeout is pending. A
  tier that is not active has neither. When the timeout of a tier fires the assertions of its callback hold and the first entry
  that has not failed is contacted. So no order of answers, errors, timeouts and calls leaves an active tier stuck.\<close>

theorem tier_never_stalls:
  assumes "tr_reach s" "ts_tier s k = Some t"
  shows "(if tt_active t
      then \<not> all_failed t \<and> (tt_timer t = None \<or> tt_req t = None) \<and>
        (tt_timer t \<noteq> None \<or> (\<exists>q h. tt_req t = Some q \<and> ts_treq s q = Some h \<and> hq_tr h = k \<and> hq_timer h \<noteq> None))
      else tt_timer t = None \<and> tt_req t = None) \<and>
    (tt_timer t = None \<or> (\<exists>e. first_nonfailed t = Some e \<and>
       tier_timer_cb k s = entry_send k e (tt_event t) (upd_tier k (\<lambda>t. t\<lparr>tt_timer := None\<rparr>) s)))"
proof -
  note i = tr_reach_inv [OF assms(1)]
  have "\<exists>h. ts_treq s q = Some h \<and> hq_tr h = k \<and> hq_timer h \<noteq> None" if q: "tt_req t = Some q" for q
  proof -
    from tr_invD(3) [OF i assms(2) q] obtain h where h: "ts_treq s q = Some h" "hq_tr h = k" by blast
    from links_treq [OF tr_inv_links(1) [OF i] h(1)] h show ?thesis by blast
  qed
  with tr_invD(2) [OF i assms(2)] tier_timer_inv [OF i assms(2)] show ?thesis
    by (cases "tt_timer t"; cases "tt_req t") (auto simp: settled_def split: if_split_asm)
qed

text \<open>A torrent with one tracker is started in the second after another request: the tier waits for its turn.\<close>

definition sample_trackers :: tr_state where
  "sample_trackers = \<lparr>ts_w = sample_swarm,
     ts_env = \<lparr>tv_alloc = (\<lambda>_. Some []), tv_mem = True, tv_version = ''btpd'', tv_key = 1, tv_ip = None, tv_port = 6881, tv_numwant = 50,
       tv_ipv4 = True, tv_ipv6 = False, tv_connect_name = (\<lambda>_ _. None), tv_connect_addr = (\<lambda>_. None)\<rparr>,
     ts_tlast = 100, ts_tnext = 0, ts_tier = Map.empty, ts_treq = Map.empty, ts_fresh = 0, ts_trackers = Map.empty\<rparr>"

definition sample_tier :: tr_tier where
  "sample_tier = \<lparr>tt_tp = 0, tt_cur = None, tt_trackers = [1], tt_entry = [1 \<mapsto> \<lparr>tre_failure = None, tre_url = ''http://a/''\<rparr>],
     tt_timer = None, tt_req = None, tt_interval = - 1, tt_bad_conns = 0, tt_active = False, tt_has_responded = False,
     tt_event = TR_EV_STOPPED\<rparr>"

lemma sample_create: "tr_create (\<lambda>_ _ _. 0) 0 ''d8:announce9:http://a/e'' sample_trackers =
    Some (sample_trackers\<lparr>ts_tier := [0 \<mapsto> sample_tier], ts_fresh := 2, ts_trackers := [0 \<mapsto> [0]]\<rparr>)"
proof -
  have a: "mi_announce (\<lambda>_ _ _. 0) ''d8:announce9:http://a/e'' = Some (Some [[''http://a/'']])"
    by (simp add: mi_eval mi_announce_def mi_shuffle_announce_def shuffle_tier_def)
  have "Option.is_none (http_url_parse True ''http://a/'') = False" by code_simp
  then obtain y where u: "http_url_parse True ''http://a/'' = Some y"
    by (cases "http_url_parse True ''http://a/''") simp_all
  from a u show ?thesis
    by (simp add: tr_create_def tier_create_def add_tracker_def Let_def sample_trackers_def sample_tier_def q_insert_tail_def)
qed

lemma sample_start: "tr_start 0 (sample_trackers\<lparr>ts_tier := [0 \<mapsto> sample_tier], ts_fresh := 2, ts_trackers := [0 \<mapsto> [0]]\<rparr>) =
    Some (sample_trackers\<lparr>ts_tier := [0 \<mapsto> sample_tier\<lparr>tt_cur := Some 1, tt_active := True, tt_event := TR_EV_STARTED, tt_timer := Some 1\<rparr>],
      ts_fresh := 2, ts_trackers := [0 \<mapsto> [0]], ts_tnext := 101\<rparr>)"
proof -
  show ?thesis
    by (simp add: tr_start_def tier_start_def tier_active_def sample_tier_def sample_trackers_def q_first_def entry_send_def
        upd_tier_def now_def REQ_DELAY_def)
      (auto simp: fun_eq_iff)
qed

theorem tier_never_stalls_witness:
  "let s = sample_trackers\<lparr>ts_tier := [0 \<mapsto> sample_tier\<lparr>tt_cur := Some 1, tt_active := True, tt_event := TR_EV_STARTED, tt_timer := Some 1\<rparr>],
      ts_fresh := 2, ts_trackers := [0 \<mapsto> [0]], ts_tnext := 101\<rparr> in
   \<exists>e. first_nonfailed (sample_tier\<lparr>tt_cur := Some 1, tt_active := True, tt_event := TR_EV_STARTED, tt_timer := Some 1\<rparr>) = Some e \<and>
     tier_timer_cb 0 s = entry_send 0 e TR_EV_STARTED (upd_tier 0 (\<lambda>t. t\<lparr>tt_timer := None\<rparr>) s)"
proof -
  let ?t = "sample_tier\<lparr>tt_cur := Some 1, tt_active := True, tt_event := TR_EV_STARTED, tt_timer := Some 1\<rparr>"
  let ?s = "sample_trackers\<lparr>ts_tier := [0 \<mapsto> ?t], ts_fresh := 2, ts_trackers := [0 \<mapsto> [0]], ts_tnext := 101\<rparr>"
  have "tr_reach sample_trackers" by (rule tr_reach.init) (simp_all add: sample_trackers_def)
  from tr_reach.step [OF tr_reach.step [OF this tr_step.create [OF sample_create]] tr_step.start [OF sample_start]]
  have "tr_reach ?s" .
  from tier_never_stalls [OF this, of 0 ?t] show ?thesis by (simp add: Let_def)
qed

end
