(* ===== verification/BencPut.thy ===== *)
theory BencPut
  imports BencGet Printf
begin

text \<open>
  What is printed with \<^verbatim>\<open>iobuf_print\<close> encodes the values it is printed from, and the accessors of benc.c read them back.
  Shared by the information files, the command interface and its clients.
\<close>

section \<open>Printing encodes\<close>

lemma digits_show_nat [simp]: "digits (show_nat n)"
  using show_nat_digits by (simp add: digits_def)

text \<open>A reading of length fields that is right for what is printed.\<close>

definition reads_lengths :: "(cstr \<Rightarrow> nat) \<Rightarrow> bool" where
  "reads_lengths rd \<longleftrightarrow> (\<forall>n < 2 ^ 64. rd (show_nat n) = n)"

lemma reads_lengths_rd [simp]: "reads_lengths dec_val" "reads_lengths wrap_rd"
  by (simp_all add: reads_lengths_def wrap_rd_def wrap_len_dec)

lemma enc_text: "reads_lengths rd \<Longrightarrow> length s < 2 ^ 64 \<Longrightarrow> encodes rd (BStr s) (benc_text s)"
  by (auto simp: reads_lengths_def benc_text_def intro!: Enc_Str)

lemma enc_num: "encodes rd (BInt i) (benc_num i)"
proof (cases "i < 0")
  case True
  with Enc_Neg [of "show_nat (nat (- i))" rd] show ?thesis by (simp add: benc_num_def show_int_def)
next
  case False
  with Enc_Int [of "show_nat (nat i)" rd] show ?thesis by (simp add: benc_num_def show_int_def)
qed

definition benc_list :: "cstr list \<Rightarrow> cstr" where
  "benc_list bs = CHR ''l'' # concat bs @ ''e''"

definition benc_dict :: "(cstr \<times> cstr) list \<Rightarrow> cstr" where
  "benc_dict kbs = CHR ''d'' # concat (map (\<lambda>(k, b). benc_text k @ b) kbs) @ ''e''"

lemma encodes_list_concat: "list_all2 (encodes rd) vs bs \<Longrightarrow> encodes_list rd vs (concat bs)"
  by (induction rule: list_all2_induct) (auto intro: Enc_List_Nil Enc_List_Cons)

lemma enc_list: "list_all2 (encodes rd) vs bs \<Longrightarrow> encodes rd (BList vs) (benc_list bs)"
  unfolding benc_list_def by (intro Enc_List encodes_list_concat)

definition enc_entry :: "(cstr \<Rightarrow> nat) \<Rightarrow> cstr \<times> bval \<Rightarrow> cstr \<times> cstr \<Rightarrow> bool" where
  "enc_entry rd kv kb \<longleftrightarrow> fst kb = fst kv \<and> length (fst kv) < 2 ^ 64 \<and> encodes rd (snd kv) (snd kb)"

lemma encodes_dict_concat:
  "reads_lengths rd \<Longrightarrow> list_all2 (enc_entry rd) kvs kbs \<Longrightarrow>
     encodes_dict rd kvs (concat (map (\<lambda>(k, b). benc_text k @ b) kbs))"
proof (induction kvs arbitrary: kbs)
  case (Cons kv kvs)
  obtain k v where kv: "kv = (k, v)" by force
  from Cons.prems(2) obtain kb kbs' where kb: "kbs = kb # kbs'" "enc_entry rd kv kb" "list_all2 (enc_entry rd) kvs kbs'"
    by (auto simp: list_all2_Cons1)
  from kb kv obtain b where b: "kbs = (k, b) # kbs'" "length k < 2 ^ 64" "encodes rd v b" "list_all2 (enc_entry rd) kvs kbs'"
    by (cases kb) (auto simp: enc_entry_def)
  from Enc_Dict_Cons [OF enc_text [OF Cons.prems(1) b(2)] b(3) Cons.IH [OF Cons.prems(1) b(4)]] b(1) kv
  show ?case by simp
qed (simp add: Enc_Dict_Nil)

lemma enc_dict: "reads_lengths rd \<Longrightarrow> list_all2 (enc_entry rd) kvs kbs \<Longrightarrow> encodes rd (BDict kvs) (benc_dict kbs)"
  unfolding benc_dict_def by (intro Enc_Dict encodes_dict_concat)

section \<open>Reading back\<close>

lemma benc_int_encodes:
  assumes "encodes dec_val (BInt i) b" "- (2 ^ 63) \<le> i" "i < 2 ^ 63"
  shows "benc_isint (b @ r) \<and> benc_int (b @ r) = Some i \<and>
    (\<forall>c r'. r = c # r' \<longrightarrow> benc_int_next (b @ r) = Some (if c = CHR ''e'' then None else Some r))"
proof -
  consider (pos) ds where "i = int (dec_val ds)" "b = CHR ''i'' # ds @ ''e''" "digits ds"
    | (neg) ds where "i = - int (dec_val ds)" "b = CHR ''i'' # CHR ''-'' # ds @ ''e''" "digits ds"
    using assms(1) by (auto elim: encodes_intE)
  then show ?thesis
  proof cases
  case (pos ds)
  note 1 = this
  have st: "strtoll (ds @ CHR ''e'' # r) = (i, CHR ''e'' # r)"
    using 1 assms(2,3) digits_hd [OF 1(3)] by (auto simp: strtoll_def digits_span Let_def digits_def)
  with 1 show ?thesis by (auto simp: benc_isint_def benc_int_def benc_int_next_def)
next
  case (neg ds)
  note 2 = this
  have st: "strtoll (CHR ''-'' # ds @ CHR ''e'' # r) = (i, CHR ''e'' # r)"
    using 2 assms(2,3) by (auto simp: strtoll_def digits_span Let_def digits_def)
  with 2 show ?thesis by (auto simp: benc_isint_def benc_int_def benc_int_next_def)
  qed
qed

lemma benc_str_encodes:
  assumes "encodes dec_val (BStr s) b" "length s < 2 ^ 64"
  shows "benc_isstr (b @ r) \<and> benc_str (b @ r) = Some (Some s)"
  using benc_isstr_encodes [OF assms(1)] benc_mem_encodes [OF assms] by (simp add: benc_str_def benc_copy_def)

text \<open>A value at the start of a buffer.\<close>

definition starts :: "cstr \<Rightarrow> bval \<Rightarrow> bool" where
  "starts q v \<longleftrightarrow> (\<exists>a t. q = a @ t \<and> encodes dec_val v a \<and> length a < 2 ^ 64)"

lemma startsI: "encodes dec_val v a \<Longrightarrow> length a < 2 ^ 64 \<Longrightarrow> starts (a @ r) v"
  unfolding starts_def by blast

lemma points_to_starts: "points_to v q b \<Longrightarrow> starts q v"
  by (auto simp: points_to_def starts_def)

lemma encodes_str_length: "encodes rd (BStr s) b \<Longrightarrow> length s < length b"
  by (auto elim!: encodes_strE)

lemma starts_str:
  assumes "starts q (BStr s)"
  shows "benc_isstr q" "benc_str q = Some (Some s)" "\<exists>r. benc_mem q = Some (Some (length s, s @ r))" "\<not> benc_isint q" "\<not> benc_isdct q"
    "\<not> benc_islst q"
proof -
  from assms obtain a t where q: "q = a @ t" "encodes dec_val (BStr s) a" "length a < 2 ^ 64" by (auto simp: starts_def)
  have "length s < 2 ^ 64" using encodes_str_length [OF q(2)] q(3) by simp
  from benc_str_encodes [OF q(2) this] benc_mem_encodes [OF q(2) this] q(1)
  show "benc_isstr q" "benc_str q = Some (Some s)" "\<exists>r. benc_mem q = Some (Some (length s, s @ r))" by auto
  from encodes_str_hd [OF q(2)] q(1) show "\<not> benc_isint q" "\<not> benc_isdct q" "\<not> benc_islst q"
    by (auto simp: benc_isint_def benc_isdct_def benc_islst_def)
qed

lemma starts_int:
  assumes "starts q (BInt i)" "- (2 ^ 63) \<le> i" "i < 2 ^ 63"
  shows "benc_isint q" "benc_int q = Some i"
  using assms benc_int_encodes by (auto simp: starts_def)

lemma starts_dict: "starts q (BDict kvs) \<Longrightarrow> benc_isdct q"
  by (auto simp: starts_def benc_isdct_def elim!: encodes_dictE)

lemma starts_list: "starts q (BList vs) \<Longrightarrow> benc_islst q \<and> \<not> benc_isint q"
  by (auto simp: starts_def benc_islst_def benc_isint_def elim!: encodes_listE)

lemma dget_any_starts:
  assumes "starts q (BDict kvs)" "CHR 0x00 \<notin> set key"
  shows "map_of kvs key = None \<Longrightarrow> benc_dget_any q key = Some None"
    "map_of kvs key = Some v \<Longrightarrow> \<exists>p. benc_dget_any q key = Some (Some p) \<and> starts p v"
proof -
  from assms(1) obtain a t where q: "q = a @ t" "encodes dec_val (BDict kvs) a" "length a < 2 ^ 64" by (auto simp: starts_def)
  from benc_dget_any_encodes [OF q(2,3) assms(2), of t] q(1) obtain res where
    r: "benc_dget_any q key = Some res" "lookup_ok kvs key q res" by blast
  from r show "map_of kvs key = None \<Longrightarrow> benc_dget_any q key = Some None" by (simp add: lookup_ok_def)
  from r show "map_of kvs key = Some v \<Longrightarrow> \<exists>p. benc_dget_any q key = Some (Some p) \<and> starts p v"
    by (cases res) (auto simp: lookup_ok_def dest: points_to_starts)
qed

lemma dget_starts:
  assumes "starts q (BDict kvs)" "CHR 0x00 \<notin> set key"
  shows "map_of kvs key = Some (BStr s) \<Longrightarrow> benc_dget_str q key = Some (Some s)"
    "map_of kvs key = Some (BStr s) \<Longrightarrow> \<exists>r. benc_dget_mem q key = Some (Some (length s, s @ r))"
    "map_of kvs key = Some (BInt i) \<Longrightarrow> - (2 ^ 63) \<le> i \<Longrightarrow> i < 2 ^ 63 \<Longrightarrow> benc_dget_int q key = Some i"
    "map_of kvs key = Some (BDict kvs') \<Longrightarrow> \<exists>p. benc_dget_dct q key = Some (Some p) \<and> starts p (BDict kvs')"
    "map_of kvs key = Some (BList vs) \<Longrightarrow> \<exists>p. benc_dget_lst q key = Some (Some p) \<and> starts p (BList vs)"
    "map_of kvs key = None \<Longrightarrow> benc_dget_str q key = Some None \<and> benc_dget_mem q key = Some None"
proof -
  note d = dget_any_starts [OF assms]
  show "map_of kvs key = Some (BStr s) \<Longrightarrow> benc_dget_str q key = Some (Some s)"
    using d(2) [of "BStr s"] starts_str by (fastforce simp: benc_dget_str_def)
  show "map_of kvs key = Some (BStr s) \<Longrightarrow> \<exists>r. benc_dget_mem q key = Some (Some (length s, s @ r))"
    using d(2) [of "BStr s"] starts_str by (fastforce simp: benc_dget_mem_def)
  show "map_of kvs key = Some (BInt i) \<Longrightarrow> - (2 ^ 63) \<le> i \<Longrightarrow> i < 2 ^ 63 \<Longrightarrow> benc_dget_int q key = Some i"
    using d(2) [of "BInt i"] starts_int by (fastforce simp: benc_dget_int_def)
  show "map_of kvs key = Some (BDict kvs') \<Longrightarrow> \<exists>p. benc_dget_dct q key = Some (Some p) \<and> starts p (BDict kvs')"
    using d(2) [of "BDict kvs'"] starts_dict by (fastforce simp: benc_dget_dct_def)
  show "map_of kvs key = Some (BList vs) \<Longrightarrow> \<exists>p. benc_dget_lst q key = Some (Some p) \<and> starts p (BList vs)"
    using d(2) [of "BList vs"] starts_list by (fastforce simp: benc_dget_lst_def)
  show "map_of kvs key = None \<Longrightarrow> benc_dget_str q key = Some None \<and> benc_dget_mem q key = Some None"
    using d(1) by (simp add: benc_dget_str_def benc_dget_mem_def)
qed

end
