(* ===== verification/Tlib.thy ===== *)
theory Tlib
  imports TrackerInv Printf "HOL-Library.AList"
begin

text \<open>
  The library of torrents on disk: \<^verbatim>\<open>btpd/tlib.c\<close>, and the state of the daemon that it shares with
  \<^verbatim>\<open>torrent.c\<close>, \<^verbatim>\<open>active.c\<close> and \<^verbatim>\<open>cli_if.c\<close>. A \<^verbatim>\<open>struct tlib\<close> is known by a number; \<open>None\<close> in the
  store is a freed one. The tables hold the key of an entry beside its number, since neither changes. \<^verbatim>\<open>btpd_err\<close>
  ends the process, which is \<open>None\<close>.
\<close>

section \<open>Files\<close>

text \<open>Files and directories by path, in the order \<^verbatim>\<open>readdir\<close> lists them.\<close>

record fsys =
  fs_files :: "(cstr \<times> cstr) list"
  fs_dirs :: "cstr list"

definition fs_read :: "fsys \<Rightarrow> cstr \<Rightarrow> cstr option" where
  "fs_read fs path = map_of (fs_files fs) path"

text \<open>Everything before the last slash.\<close>

definition dir_of :: "cstr \<Rightarrow> cstr" where
  "dir_of path = rev (tl (dropWhile (\<lambda>c. c \<noteq> CHR ''/'') (rev path)))"

definition name_of :: "cstr \<Rightarrow> cstr" where
  "name_of path = rev (takeWhile (\<lambda>c. c \<noteq> CHR ''/'') (rev path))"

definition fs_names :: "fsys \<Rightarrow> cstr \<Rightarrow> cstr list" where
  "fs_names fs dir = map name_of (filter (\<lambda>p. dir_of p = dir) (map fst (fs_files fs) @ fs_dirs fs))"

text \<open>\<^verbatim>\<open>fopen(path, "w")\<close>, writing and closing, in a directory that is there.\<close>

definition fs_put :: "cstr \<Rightarrow> cstr \<Rightarrow> fsys \<Rightarrow> fsys option" where
  "fs_put path data fs =
     (if dir_of path \<in> set ([] # fs_dirs fs) then Some (fs\<lparr>fs_files := AList.update path data (fs_files fs)\<rparr>) else None)"

definition fs_unlink :: "cstr \<Rightarrow> fsys \<Rightarrow> fsys" where
  "fs_unlink path fs = fs\<lparr>fs_files := AList.delete path (fs_files fs)\<rparr>"

text \<open>\<^verbatim>\<open>remove\<close>: a file, or a directory that is empty; errors are ignored.\<close>

definition fs_remove :: "cstr \<Rightarrow> fsys \<Rightarrow> fsys" where
  "fs_remove path fs =
     (if path \<in> set (fs_dirs fs)
      then (if fs_names fs path = [] then fs\<lparr>fs_dirs := removeAll path (fs_dirs fs)\<rparr> else fs)
      else fs_unlink path fs)"

definition fs_mkdir :: "cstr \<Rightarrow> fsys \<Rightarrow> fsys option" where
  "fs_mkdir path fs =
     (if path \<in> set (fs_dirs fs) \<or> fs_read fs path \<noteq> None \<or> dir_of path \<notin> set ([] # fs_dirs fs) then None
      else Some (fs\<lparr>fs_dirs := fs_dirs fs @ [path]\<rparr>))"

definition fs_rename :: "cstr \<Rightarrow> cstr \<Rightarrow> fsys \<Rightarrow> fsys option" where
  "fs_rename from to fs =
     do { data \<leftarrow> fs_read fs from; fs_put to data (fs_unlink from fs) }"

text \<open>\<^verbatim>\<open>read_file\<close> with a buffer of \<open>cap\<close> bytes, 0 for a buffer of its own.\<close>

definition read_file :: "nat \<Rightarrow> cstr \<Rightarrow> fsys \<Rightarrow> errno + cstr" where
  "read_file cap path fs =
     (case fs_read fs path of
        None \<Rightarrow> Inl ENOENT
      | Some data \<Rightarrow> if cap \<noteq> 0 \<and> cap < length data then Inl EFBIG else Inr data)"

section \<open>The state\<close>

record tlib =
  tl_num :: u32
  tl_hash :: "byte list"
  tl_tp :: "tid option"
  tl_name :: "cstr option"
  tl_dir :: "cstr option"
  tl_label :: "cstr option"
  tl_up :: u64
  tl_down :: u64
  tl_size :: int
  tl_have :: int

type_synonym lid = nat

text \<open>
  \<open>dm_tlink t\<close> and \<open>dm_delete t\<close> are \<^verbatim>\<open>tp->tl\<close> and \<^verbatim>\<open>tp->delete\<close> of torrent \<open>t\<close>; the list of torrents is
  \<open>w_torrents\<close> of the world.
\<close>

record daemon =
  dm_ts :: tr_state
  dm_fs :: fsys
  dm_tl :: "lid \<Rightarrow> tlib option"
  dm_next_tl :: lid
  dm_nextnum :: u32
  dm_ntlibs :: nat
  dm_numtbl :: "(u32, u32 \<times> lid) htbl"
  dm_hashtbl :: "(byte list, byte list \<times> lid) htbl"
  dm_tlink :: "tid \<Rightarrow> lid option"
  dm_delete :: "tid \<Rightarrow> bool"
  dm_next_tp :: tid
  dm_nghosts :: nat
  dm_ntorrents :: nat
  dm_tsave :: int
  dm_savetp :: "tid option"

abbreviation dm_w :: "daemon \<Rightarrow> world" where
  "dm_w d \<equiv> ts_w (dm_ts d)"

definition upd_tl :: "lid \<Rightarrow> (tlib \<Rightarrow> tlib) \<Rightarrow> daemon \<Rightarrow> daemon" where
  "upd_tl l f d = d\<lparr>dm_tl := (dm_tl d)(l := map_option f (dm_tl d l))\<rparr>"

definition set_w :: "world \<Rightarrow> daemon \<Rightarrow> daemon" where
  "set_w w d = d\<lparr>dm_ts := (dm_ts d)\<lparr>ts_w := w\<rparr>\<rparr>"

section \<open>The tables\<close>

definition tlib_by_num :: "daemon \<Rightarrow> u32 \<Rightarrow> lid option" where
  "tlib_by_num d num = map_option snd (htbl_find (dm_numtbl d) num)"

definition tlib_by_hash :: "daemon \<Rightarrow> byte list \<Rightarrow> lid option" where
  "tlib_by_hash d h = map_option snd (htbl_find (dm_hashtbl d) h)"

text \<open>The iteration of \<^verbatim>\<open>tlib_iter_first\<close> and \<^verbatim>\<open>tlib_iter_next\<close>.\<close>

definition tlib_iter :: "daemon \<Rightarrow> lid list option" where
  "tlib_iter d = map_option (map snd) (htbl_iterate (dm_numtbl d))"

text \<open>\<^verbatim>\<open>btpd_id_hash\<close>: the last four bytes of an identifier.\<close>

definition btpd_id_hash :: "byte list \<Rightarrow> u32" where
  "btpd_id_hash k = (case dec_be32 (drop 16 k) of Some x \<Rightarrow> x | None \<Rightarrow> 0)"

definition tlib_kill :: "lid \<Rightarrow> daemon \<Rightarrow> daemon option" where
  "tlib_kill l d =
     do {
       tl \<leftarrow> dm_tl d l;
       let (_, nt) = htbl_remove (dm_numtbl d) (tl_num tl);
       let (_, ht) = htbl_remove (dm_hashtbl d) (tl_hash tl);
       Some (d\<lparr>dm_numtbl := nt, dm_hashtbl := ht, dm_tl := (dm_tl d)(l := None), dm_ntlibs := dm_ntlibs d - 1\<rparr>) }"

definition tlib_create :: "byte list \<Rightarrow> daemon \<Rightarrow> lid \<times> daemon" where
  "tlib_create h d =
     (let l = dm_next_tl d;
          tl = \<lparr>tl_num = dm_nextnum d, tl_hash = h, tl_tp = None, tl_name = None, tl_dir = None, tl_label = None,
                tl_up = 0, tl_down = 0, tl_size = 0, tl_have = 0\<rparr> in
      (l, d\<lparr>dm_tl := (dm_tl d)(l \<mapsto> tl), dm_next_tl := l + 1, dm_nextnum := dm_nextnum d + 1, dm_ntlibs := dm_ntlibs d + 1,
            dm_numtbl := htbl_insert True (dm_numtbl d) (dm_nextnum d, l),
            dm_hashtbl := htbl_insert True (dm_hashtbl d) (h, l)\<rparr>))"

definition torrent_dir :: "byte list \<Rightarrow> cstr" where
  "torrent_dir h = ''torrents/'' @ bin2hex h 20"

definition torrent_path :: "byte list \<Rightarrow> cstr \<Rightarrow> cstr" where
  "torrent_path h file = torrent_dir h @ CHR ''/'' # file"

text \<open>The entries of the directory that are not \<^verbatim>\<open>.\<close> or \<^verbatim>\<open>..\<close>, then the directory.\<close>

definition remove_dir :: "byte list \<Rightarrow> fsys \<Rightarrow> fsys" where
  "remove_dir h fs =
     fs_remove (torrent_dir h) (fold (\<lambda>name. fs_remove (torrent_path h name)) (fs_names fs (torrent_dir h)) fs)"

definition tlib_del :: "lid \<Rightarrow> daemon \<Rightarrow> daemon option" where
  "tlib_del l d =
     do {
       tl \<leftarrow> dm_tl d l;
       _ \<leftarrow> (case tl_tp tl of
               None \<Rightarrow> Some ()
             | Some t \<Rightarrow> do { tp \<leftarrow> cw_tor (dm_w d) t; guard_opt (tp_state tp = T_GHOST) });
       let d1 = d\<lparr>dm_fs := remove_dir (tl_hash tl) (dm_fs d)\<rparr>;
       if tl_tp tl = None then tlib_kill l d1 else Some d1 }"

section \<open>The information about a torrent\<close>

text \<open>What is printed for one key, and the next key.\<close>

definition dct_entry :: "cstr \<Rightarrow> (cstr \<times> cstr option) option" where
  "dct_entry k =
     do {
       m \<leftarrow> benc_mem k;
       (len, str) \<leftarrow> m;
       v \<leftarrow> benc_mem_next k;
       val \<leftarrow> v;
       n \<leftarrow> benc_length val;
       guard_opt (n \<le> length val);
       nx \<leftarrow> benc_next val;
       Some (show_nat len @ CHR '':'' # takeWhile (\<lambda>c. c \<noteq> CHR 0x00) (take len str) @ take n val, nx) }"

lemma dct_entry_shrinks: "dct_entry k = Some (s, Some q) \<Longrightarrow> length q < length k"
  by (auto simp: dct_entry_def bind_Some_iff split: if_split_asm dest!: benc_mem_next_shrinks benc_next_shrinks)

function dct_rest :: "cstr option \<Rightarrow> cstr option" where
  "dct_rest None = Some []"
| "dct_rest (Some k) =
     (case dct_entry k of
        None \<Rightarrow> None
      | Some (s, nx) \<Rightarrow> map_option ((@) s) (dct_rest nx))"
  by pat_completeness auto
termination
  by (relation "measure (\<lambda>x. case x of None \<Rightarrow> 0 | Some p \<Rightarrow> Suc (length p))")
    (auto dest!: dct_entry_shrinks split: option.splits)

text \<open>The key behind the value of \<open>k\<close>.\<close>

definition skip_entry :: "cstr \<Rightarrow> cstr option option" where
  "skip_entry k = do { v \<leftarrow> benc_next k; val \<leftarrow> v; benc_next val }"

lemma skip_entry_shrinks: "skip_entry k = Some (Some q) \<Longrightarrow> length q < length k"
  by (auto simp: skip_entry_def bind_Some_iff dest!: benc_next_shrinks)

function dct_subst :: "cstr option \<Rightarrow> cstr option \<Rightarrow> cstr option" where
  "dct_subst (Some k1) (Some k2) =
     (case benc_strcmp k1 k2 of
        None \<Rightarrow> None
      | Some test \<Rightarrow>
          if test < 0
          then (case dct_entry k1 of
                  None \<Rightarrow> None
                | Some (s, nx) \<Rightarrow> map_option ((@) s) (dct_subst nx (Some k2)))
          else (case dct_entry k2 of
                  None \<Rightarrow> None
                | Some (s, nx) \<Rightarrow>
                    if test = 0
                    then (case skip_entry k1 of None \<Rightarrow> None | Some k1' \<Rightarrow> map_option ((@) s) (dct_subst k1' nx))
                    else map_option ((@) s) (dct_subst (Some k1) nx)))"
| "dct_subst None k2 = dct_rest k2"
| "dct_subst (Some k1) None = dct_rest (Some k1)"
  by pat_completeness auto
termination
  by (relation "measure (\<lambda>(x, y). (case x of None \<Rightarrow> 0 | Some p \<Rightarrow> Suc (length p)) + (case y of None \<Rightarrow> 0 | Some p \<Rightarrow> Suc (length p)))")
    (auto dest!: dct_entry_shrinks skip_entry_shrinks split: option.splits)

declare dct_rest.simps [simp del] dct_subst.simps [simp del]

definition dct_subst_save :: "cstr \<Rightarrow> cstr \<Rightarrow> cstr option" where
  "dct_subst_save dct1 dct2 =
     do {
       k1 \<leftarrow> benc_first dct1;
       k2 \<leftarrow> benc_first dct2;
       s \<leftarrow> dct_subst k1 k2;
       Some (CHR ''d'' # s @ ''e'') }"

definition valid_info :: "cstr \<Rightarrow> bool option" where
  "valid_info buf =
     (if benc_validate buf \<noteq> None then Some False
      else do {
        info \<leftarrow> benc_dget_dct buf ''info'';
        case info of
          None \<Rightarrow> Some False
        | Some i \<Rightarrow>
            do {
              name \<leftarrow> benc_dget_mem i ''name'';
              if (case name of None \<Rightarrow> True | Some (slen, _) \<Rightarrow> slen = 0) then Some False
              else do {
                dir \<leftarrow> benc_dget_mem i ''dir'';
                Some (case dir of None \<Rightarrow> False | Some (slen, _) \<Rightarrow> \<not> (slen = 0 \<or> slen \<ge> PATH_MAX)) } } })"

text \<open>The strings end at their first NUL.\<close>

definition dget_cstr :: "cstr \<Rightarrow> cstr \<Rightarrow> cstr option option" where
  "dget_cstr p key = map_option (map_option (takeWhile (\<lambda>c. c \<noteq> CHR 0x00))) (benc_dget_str p key)"

definition load_info :: "lid \<Rightarrow> cstr \<Rightarrow> daemon \<Rightarrow> daemon option" where
  "load_info l path d =
     (case read_file 16384 path (dm_fs d) of
        Inl e \<Rightarrow> Some d
      | Inr buf \<Rightarrow>
          do {
            ok \<leftarrow> valid_info buf;
            if \<not> ok then Some d
            else do {
              info \<leftarrow> benc_dget_dct buf ''info'';
              i \<leftarrow> info;
              name \<leftarrow> dget_cstr i ''name'';
              label \<leftarrow> dget_cstr i ''label'';
              dir \<leftarrow> dget_cstr i ''dir'';
              up \<leftarrow> benc_dget_int i ''total upload'';
              down \<leftarrow> benc_dget_int i ''total download'';
              size \<leftarrow> benc_dget_int i ''content size'';
              have' \<leftarrow> benc_dget_int i ''content have'';
              guard_opt (name \<noteq> None \<and> dir \<noteq> None);
              Some (upd_tl l (\<lambda>tl. tl\<lparr>tl_name := name, tl_label := label, tl_dir := dir, tl_up := word_of_int up,
                tl_down := word_of_int down, tl_size := size, tl_have := have'\<rparr>) d) } })"

text \<open>\<^verbatim>\<open>%lld\<close> of an \<^verbatim>\<open>unsigned long long\<close>. A missing name, directory or label is read through NULL.\<close>

definition info_text :: "tlib \<Rightarrow> cstr option" where
  "info_text x =
     do {
       dir \<leftarrow> tl_dir x;
       name \<leftarrow> tl_name x;
       label \<leftarrow> tl_label x;
       Some (''d4:infod'' @ ''12:content have'' @ benc_num (tl_have x) @ ''12:content size'' @ benc_num (tl_size x) @
         ''3:dir'' @ benc_text dir @ ''4:name'' @ benc_text name @ ''5:label'' @ benc_text label @
         ''14:total download'' @ benc_num (sint (tl_down x)) @ ''12:total upload'' @ benc_num (sint (tl_up x)) @ ''ee'') }"

definition save_info :: "tlib \<Rightarrow> fsys \<Rightarrow> fsys option" where
  "save_info x fs =
     do {
       iob \<leftarrow> info_text x;
       data \<leftarrow> dct_subst_save ''de'' iob;
       let path = torrent_path (tl_hash x) ''info'';
       fs1 \<leftarrow> fs_put (path @ ''.write'') data fs;
       fs_rename (path @ ''.write'') path fs1 }"

definition tlib_update_info :: "lid \<Rightarrow> bool \<Rightarrow> daemon \<Rightarrow> daemon option" where
  "tlib_update_info l only_file d =
     do {
       tl \<leftarrow> dm_tl d l;
       t \<leftarrow> tl_tp tl;
       tp \<leftarrow> cw_tor (dm_w d) t;
       n \<leftarrow> w_net (dm_w d) t;
       let tl1 = tl\<lparr>tl_down := tl_down tl + of_nat (n_downloaded n), tl_up := tl_up tl + of_nat (n_uploaded n),
                    tl_have := cm_content tp, tl_size := int (tp_total_length tp)\<rparr>;
       fs \<leftarrow> save_info tl1 (dm_fs d);
       let d1 = d\<lparr>dm_fs := fs\<rparr>;
       Some (if only_file then d1 else upd_tl l (\<lambda>_. tl1) d1) }"

definition write_torrent :: "cstr \<Rightarrow> cstr \<Rightarrow> fsys \<Rightarrow> fsys option" where
  "write_torrent mi path fs = do { guard_opt (mi \<noteq> []); fs_put path mi fs }"

definition tlib_add :: "byte list \<Rightarrow> cstr \<Rightarrow> cstr \<Rightarrow> cstr option \<Rightarrow> cstr option \<Rightarrow> daemon \<Rightarrow> (lid \<times> daemon) option" where
  "tlib_add h mi content name label d =
     do {
       let (l, d1) = tlib_create h d;
       name1 \<leftarrow> (case name of Some x \<Rightarrow> Some x | None \<Rightarrow> do { r \<leftarrow> mi_name mi; r });
       size \<leftarrow> mi_total_length mi;
       let d2 = upd_tl l (\<lambda>tl. tl\<lparr>tl_size := size, tl_name := Some name1, tl_label := label, tl_dir := Some content\<rparr>) d1;
       tl \<leftarrow> dm_tl d2 l;
       fs1 \<leftarrow> fs_mkdir (torrent_dir h) (dm_fs d2);
       fs2 \<leftarrow> write_torrent mi (torrent_path h ''torrent'') fs1;
       fs3 \<leftarrow> save_info tl fs2;
       Some (l, d2\<lparr>dm_fs := fs3\<rparr>) }"

text \<open>\<^verbatim>\<open>tp->tl\<close> keeps pointing to the entry that has been freed.\<close>

definition tlib_readd :: "lid \<Rightarrow> byte list \<Rightarrow> cstr \<Rightarrow> cstr \<Rightarrow> cstr option \<Rightarrow> cstr option \<Rightarrow> daemon \<Rightarrow> (lid \<times> daemon) option" where
  "tlib_readd l h mi content name label d =
     do {
       tl \<leftarrow> dm_tl d l;
       t \<leftarrow> tl_tp tl;
       let d1 = d\<lparr>dm_delete := (dm_delete d)(t := False)\<rparr>;
       d2 \<leftarrow> tlib_kill l d1;
       (ln, d3) \<leftarrow> tlib_add h mi content name label d2;
       Some (ln, upd_tl ln (\<lambda>x. x\<lparr>tl_tp := Some t\<rparr>) d3) }"

fun load_all :: "cstr list \<Rightarrow> daemon \<Rightarrow> daemon option" where
  "load_all [] d = Some d"
| "load_all (name # names) d =
     (if length name = 40 \<and> ishex name
      then (case hex2bin name 20 of
              None \<Rightarrow> None
            | Some h \<Rightarrow> (case tlib_create h d of (l, d1) \<Rightarrow>
                (case load_info l (''torrents/'' @ name @ ''/info'') d1 of
                   None \<Rightarrow> None
                 | Some d2 \<Rightarrow> load_all names d2)))
      else load_all names d)"

definition tlib_init :: "daemon \<Rightarrow> daemon option" where
  "tlib_init d =
     do {
       nt \<leftarrow> htbl_create True 1 (=) id fst;
       ht \<leftarrow> htbl_create True 1 (=) btpd_id_hash fst;
       guard_opt (''torrents'' \<in> set (fs_dirs (dm_fs d)));
       load_all (fs_names (dm_fs d) ''torrents'') (d\<lparr>dm_numtbl := nt, dm_hashtbl := ht\<rparr>) }"

definition tlib_read_hash :: "lid \<Rightarrow> nat \<Rightarrow> nat \<Rightarrow> daemon \<Rightarrow> byte list option" where
  "tlib_read_hash l off piece d =
     do {
       tl \<leftarrow> dm_tl d l;
       data \<leftarrow> fs_read (dm_fs d) (torrent_path (tl_hash tl) ''torrent'');
       let hash = take 20 (drop (off + piece * 20) data);
       guard_opt (length hash = 20);
       Some (bytes_of hash) }"

definition tlib_load_mi :: "lid \<Rightarrow> daemon \<Rightarrow> (errno + cstr) option" where
  "tlib_load_mi l d =
     do {
       tl \<leftarrow> dm_tl d l;
       mi_load (read_file 0 (torrent_path (tl_hash tl) ''torrent'') (dm_fs d)) }"

end
