(* ===== verification/TlibInfo.thy ===== *)
theory TlibInfo
  imports Tlib BencPut
begin

text \<open>The information file of a torrent is read back as it was saved.\<close>

section \<open>Files\<close>

lemma dir_of_simp [simp]: "CHR ''/'' \<notin> set f \<Longrightarrow> dir_of (d @ CHR ''/'' # f) = d"
proof -
  assume "CHR ''/'' \<notin> set f"
  then have "dropWhile (\<lambda>c. c \<noteq> CHR ''/'') (rev f @ CHR ''/'' # rev d) = CHR ''/'' # rev d"
    by (subst dropWhile_append2) auto
  then show ?thesis by (simp add: dir_of_def)
qed

lemma name_of_simp [simp]: "CHR ''/'' \<notin> set f \<Longrightarrow> name_of (d @ CHR ''/'' # f) = f"
proof -
  assume "CHR ''/'' \<notin> set f"
  then have "takeWhile (\<lambda>c. c \<noteq> CHR ''/'') (rev f @ CHR ''/'' # rev d) = rev f"
    by (subst takeWhile_append2) auto
  then show ?thesis by (simp add: name_of_def)
qed

lemma fs_read_put: "fs_put path data fs = Some fs' \<Longrightarrow> fs_read fs' p = (if p = path then Some data else fs_read fs p)"
  by (auto simp: fs_put_def fs_read_def update_conv' split: if_split_asm)

lemma fs_read_unlink: "fs_read (fs_unlink path fs) p = (if p = path then None else fs_read fs p)"
  by (simp add: fs_unlink_def fs_read_def delete_conv')

lemma fs_dirs_put: "fs_put path data fs = Some fs' \<Longrightarrow> fs_dirs fs' = fs_dirs fs"
  by (auto simp: fs_put_def split: if_split_asm)

lemma fs_dirs_unlink [simp]: "fs_dirs (fs_unlink path fs) = fs_dirs fs"
  by (simp add: fs_unlink_def)

lemma fs_rename_read:
  "fs_rename a b fs = Some fs' \<Longrightarrow> fs_read fs' p = (if p = b then fs_read fs a else if p = a then None else fs_read fs p)"
  by (auto simp: fs_rename_def bind_Some_iff fs_read_put fs_read_unlink)

section \<open>Saving a dictionary\<close>

text \<open>On what \<^verbatim>\<open>iobuf_print\<close> prints, the entries are copied as they are.\<close>

lemma dct_entry_encodes:
  assumes "length k < 2 ^ 64" "CHR 0x00 \<notin> set k" "encodes dec_val v b" "length b < 2 ^ 64"
  shows "dct_entry (benc_text k @ b @ c # r) = Some (benc_text k @ b, if c = CHR ''e'' then None else Some (c # r))"
proof -
  have e: "encodes dec_val (BStr k) (benc_text k)" using assms(1) by (simp add: enc_text)
  from encodes_first [OF assms(3)] obtain x u where x: "b = x # u" "x \<noteq> CHR ''e''" by blast
  have m: "benc_mem (benc_text k @ b @ c # r) = Some (Some (length k, k @ b @ c # r))"
    by (rule benc_mem_encodes [OF e assms(1)])
  have nx: "benc_mem_next (benc_text k @ b @ c # r) = Some (Some (b @ c # r))"
    using benc_mem_next_encodes [OF e assms(1), of x "u @ c # r"] x by simp
  have tk: "takeWhile (\<lambda>y. y \<noteq> CHR 0x00) k = k" using assms(2) by (simp add: takeWhile_eq_all_conv) blast
  show ?thesis
    using m nx tk benc_length_encodes [OF assms(3,4), of "c # r"] benc_next_encodes [OF assms(3,4), of c r]
    by (simp add: dct_entry_def benc_text_def)
qed

abbreviation dct_body :: "(cstr \<times> cstr) list \<Rightarrow> cstr" where
  "dct_body kbs \<equiv> concat (map (\<lambda>(k, b). benc_text k @ b) kbs)"

lemma benc_text_first: "\<exists>c r. benc_text k = c # r \<and> c \<noteq> CHR ''e''"
proof -
  have "show_nat (length k) \<noteq> []" "\<forall>c \<in> set (show_nat (length k)). isdigit c" using show_nat_digits by auto
  then obtain c r where "show_nat (length k) = c # r" "isdigit c" by (cases "show_nat (length k)") auto
  then show ?thesis by (auto simp: benc_text_def)
qed

lemma dct_rest_encodes:
  "list_all2 (enc_entry dec_val) kvs kbs \<Longrightarrow> kbs \<noteq> [] \<Longrightarrow> \<forall>(k, b) \<in> set kbs. CHR 0x00 \<notin> set k \<Longrightarrow>
     length (dct_body kbs) < 2 ^ 64 \<Longrightarrow> dct_rest (Some (dct_body kbs @ CHR ''e'' # r)) = Some (dct_body kbs)"
proof (induction kvs arbitrary: kbs)
  case (Cons kv kvs)
  from Cons.prems(1) obtain kb kbs' where kb: "kbs = kb # kbs'" "enc_entry dec_val kv kb" "list_all2 (enc_entry dec_val) kvs kbs'"
    by (auto simp: list_all2_Cons1)
  obtain k b where kb': "kb = (k, b)" by force
  with kb Cons.prems have b: "length k < 2 ^ 64" "CHR 0x00 \<notin> set k" "encodes dec_val (snd kv) b" "length b < 2 ^ 64"
    by (auto simp: enc_entry_def)
  show ?case
  proof (cases kbs')
    case Nil
    with kb(1) kb' dct_entry_encodes [OF b, of "CHR ''e''" r] show ?thesis by (simp add: dct_rest.simps)
  next
    case (Cons kb2 kbs2)
    obtain c t where c: "dct_body kbs' = c # t" "c \<noteq> CHR ''e''"
      using Cons benc_text_first [of "fst kb2"] by (cases kb2) auto
    have ih: "dct_rest (Some (dct_body kbs' @ CHR ''e'' # r)) = Some (dct_body kbs')"
      by (rule Cons.IH [OF kb(3)]) (use Cons Cons.prems kb in auto)
    with kb(1) kb' dct_entry_encodes [OF b, of c "t @ CHR ''e'' # r"] c show ?thesis by (simp add: dct_rest.simps)
  qed
qed simp

lemma dct_subst_save_empty:
  assumes "list_all2 (enc_entry dec_val) kvs kbs" "kbs \<noteq> []" "\<forall>(k, b) \<in> set kbs. CHR 0x00 \<notin> set k" "length (dct_body kbs) < 2 ^ 64"
  shows "dct_subst_save ''de'' (benc_dict kbs) = Some (benc_dict kbs)"
proof -
  obtain c t where c: "dct_body kbs = c # t" "c \<noteq> CHR ''e''"
    using assms(2) benc_text_first [of "fst (hd kbs)"] by (cases kbs) auto
  have "benc_first (benc_dict kbs) = Some (Some (dct_body kbs @ ''e''))"
    using c by (simp add: benc_first_def benc_dict_def benc_islst_def)
  moreover have "benc_first ''de'' = Some None" by (simp add: benc_first_def benc_islst_def)
  ultimately show ?thesis
    using dct_rest_encodes [OF assms, of "[]"] by (simp add: dct_subst_save_def dct_subst.simps benc_dict_def)
qed

section \<open>Saving and loading\<close>

definition info_value :: "tlib \<Rightarrow> cstr \<Rightarrow> cstr \<Rightarrow> cstr \<Rightarrow> (cstr \<times> bval) list" where
  "info_value x dir name label =
     [(''content have'', BInt (tl_have x)), (''content size'', BInt (tl_size x)), (''dir'', BStr dir), (''name'', BStr name),
      (''label'', BStr label), (''total download'', BInt (sint (tl_down x))), (''total upload'', BInt (sint (tl_up x)))]"

definition info_entries :: "tlib \<Rightarrow> cstr \<Rightarrow> cstr \<Rightarrow> cstr \<Rightarrow> (cstr \<times> cstr) list" where
  "info_entries x dir name label =
     [(''content have'', benc_num (tl_have x)), (''content size'', benc_num (tl_size x)), (''dir'', benc_text dir), (''name'', benc_text name),
      (''label'', benc_text label), (''total download'', benc_num (sint (tl_down x))), (''total upload'', benc_num (sint (tl_up x)))]"

lemma key_texts [simp]:
  "benc_text ''info'' = ''4:info''" "benc_text ''content have'' = ''12:content have''" "benc_text ''content size'' = ''12:content size''"
  "benc_text ''dir'' = ''3:dir''" "benc_text ''name'' = ''4:name''" "benc_text ''label'' = ''5:label''"
  "benc_text ''total download'' = ''14:total download''" "benc_text ''total upload'' = ''12:total upload''"
  by (simp_all add: benc_text_def show_base.simps digit_char_def char_of_def bit_0)

lemma info_text_dict:
  "tl_dir x = Some dir \<Longrightarrow> tl_name x = Some name \<Longrightarrow> tl_label x = Some label \<Longrightarrow>
     info_text x = Some (benc_dict [(''info'', benc_dict (info_entries x dir name label))])"
  by (simp add: info_text_def info_entries_def benc_dict_def)

lemma info_encodes:
  assumes "reads_lengths rd" "length dir < 2 ^ 64" "length name < 2 ^ 64" "length label < 2 ^ 64"
  shows "list_all2 (enc_entry rd) [(''info'', BDict (info_value x dir name label))] [(''info'', benc_dict (info_entries x dir name label))]"
proof -
  have "list_all2 (enc_entry rd) (info_value x dir name label) (info_entries x dir name label)"
    using assms by (simp add: info_value_def info_entries_def enc_entry_def enc_num enc_text)
  from enc_dict [OF assms(1) this] show ?thesis by (simp add: enc_entry_def)
qed

definition info_ok :: "tlib \<Rightarrow> bool" where
  "info_ok x \<longleftrightarrow> (\<exists>dir name label. tl_dir x = Some dir \<and> tl_name x = Some name \<and> tl_label x = Some label \<and>
     dir \<noteq> [] \<and> length dir < PATH_MAX \<and> name \<noteq> [] \<and> CHR 0x00 \<notin> set dir \<union> set name \<union> set label) \<and>
     (\<forall>buf. info_text x = Some buf \<longrightarrow> length buf \<le> 16384) \<and>
     - (2 ^ 63) \<le> tl_have x \<and> tl_have x < 2 ^ 63 \<and> - (2 ^ 63) \<le> tl_size x \<and> tl_size x < 2 ^ 63"

text \<open>What is in an information file.\<close>

definition info_of :: "tlib \<Rightarrow> tlib \<Rightarrow> tlib" where
  "info_of x y = y\<lparr>tl_name := tl_name x, tl_label := tl_label x, tl_dir := tl_dir x, tl_up := tl_up x, tl_down := tl_down x,
     tl_size := tl_size x, tl_have := tl_have x\<rparr>"

lemma info_loads:
  assumes ok: "info_ok x" and t: "info_text x = Some buf"
  shows "dct_subst_save ''de'' buf = Some buf"
    "fs_read (dm_fs d) path = Some buf \<Longrightarrow> load_info l path d = Some (upd_tl l (info_of x) d)"
proof -
  from ok obtain dir name label where f: "tl_dir x = Some dir" "tl_name x = Some name" "tl_label x = Some label"
    "dir \<noteq> []" "length dir < PATH_MAX" "name \<noteq> []" "CHR 0x00 \<notin> set dir" "CHR 0x00 \<notin> set name" "CHR 0x00 \<notin> set label"
    and r: "- (2 ^ 63) \<le> tl_have x" "tl_have x < 2 ^ 63" "- (2 ^ 63) \<le> tl_size x" "tl_size x < 2 ^ 63"
    and l: "length buf \<le> 16384" using t by (auto simp: info_ok_def)
  let ?es = "info_entries x dir name label" and ?vs = "info_value x dir name label"
  have tx: "buf = benc_dict [(''info'', benc_dict ?es)]" using t info_text_dict [OF f(1,2,3)] by simp
  have len: "length dir < 2 ^ 64" "length name < 2 ^ 64" "length label < 2 ^ 64"
    using l by (auto simp: tx benc_dict_def info_entries_def benc_text_def)
  note enc = info_encodes [OF _ len]
  show "dct_subst_save ''de'' buf = Some buf"
    unfolding tx by (rule dct_subst_save_empty [OF enc]) (use l in \<open>auto simp: tx benc_dict_def\<close>)
  assume fr: "fs_read (dm_fs d) path = Some buf"
  have v: "benc_validate buf = None"
    using benc_validate_grammar enc_dict [OF _ enc] reads_lengths_rd(2) unfolding tx by blast
  have st: "starts buf (BDict [(''info'', BDict ?vs)])"
    using startsI [OF enc_dict [OF _ enc], of x "[]"] l by (simp add: tx)
  from dget_starts(4) [OF st, of "''info''" ?vs] obtain i where i: "benc_dget_dct buf ''info'' = Some (Some i)" "starts i (BDict ?vs)"
    by auto
  note g = dget_starts [OF i(2)]
  have nul: "takeWhile (\<lambda>c. c \<noteq> CHR 0x00) s = s" if "CHR 0x00 \<notin> set s" for s :: cstr
    using that by (simp add: takeWhile_eq_all_conv) blast
  obtain r1 where n: "benc_dget_mem i ''name'' = Some (Some (length name, name @ r1))"
    using g(2) [of "''name''" name] by (auto simp: info_value_def)
  obtain r2 where di: "benc_dget_mem i ''dir'' = Some (Some (length dir, dir @ r2))"
    using g(2) [of "''dir''" dir] by (auto simp: info_value_def)
  have str: "dget_cstr i ''name'' = Some (Some name)" "dget_cstr i ''label'' = Some (Some label)" "dget_cstr i ''dir'' = Some (Some dir)"
    using g(1) [of "''name''" name] g(1) [of "''label''" label] g(1) [of "''dir''" dir] f(7,8,9)
    by (simp_all add: info_value_def dget_cstr_def nul)
  have up: "- (2 ^ 63) \<le> sint (w :: u64)" "sint (w :: u64) < 2 ^ 63" for w
    using sint_ge [of w] sint_lt [of w] by simp_all
  have num: "benc_dget_int i ''total upload'' = Some (sint (tl_up x))" "benc_dget_int i ''total download'' = Some (sint (tl_down x))"
    "benc_dget_int i ''content size'' = Some (tl_size x)" "benc_dget_int i ''content have'' = Some (tl_have x)"
    using g(3) [of "''total upload''" "sint (tl_up x)"] g(3) [of "''total download''" "sint (tl_down x)"]
      g(3) [of "''content size''" "tl_size x"] g(3) [of "''content have''" "tl_have x"] up r by (simp_all add: info_value_def)
  have ok: "valid_info buf = Some True"
    using v i(1) n di f by (simp add: valid_info_def)
  show "load_info l path d = Some (upd_tl l (info_of x) d)"
    using fr l ok i(1) str num f by (simp add: load_info_def read_file_def info_of_def [abs_def])
qed

lemma save_info_reads:
  assumes "info_ok x" "save_info x fs = Some fs'" "info_text x = Some buf"
  shows "fs_read fs' p = (if p = torrent_path (tl_hash x) ''info'' then Some buf
    else if p = torrent_path (tl_hash x) ''info.write'' then None else fs_read fs p)" "fs_dirs fs' = fs_dirs fs"
proof -
  have pw: "torrent_path (tl_hash x) ''info'' @ ''.write'' = torrent_path (tl_hash x) ''info.write''"
    by (simp add: torrent_path_def)
  from assms(2,3) info_loads(1) [OF assms(1,3)] obtain fs1 where
    "fs_put (torrent_path (tl_hash x) ''info.write'') buf fs = Some fs1"
    "fs_rename (torrent_path (tl_hash x) ''info.write'') (torrent_path (tl_hash x) ''info'') fs1 = Some fs'"
    by (auto simp: save_info_def bind_Some_iff pw simp del: append_Cons)
  then show "fs_read fs' p = (if p = torrent_path (tl_hash x) ''info'' then Some buf
    else if p = torrent_path (tl_hash x) ''info.write'' then None else fs_read fs p)" "fs_dirs fs' = fs_dirs fs"
    by (auto simp: fs_rename_read fs_read_put torrent_path_def) (auto simp: fs_rename_def bind_Some_iff dest!: fs_dirs_put)
qed

lemma save_info_works:
  assumes "info_ok x" "torrent_dir (tl_hash x) \<in> set (fs_dirs fs)"
  shows "\<exists>fs' buf. save_info x fs = Some fs' \<and> info_text x = Some buf"
proof -
  from assms(1) obtain buf where t: "info_text x = Some buf" by (auto simp: info_ok_def info_text_def)
  have d: "dir_of (torrent_path h ''info'' @ ''.write'') = torrent_dir h" "dir_of (torrent_path h ''info'') = torrent_dir h" for h
    using dir_of_simp [of "''info.write''" "torrent_dir h"] dir_of_simp [of "''info''" "torrent_dir h"] by (simp_all add: torrent_path_def)
  obtain fs1 where f1: "fs_put (torrent_path (tl_hash x) ''info'' @ ''.write'') buf fs = Some fs1"
    using assms(2) d(1) by (simp add: fs_put_def)
  have r1: "fs_read fs1 (torrent_path (tl_hash x) ''info'' @ ''.write'') = Some buf" using fs_read_put [OF f1] by simp
  have "\<exists>fs'. fs_put (torrent_path (tl_hash x) ''info'') buf (fs_unlink (torrent_path (tl_hash x) ''info'' @ ''.write'') fs1) = Some fs'"
    unfolding fs_put_def using assms(2) d(2) [of "tl_hash x"] fs_dirs_put [OF f1] by simp
  then have "\<exists>fs'. fs_rename (torrent_path (tl_hash x) ''info'' @ ''.write'') (torrent_path (tl_hash x) ''info'') fs1 = Some fs'"
    using r1 by (simp add: fs_rename_def)
  then show ?thesis using t f1 info_loads(1) [OF assms(1) t] by (simp add: save_info_def Let_def)
qed

end
