(* ===== verification/TlibInv.thy ===== *)
theory TlibInv
  imports TlibInfo
begin

text \<open>
  The invariant of the library: both tables hold exactly the entries that are there, under their number and
  their hash. A restart of the daemon restores what was saved.
\<close>

section \<open>The invariant\<close>

definition lib_wf :: "daemon \<Rightarrow> bool" where
  "lib_wf d \<longleftrightarrow> htbl_wf fst (dm_numtbl d) \<and> ht.unique (dm_numtbl d) \<and> htbl_wf fst (dm_hashtbl d) \<and> ht.unique (dm_hashtbl d) \<and>
     (\<forall>n r. htbl_find (dm_numtbl d) n = Some r \<longleftrightarrow> fst r = n \<and> (\<exists>x. dm_tl d (snd r) = Some x \<and> tl_num x = n)) \<and>
     (\<forall>h r. htbl_find (dm_hashtbl d) h = Some r \<longleftrightarrow> fst r = h \<and> (\<exists>x. dm_tl d (snd r) = Some x \<and> tl_hash x = h)) \<and>
     (\<forall>l x. dm_tl d l = Some x \<longrightarrow> l < dm_next_tl d \<and> tl_num x < dm_nextnum d) \<and>
     dm_ntlibs d = card (dom (dm_tl d))"

lemma lib_wf_cong:
  "dm_numtbl d' = dm_numtbl d \<Longrightarrow> dm_hashtbl d' = dm_hashtbl d \<Longrightarrow> dm_tl d' = dm_tl d \<Longrightarrow> dm_next_tl d' = dm_next_tl d \<Longrightarrow>
     dm_nextnum d' = dm_nextnum d \<Longrightarrow> dm_ntlibs d' = dm_ntlibs d \<Longrightarrow> lib_wf d' = lib_wf d"
  by (simp add: lib_wf_def)

lemma lib_wf_fields [simp]:
  "lib_wf (d\<lparr>dm_fs := a\<rparr>) = lib_wf d" "lib_wf (d\<lparr>dm_ts := b\<rparr>) = lib_wf d" "lib_wf (d\<lparr>dm_delete := c\<rparr>) = lib_wf d"
  "lib_wf (d\<lparr>dm_tlink := e\<rparr>) = lib_wf d" "lib_wf (d\<lparr>dm_nghosts := f\<rparr>) = lib_wf d" "lib_wf (d\<lparr>dm_ntorrents := g\<rparr>) = lib_wf d"
  "lib_wf (d\<lparr>dm_savetp := h\<rparr>) = lib_wf d" "lib_wf (d\<lparr>dm_tsave := i\<rparr>) = lib_wf d" "lib_wf (d\<lparr>dm_next_tp := j\<rparr>) = lib_wf d"
  "lib_wf (set_w w d) = lib_wf d"
  by (simp_all add: lib_wf_def set_w_def)

lemma tlib_by_num_iff: "lib_wf d \<Longrightarrow> tlib_by_num d n = Some l \<longleftrightarrow> (\<exists>x. dm_tl d l = Some x \<and> tl_num x = n)"
  by (auto simp: lib_wf_def tlib_by_num_def)

lemma tlib_by_hash_iff: "lib_wf d \<Longrightarrow> tlib_by_hash d h = Some l \<longleftrightarrow> (\<exists>x. dm_tl d l = Some x \<and> tl_hash x = h)"
  by (auto simp: lib_wf_def tlib_by_hash_def)

lemma dom_finite: "lib_wf d \<Longrightarrow> finite (dom (dm_tl d))"
  by (rule finite_subset [of _ "{..< dm_next_tl d}"]) (auto simp: lib_wf_def)

text \<open>One table of keyed numbers under insertion and removal.\<close>

definition keyed :: "('k, 'k \<times> lid) htbl \<Rightarrow> (lid \<Rightarrow> 'k option) \<Rightarrow> bool" where
  "keyed t f \<longleftrightarrow> htbl_wf fst t \<and> ht.unique t \<and> (\<forall>k r. htbl_find t k = Some r \<longleftrightarrow> fst r = k \<and> f (snd r) = Some k)"

lemma keyed_insert:
  assumes "keyed t f" "f l = None" "\<forall>l'. f l' \<noteq> Some k"
  shows "keyed (htbl_insert True t (k, l)) (f(l \<mapsto> k))"
proof -
  have wf: "htbl_wf fst t" and un: "ht.unique t" and fd: "\<And>k r. htbl_find t k = Some r \<longleftrightarrow> fst r = k \<and> f (snd r) = Some k"
    using assms(1) by (auto simp: keyed_def)
  have n: "htbl_find t (fst (k, l)) = None"
    using fd [of k] assms(3) by (cases "htbl_find t k") auto
  show ?thesis
    unfolding keyed_def
  proof (intro conjI allI)
    show "htbl_wf fst (htbl_insert True t (k, l))" by (rule ht.ins_inv [OF wf])
    show "ht.unique (htbl_insert True t (k, l))" using ht.unique_ins [OF wf un n] by simp
    show "htbl_find (htbl_insert True t (k, l)) k' = Some r \<longleftrightarrow> fst r = k' \<and> (f(l \<mapsto> k)) (snd r) = Some k'" for k' r
      using assms(2,3) by (cases r) (auto simp: ht.find_ins [OF wf] fd)
  qed
qed

lemma keyed_remove:
  assumes "keyed t f" "f l = Some k" "htbl_remove t k = (r, t')"
  shows "keyed t' (f(l := None))"
proof -
  have wf: "htbl_wf fst t" and un: "ht.unique t" and fd: "\<And>k r. htbl_find t k = Some r \<longleftrightarrow> fst r = k \<and> f (snd r) = Some k"
    using assms(1) by (auto simp: keyed_def)
  have inj: "l' = l" if "f l' = Some k" for l'
    using fd [of k "(k, l)"] fd [of k "(k, l')"] assms(2) that by simp
  show ?thesis
    unfolding keyed_def
  proof (intro conjI allI)
    show "htbl_wf fst t'" by (rule ht.rem_inv [OF wf assms(3)])
    show "ht.unique t'" by (rule ht.unique_rem [OF wf un assms(3)])
    show "htbl_find t' k' = Some q \<longleftrightarrow> fst q = k' \<and> (f(l := None)) (snd q) = Some k'" for k' q
    proof -
      have "htbl_find t' k' = (if k' = k then None else htbl_find t k')"
        using ht.rem_upd [OF wf un assms(3)] by simp
      moreover have "(f(l := None)) (snd q) = Some k' \<longleftrightarrow> k' \<noteq> k \<and> f (snd q) = Some k'"
        using inj assms(2) by (metis fun_upd_apply option.distinct(1) option.inject)
      ultimately show ?thesis using fd [of k' q] by auto
    qed
  qed
qed

lemma keyed_create: "htbl_create ok rt (=) h fst = Some t \<Longrightarrow> keyed t (\<lambda>_. None)"
proof -
  assume c: "htbl_create ok rt (=) h fst = Some t"
  have wf: "htbl_wf fst t" using htbl_create_spec [OF c, of undefined] by simp
  have e: "objs t k = []" for k using htbl_create_spec [OF c, of k] by simp
  have "htbl_find t k = None" for k using ht.find_top [OF wf, of k] e by (simp add: q_first_def)
  then show ?thesis using wf e by (simp add: keyed_def ht.unique_def)
qed

lemma lib_wf_keyed:
  "lib_wf d \<longleftrightarrow> keyed (dm_numtbl d) (\<lambda>l. map_option tl_num (dm_tl d l)) \<and> keyed (dm_hashtbl d) (\<lambda>l. map_option tl_hash (dm_tl d l)) \<and>
     (\<forall>l x. dm_tl d l = Some x \<longrightarrow> l < dm_next_tl d \<and> tl_num x < dm_nextnum d) \<and> dm_ntlibs d = card (dom (dm_tl d))"
  unfolding lib_wf_def keyed_def by auto

section \<open>The operations keep it\<close>

lemma less_inc: "x + 1 \<noteq> 0 \<Longrightarrow> x < x + 1" for x :: u32
  using unsigned_less [of x, where 'a = nat]
  by (simp add: word_less_nat_alt unat_plus_if' unat_eq_0 [symmetric] split: if_split_asm)

lemma tlib_create_wf:
  assumes wf: "lib_wf d" and h: "tlib_by_hash d h = None" and n: "dm_nextnum d + 1 \<noteq> 0" and c: "tlib_create h d = (l, d')"
  shows "lib_wf d'" "dm_tl d' l = Some \<lparr>tl_num = dm_nextnum d, tl_hash = h, tl_tp = None, tl_name = None, tl_dir = None, tl_label = None,
                tl_up = 0, tl_down = 0, tl_size = 0, tl_have = 0\<rparr>" "l = dm_next_tl d" "\<forall>l'. l' \<noteq> l \<longrightarrow> dm_tl d' l' = dm_tl d l'"
    "dm_next_tl d' = l + 1" "dm_nextnum d' = dm_nextnum d + 1" "dm_fs d' = dm_fs d"
proof -
  let ?x = "\<lparr>tl_num = dm_nextnum d, tl_hash = h, tl_tp = None, tl_name = None, tl_dir = None, tl_label = None,
                tl_up = 0, tl_down = 0, tl_size = 0, tl_have = 0\<rparr>"
  have l: "l = dm_next_tl d" and d': "d' = d\<lparr>dm_tl := (dm_tl d)(l \<mapsto> ?x), dm_next_tl := l + 1, dm_nextnum := dm_nextnum d + 1,
      dm_ntlibs := dm_ntlibs d + 1, dm_numtbl := htbl_insert True (dm_numtbl d) (dm_nextnum d, l),
      dm_hashtbl := htbl_insert True (dm_hashtbl d) (h, l)\<rparr>"
    using c by (auto simp: tlib_create_def Let_def)
  then show "dm_tl d' l = Some ?x" "l = dm_next_tl d" "\<forall>l'. l' \<noteq> l \<longrightarrow> dm_tl d' l' = dm_tl d l'" "dm_next_tl d' = l + 1"
    "dm_nextnum d' = dm_nextnum d + 1" "dm_fs d' = dm_fs d" by simp_all
  have fr: "dm_tl d l = None" "\<forall>k x. dm_tl d k = Some x \<longrightarrow> k < l \<and> tl_num x < dm_nextnum d \<and> tl_hash x \<noteq> h"
  proof -
    have lt: "k < l \<and> tl_num x < dm_nextnum d" if "dm_tl d k = Some x" for k x
      using wf that unfolding lib_wf_def l by blast
    then show "dm_tl d l = None" by (cases "dm_tl d l") auto
    have "tl_hash x \<noteq> h" if "dm_tl d k = Some x" for k x
      using tlib_by_hash_iff [OF wf, of "tl_hash x" k] that h by auto
    with lt show "\<forall>k x. dm_tl d k = Some x \<longrightarrow> k < l \<and> tl_num x < dm_nextnum d \<and> tl_hash x \<noteq> h" by blast
  qed
  have ne: "\<forall>k. map_option tl_num (dm_tl d k) \<noteq> Some (dm_nextnum d)" using fr(2) by fastforce
  have num: "keyed (htbl_insert True (dm_numtbl d) (dm_nextnum d, l)) ((\<lambda>l. map_option tl_num (dm_tl d l))(l \<mapsto> dm_nextnum d))"
    by (rule keyed_insert) (use wf fr(1) ne in \<open>simp_all add: lib_wf_keyed\<close>)
  have hash: "keyed (htbl_insert True (dm_hashtbl d) (h, l)) ((\<lambda>l. map_option tl_hash (dm_tl d l))(l \<mapsto> h))"
    by (rule keyed_insert) (use wf fr in \<open>auto simp: lib_wf_keyed\<close>)
  have nn: "dm_nextnum d < dm_nextnum d + 1" by (rule less_inc [OF n])
  have lt: "\<forall>k x. dm_tl d' k = Some x \<longrightarrow> k < dm_next_tl d' \<and> tl_num x < dm_nextnum d'"
    using fr nn unfolding d' by (auto intro: less_SucI order.strict_trans)
  have cd: "dm_ntlibs d' = card (dom (dm_tl d'))"
    using wf dom_finite [OF wf] fr(1) unfolding d' by (simp add: lib_wf_def dom_def [symmetric] card_insert_if domIff)
  have "(\<lambda>l. map_option tl_num (dm_tl d' l)) = (\<lambda>l. map_option tl_num (dm_tl d l))(l \<mapsto> dm_nextnum d)"
    "(\<lambda>l. map_option tl_hash (dm_tl d' l)) = (\<lambda>l. map_option tl_hash (dm_tl d l))(l \<mapsto> h)"
    unfolding d' by auto
  then show "lib_wf d'" using num hash lt cd unfolding lib_wf_keyed by (simp add: d')
qed

lemma tlib_kill_wf:
  assumes wf: "lib_wf d" and k: "tlib_kill l d = Some d'"
  shows "lib_wf d'" "dm_tl d' = (dm_tl d)(l := None)" "dm_tl d l \<noteq> None"
proof -
  from k obtain x where x: "dm_tl d l = Some x" by (auto simp: tlib_kill_def bind_Some_iff)
  obtain r1 nt r2 tt where nt: "htbl_remove (dm_numtbl d) (tl_num x) = (r1, nt)"
    and tt: "htbl_remove (dm_hashtbl d) (tl_hash x) = (r2, tt)" by (meson surj_pair)
  with k x have d': "d' = d\<lparr>dm_numtbl := nt, dm_hashtbl := tt, dm_tl := (dm_tl d)(l := None), dm_ntlibs := dm_ntlibs d - 1\<rparr>"
    by (simp add: tlib_kill_def)
  show "dm_tl d' = (dm_tl d)(l := None)" "dm_tl d l \<noteq> None" using x d' by simp_all
  have num: "keyed nt ((\<lambda>l. map_option tl_num (dm_tl d l))(l := None))"
    by (rule keyed_remove [OF _ _ nt]) (use wf x in \<open>auto simp: lib_wf_keyed\<close>)
  have hash: "keyed tt ((\<lambda>l. map_option tl_hash (dm_tl d l))(l := None))"
    by (rule keyed_remove [OF _ _ tt]) (use wf x in \<open>auto simp: lib_wf_keyed\<close>)
  have cd: "dm_ntlibs d - 1 = card (dom ((dm_tl d)(l := None)))"
    using wf dom_finite [OF wf] x by (simp add: lib_wf_def card_Diff_singleton domI)
  have "(\<lambda>l. map_option tl_num (dm_tl d' l)) = (\<lambda>l. map_option tl_num (dm_tl d l))(l := None)"
    "(\<lambda>l. map_option tl_hash (dm_tl d' l)) = (\<lambda>l. map_option tl_hash (dm_tl d l))(l := None)"
    unfolding d' by auto
  then show "lib_wf d'" using num hash cd wf unfolding lib_wf_keyed by (simp add: d')
qed

lemma upd_tl_wf:
  assumes "lib_wf d" "\<And>x. dm_tl d l = Some x \<Longrightarrow> tl_num (f x) = tl_num x \<and> tl_hash (f x) = tl_hash x"
  shows "lib_wf (upd_tl l f d)"
proof -
  have "(\<lambda>k. map_option tl_num (dm_tl (upd_tl l f d) k)) = (\<lambda>k. map_option tl_num (dm_tl d k))"
    "(\<lambda>k. map_option tl_hash (dm_tl (upd_tl l f d) k)) = (\<lambda>k. map_option tl_hash (dm_tl d k))"
    "dom (dm_tl (upd_tl l f d)) = dom (dm_tl d)"
    using assms(2) by (auto simp: upd_tl_def fun_eq_iff dom_def option.map_comp comp_def split: if_split_asm intro!: map_option_cong)
  then show ?thesis using assms unfolding lib_wf_keyed by (auto simp: upd_tl_def split: if_split_asm)
qed

section \<open>Restart\<close>

text \<open>What is saved of \<open>x\<close> is on disk.\<close>

definition on_disk :: "fsys \<Rightarrow> tlib \<Rightarrow> bool" where
  "on_disk fs x \<longleftrightarrow> info_ok x \<and> length (tl_hash x) = 20 \<and> fs_read fs (torrent_path (tl_hash x) ''info'') = info_text x"

definition restored :: "tlib \<Rightarrow> tlib \<Rightarrow> bool" where
  "restored x y \<longleftrightarrow> (\<exists>n. y = x\<lparr>tl_num := n, tl_tp := None\<rparr>)"

lemma bin2hex_inj: "length a = 20 \<Longrightarrow> length b = 20 \<Longrightarrow> bin2hex a 20 = bin2hex b 20 \<Longrightarrow> a = b"
  by (metis hex2bin_bin2hex option.inject)

lemma torrent_path_inj:
  "length a = 20 \<Longrightarrow> length b = 20 \<Longrightarrow> torrent_path a f = torrent_path b g \<longleftrightarrow> a = b \<and> f = g"
proof -
  assume l: "length a = 20" "length b = 20"
  have "bin2hex a 20 @ CHR ''/'' # f = bin2hex b 20 @ CHR ''/'' # g \<longleftrightarrow> bin2hex a 20 = bin2hex b 20 \<and> f = g"
    using length_bin2hex [OF l(1)] length_bin2hex [OF l(2)] by simp
  then show ?thesis using bin2hex_inj [OF l] by (auto simp: torrent_path_def torrent_dir_def)
qed

lemma save_info_on_disk:
  assumes "info_ok x" "length (tl_hash x) = 20" "save_info x fs = Some fs'"
  shows "on_disk fs' x" "on_disk fs y \<Longrightarrow> tl_hash y \<noteq> tl_hash x \<Longrightarrow> on_disk fs' y"
proof -
  from assms(1) obtain buf where t: "info_text x = Some buf" by (auto simp: info_ok_def info_text_def)
  note r = save_info_reads(1) [OF assms(1,3) t]
  show "on_disk fs' x" using r assms t by (simp add: on_disk_def)
  show "on_disk fs y \<Longrightarrow> tl_hash y \<noteq> tl_hash x \<Longrightarrow> on_disk fs' y"
    using r assms(2) torrent_path_inj [of "tl_hash y" "tl_hash x"] by (simp add: on_disk_def)
qed

lemma filter_fst_update: "\<not> P k \<Longrightarrow> filter P (map fst (AList.update k v al)) = filter P (map fst al)"
  by (induction al) auto

lemma filter_fst_delete: "\<not> P k \<Longrightarrow> filter P (map fst (AList.delete k al)) = filter P (map fst al)"
  by (induction al) auto

lemma fs_names_put: "fs_put path data fs = Some fs' \<Longrightarrow> dir_of path \<noteq> dir \<Longrightarrow> fs_names fs' dir = fs_names fs dir"
  by (auto simp: fs_put_def fs_names_def filter_fst_update split: if_split_asm)

lemma fs_names_unlink: "dir_of path \<noteq> dir \<Longrightarrow> fs_names (fs_unlink path fs) dir = fs_names fs dir"
  by (simp add: fs_unlink_def fs_names_def filter_fst_delete)

lemma save_info_names:
  assumes "save_info x fs = Some fs'"
  shows "fs_names fs' ''torrents'' = fs_names fs ''torrents''" "fs_dirs fs' = fs_dirs fs"
proof -
  have d: "dir_of (torrent_path h ''info'' @ ''.write'') \<noteq> ''torrents''" "dir_of (torrent_path h ''info'') \<noteq> ''torrents''" for h
    using dir_of_simp [of "''info.write''" "torrent_dir h"] dir_of_simp [of "''info''" "torrent_dir h"]
    by (simp_all add: torrent_path_def torrent_dir_def)
  from assms obtain data fs1 data2 where
    1: "fs_put (torrent_path (tl_hash x) ''info'' @ ''.write'') data fs = Some fs1" and
    2: "fs_put (torrent_path (tl_hash x) ''info'') data2 (fs_unlink (torrent_path (tl_hash x) ''info'' @ ''.write'') fs1) = Some fs'"
    by (auto simp: save_info_def fs_rename_def Let_def bind_Some_iff)
  show "fs_names fs' ''torrents'' = fs_names fs ''torrents''"
    using fs_names_put [OF 1 d(1)] fs_names_put [OF 2 d(2)] fs_names_unlink [OF d(1)] by simp
  show "fs_dirs fs' = fs_dirs fs" using fs_dirs_put [OF 1] fs_dirs_put [OF 2] by simp
qed

lemma save_all_on_disk:
  "foreach xs save_info fs = Some fs' \<Longrightarrow> \<forall>x \<in> set xs. info_ok x \<and> length (tl_hash x) = 20 \<Longrightarrow> distinct (map tl_hash xs) \<Longrightarrow>
     (\<forall>x \<in> set xs. on_disk fs' x) \<and> (\<forall>y. on_disk fs y \<longrightarrow> tl_hash y \<notin> tl_hash ` set xs \<longrightarrow> on_disk fs' y) \<and>
     fs_names fs' ''torrents'' = fs_names fs ''torrents'' \<and> fs_dirs fs' = fs_dirs fs"
proof (induction xs arbitrary: fs)
  case (Cons x xs)
  then obtain fs1 where s: "save_info x fs = Some fs1" "foreach xs save_info fs1 = Some fs'" by (auto simp: bind_Some_iff)
  from Cons.IH [OF s(2)] Cons.prems save_info_on_disk [OF _ _ s(1)] save_info_names [OF s(1)] show ?case by auto
qed simp

lemma load_all_restores:
  assumes "lib_wf d" "distinct names" "unat (dm_nextnum d) + length names < 2 ^ 32"
    "\<And>n. n \<in> set names \<Longrightarrow> length n = 40 \<Longrightarrow> ishex n \<Longrightarrow>
       \<exists>x. on_disk (dm_fs d) x \<and> bin2hex (tl_hash x) 20 = n \<and> tlib_by_hash d (tl_hash x) = None"
  shows "\<exists>d'. load_all names d = Some d' \<and> lib_wf d' \<and> dm_fs d' = dm_fs d \<and> dm_next_tl d \<le> dm_next_tl d' \<and>
    (\<forall>l < dm_next_tl d. dm_tl d' l = dm_tl d l) \<and>
    (\<forall>x. on_disk (dm_fs d) x \<longrightarrow> bin2hex (tl_hash x) 20 \<in> set names \<longrightarrow>
      (\<exists>l y. tlib_by_hash d' (tl_hash x) = Some l \<and> dm_tl d' l = Some y \<and> restored x y)) \<and>
    (\<forall>l \<ge> dm_next_tl d. \<forall>y. dm_tl d' l = Some y \<longrightarrow> bin2hex (tl_hash y) 20 \<in> set names \<and> length (tl_hash y) = 20)"
  using assms
proof (induction names arbitrary: d)
  case Nil
  then have "\<forall>l \<ge> dm_next_tl d. dm_tl d l = None" by (auto simp: lib_wf_def) (metis linorder_not_less option.exhaust)
  with Nil show ?case by simp
next
  case (Cons n names)
  show ?case
  proof (cases "length n = 40 \<and> ishex n")
    case False
    have no: "bin2hex (tl_hash x) 20 \<noteq> n" if "length (tl_hash x) = 20" for x
      using False length_bin2hex [OF that] ishex_bin2hex [OF that] by auto
    from Cons.IH [of d] Cons.prems False obtain d' where d': "load_all names d = Some d' \<and> lib_wf d' \<and> dm_fs d' = dm_fs d \<and> dm_next_tl d \<le> dm_next_tl d' \<and>
      (\<forall>l < dm_next_tl d. dm_tl d' l = dm_tl d l) \<and>
      (\<forall>x. on_disk (dm_fs d) x \<longrightarrow> bin2hex (tl_hash x) 20 \<in> set names \<longrightarrow>
        (\<exists>l y. tlib_by_hash d' (tl_hash x) = Some l \<and> dm_tl d' l = Some y \<and> restored x y)) \<and>
      (\<forall>l \<ge> dm_next_tl d. \<forall>y. dm_tl d' l = Some y \<longrightarrow> bin2hex (tl_hash y) 20 \<in> set names \<and> length (tl_hash y) = 20)" by auto
    have "bin2hex (tl_hash x) 20 \<in> set names" if "on_disk (dm_fs d) x" "bin2hex (tl_hash x) 20 \<in> set (n # names)" for x
      using that no by (auto simp: on_disk_def)
    then have "\<exists>l y. tlib_by_hash d' (tl_hash x) = Some l \<and> dm_tl d' l = Some y \<and> restored x y"
      if "on_disk (dm_fs d) x" "bin2hex (tl_hash x) 20 \<in> set (n # names)" for x using d' that by blast
    moreover have "load_all (n # names) d = Some d'" using d' False by auto
    ultimately show ?thesis using d' by (intro exI [of _ d']) auto
  next
    case True
    then obtain x0 where x0: "on_disk (dm_fs d) x0" "bin2hex (tl_hash x0) 20 = n" "tlib_by_hash d (tl_hash x0) = None"
      using Cons.prems(4) [of n] by auto
    let ?h = "tl_hash x0"
    have l20: "length ?h = 20" using x0(1) by (simp add: on_disk_def)
    have hb: "hex2bin n 20 = Some ?h" using hex2bin_bin2hex [OF l20] x0(2) by simp
    obtain l d1 where c: "tlib_create ?h d = (l, d1)" by force
    have nz: "dm_nextnum d + 1 \<noteq> 0"
    proof
      assume "dm_nextnum d + 1 = 0"
      then have "unat (dm_nextnum d + 1) = 0" by simp
      with Cons.prems(3) show False by (simp add: unat_plus_if' split: if_split_asm)
    qed
    note cw = tlib_create_wf [OF Cons.prems(1) x0(3) nz c]
    have path: "''torrents/'' @ n @ ''/info'' = torrent_path ?h ''info''" using x0(2) by (simp add: torrent_path_def torrent_dir_def)
    have ld: "load_info l (torrent_path ?h ''info'') d1 = Some (upd_tl l (info_of x) d1)" if "on_disk (dm_fs d) x" "tl_hash x = ?h" for x
    proof -
      from that obtain buf where "info_text x = Some buf" "info_ok x" by (auto simp: on_disk_def info_ok_def info_text_def)
      with info_loads(2) [of x buf d1] that cw(7) show ?thesis by (simp add: on_disk_def)
    qed
    let ?d2 = "upd_tl l (info_of x0) d1"
    have wf2: "lib_wf ?d2" by (rule upd_tl_wf [OF cw(1)]) (simp add: info_of_def)
    have d2: "dm_fs ?d2 = dm_fs d" "dm_nextnum ?d2 = dm_nextnum d + 1" "dm_next_tl ?d2 = l + 1" "\<forall>k. k \<noteq> l \<longrightarrow> dm_tl ?d2 k = dm_tl d k"
      using cw by (simp_all add: upd_tl_def)
    obtain y0 where y0: "dm_tl ?d2 l = Some y0" "tl_hash y0 = ?h" using cw(2) by (simp add: upd_tl_def info_of_def)
    have rs: "restored x y0" if "on_disk (dm_fs d) x" "tl_hash x = ?h" for x
    proof -
      have "upd_tl l (info_of x) d1 = ?d2" using ld [OF that] ld [OF x0(1) refl] by simp
      then have "dm_tl (upd_tl l (info_of x) d1) l = Some y0" using y0(1) by simp
      then show ?thesis using cw(2) that(2) by (auto simp: upd_tl_def info_of_def restored_def intro!: exI [of _ "dm_nextnum d"])
    qed
    have nn: "unat (dm_nextnum ?d2) + length names < 2 ^ 32"
      using Cons.prems(3) unfolding d2(2) by (simp add: unat_plus_if' split: if_split_asm)
    have fresh: "tlib_by_hash ?d2 (tl_hash x) = None" if "tlib_by_hash d (tl_hash x) = None" "tl_hash x \<noteq> ?h" for x
    proof (cases "tlib_by_hash ?d2 (tl_hash x)")
      case (Some k)
      then obtain y where "dm_tl ?d2 k = Some y" "tl_hash y = tl_hash x" using tlib_by_hash_iff [OF wf2] by blast
      moreover from this that(2) y0 have "k \<noteq> l" by auto
      ultimately have "tlib_by_hash d (tl_hash x) = Some k" using d2(4) tlib_by_hash_iff [OF Cons.prems(1)] by auto
      with that(1) show ?thesis by simp
    qed
    have "\<exists>x. on_disk (dm_fs ?d2) x \<and> bin2hex (tl_hash x) 20 = m \<and> tlib_by_hash ?d2 (tl_hash x) = None"
      if m: "m \<in> set names" "length m = 40" "ishex m" for m
    proof -
      from Cons.prems(4) [of m] m obtain x where x: "on_disk (dm_fs d) x" "bin2hex (tl_hash x) 20 = m" "tlib_by_hash d (tl_hash x) = None" by auto
      moreover from x m Cons.prems(2) x0(2) have "tl_hash x \<noteq> ?h" by auto
      ultimately show ?thesis using fresh d2(1) by auto
    qed
    from Cons.IH [OF wf2 _ nn this] Cons.prems(2) obtain d' where d': "load_all names ?d2 = Some d'" "lib_wf d'" "dm_fs d' = dm_fs d"
      "l + 1 \<le> dm_next_tl d'" "\<forall>k < l + 1. dm_tl d' k = dm_tl ?d2 k"
      "\<forall>x. on_disk (dm_fs d) x \<longrightarrow> bin2hex (tl_hash x) 20 \<in> set names \<longrightarrow>
        (\<exists>l y. tlib_by_hash d' (tl_hash x) = Some l \<and> dm_tl d' l = Some y \<and> restored x y)"
      "\<forall>k \<ge> l + 1. \<forall>y. dm_tl d' k = Some y \<longrightarrow> bin2hex (tl_hash y) 20 \<in> set names \<and> length (tl_hash y) = 20"
      using d2 by auto
    have la: "load_all (n # names) d = Some d'" using True hb c ld [OF x0(1) refl] d'(1) path by simp
    have y0': "dm_tl d' l = Some y0" using d'(5) y0(1) by simp
    have all: "\<exists>l y. tlib_by_hash d' (tl_hash x) = Some l \<and> dm_tl d' l = Some y \<and> restored x y"
      if x: "on_disk (dm_fs d) x" "bin2hex (tl_hash x) 20 \<in> set (n # names)" for x
    proof (cases "tl_hash x = ?h")
      case True
      with y0' y0(2) tlib_by_hash_iff [OF d'(2)] rs [OF x(1)] show ?thesis by auto
    next
      case False
      with x x0(2) bin2hex_inj [of "tl_hash x" ?h] l20 have "bin2hex (tl_hash x) 20 \<in> set names" by (auto simp: on_disk_def)
      with d'(6) x(1) show ?thesis by blast
    qed
    have old: "dm_next_tl d = l" using cw(3) by simp
    have new: "bin2hex (tl_hash y) 20 \<in> set (n # names) \<and> length (tl_hash y) = 20" if "dm_next_tl d \<le> k" "dm_tl d' k = Some y" for k y
    proof (cases "k = l")
      case True
      with that(2) y0' y0(2) x0(2) l20 show ?thesis by simp
    next
      case False
      with that(1) old have "l + 1 \<le> k" by simp
      with d'(7) that(2) show ?thesis by auto
    qed
    have "\<forall>k < dm_next_tl d. dm_tl d' k = dm_tl d k" using d'(5) d2(4) old by simp
    with la d'(2,3,4) all new old show ?thesis by auto
  qed
qed

text \<open>C3. A restart of the daemon restores the library: when the entries \<open>xs\<close> have been saved, one directory of the
  torrents directory each, then after \<^verbatim>\<open>tlib_init\<close> each of them is found by its hash, with the name, directory, label, amounts and sizes
  it was saved with, nothing else is in the library, and the tables agree with the entries.\<close>

theorem restart_restores_library:
  assumes "foreach xs save_info fs = Some fs'" "\<forall>x \<in> set xs. info_ok x \<and> length (tl_hash x) = 20" "distinct (map tl_hash xs)"
    "''torrents'' \<in> set (fs_dirs fs)" "fs_names fs ''torrents'' = map (\<lambda>x. bin2hex (tl_hash x) 20) xs" "length xs < 2 ^ 32"
    "dm_fs d = fs'" "dm_tl d = Map.empty" "dm_ntlibs d = 0" "dm_nextnum d = 0"
  shows "\<exists>d'. tlib_init d = Some d' \<and> lib_wf d' \<and>
    (\<forall>x \<in> set xs. \<exists>l y. tlib_by_hash d' (tl_hash x) = Some l \<and> dm_tl d' l = Some y \<and> restored x y) \<and>
    (\<forall>l y. dm_tl d' l = Some y \<longrightarrow> tl_hash y \<in> tl_hash ` set xs)"
proof -
  from save_all_on_disk [OF assms(1,2,3)] have od: "\<forall>x \<in> set xs. on_disk fs' x" and fs': "fs_names fs' ''torrents'' = map (\<lambda>x. bin2hex (tl_hash x) 20) xs"
    "''torrents'' \<in> set (fs_dirs fs')" using assms(4,5) by auto
  obtain nt where nt: "htbl_create True 1 (=) id fst = Some (nt :: (u32, u32 \<times> lid) htbl)" by (simp add: htbl_create_def)
  obtain tt where tt: "htbl_create True 1 (=) btpd_id_hash fst = Some (tt :: (byte list, byte list \<times> lid) htbl)" by (simp add: htbl_create_def)
  let ?d = "d\<lparr>dm_numtbl := nt, dm_hashtbl := tt\<rparr>"
  have wf: "lib_wf ?d" using keyed_create [OF nt] keyed_create [OF tt] assms(8,9) unfolding lib_wf_keyed by simp
  have none: "tlib_by_hash ?d h = None" for h
    using tlib_by_hash_iff [OF wf, of h] assms(8) by (cases "tlib_by_hash ?d h") auto
  have dn: "distinct (map (\<lambda>x. bin2hex (tl_hash x) 20) xs)"
    using assms(2,3) bin2hex_inj by (fastforce simp: distinct_map inj_on_def)
  have "\<exists>x. on_disk (dm_fs ?d) x \<and> bin2hex (tl_hash x) 20 = n \<and> tlib_by_hash ?d (tl_hash x) = None"
    if "n \<in> set (map (\<lambda>x. bin2hex (tl_hash x) 20) xs)" for n
    using that od none assms(7) by auto
  from load_all_restores [OF wf dn _ this] assms(6,7,10) obtain d' where d': "load_all (map (\<lambda>x. bin2hex (tl_hash x) 20) xs) ?d = Some d'" "lib_wf d'"
    "\<forall>l < dm_next_tl d. dm_tl d' l = dm_tl d l"
    "\<forall>x. on_disk fs' x \<longrightarrow> bin2hex (tl_hash x) 20 \<in> set (map (\<lambda>x. bin2hex (tl_hash x) 20) xs) \<longrightarrow>
      (\<exists>l y. tlib_by_hash d' (tl_hash x) = Some l \<and> dm_tl d' l = Some y \<and> restored x y)"
    "\<forall>l \<ge> dm_next_tl d. \<forall>y. dm_tl d' l = Some y \<longrightarrow> bin2hex (tl_hash y) 20 \<in> set (map (\<lambda>x. bin2hex (tl_hash x) 20) xs) \<and> length (tl_hash y) = 20"
    by auto
  have "tlib_init d = Some d'" using nt tt fs' assms(7) d'(1) by (simp add: tlib_init_def)
  moreover have "tl_hash y \<in> tl_hash ` set xs" if "dm_tl d' l = Some y" for l y
  proof (cases "l < dm_next_tl d")
    case True
    with d'(3) that assms(8) show ?thesis by simp
  next
    case False
    then have "dm_next_tl d \<le> l" by simp
    with d'(5) that have "bin2hex (tl_hash y) 20 \<in> set (map (\<lambda>x. bin2hex (tl_hash x) 20) xs)" and l20: "length (tl_hash y) = 20" by blast+
    then obtain x where x: "x \<in> set xs" "bin2hex (tl_hash y) 20 = bin2hex (tl_hash x) 20" by auto
    with bin2hex_inj [of "tl_hash y" "tl_hash x"] l20 assms(2) show ?thesis by auto
  qed
  ultimately show ?thesis using d'(2,4) od by auto
qed

text \<open>A daemon that has just been started, with one saved entry.\<close>

definition sample_entry :: tlib where
  "sample_entry = \<lparr>tl_num = 7, tl_hash = replicate 20 1, tl_tp = None, tl_name = Some ''n'', tl_dir = Some ''/d'', tl_label = Some '''',
     tl_up = 5, tl_down = 6, tl_size = 11, tl_have = 8\<rparr>"

definition sample_fs :: fsys where
  "sample_fs = \<lparr>fs_files = [], fs_dirs = [''torrents'', ''torrents/0101010101010101010101010101010101010101'']\<rparr>"

definition sample_daemon :: daemon where
  "sample_daemon = \<lparr>dm_ts = sample_trackers, dm_fs = sample_fs, dm_tl = Map.empty, dm_next_tl = 0, dm_nextnum = 0, dm_ntlibs = 0,
     dm_numtbl = the (htbl_create True 1 (=) id fst), dm_hashtbl = the (htbl_create True 1 (=) btpd_id_hash fst),
     dm_tlink = Map.empty, dm_delete = (\<lambda>_. False), dm_next_tp = 0, dm_nghosts = 0, dm_ntorrents = 0, dm_tsave = 0, dm_savetp = None\<rparr>"

lemma sample_hex: "bin2hex (replicate 20 1) 20 = ''0101010101010101010101010101010101010101''"
  by code_simp

lemma sample_entry_ok: "info_ok sample_entry" "length (tl_hash sample_entry) = 20"
  by (simp_all add: info_ok_def sample_entry_def info_text_def PATH_MAX_def benc_num_def benc_text_def show_int_def show_base.simps)

lemma sample_saved: "\<exists>fs'. save_info sample_entry sample_fs = Some fs'"
proof -
  have "torrent_dir (tl_hash sample_entry) \<in> set (fs_dirs sample_fs)"
    by (simp add: sample_entry_def sample_fs_def torrent_dir_def sample_hex)
  from save_info_works [OF sample_entry_ok(1) this] show ?thesis by blast
qed

theorem restart_restores_library_witness:
  "\<exists>fs' d'. save_info sample_entry sample_fs = Some fs' \<and> tlib_init (sample_daemon\<lparr>dm_fs := fs'\<rparr>) = Some d' \<and> lib_wf d' \<and>
     (\<exists>l y. tlib_by_hash d' (replicate 20 1) = Some l \<and> dm_tl d' l = Some y \<and> restored sample_entry y)"
proof -
  obtain fs' where f: "save_info sample_entry sample_fs = Some fs'" using sample_saved by blast
  have "fs_names sample_fs ''torrents'' = map (\<lambda>x. bin2hex (tl_hash x) 20) [sample_entry]"
    by (simp add: fs_names_def sample_fs_def sample_entry_def sample_hex dir_of_def name_of_def)
  from restart_restores_library [of "[sample_entry]" sample_fs fs' "sample_daemon\<lparr>dm_fs := fs'\<rparr>", OF _ _ _ _ this]
  have "\<exists>d'. tlib_init (sample_daemon\<lparr>dm_fs := fs'\<rparr>) = Some d' \<and> lib_wf d' \<and>
     (\<exists>l y. tlib_by_hash d' (tl_hash sample_entry) = Some l \<and> dm_tl d' l = Some y \<and> restored sample_entry y)"
    using f sample_entry_ok by (auto simp: sample_fs_def sample_daemon_def)
  moreover have "tl_hash sample_entry = replicate 20 1" by (simp add: sample_entry_def)
  ultimately show ?thesis using f by metis
qed

section \<open>A missing label\<close>

text \<open>\<^verbatim>\<open>btcli add\<close> need not give a label; then \<^verbatim>\<open>save_info\<close> takes the length of NULL.\<close>

lemma no_label_crashes: "save_info (x\<lparr>tl_label := None\<rparr>) fs = None"
  by (simp add: save_info_def info_text_def Option.bind_eq_None_conv split: option.split)

end
