(* ===== verification/Resume.thy ===== *)
theory Resume
  imports Tlib
begin

text \<open>
  The resume file of \<^verbatim>\<open>btpd/tlib.c\<close>: a header, size and modification time of every file, the piece field and the
  block field. While a torrent runs the file is mapped into memory, and the model of the content keeps its parts as
  fields; \<open>resume_image\<close> is the memory they make up.
\<close>

definition resume_file_size :: "nat \<Rightarrow> nat" where
  "resume_file_size i = 8 + 16 * i"

definition resume_file_time :: "nat \<Rightarrow> nat" where
  "resume_file_time i = 16 + 16 * i"

definition resume_set_fts :: "byte list \<Rightarrow> nat \<Rightarrow> fts \<Rightarrow> byte list" where
  "resume_set_fts base i x =
     overwrite (overwrite base (resume_file_size i) (enc_be64 (word_of_int (snd x)))) (resume_file_time i)
       (enc_be64 (word_of_int (fst x)))"

definition resume_get_fts :: "byte list \<Rightarrow> nat \<Rightarrow> fts option" where
  "resume_get_fts base i =
     do {
       size \<leftarrow> dec_be64 (drop (resume_file_size i) base);
       mtime \<leftarrow> dec_be64 (drop (resume_file_time i) base);
       Some (sint mtime, sint size) }"

text \<open>
  \<^verbatim>\<open>init_resume\<close>: the answers of \<^verbatim>\<open>write\<close> for the zeros, in blocks of at most 1024; a write of nothing or an
  error ends the process. The two writes of the header are complete.
\<close>

fun write_zeros :: "nat list \<Rightarrow> nat \<Rightarrow> byte list option" where
  "write_zeros nws n =
     (if n = 0 then Some []
      else (case nws of
              [] \<Rightarrow> None
            | nw # nws' \<Rightarrow>
                if nw < 1 \<or> nw > min 1024 n then None
                else map_option ((@) (replicate nw 0)) (write_zeros nws' (n - nw))))"

declare write_zeros.simps [simp del]

definition resume_header :: "byte list" where
  "resume_header = bytes_of ''RESD'' @ enc_be32 2"

definition init_resume :: "nat list \<Rightarrow> nat \<Rightarrow> byte list option" where
  "init_resume nws n = map_option ((@) resume_header) (write_zeros nws (n - 8))"

definition resume_size :: "nat \<Rightarrow> nat \<Rightarrow> nat \<Rightarrow> nat" where
  "resume_size nfiles pfsize bfsize = 8 + nfiles * 16 + pfsize + bfsize"

text \<open>The mapped memory; \<open>file\<close> is what is in the file, nothing when it has just been made.\<close>

definition open_resume :: "nat list \<Rightarrow> nat \<Rightarrow> nat \<Rightarrow> nat \<Rightarrow> byte list \<Rightarrow> byte list option" where
  "open_resume nws nfiles pfsize bfsize file =
     do {
       let n = resume_size nfiles pfsize bfsize;
       base \<leftarrow> (if length file \<noteq> n then init_resume nws n else Some file);
       if take 4 base \<noteq> bytes_of ''RESD'' \<or> dec_be32 (drop 4 base) \<noteq> Some 2 then init_resume nws n else Some base }"

definition resume_piece_field :: "nat \<Rightarrow> nat \<Rightarrow> byte list \<Rightarrow> byte list" where
  "resume_piece_field nfiles pfsize base = take pfsize (drop (8 + nfiles * 16) base)"

definition resume_block_field :: "nat \<Rightarrow> nat \<Rightarrow> nat \<Rightarrow> byte list \<Rightarrow> byte list" where
  "resume_block_field nfiles pfsize bfsize base = take bfsize (drop (8 + nfiles * 16 + pfsize) base)"

definition resume_image :: "fts list \<Rightarrow> byte list \<Rightarrow> byte list \<Rightarrow> byte list" where
  "resume_image fts pcf blf =
     resume_header @ concat (map (\<lambda>x. enc_be64 (word_of_int (snd x)) @ enc_be64 (word_of_int (fst x))) fts) @ pcf @ blf"

section \<open>Bytes and characters\<close>

definition text_of :: "byte list \<Rightarrow> cstr" where
  "text_of bs = map (\<lambda>b. char_of (unat b)) bs"

lemma bytes_of_text [simp]: "bytes_of (text_of bs) = bs"
proof -
  have "of_char (char_of (unat b)) = b" for b :: byte
  proof -
    have "of_char (char_of (unat b)) = (of_nat (of_char (char_of (unat b) :: char)) :: byte)" by (simp only: of_nat_of_char)
    also have "of_char (char_of (unat b) :: char) = unat b" using unsigned_less [of b, where 'a = nat] by simp
    finally show ?thesis by simp
  qed
  then show ?thesis by (simp add: bytes_of_def text_of_def map_idI)
qed

section \<open>Reading back\<close>

abbreviation fts_bytes :: "fts list \<Rightarrow> byte list" where
  "fts_bytes fts \<equiv> concat (map (\<lambda>x. enc_be64 (word_of_int (snd x)) @ enc_be64 (word_of_int (fst x))) fts)"

lemma length_fts_bytes [simp]: "length (fts_bytes fts) = 16 * length fts"
  by (induction fts) simp_all

lemma length_resume_header [simp]: "length resume_header = 8"
  by (simp add: resume_header_def bytes_of_def)

lemma length_resume_image [simp]: "length (resume_image fts pcf blf) = resume_size (length fts) (length pcf) (length blf)"
  by (simp add: resume_image_def resume_size_def)

lemma resume_fields [simp]:
  "resume_piece_field (length fts) (length pcf) (resume_image fts pcf blf) = pcf"
  "resume_block_field (length fts) (length pcf) (length blf) (resume_image fts pcf blf) = blf"
  by (simp_all add: resume_piece_field_def resume_block_field_def resume_image_def)

lemma fts_bytes_split:
  "i < length fts \<Longrightarrow> fts_bytes fts = fts_bytes (take i fts) @ enc_be64 (word_of_int (snd (fts ! i))) @
     enc_be64 (word_of_int (fst (fts ! i))) @ fts_bytes (drop (Suc i) fts)"
  by (subst id_take_nth_drop [of i fts], simp) (simp del: append_take_drop_id)

definition fts_fit :: "fts \<Rightarrow> bool" where
  "fts_fit x \<longleftrightarrow> - (2 ^ 63) \<le> fst x \<and> fst x < 2 ^ 63 \<and> - (2 ^ 63) \<le> snd x \<and> snd x < 2 ^ 63"

lemma sint_of_fit: "- (2 ^ 63) \<le> i \<Longrightarrow> i < 2 ^ 63 \<Longrightarrow> sint (word_of_int i :: u64) = i"
  by (simp add: sint_sbintrunc' signed_take_bit_int_eq_self)

lemma resume_get_image:
  assumes "i < length fts" "fts_fit (fts ! i)"
  shows "resume_get_fts (resume_image fts pcf blf) i = Some (fts ! i)"
proof -
  have l: "length (fts_bytes (take i fts)) = 16 * i" using assms(1) by simp
  have mi: "min (length fts) i = i" using assms(1) by simp
  have "drop (resume_file_size i) (resume_image fts pcf blf) = enc_be64 (word_of_int (snd (fts ! i))) @
      enc_be64 (word_of_int (fst (fts ! i))) @ fts_bytes (drop (Suc i) fts) @ pcf @ blf"
    unfolding resume_image_def fts_bytes_split [OF assms(1)] resume_file_size_def by (simp add: l mi del: length_concat)
  moreover have "drop (resume_file_time i) (resume_image fts pcf blf) =
      enc_be64 (word_of_int (fst (fts ! i))) @ fts_bytes (drop (Suc i) fts) @ pcf @ blf"
    unfolding resume_image_def fts_bytes_split [OF assms(1)] resume_file_time_def by (simp add: l mi del: length_concat)
  ultimately show ?thesis using assms(2) by (simp add: resume_get_fts_def fts_fit_def sint_of_fit)
qed

lemma resume_set_image:
  assumes "i < length fts"
  shows "resume_set_fts (resume_image fts pcf blf) i x = resume_image (fts[i := x]) pcf blf"
proof -
  have l: "length (fts_bytes (take i fts)) = 16 * i" using assms by simp
  let ?a = "resume_header @ fts_bytes (take i fts)" and ?z = "fts_bytes (drop (Suc i) fts) @ pcf @ blf"
  have la: "length ?a = resume_file_size i" using l by (simp add: resume_file_size_def)
  have im: "resume_image fts pcf blf = ?a @ enc_be64 (word_of_int (snd (fts ! i))) @ enc_be64 (word_of_int (fst (fts ! i))) @ ?z"
    unfolding resume_image_def fts_bytes_split [OF assms] by simp
  have ov: "overwrite (a @ b @ z) (length a) b' = a @ b' @ z" if "length b' = length b" for a b z b' :: "byte list"
    using that by (simp add: overwrite_def)
  have t: "resume_file_time i = length (?a @ enc_be64 (word_of_int (snd x)))" using la by (simp add: resume_file_time_def resume_file_size_def)
  have "resume_set_fts (resume_image fts pcf blf) i x = ?a @ enc_be64 (word_of_int (snd x)) @ enc_be64 (word_of_int (fst x)) @ ?z"
    unfolding resume_set_fts_def im la [symmetric] t
    using ov [of "enc_be64 (word_of_int (snd x))" "enc_be64 (word_of_int (snd (fts ! i)))" ?a "enc_be64 (word_of_int (fst (fts ! i))) @ ?z"]
      ov [of "enc_be64 (word_of_int (fst x))" "enc_be64 (word_of_int (fst (fts ! i)))" "?a @ enc_be64 (word_of_int (snd x))" ?z]
    by simp
  moreover have "resume_image (fts[i := x]) pcf blf = ?a @ enc_be64 (word_of_int (snd x)) @ enc_be64 (word_of_int (fst x)) @ ?z"
    using assms unfolding resume_image_def fts_bytes_split [of i "fts[i := x]", simplified, OF assms] by simp
  ultimately show ?thesis by simp
qed

lemma write_zeros_all: "write_zeros nws n = Some z \<Longrightarrow> z = replicate n 0"
proof (induction nws n arbitrary: z rule: write_zeros.induct)
  case (1 nws n)
  show ?case
  proof (cases "n = 0")
    case True
    with "1.prems" show ?thesis by (simp add: write_zeros.simps)
  next
    case False
    with "1.prems" obtain nw nws' z' where n: "nws = nw # nws'" "\<not> (nw < 1 \<or> nw > min 1024 n)" "write_zeros nws' (n - nw) = Some z'"
      "z = replicate nw 0 @ z'"
      by (subst (asm) write_zeros.simps) (auto split: list.split_asm if_split_asm)
    from n(2) have le: "nw \<le> n" by auto
    from "1.IH" [OF False n(1,2,3)] n(4) le show ?thesis by (simp flip: replicate_add)
  qed
qed

text \<open>C21. A resume file of the right size that the daemon left behind is mapped as it is: the piece field, the block field and the
  time and size of every file are those of the torrent when it was closed; setting one time changes nothing else. A file of another size or
  version starts with empty fields.\<close>

theorem resume_file_roundtrip:
  assumes "\<forall>x \<in> set fts. fts_fit x"
  shows "open_resume nws (length fts) (length pcf) (length blf) (resume_image fts pcf blf) = Some (resume_image fts pcf blf) \<and>
    resume_piece_field (length fts) (length pcf) (resume_image fts pcf blf) = pcf \<and>
    resume_block_field (length fts) (length pcf) (length blf) (resume_image fts pcf blf) = blf \<and>
    map (resume_get_fts (resume_image fts pcf blf)) [0 ..< length fts] = map Some fts \<and>
    (\<forall>i x. i < length fts \<longrightarrow> resume_set_fts (resume_image fts pcf blf) i x = resume_image (fts[i := x]) pcf blf) \<and>
    (\<forall>file base. length file \<noteq> resume_size n m k \<longrightarrow> open_resume nws n m k file = Some base \<longrightarrow>
       base = resume_header @ replicate (n * 16 + m + k) 0)"
proof (intro conjI allI impI)
  have h: "take 4 (resume_header @ r) = bytes_of ''RESD''" "dec_be32 (drop 4 (resume_header @ r)) = Some 2" for r
    by (simp_all add: resume_header_def bytes_of_def)
  show "open_resume nws (length fts) (length pcf) (length blf) (resume_image fts pcf blf) = Some (resume_image fts pcf blf)"
    using h by (simp add: open_resume_def Let_def) (simp add: resume_image_def)
  show "map (resume_get_fts (resume_image fts pcf blf)) [0 ..< length fts] = map Some fts"
    using assms by (intro nth_equalityI) (simp_all add: resume_get_image)
  fix f base
  assume "length f \<noteq> resume_size n m k" "open_resume nws n m k f = Some base"
  then show "base = resume_header @ replicate (n * 16 + m + k) 0"
    using h by (auto simp: open_resume_def Let_def init_resume_def resume_size_def bind_Some_iff dest!: write_zeros_all)
qed (simp_all add: resume_set_image)

theorem resume_file_roundtrip_witness:
  "open_resume [] 1 1 2 (resume_image [(9, 5)] [0xF0] [1, 2]) = Some (resume_image [(9, 5)] [0xF0] [1, 2]) \<and>
   map (resume_get_fts (resume_image [(9, 5)] [0xF0] [1, 2])) [0 ..< 1] = [Some (9, 5)] \<and>
   open_resume [6] 0 4 2 [] = Some (resume_header @ replicate 6 0)"
proof -
  have "open_resume [6] 0 4 2 [] = Some (resume_header @ replicate 6 0)"
    by (simp add: open_resume_def resume_size_def init_resume_def write_zeros.simps resume_header_def bytes_of_def)
  moreover have "open_resume [] 1 1 2 (resume_image [(9, 5)] [0xF0] [1, 2]) = Some (resume_image [(9, 5)] [0xF0] [1, 2])"
    "map (resume_get_fts (resume_image [(9, 5)] [0xF0] [1, 2])) [0 ..< 1] = [Some (9, 5)]"
    using resume_file_roundtrip [of "[(9, 5)]" "[]" "[0xF0]" "[1, 2]" 0 4 2] by (simp_all add: fts_fit_def numeral_2_eq_2)
  ultimately show ?thesis by simp
qed

end
