(* ===== verification/Torrent.thy ===== *)
theory Torrent
  imports Resume
begin

text \<open>
  The life of a torrent: \<^verbatim>\<open>btpd/torrent.c\<close>. A torrent that has been freed is \<open>None\<close> in the store, so every later use
  of it is \<open>None\<close>. The torrents are the list \<open>w_torrents\<close> of the world.
\<close>

section \<open>Answers\<close>

datatype ipc_err = IPC_OK | IPC_COMMERR | IPC_EBADCDIR | IPC_EBADT | IPC_EBADTENT | IPC_EBADTRACKER | IPC_ECREATECDIR |
  IPC_ENOKEY | IPC_ENOTENT | IPC_ESHUTDOWN | IPC_ETACTIVE | IPC_ETENTEXIST | IPC_ETINACTIVE

section \<open>Access\<close>

definition tl_state :: "daemon \<Rightarrow> tlib \<Rightarrow> torrent_state option" where
  "tl_state d x = do { t \<leftarrow> tl_tp x; tp \<leftarrow> cw_tor (dm_w d) t; Some (tp_state tp) }"

text \<open>The three tests of an entry; a pointer to a freed torrent must not be read.\<close>

definition torrent_active :: "daemon \<Rightarrow> tlib \<Rightarrow> bool option" where
  "torrent_active d x =
     (case tl_tp x of None \<Rightarrow> Some False | Some t \<Rightarrow> do { tp \<leftarrow> cw_tor (dm_w d) t; Some (tp_state tp \<noteq> T_GHOST) })"

definition torrent_startable :: "daemon \<Rightarrow> tlib \<Rightarrow> bool option" where
  "torrent_startable d x =
     (case tl_tp x of None \<Rightarrow> Some True
      | Some t \<Rightarrow> do { tp \<leftarrow> cw_tor (dm_w d) t; Some (tp_state tp = T_GHOST \<and> \<not> dm_delete d t) })"

definition torrent_haunting :: "daemon \<Rightarrow> tlib \<Rightarrow> bool option" where
  "torrent_haunting d x =
     (case tl_tp x of None \<Rightarrow> Some False
      | Some t \<Rightarrow> do { tp \<leftarrow> cw_tor (dm_w d) t; Some (dm_delete d t \<and> tp_state tp = T_GHOST) })"

definition torrent_by_num :: "daemon \<Rightarrow> u32 \<Rightarrow> tid option option" where
  "torrent_by_num d num =
     (case tlib_by_num d num of None \<Rightarrow> Some None | Some l \<Rightarrow> do { x \<leftarrow> dm_tl d l; Some (tl_tp x) })"

text \<open>The lookup of \<^verbatim>\<open>torrent.c\<close>; the theory Net has the same lookup over the list of torrents.\<close>

definition tp_by_hash :: "daemon \<Rightarrow> byte list \<Rightarrow> tid option option" where
  "tp_by_hash d h =
     (case tlib_by_hash d h of None \<Rightarrow> Some None | Some l \<Rightarrow> do { x \<leftarrow> dm_tl d l; Some (tl_tp x) })"

definition torrent_name :: "tid \<Rightarrow> daemon \<Rightarrow> cstr option option" where
  "torrent_name t d = do { l \<leftarrow> dm_tlink d t; x \<leftarrow> dm_tl d l; Some (tl_name x) }"

definition set_state :: "tid \<Rightarrow> torrent_state \<Rightarrow> world \<Rightarrow> world" where
  "set_state t st w = w\<lparr>cw_tor := (cw_tor w)(t := map_option (\<lambda>tp. tp\<lparr>tp_state := st\<rparr>) (cw_tor w t))\<rparr>"

text \<open>An operation of the network side.\<close>

definition on_w :: "(world \<Rightarrow> world option) \<Rightarrow> daemon \<Rightarrow> daemon option" where
  "on_w f d = do { w \<leftarrow> f (dm_w d); Some (set_w w d) }"

definition on_ts :: "(tr_state \<Rightarrow> tr_state option) \<Rightarrow> daemon \<Rightarrow> daemon option" where
  "on_ts f d = do { s \<leftarrow> f (dm_ts d); Some (d\<lparr>dm_ts := s\<rparr>) }"

section \<open>Ends of the other parts\<close>

text \<open>\<^verbatim>\<open>net_kill\<close>: the peers that are still known are freed, with at most as many rounds as there are.\<close>

fun net_kill_loop :: "nat \<Rightarrow> (byte list, byte list \<times> pid) htbl \<Rightarrow> ((byte list \<times> pid) \<times> htbl_iter) option \<Rightarrow> world \<Rightarrow> world option" where
  "net_kill_loop n tbl None w = Some w"
| "net_kill_loop 0 tbl (Some r) w = None"
| "net_kill_loop (Suc n) tbl (Some ((k, m), it)) w =
     do {
       (nx, tbl1) \<leftarrow> htbl_iter_del tbl it;
       net_kill_loop n tbl1 nx (mp_kill m w) }"

definition net_kill :: "tid \<Rightarrow> world \<Rightarrow> world option" where
  "net_kill t w =
     do {
       n \<leftarrow> w_net w t;
       mp \<leftarrow> htbl_iter_first (n_mptbl n);
       w1 \<leftarrow> net_kill_loop (tsize (n_mptbl n)) (n_mptbl n) mp w;
       Some (w1\<lparr>w_net := (w_net w1)(t := None)\<rparr>) }"

text \<open>
  \<^verbatim>\<open>cm_kill\<close>: the memory of the resume file goes back to the file, unless that has been removed.
\<close>

definition cm_kill :: "tid \<Rightarrow> byte list \<Rightarrow> daemon \<Rightarrow> daemon option" where
  "cm_kill t h d =
     do {
       tp \<leftarrow> cw_tor (dm_w d) t;
       let cm = tp_cm tp;
       let path = torrent_path h ''resume'';
       let data = text_of (resume_image (cm_fts cm) (cm_piece_field cm) (cm_block_field cm));
       if fs_read (dm_fs d) path = None then Some d
       else do { fs \<leftarrow> fs_put path data (dm_fs d); Some (d\<lparr>dm_fs := fs\<rparr>) } }"

definition next_of :: "tid list \<Rightarrow> tid \<Rightarrow> tid option" where
  "next_of ts t = q_first (tl (dropWhile (\<lambda>x. x \<noteq> t) ts))"

definition torrent_kill :: "tid \<Rightarrow> daemon \<Rightarrow> daemon option" where
  "torrent_kill t d =
     do {
       guard_opt (dm_ntorrents d > 0);
       tp \<leftarrow> cw_tor (dm_w d) t;
       guard_opt (\<not> (net_active (dm_w d) t \<or> cm_active tp));
       let ts = w_torrents (dm_w d);
       let d1 = (if tp_state tp = T_GHOST then d\<lparr>dm_nghosts := dm_nghosts d - 1\<rparr> else d);
       let d2 = set_w ((dm_w d1)\<lparr>w_torrents := q_remove ts t\<rparr>) (d1\<lparr>dm_ntorrents := dm_ntorrents d1 - 1\<rparr>);
       l \<leftarrow> dm_tlink d2 t;
       d3 \<leftarrow> (if dm_delete d2 t then tlib_kill l d2
              else do { x \<leftarrow> dm_tl d2 l; Some (upd_tl l (\<lambda>x. x\<lparr>tl_tp := None\<rparr>) d2) });
       d4 \<leftarrow> on_ts (tr_kill t) d3;
       d5 \<leftarrow> on_w (net_kill t) d4;
       d6 \<leftarrow> cm_kill t (tp_hash tp) d5;
       let save = (if dm_savetp d6 = Some t
                   then (case next_of ts t of Some nx \<Rightarrow> Some nx | None \<Rightarrow> q_first (w_torrents (dm_w d6)))
                   else dm_savetp d6);
       Some (set_w ((dm_w d6)\<lparr>cw_tor := (cw_tor (dm_w d6))(t := None)\<rparr>)
              (d6\<lparr>dm_savetp := save, dm_tlink := (dm_tlink d6)(t := None), dm_delete := (dm_delete d6)(t := False)\<rparr>)) }"

section \<open>Starting\<close>

text \<open>The offset of the hashes of the pieces in the metainfo.\<close>

definition pieces_off :: "cstr \<Rightarrow> nat option" where
  "pieces_off mi =
     do {
       info \<leftarrow> benc_dget_dct mi ''info'';
       i \<leftarrow> info;
       r \<leftarrow> benc_dget_mem i ''pieces'';
       (len, p) \<leftarrow> r;
       Some (length mi - length p) }"

definition SAVE_INTERVAL :: int where "SAVE_INTERVAL = 300"

definition mfiles :: "(cstr \<times> int) list \<Rightarrow> mfile list" where
  "mfiles fs = map (\<lambda>(p, n). (p, nat n)) fs"

text \<open>
  The torrent that \<^verbatim>\<open>torrent_start\<close> makes of the metainfo; \<open>nws\<close> are the answers of the writes to a new resume file. The
  hash of a piece is read from the file \<^verbatim>\<open>torrent\<close> when it is needed.
\<close>

definition make_torrent :: "nat list \<Rightarrow> lid \<Rightarrow> cstr \<Rightarrow> daemon \<Rightarrow> (torrent \<times> daemon) option" where
  "make_torrent nws l mi d =
     do {
       x \<leftarrow> dm_tl d l;
       fl \<leftarrow> mi_files mi;
       files \<leftarrow> fl;
       nfiles \<leftarrow> mi_nfiles mi;
       total \<leftarrow> mi_total_length mi;
       plen \<leftarrow> mi_piece_length mi;
       npieces \<leftarrow> mi_npieces mi;
       off \<leftarrow> pieces_off mi;
       let pfsize = field_len npieces;
       let bfsize = ((nat plen + (131072 - 1)) div 131072) * npieces;
       let path = torrent_path (tl_hash x) ''resume'';
       let file = (case fs_read (dm_fs d) path of None \<Rightarrow> [] | Some s \<Rightarrow> bytes_of s);
       base \<leftarrow> open_resume nws nfiles pfsize bfsize file;
       fts \<leftarrow> those (map (resume_get_fts base) [0 ..< nfiles]);
       fs \<leftarrow> fs_put path (text_of base) (dm_fs d);
       Some (cm_create (resume_piece_field nfiles pfsize base) (resume_block_field nfiles pfsize bfsize base) fts
         \<lparr>tp_state = T_STARTING, tp_total_length = nat total, tp_piece_length = nat plen, tp_npieces = npieces,
          tp_files = mfiles files, tp_hash = tl_hash x,
          tp_piece_hash = (\<lambda>i. case tlib_read_hash l off i d of Some h \<Rightarrow> h | None \<Rightarrow> []),
          tp_cm = undefined\<rparr>, d\<lparr>dm_fs := fs\<rparr>) }"

text \<open>What chance decides, and the answers of \<^verbatim>\<open>write\<close>.\<close>

type_synonym start_env = "(nat \<Rightarrow> nat \<Rightarrow> nat \<Rightarrow> nat) \<times> nat list"

definition torrent_start :: "start_env \<Rightarrow> lid \<Rightarrow> daemon \<Rightarrow> (ipc_err \<times> daemon) option" where
  "torrent_start env l d =
     do {
       x \<leftarrow> dm_tl d l;
       d1 \<leftarrow> (case tl_tp x of
                None \<Rightarrow> Some d
              | Some t0 \<Rightarrow>
                  do {
                    ok \<leftarrow> torrent_startable d x;
                    guard_opt ok;
                    d' \<leftarrow> torrent_kill t0 d;
                    _ \<leftarrow> dm_tl d' l;
                    Some (upd_tl l (\<lambda>x. x\<lparr>tl_tp := None\<rparr>) d') });
       if tl_dir x = None then Some (IPC_EBADTENT, d1)
       else do {
         r \<leftarrow> tlib_load_mi l d1;
         case r of
           Inl e \<Rightarrow> Some (IPC_EBADTENT, d1)
         | Inr mi \<Rightarrow>
             do {
               let t = dm_next_tp d1;
               (tp, d2) \<leftarrow> make_torrent (snd env) l mi d1;
               d3 \<leftarrow> on_ts (tr_create (fst env) t mi)
                 (d2\<lparr>dm_next_tp := t + 1, dm_tlink := (dm_tlink d2)(t \<mapsto> l), dm_delete := (dm_delete d2)(t := False)\<rparr>);
               let d4 = upd_tl l (\<lambda>x. x\<lparr>tl_tp := Some t\<rparr>) d3;
               let d5 = set_w ((dm_w d4)\<lparr>cw_tor := (cw_tor (dm_w d4))(t \<mapsto> tp)\<rparr>) d4;
               d6 \<leftarrow> on_w (net_create t (=) btpd_id_hash) d5;
               let d7 = set_w ((dm_w d6)\<lparr>w_torrents := w_torrents (dm_w d6) @ [t]\<rparr>) (d6\<lparr>dm_ntorrents := dm_ntorrents d6 + 1\<rparr>);
               d8 \<leftarrow> on_w (cm_start t False) d7;
               Some (IPC_OK, if dm_ntorrents d8 = 1 then d8\<lparr>dm_tsave := w_seconds (dm_w d8) + SAVE_INTERVAL, dm_savetp := Some t\<rparr> else d8) } } }"

section \<open>Stopping\<close>

definition become_ghost :: "tid \<Rightarrow> daemon \<Rightarrow> daemon option" where
  "become_ghost t d =
     do {
       tp \<leftarrow> cw_tor (dm_w d) t;
       let d1 = set_w (set_state t T_GHOST (dm_w d)) d;
       l \<leftarrow> dm_tlink d1 t;
       d2 \<leftarrow> (if dm_delete d1 t then tlib_del l d1 else tlib_update_info l False d1);
       Some (d2\<lparr>dm_nghosts := dm_nghosts d2 + 1\<rparr>) }"

definition dm_tr_active :: "tid \<Rightarrow> daemon \<Rightarrow> bool option" where
  "dm_tr_active t d = tr_active t (dm_ts d)"

definition torrent_stop :: "tid \<Rightarrow> bool \<Rightarrow> daemon \<Rightarrow> daemon option" where
  "torrent_stop t del d =
     do {
       tp \<leftarrow> cw_tor (dm_w d) t;
       let d0 = (if del then d\<lparr>dm_delete := (dm_delete d)(t := True)\<rparr> else d);
       if tp_state tp \<in> {T_LEECH, T_SEED, T_STARTING}
       then do {
         let d1 = set_w (set_state t T_STOPPING (dm_w d0)) d0;
         d2 \<leftarrow> (if net_active (dm_w d1) t then on_w (net_stop t) d1 else Some d1);
         a2 \<leftarrow> dm_tr_active t d2;
         d3 \<leftarrow> (if a2 then on_ts (tr_stop t) d2 else Some d2);
         tp3 \<leftarrow> cw_tor (dm_w d3) t;
         d4 \<leftarrow> (if cm_active tp3 then on_w (cm_stop t) d3 else Some d3);
         tp4 \<leftarrow> cw_tor (dm_w d4) t;
         if \<not> cm_active tp4
         then do {
           d5 \<leftarrow> become_ghost t d4;
           a5 \<leftarrow> dm_tr_active t d5;
           if \<not> a5 then torrent_kill t d5 else Some d5 }
         else Some d4 }
       else Some d0 }"

section \<open>The tick\<close>

text \<open>The switch of \<^verbatim>\<open>torrent_on_tick\<close>; \<^verbatim>\<open>T_STOPPING\<close> falls through into \<^verbatim>\<open>T_GHOST\<close>.\<close>

definition on_tick_ghost :: "tid \<Rightarrow> daemon \<Rightarrow> daemon option" where
  "on_tick_ghost t d = do { a \<leftarrow> dm_tr_active t d; if \<not> a then torrent_kill t d else Some d }"

definition on_tick_state :: "tid \<Rightarrow> daemon \<Rightarrow> daemon option" where
  "on_tick_state t d =
     do {
       tp \<leftarrow> cw_tor (dm_w d) t;
       case tp_state tp of
         T_STARTING \<Rightarrow>
           if cm_started tp
           then do {
             let d1 = set_w (net_start t (set_state t (if cm_full tp then T_SEED else T_LEECH) (dm_w d))) d;
             on_ts (tr_start t) d1 }
           else Some d
       | T_LEECH \<Rightarrow>
           if cm_full tp
           then do {
             d1 \<leftarrow> on_ts (tr_complete t) (set_w (set_state t T_SEED (dm_w d)) d);
             n \<leftarrow> w_net (dm_w d1) t;
             on_w (foreach (n_peers n) (\<lambda>p w.
               do {
                 x \<leftarrow> w_peer w p;
                 guard_opt (p_nwant x = 0);
                 if peer_full w p then peer_kill p w else Some w })) d1 }
           else Some d
       | T_STOPPING \<Rightarrow>
           if cm_active tp then Some d
           else do { d1 \<leftarrow> become_ghost t d; on_tick_ghost t d1 }
       | T_GHOST \<Rightarrow> on_tick_ghost t d
       | T_SEED \<Rightarrow> Some d }"

text \<open>After \<^verbatim>\<open>torrent_stop\<close> the torrent is read again, even when it has just been freed.\<close>

definition torrent_on_tick :: "tid \<Rightarrow> daemon \<Rightarrow> daemon option" where
  "torrent_on_tick t d =
     do {
       tp \<leftarrow> cw_tor (dm_w d) t;
       d1 \<leftarrow> (if tp_state tp \<noteq> T_STOPPING \<and> cm_error tp then torrent_stop t False d else Some d);
       on_tick_state t d1 }"

definition torrent_on_tick_all :: "daemon \<Rightarrow> daemon option" where
  "torrent_on_tick_all d =
     do {
       d1 \<leftarrow> foreach (w_torrents (dm_w d)) torrent_on_tick d;
       case dm_savetp d1 of
         None \<Rightarrow> Some d1
       | Some t \<Rightarrow>
           if dm_tsave d1 \<le> w_seconds (dm_w d1)
           then do {
             tp \<leftarrow> cw_tor (dm_w d1) t;
             if tp_state tp \<in> {T_LEECH, T_SEED}
             then do {
               l \<leftarrow> dm_tlink d1 t;
               d2 \<leftarrow> tlib_update_info l True d1;
               let ts = w_torrents (dm_w d2);
               let d3 = d2\<lparr>dm_savetp := (case next_of ts t of Some nx \<Rightarrow> Some nx | None \<Rightarrow> q_first ts)\<rparr>;
               Some (if dm_ntorrents d3 > 0
                     then d3\<lparr>dm_tsave := w_seconds (dm_w d3) + max (int (dm_ntorrents d3)) SAVE_INTERVAL div int (dm_ntorrents d3)\<rparr>
                     else d3) }
             else Some d1 }
           else Some d1 }"

end
