(* ===== verification/Active.thy ===== *)
theory Active
  imports Torrent TlibInv "HOL-Library.Multiset"
begin

text \<open>
  \<^verbatim>\<open>btpd/active.c\<close>: the file \<^verbatim>\<open>active\<close> holds the hashes of the torrents that are to be started with the daemon,
  20 bytes each, one after the other; an entry is removed by moving the last one into its place.
\<close>

section \<open>The file as bytes\<close>

text \<open>
  \<^verbatim>\<open>active_del_pos\<close>: the last 20 bytes are written at \<open>pos\<close>, and the file is cut. A write behind the end leaves a
  hole, but what is written there is cut off.
\<close>

definition active_del_pos :: "nat \<Rightarrow> byte list \<Rightarrow> byte list" where
  "active_del_pos pos bs =
     (let ehash = drop (length bs - 20) bs in take (length bs - 20) (overwrite bs pos ehash))"

text \<open>Where the loop of \<^verbatim>\<open>active_del\<close> finds the hash.\<close>

function active_find :: "byte list \<Rightarrow> byte list \<Rightarrow> nat \<Rightarrow> nat option" where
  "active_find h bs pos =
     (if pos + 20 \<le> length bs
      then if take 20 (drop pos bs) = h then Some pos else active_find h bs (pos + 20)
      else None)"
  by pat_completeness auto
termination
  by (relation "measure (\<lambda>(h, bs, pos). length bs - pos)") auto

declare active_find.simps [simp del]

section \<open>The operations\<close>

definition active_file :: "fsys \<Rightarrow> byte list option" where
  "active_file fs = map_option bytes_of (fs_read fs ''active'')"

definition set_active :: "byte list \<Rightarrow> fsys \<Rightarrow> fsys" where
  "set_active bs fs = fs\<lparr>fs_files := AList.update ''active'' (text_of bs) (fs_files fs)\<rparr>"

definition active_add :: "byte list \<Rightarrow> daemon \<Rightarrow> daemon" where
  "active_add h d =
     d\<lparr>dm_fs := set_active ((case active_file (dm_fs d) of Some bs \<Rightarrow> bs | None \<Rightarrow> []) @ h) (dm_fs d)\<rparr>"

definition active_del :: "byte list \<Rightarrow> daemon \<Rightarrow> daemon" where
  "active_del h d =
     (case active_file (dm_fs d) of
        None \<Rightarrow> d
      | Some bs \<Rightarrow>
          (case active_find h bs 0 of
             None \<Rightarrow> d
           | Some pos \<Rightarrow> d\<lparr>dm_fs := set_active (active_del_pos pos bs) (dm_fs d)\<rparr>))"

definition active_clear :: "daemon \<Rightarrow> daemon" where
  "active_clear d = d\<lparr>dm_fs := fs_unlink ''active'' (dm_fs d)\<rparr>"

text \<open>
  The loop of \<^verbatim>\<open>active_start\<close>: \<open>fpos\<close> is the position of the file, \<open>pos\<close> the variable. After an entry has been
  deleted the file is set to \<open>pos\<close>, and \<open>pos\<close> is advanced all the same. \<open>env\<close> gives what chance decides at every start.
\<close>

lemma active_del_pos_length: "20 \<le> length bs \<Longrightarrow> length (active_del_pos pos bs) < length bs"
  by (simp add: active_del_pos_def Let_def)

function active_loop :: "(tid \<Rightarrow> start_env) \<Rightarrow> byte list \<Rightarrow> nat \<Rightarrow> nat \<Rightarrow> daemon \<Rightarrow> (byte list \<times> daemon) option" where
  "active_loop env bs fpos pos d =
     (if fpos + 20 \<le> length bs
      then
        (case tlib_by_hash d (take 20 (drop fpos bs)) of
           None \<Rightarrow> active_loop env bs (fpos + 20) (pos + 20) d
         | Some l \<Rightarrow>
             (case dm_tl d l of
                None \<Rightarrow> None
              | Some x \<Rightarrow>
                  if tl_tp x \<noteq> None then active_loop env bs (fpos + 20) (pos + 20) d
                  else (case torrent_start (env (dm_next_tp d)) l d of
                          None \<Rightarrow> None
                        | Some (code, d1) \<Rightarrow>
                            if code \<noteq> IPC_OK then active_loop env (active_del_pos pos bs) pos (pos + 20) d1
                            else active_loop env bs (fpos + 20) (pos + 20) d1)))
      else Some (bs, d))"
  by pat_completeness auto
termination
  by (relation "measures [\<lambda>(env, bs, fpos, pos, d). length bs, \<lambda>(env, bs, fpos, pos, d). length bs - fpos]")
    (auto intro: active_del_pos_length)

declare active_loop.simps [simp del]

definition active_start :: "(tid \<Rightarrow> start_env) \<Rightarrow> daemon \<Rightarrow> daemon option" where
  "active_start env d =
     (case active_file (dm_fs d) of
        None \<Rightarrow> Some d
      | Some bs \<Rightarrow>
          do {
            (bs1, d1) \<leftarrow> active_loop env bs 0 0 d;
            Some (d1\<lparr>dm_fs := set_active bs1 (dm_fs d1)\<rparr>) })"

section \<open>The file as a list of hashes\<close>

abbreviation hashes20 :: "byte list list \<Rightarrow> bool" where
  "hashes20 hs \<equiv> \<forall>h \<in> set hs. length h = 20"

lemma length_active [simp]: "hashes20 hs \<Longrightarrow> length (concat hs) = 20 * length hs"
  by (induction hs) auto

lemma active_at: "hashes20 hs \<Longrightarrow> i < length hs \<Longrightarrow> take 20 (drop (20 * i) (concat hs)) = hs ! i"
proof (induction hs arbitrary: i)
  case (Cons a hs)
  then show ?case by (cases i) auto
qed simp

fun first_index :: "'a \<Rightarrow> 'a list \<Rightarrow> nat option" where
  "first_index x [] = None"
| "first_index x (y # ys) = (if y = x then Some 0 else map_option Suc (first_index x ys))"

lemma first_index_None: "first_index x ys = None \<Longrightarrow> x \<notin> set ys"
  by (induction ys) (auto split: if_split_asm)

lemma first_index_Some: "first_index x ys = Some i \<Longrightarrow> i < length ys \<and> ys ! i = x"
  by (induction ys arbitrary: i) (auto split: if_split_asm)

lemma active_find_at:
  "hashes20 hs \<Longrightarrow> i \<le> length hs \<Longrightarrow> length h = 20 \<Longrightarrow>
     active_find h (concat hs) (20 * i) = map_option (\<lambda>k. 20 * (i + k)) (first_index h (drop i hs))"
proof (induction "length hs - i" arbitrary: i)
  case 0
  then show ?case by (subst active_find.simps) simp
next
  case (Suc n)
  then have i: "i < length hs" by simp
  have e: "take 20 (drop (20 * i) (concat hs)) = hs ! i" by (rule active_at [OF Suc.prems(1) i])
  have d: "drop i hs = hs ! i # drop (Suc i) hs" using i by (rule Cons_nth_drop_Suc [symmetric])
  have ih: "active_find h (concat hs) (20 * Suc i) = map_option (\<lambda>k. 20 * (Suc i + k)) (first_index h (drop (Suc i) hs))"
    by (rule Suc.hyps(1)) (use Suc i in auto)
  have "20 * i + 20 \<le> length (concat hs)" using i Suc.prems(1) by simp
  with e d ih show ?case
    by (subst active_find.simps) (simp add: option.map_comp comp_def algebra_simps)
qed

lemma active_del_at:
  assumes "hashes20 hs" "i < length hs"
  shows "active_del_pos (20 * i) (concat hs) = concat (butlast (hs[i := last hs]))"
proof -
  have ne: "hs \<noteq> []" using assms(2) by auto
  have l20: "hashes20 (butlast (hs[i := last hs]))"
    using assms(1) ne by (auto dest!: in_set_butlastD set_update_subset_insert [THEN subsetD])
  have b: "hs = butlast hs @ [last hs]" using ne by simp
  have len: "length (concat (butlast hs)) = 20 * (length hs - 1)" using assms(1) by (subst length_active) (auto dest: in_set_butlastD)
  have "concat hs = concat (butlast hs) @ last hs" by (subst b) simp
  then have last: "drop (length (concat hs) - 20) (concat hs) = last hs"
    using len assms(1) ne by (simp add: length_active)
  have "concat hs = concat (take i hs) @ hs ! i @ concat (drop (Suc i) hs)"
    by (subst id_take_nth_drop [OF assms(2)]) simp
  moreover have "length (concat (take i hs)) = 20 * i"
    using assms by (subst length_active) (auto dest: in_set_takeD)
  moreover have "length (hs ! i) = 20" "length (last hs) = 20" using assms ne by auto
  ultimately have "overwrite (concat hs) (20 * i) (last hs) = concat (take i hs) @ last hs @ concat (drop (Suc i) hs)"
    by (simp add: overwrite_def)
  also have "\<dots> = concat (hs[i := last hs])" using assms(2) by (simp add: upd_conv_take_nth_drop)
  finally have ov: "overwrite (concat hs) (20 * i) (last hs) = concat (hs[i := last hs])" .
  have ne2: "hs[i := last hs] \<noteq> []" using ne by simp
  have "concat (hs[i := last hs]) = concat (butlast (hs[i := last hs])) @ last (hs[i := last hs])"
    by (subst append_butlast_last_id [OF ne2, symmetric]) (simp del: append_butlast_last_id)
  moreover have "length (concat (butlast (hs[i := last hs]))) = length (concat hs) - 20"
    using l20 assms(1) by (simp add: length_active diff_mult_distrib2)
  ultimately show ?thesis using last ov by (simp add: active_del_pos_def)
qed

lemma mset_swap_delete:
  assumes "i < length hs"
  shows "mset (butlast (hs[i := last hs])) = mset hs - {#hs ! i#}"
proof -
  let ?u = "hs[i := last hs]"
  have ne: "?u \<noteq> []" using assms by auto
  have l: "last ?u = last hs"
    using assms ne by (simp add: last_conv_nth nth_list_update)
  have "mset (butlast ?u) = mset ?u - {#last ?u#}"
    by (metis add_mset_remove_trivial append_butlast_last_id mset_append mset.simps add_mset_add_single ne)
  also have "mset ?u = add_mset (last hs) (mset hs - {#hs ! i#})" using assms by (simp add: mset_update)
  finally show ?thesis using l by simp
qed

definition active_ok :: "daemon \<Rightarrow> byte list list \<Rightarrow> bool" where
  "active_ok d hs \<longleftrightarrow> hashes20 hs \<and> distinct hs \<and>
     (case active_file (dm_fs d) of None \<Rightarrow> hs = [] | Some bs \<Rightarrow> bs = concat hs)"

lemma active_file_set [simp]: "active_file (set_active bs fs) = Some bs"
  by (simp add: active_file_def set_active_def fs_read_def update_conv')

text \<open>C20. The file of active torrents is a set of hashes: adding a hash that is not there adds it, deleting a hash removes that one
  and no other although the last entry is moved into its place, deleting an absent hash changes nothing, and clearing leaves the empty set.\<close>

theorem active_file_is_set:
  assumes "active_ok d hs" "length h = 20"
  shows "(h \<notin> set hs \<longrightarrow> active_ok (active_add h d) (hs @ [h])) \<and>
    (\<exists>hs'. active_ok (active_del h d) hs' \<and> set hs' = set hs - {h}) \<and>
    active_ok (active_clear d) []"
proof (intro conjI impI)
  show "active_ok (active_add h d) (hs @ [h])" if "h \<notin> set hs"
    using assms that by (auto simp: active_ok_def active_add_def split: option.split_asm)
  show "active_ok (active_clear d) []"
    by (simp add: active_ok_def active_clear_def active_file_def fs_unlink_def fs_read_def delete_conv')
  show "\<exists>hs'. active_ok (active_del h d) hs' \<and> set hs' = set hs - {h}"
  proof (cases "active_file (dm_fs d)")
    case None
    with assms(1) show ?thesis by (auto simp: active_ok_def active_del_def)
  next
    case (Some bs)
    with assms(1) have ok: "hashes20 hs" "distinct hs" "bs = concat hs" by (auto simp: active_ok_def)
    have f: "active_find h bs 0 = map_option (\<lambda>k. 20 * k) (first_index h hs)"
      using active_find_at [OF ok(1) _ assms(2), of 0] ok(3) by simp
    show ?thesis
    proof (cases "first_index h hs")
      case None
      with f Some have "active_del h d = d" by (simp add: active_del_def)
      with assms(1) first_index_None [OF None] show ?thesis by auto
    next
      case (Some i)
      let ?hs = "butlast (hs[i := last hs])"
      from first_index_Some [OF Some] have i: "i < length hs" "hs ! i = h" by auto
      have ad: "active_del h d = d\<lparr>dm_fs := set_active (concat ?hs) (dm_fs d)\<rparr>"
        using f Some \<open>active_file (dm_fs d) = Some bs\<close> ok(3) active_del_at [OF ok(1) i(1)] by (simp add: active_del_def)
      have m: "mset ?hs = mset hs - {#h#}" using mset_swap_delete [OF i(1)] i(2) by simp
      then have s: "set ?hs = set hs - {h}"
        using ok(2) by (metis mset_remove1 set_mset_mset set_remove1_eq)
      have dd: "distinct ?hs"
        using m ok(2) by (metis mset_remove1 mset_eq_imp_distinct_iff distinct_remove1)
      have "hashes20 ?hs" using s ok(1) by auto
      with ad dd s show ?thesis by (intro exI [of _ ?hs]) (simp add: active_ok_def)
    qed
  qed
qed

theorem active_file_is_set_witness:
  "let a = replicate 20 1; b = replicate 20 2; d = active_add b (active_add a sample_daemon) in
   \<exists>hs'. active_ok (active_del a d) hs' \<and> set hs' = {b}"
proof -
  let ?a = "replicate 20 1 :: byte list" and ?b = "replicate 20 2 :: byte list"
  have e: "active_ok sample_daemon []" by (simp add: active_ok_def active_file_def sample_daemon_def sample_fs_def fs_read_def)
  have "active_ok (active_add ?a sample_daemon) [?a]" using active_file_is_set [OF e, of ?a] by simp
  then have "active_ok (active_add ?b (active_add ?a sample_daemon)) [?a, ?b]" using active_file_is_set [of _ "[?a]" ?b] by simp
  from active_file_is_set [OF this, of ?a] have "\<exists>hs'. active_ok (active_del ?a (active_add ?b (active_add ?a sample_daemon))) hs' \<and>
      set hs' = set [?a, ?b] - {?a}" by simp
  moreover have "set [?a, ?b] - {?a} = {?b}" by auto
  ultimately show ?thesis by (simp only: Let_def)
qed

section \<open>Entries that cannot be started\<close>

text \<open>
  Of three entries the first and the last cannot be started. The second is removed from the file without having been started, and the
  last one stays.
\<close>

lemma active_start_loses_entry:
  assumes "length a = 20" "length b = 20" "length c = 20" "tlib_by_hash d a = Some la" "dm_tl d la = Some xa" "tl_tp xa = None" "tl_dir xa = None"
    "tlib_by_hash d c = Some lc" "dm_tl d lc = Some xc" "tl_tp xc = None" "tl_dir xc = None"
  shows "active_loop env (a @ b @ c) 0 0 d = Some (c, d)"
proof -
  have st: "torrent_start e la d = Some (IPC_EBADTENT, d)" "torrent_start e lc d = Some (IPC_EBADTENT, d)" for e
    using assms by (simp_all add: torrent_start_def)
  have p: "active_del_pos 0 (a @ b @ c) = c @ b" "active_del_pos 20 (c @ b) = c"
    using assms(1-3) by (simp_all add: active_del_pos_def overwrite_def)
  have "active_loop env (a @ b @ c) 0 0 d = active_loop env (c @ b) 0 20 d"
    using assms st p by (subst active_loop.simps) simp
  also have "\<dots> = active_loop env c 20 40 d"
    using assms st p by (subst active_loop.simps) simp
  also have "\<dots> = Some (c, d)" using assms(3) by (subst active_loop.simps) simp
  finally show ?thesis .
qed

end
