(* ===== verification/CliIf.thy ===== *)
theory CliIf
  imports Active BencPut
begin

text \<open>
  The command interface of the daemon, \<^verbatim>\<open>btpd/cli_if.c\<close>, and the end of the daemon, \<^verbatim>\<open>btpd/btpd.c\<close>. A
  command returns a code and has at most one answer, which \<^verbatim>\<open>write_buffer\<close> sends behind its length; \<open>we\<close> is what the write
  returns.
\<close>

section \<open>The daemon\<close>

record btpd =
  bd_d :: daemon
  bd_shutdown :: bool
  bd_ghost :: bool
  bd_signal :: bool
  bd_exit :: bool

definition on_d :: "(daemon \<Rightarrow> daemon option) \<Rightarrow> btpd \<Rightarrow> btpd option" where
  "on_d f b = do { d \<leftarrow> f (bd_d b); Some (b\<lparr>bd_d := d\<rparr>) }"

definition death_procedure :: "btpd \<Rightarrow> btpd option" where
  "death_procedure b =
     do {
       guard_opt (bd_shutdown b);
       if dm_ntorrents (bd_d b) = 0 then Some (b\<lparr>bd_exit := True\<rparr>)
       else if \<not> bd_ghost b \<and> dm_ntorrents (bd_d b) = dm_nghosts (bd_d b) then Some (b\<lparr>bd_ghost := True\<rparr>)
       else Some b }"

definition btpd_shutdown :: "btpd \<Rightarrow> btpd option" where
  "btpd_shutdown b =
     do {
       b1 \<leftarrow> on_d (\<lambda>d. foreach (w_torrents (dm_w d)) (\<lambda>t. torrent_stop t False) d) (b\<lparr>bd_shutdown := True\<rparr>);
       death_procedure b1 }"

text \<open>
  \<^verbatim>\<open>heartbeat_cb\<close>, once in a second; the first component is the input of the connections that has arrived.
\<close>

definition heartbeat_cb :: "net_io \<Rightarrow> (pid \<Rightarrow> byte list) \<Rightarrow> btpd \<Rightarrow> ((pid \<Rightarrow> byte list) \<times> btpd) option" where
  "heartbeat_cb io inp b =
     do {
       let w = dm_w (bd_d b);
       (inp1, w1) \<leftarrow> net_on_tick io (inp, w\<lparr>w_seconds := w_seconds w + 1\<rparr>);
       b2 \<leftarrow> on_d torrent_on_tick_all (b\<lparr>bd_d := set_w w1 (bd_d b)\<rparr>);
       b3 \<leftarrow> (if bd_signal b2
              then (let b' = b2\<lparr>bd_signal := False\<rparr> in if \<not> bd_shutdown b' then btpd_shutdown b' else Some b')
              else Some b2);
       b4 \<leftarrow> (if bd_shutdown b3 \<and> \<not> bd_exit b3 then death_procedure b3 else Some b3);
       Some (inp1, b4) }"

text \<open>
  The identity of the daemon: the digest of time, port and host name, with the version and a bar written over its start. \<^verbatim>\<open>BTPD_VERSION\<close>
  is shorter than the digest.
\<close>

definition make_peer_id :: "(cstr \<Rightarrow> byte list) \<Rightarrow> cstr \<Rightarrow> cstr \<Rightarrow> byte list" where
  "make_peer_id sha version idcon = overwrite (overwrite (sha idcon) 0 (bytes_of version)) (length version) (bytes_of ''|'')"

lemma length_make_peer_id: "length (sha idcon) = 20 \<Longrightarrow> length version < 20 \<Longrightarrow> length (make_peer_id sha version idcon) = 20"
  by (simp add: make_peer_id_def overwrite_def bytes_of_def)

section \<open>Numbers of the protocol\<close>

fun err_num :: "ipc_err \<Rightarrow> int" where
  "err_num IPC_OK = 0" | "err_num IPC_COMMERR = 1" | "err_num IPC_EBADCDIR = 2" | "err_num IPC_EBADT = 3" | "err_num IPC_EBADTENT = 4"
| "err_num IPC_EBADTRACKER = 5" | "err_num IPC_ECREATECDIR = 6" | "err_num IPC_ENOKEY = 7" | "err_num IPC_ENOTENT = 8"
| "err_num IPC_ESHUTDOWN = 9" | "err_num IPC_ETACTIVE = 10" | "err_num IPC_ETENTEXIST = 11" | "err_num IPC_ETINACTIVE = 12"

datatype ipc_type = IPC_TYPE_ERR | IPC_TYPE_BIN | IPC_TYPE_NUM | IPC_TYPE_STR

fun type_num :: "ipc_type \<Rightarrow> int" where
  "type_num IPC_TYPE_ERR = 0" | "type_num IPC_TYPE_BIN = 1" | "type_num IPC_TYPE_NUM = 2" | "type_num IPC_TYPE_STR = 3"

datatype ipc_tval = TV_CGOT | TV_CSIZE | TV_DIR | TV_NAME | TV_NUM | TV_IHASH | TV_PCGOT | TV_PCOUNT | TV_PCCOUNT | TV_PCSEEN |
  TV_RATEDWN | TV_RATEUP | TV_SESSDWN | TV_SESSUP | TV_STATE | TV_TOTDWN | TV_TOTUP | TV_TRERR | TV_TRGOOD | TV_LABEL

definition tvals :: "ipc_tval list" where
  "tvals = [TV_CGOT, TV_CSIZE, TV_DIR, TV_NAME, TV_NUM, TV_IHASH, TV_PCGOT, TV_PCOUNT, TV_PCCOUNT, TV_PCSEEN,
     TV_RATEDWN, TV_RATEUP, TV_SESSDWN, TV_SESSUP, TV_STATE, TV_TOTDWN, TV_TOTUP, TV_TRERR, TV_TRGOOD, TV_LABEL]"

text \<open>A number from the wire becomes a 32-bit enumeration value.\<close>

definition to_enum :: "int \<Rightarrow> nat" where
  "to_enum i = unat (word_of_int i :: u32)"

definition tval_of :: "nat \<Rightarrow> ipc_tval option" where
  "tval_of n = (if n < length tvals then Some (tvals ! n) else None)"

datatype ipc_twc = IPC_TWC_ALL | IPC_TWC_ACTIVE | IPC_TWC_INACTIVE

fun twc_num :: "ipc_twc \<Rightarrow> nat" where
  "twc_num IPC_TWC_ALL = 0" | "twc_num IPC_TWC_ACTIVE = 1" | "twc_num IPC_TWC_INACTIVE = 2"

fun tstate_num :: "torrent_state option \<Rightarrow> int" where
  "tstate_num None = 0" | "tstate_num (Some T_GHOST) = 0" | "tstate_num (Some T_STARTING) = 1" | "tstate_num (Some T_STOPPING) = 2"
| "tstate_num (Some T_LEECH) = 3" | "tstate_num (Some T_SEED) = 4"

section \<open>Answers\<close>

type_synonym cmd_result = "((int \<times> cstr option) \<times> btpd) option"

definition write_code_buffer :: "int \<Rightarrow> ipc_err \<Rightarrow> int \<times> cstr option" where
  "write_code_buffer we code = (we, Some (''d4:code'' @ benc_num (err_num code) @ ''e''))"

definition write_add_buffer :: "int \<Rightarrow> u32 \<Rightarrow> int \<times> cstr option" where
  "write_add_buffer we num = (we, Some (''d4:code'' @ benc_num 0 @ ''3:num'' @ benc_num (uint num) @ ''e''))"

text \<open>
  One value: a number, an error in its place, a string, or 20 bytes. \<open>ans_of\<close> is the switch of \<^verbatim>\<open>write_ans\<close>, \<open>ans_text\<close> what its
  branches print, the type and the value.
\<close>

datatype answer = Ans_Num int | Ans_Err ipc_err | Ans_Str cstr | Ans_Bin cstr

fun ans_text :: "answer \<Rightarrow> cstr" where
  "ans_text (Ans_Num v) = benc_num (type_num IPC_TYPE_NUM) @ benc_num v"
| "ans_text (Ans_Err e) = benc_num (type_num IPC_TYPE_ERR) @ benc_num (err_num e)"
| "ans_text (Ans_Str s) = benc_num (type_num IPC_TYPE_STR) @ benc_text s"
| "ans_text (Ans_Bin h) = benc_num (type_num IPC_TYPE_BIN) @ ''20:'' @ h"

definition ans_str :: "cstr option \<Rightarrow> answer" where
  "ans_str s = (case s of Some x \<Rightarrow> Ans_Str x | None \<Rightarrow> Ans_Err IPC_EBADTENT)"

text \<open>\<^verbatim>\<open>%lld\<close> of an unsigned number.\<close>

definition lld :: "nat \<Rightarrow> int" where
  "lld n = sint (word_of_nat n :: u64)"

definition ans_of :: "daemon \<Rightarrow> tlib \<Rightarrow> ipc_tval option \<Rightarrow> answer option" where
  "ans_of d x val =
     do {
       (tp, n) \<leftarrow> (case tl_tp x of
           None \<Rightarrow> Some (None, None)
         | Some t \<Rightarrow> do { tp \<leftarrow> cw_tor (dm_w d) t; n \<leftarrow> w_net (dm_w d) t; Some (Some tp, Some n) });
       let net = (\<lambda>f. case n of None \<Rightarrow> (0::nat) | Some m \<Rightarrow> f m);
       case val of
         Some TV_CGOT \<Rightarrow> Some (Ans_Num (case tp of None \<Rightarrow> tl_have x | Some p \<Rightarrow> cm_content p))
       | Some TV_CSIZE \<Rightarrow> Some (Ans_Num (tl_size x))
       | Some TV_PCCOUNT \<Rightarrow> Some (case tp of None \<Rightarrow> Ans_Err IPC_ETINACTIVE | Some p \<Rightarrow> Ans_Num (int (tp_npieces p)))
       | Some TV_PCGOT \<Rightarrow> Some (case tp of None \<Rightarrow> Ans_Err IPC_ETINACTIVE | Some p \<Rightarrow> Ans_Num (int (cm_pieces p)))
       | Some TV_PCSEEN \<Rightarrow> Some (Ans_Num (case (tp, n) of (Some p, Some m) \<Rightarrow>
             int (length (filter (\<lambda>i. n_piece_count m ! i > 0) [0 ..< tp_npieces p])) | _ \<Rightarrow> 0))
       | Some TV_RATEDWN \<Rightarrow> Some (Ans_Num (int (net (\<lambda>m. n_rate_dwn m div RATEHISTORY))))
       | Some TV_RATEUP \<Rightarrow> Some (Ans_Num (int (net (\<lambda>m. n_rate_up m div RATEHISTORY))))
       | Some TV_SESSDWN \<Rightarrow> Some (Ans_Num (lld (net n_downloaded)))
       | Some TV_SESSUP \<Rightarrow> Some (Ans_Num (lld (net n_uploaded)))
       | Some TV_DIR \<Rightarrow> Some (ans_str (tl_dir x))
       | Some TV_NAME \<Rightarrow> Some (ans_str (tl_name x))
       | Some TV_IHASH \<Rightarrow> Some (Ans_Bin (text_of (tl_hash x)))
       | Some TV_NUM \<Rightarrow> Some (Ans_Num (uint (tl_num x)))
       | Some TV_PCOUNT \<Rightarrow> Some (Ans_Num (int (net n_npeers)))
       | Some TV_STATE \<Rightarrow> Some (Ans_Num (tstate_num (map_option tp_state tp)))
       | Some TV_TOTDWN \<Rightarrow> Some (Ans_Num (sint (tl_down x + of_nat (net n_downloaded))))
       | Some TV_TOTUP \<Rightarrow> Some (Ans_Num (sint (tl_up x + of_nat (net n_uploaded))))
       | Some TV_TRERR \<Rightarrow> Some (Ans_Num 0)
       | Some TV_TRGOOD \<Rightarrow>
           (case tl_tp x of
              None \<Rightarrow> Some (Ans_Num 0)
            | Some t \<Rightarrow> do { k \<leftarrow> tr_good_count t (dm_ts d); Some (Ans_Num (int k)) })
       | Some TV_LABEL \<Rightarrow> Some (ans_str (tl_label x))
       | None \<Rightarrow> Some (Ans_Err IPC_ENOKEY) }"

definition write_ans :: "daemon \<Rightarrow> tlib \<Rightarrow> ipc_tval option \<Rightarrow> cstr option" where
  "write_ans d x val = map_option ans_text (ans_of d x val)"

section \<open>Commands\<close>

text \<open>The entry a command names: the outer \<open>None\<close> is a crash, the next one a malformed argument.\<close>

definition cmd_entry :: "daemon \<Rightarrow> cstr \<Rightarrow> lid option option option" where
  "cmd_entry d args =
     (if benc_isstr args \<and> benc_strlen args = 20
      then do {
        m \<leftarrow> benc_mem args;
        (len, h) \<leftarrow> m;
        guard_opt (20 \<le> length h);
        Some (Some (tlib_by_hash d (bytes_of (take 20 h)))) }
      else if benc_isint args then do { i \<leftarrow> benc_int args; Some (Some (tlib_by_num d (word_of_int i))) }
      else Some None)"

text \<open>The keys; an element that is no number reads as 0 and is not passed.\<close>

fun tget_opts :: "nat \<Rightarrow> cstr option \<Rightarrow> nat list option" where
  "tget_opts 0 p = Some []"
| "tget_opts (Suc n) None = None"
| "tget_opts (Suc n) (Some p) =
     (if benc_isint p
      then do { i \<leftarrow> benc_int p; nx \<leftarrow> benc_int_next p; r \<leftarrow> tget_opts n nx; Some (to_enum i # r) }
      else do { r \<leftarrow> tget_opts n (Some p); Some (0 # r) })"

fun write_all :: "daemon \<Rightarrow> tlib \<Rightarrow> nat list \<Rightarrow> cstr option" where
  "write_all d x [] = Some []"
| "write_all d x (k # ks) = do { a \<leftarrow> write_ans d x (tval_of k); r \<leftarrow> write_all d x ks; Some (a @ r) }"

definition tget_entry :: "daemon \<Rightarrow> tlib \<Rightarrow> nat list \<Rightarrow> cstr option" where
  "tget_entry d x opts = do { r \<leftarrow> write_all d x opts; Some (CHR ''l'' # r @ ''e'') }"

text \<open>All entries of the library that fit.\<close>

fun tget_all :: "daemon \<Rightarrow> nat \<Rightarrow> nat list \<Rightarrow> lid list \<Rightarrow> cstr option" where
  "tget_all d from opts [] = Some []"
| "tget_all d from opts (l # ls) =
     do {
       x \<leftarrow> dm_tl d l;
       haunting \<leftarrow> torrent_haunting d x;
       active \<leftarrow> torrent_active d x;
       a \<leftarrow> (if \<not> haunting \<and> (from = 0 \<or> \<not> active \<and> from = 2 \<or> active \<and> from = 1) then tget_entry d x opts else Some []);
       r \<leftarrow> tget_all d from opts ls;
       Some (a @ r) }"

text \<open>The entries of a list; the inner \<open>None\<close> is a malformed element.\<close>

function tget_list :: "daemon \<Rightarrow> nat list \<Rightarrow> cstr option \<Rightarrow> cstr option option" where
  "tget_list d opts None = Some (Some [])"
| "tget_list d opts (Some p) =
     (case (if benc_isint p \<or> benc_isstr p \<and> benc_strlen p = 20 then cmd_entry d p else Some None) of
        None \<Rightarrow> None
      | Some None \<Rightarrow> Some None
      | Some (Some e) \<Rightarrow>
          do {
            a \<leftarrow> (case e of
                None \<Rightarrow> Some (benc_num (err_num IPC_ENOTENT))
              | Some l \<Rightarrow>
                  do {
                    x \<leftarrow> dm_tl d l;
                    haunting \<leftarrow> torrent_haunting d x;
                    if haunting then Some (benc_num (err_num IPC_ENOTENT)) else tget_entry d x opts });
            nx \<leftarrow> benc_next p;
            r \<leftarrow> tget_list d opts nx;
            Some (map_option ((@) a) r) })"
  by pat_completeness auto
termination
  by (relation "measure (\<lambda>(d, opts, x). case x of None \<Rightarrow> 0 | Some p \<Rightarrow> Suc (length p))")
    (auto dest!: benc_next_shrinks split: option.splits)

declare tget_list.simps [simp del]

text \<open>\<^verbatim>\<open>from\<close> may be missing, and is then read through NULL.\<close>

definition cmd_tget :: "int \<Rightarrow> nat \<Rightarrow> cstr \<Rightarrow> btpd \<Rightarrow> cmd_result" where
  "cmd_tget we argc args b =
     (if argc \<noteq> 1 \<or> \<not> benc_isdct args then Some ((1, None), b)
      else
        let d = bd_d b in
        do {
          keys \<leftarrow> benc_dget_lst args ''keys'';
          case keys of
            None \<Rightarrow> Some ((1, None), b)
          | Some k \<Rightarrow>
              do {
                nkeys \<leftarrow> benc_nelems k;
                first \<leftarrow> benc_first k;
                opts \<leftarrow> tget_opts nkeys first;
                f \<leftarrow> benc_dget_any args ''from'';
                p \<leftarrow> f;
                if benc_isint p
                then do {
                  i \<leftarrow> benc_int p;
                  ls \<leftarrow> tlib_iter d;
                  a \<leftarrow> tget_all d (to_enum i) opts ls;
                  Some ((we, Some (''d4:codei0e6:resultl'' @ a @ ''ee'')), b) }
                else if benc_islst p
                then do {
                  fst' \<leftarrow> benc_first p;
                  r \<leftarrow> tget_list d opts fst';
                  Some (case r of None \<Rightarrow> (1, None) | Some a \<Rightarrow> (we, Some (''d4:codei0e6:resultl'' @ a @ ''ee'')), b) }
                else Some ((we, Some ''d4:codei0e6:resultlee''), b) } })"

definition cmd_add :: "int \<Rightarrow> (cstr \<Rightarrow> byte list) \<Rightarrow> nat \<Rightarrow> cstr \<Rightarrow> btpd \<Rightarrow> cmd_result" where
  "cmd_add we sha argc args b =
     (if argc \<noteq> 1 \<or> \<not> benc_isdct args then Some ((1, None), b)
      else do {
        m \<leftarrow> benc_dget_mem args ''torrent'';
        case m of
          None \<Rightarrow> Some ((1, None), b)
        | Some (mi_size, mem) \<Rightarrow>
            do {
              let mi = take mi_size mem;
              ok \<leftarrow> mi_test mi;
              if \<not> ok then Some (write_code_buffer we IPC_EBADT, b)
              else do {
                c \<leftarrow> benc_dget_mem args ''content'';
                case c of
                  None \<Rightarrow> Some (write_code_buffer we IPC_EBADCDIR, b)
                | Some (csize, cp) \<Rightarrow>
                    if csize \<ge> PATH_MAX \<or> csize = 0 \<or> hd cp \<noteq> CHR ''/'' then Some (write_code_buffer we IPC_EBADCDIR, b)
                    else do {
                      let content = takeWhile (\<lambda>c. c \<noteq> CHR 0x00) (take csize cp);
                      let d = bd_d b;
                      h \<leftarrow> mi_info_hash sha mi;
                      name \<leftarrow> dget_cstr args ''name'';
                      label \<leftarrow> dget_cstr args ''label'';
                      haunting \<leftarrow> (case tlib_by_hash d h of None \<Rightarrow> Some True
                        | Some l \<Rightarrow> do { x \<leftarrow> dm_tl d l; torrent_haunting d x });
                      if \<not> haunting then Some (write_code_buffer we IPC_ETENTEXIST, b)
                      else do {
                        (l, d1) \<leftarrow> (case tlib_by_hash d h of
                            Some l \<Rightarrow> tlib_readd l h mi content name label d
                          | None \<Rightarrow> tlib_add h mi content name label d);
                        x \<leftarrow> dm_tl d1 l;
                        Some (write_add_buffer we (tl_num x), b\<lparr>bd_d := d1\<rparr>) } } } } })"

definition cmd_del :: "int \<Rightarrow> nat \<Rightarrow> cstr \<Rightarrow> btpd \<Rightarrow> cmd_result" where
  "cmd_del we argc args b =
     (if argc \<noteq> 1 then Some ((1, None), b)
      else do {
        e \<leftarrow> cmd_entry (bd_d b) args;
        case e of
          None \<Rightarrow> Some ((1, None), b)
        | Some None \<Rightarrow> Some (write_code_buffer we IPC_ENOTENT, b)
        | Some (Some l) \<Rightarrow>
            do {
              x \<leftarrow> dm_tl (bd_d b) l;
              haunting \<leftarrow> torrent_haunting (bd_d b) x;
              if haunting then Some (write_code_buffer we IPC_ENOTENT, b)
              else do {
                b1 \<leftarrow> (case tl_tp x of
                    Some t \<Rightarrow> on_d (torrent_stop t True) b
                  | None \<Rightarrow> on_d (tlib_del l) b);
                Some (write_code_buffer we IPC_OK, b1) } } })"

definition cmd_start :: "int \<Rightarrow> (tid \<Rightarrow> start_env) \<Rightarrow> nat \<Rightarrow> cstr \<Rightarrow> btpd \<Rightarrow> cmd_result" where
  "cmd_start we env argc args b =
     (if argc \<noteq> 1 then Some ((1, None), b)
      else if bd_shutdown b then Some (write_code_buffer we IPC_ESHUTDOWN, b)
      else do {
        e \<leftarrow> cmd_entry (bd_d b) args;
        case e of
          None \<Rightarrow> Some ((1, None), b)
        | Some None \<Rightarrow> Some (write_code_buffer we IPC_ENOTENT, b)
        | Some (Some l) \<Rightarrow>
            do {
              let d = bd_d b;
              x \<leftarrow> dm_tl d l;
              haunting \<leftarrow> torrent_haunting d x;
              if haunting then Some (write_code_buffer we IPC_ENOTENT, b)
              else do {
                startable \<leftarrow> torrent_startable d x;
                if \<not> startable then Some (write_code_buffer we IPC_ETACTIVE, b)
                else do {
                  (code, d1) \<leftarrow> torrent_start (env (dm_next_tp d)) l d;
                  Some (write_code_buffer we code, b\<lparr>bd_d := if code = IPC_OK then active_add (tl_hash x) d1 else d1\<rparr>) } } } })"

text \<open>\<^verbatim>\<open>cmd_start_all\<close> ends the daemon when one torrent cannot be started. The library does not change while it iterates.\<close>

definition cmd_start_all :: "int \<Rightarrow> (tid \<Rightarrow> start_env) \<Rightarrow> nat \<Rightarrow> cstr option \<Rightarrow> btpd \<Rightarrow> cmd_result" where
  "cmd_start_all we env argc args b =
     (if bd_shutdown b then Some (write_code_buffer we IPC_ESHUTDOWN, b)
      else do {
        ls \<leftarrow> tlib_iter (bd_d b);
        b1 \<leftarrow> on_d (foreach ls (\<lambda>l d.
          do {
            x \<leftarrow> dm_tl d l;
            startable \<leftarrow> torrent_startable d x;
            if \<not> startable then Some d
            else do {
              (code, d1) \<leftarrow> torrent_start (env (dm_next_tp d)) l d;
              guard_opt (code = IPC_OK);
              Some (active_add (tl_hash x) d1) } })) b;
        Some (write_code_buffer we IPC_OK, b1) })"

definition cmd_stop :: "int \<Rightarrow> nat \<Rightarrow> cstr \<Rightarrow> btpd \<Rightarrow> cmd_result" where
  "cmd_stop we argc args b =
     (if argc \<noteq> 1 then Some ((1, None), b)
      else do {
        e \<leftarrow> cmd_entry (bd_d b) args;
        case e of
          None \<Rightarrow> Some ((1, None), b)
        | Some None \<Rightarrow> Some (write_code_buffer we IPC_ENOTENT, b)
        | Some (Some l) \<Rightarrow>
            do {
              let d = bd_d b;
              x \<leftarrow> dm_tl d l;
              haunting \<leftarrow> torrent_haunting d x;
              if haunting then Some (write_code_buffer we IPC_ENOTENT, b)
              else do {
                active \<leftarrow> torrent_active d x;
                if \<not> active then Some (write_code_buffer we IPC_ETINACTIVE, b)
                else do {
                  t \<leftarrow> tl_tp x;
                  b1 \<leftarrow> on_d (torrent_stop t False) (b\<lparr>bd_d := active_del (tl_hash x) d\<rparr>);
                  Some (write_code_buffer we IPC_OK, b1) } } } })"

definition cmd_stop_all :: "int \<Rightarrow> nat \<Rightarrow> cstr option \<Rightarrow> btpd \<Rightarrow> cmd_result" where
  "cmd_stop_all we argc args b =
     do {
       b1 \<leftarrow> on_d (\<lambda>d. foreach (w_torrents (dm_w d)) (\<lambda>t. torrent_stop t False) d) (b\<lparr>bd_d := active_clear (bd_d b)\<rparr>);
       Some (write_code_buffer we IPC_OK, b1) }"

definition cmd_rate :: "int \<Rightarrow> nat \<Rightarrow> cstr \<Rightarrow> btpd \<Rightarrow> cmd_result" where
  "cmd_rate we argc args b =
     (if argc \<noteq> 2 then Some ((1, None), b)
      else if bd_shutdown b then Some (write_code_buffer we IPC_ESHUTDOWN, b)
      else if \<not> benc_isint args then Some ((1, None), b)
      else do {
        up \<leftarrow> benc_int args;
        nx \<leftarrow> benc_int_next args;
        args1 \<leftarrow> nx;
        if \<not> benc_isint args1 then Some ((1, None), b)
        else do {
          down \<leftarrow> benc_int args1;
          b1 \<leftarrow> on_d (on_w (\<lambda>w. Some (ul_set_max_uploads (w\<lparr>w_limit_out := to_enum up, w_limit_in := to_enum down\<rparr>)))) b;
          Some (write_code_buffer we IPC_OK, b1) } })"

definition cmd_die :: "int \<Rightarrow> nat \<Rightarrow> cstr option \<Rightarrow> btpd \<Rightarrow> cmd_result" where
  "cmd_die we argc args b =
     do {
       b1 \<leftarrow> (if \<not> bd_shutdown b then btpd_shutdown b else Some b);
       Some (write_code_buffer we IPC_OK, b1) }"

section \<open>Dispatch\<close>

text \<open>
  A command that takes an argument looks at \<^verbatim>\<open>argc\<close> first; without one the pointer is NULL. \<^verbatim>\<open>cmd_table\<close> holds a name and its
  length.
\<close>

type_synonym cmd = "nat \<Rightarrow> cstr option \<Rightarrow> btpd \<Rightarrow> cmd_result"

definition with_arg :: "(nat \<Rightarrow> cstr \<Rightarrow> btpd \<Rightarrow> cmd_result) \<Rightarrow> cmd" where
  "with_arg f argc args b =
     (case args of Some a \<Rightarrow> f argc a b | None \<Rightarrow> do { guard_opt (argc = 0); f argc [] b })"

definition cmd_table :: "int \<Rightarrow> (cstr \<Rightarrow> byte list) \<Rightarrow> (tid \<Rightarrow> start_env) \<Rightarrow> (cstr \<times> nat \<times> cmd) list" where
  "cmd_table we sha env =
     [(''add'', 3, with_arg (cmd_add we sha)), (''del'', 3, with_arg (cmd_del we)), (''die'', 3, cmd_die we),
      (''rate'', 4, with_arg (cmd_rate we)), (''start'', 5, with_arg (cmd_start we env)), (''start-all'', 9, cmd_start_all we env),
      (''stop'', 4, with_arg (cmd_stop we)), (''stop-all'', 8, cmd_stop_all we), (''tget'', 4, with_arg (cmd_tget we))]"

definition ENOENT_num :: int where
  "ENOENT_num = 2"

definition cmd_dispatch :: "int \<Rightarrow> (cstr \<Rightarrow> byte list) \<Rightarrow> (tid \<Rightarrow> start_env) \<Rightarrow> cstr \<Rightarrow> btpd \<Rightarrow> cmd_result" where
  "cmd_dispatch we sha env buf b =
     do {
       f \<leftarrow> benc_first buf;
       q \<leftarrow> f;
       m \<leftarrow> benc_mem q;
       (cmdlen, cmd) \<leftarrow> m;
       args \<leftarrow> benc_mem_next q;
       case List.find (\<lambda>(name, nlen, fn). cmdlen = nlen \<and> strncmp name cmd cmdlen = 0) (cmd_table we sha env) of
         Some (name, nlen, fn) \<Rightarrow> do { n \<leftarrow> benc_nelems buf; fn (n - 1) args b }
       | None \<Rightarrow> Some ((ENOENT_num, None), b) }"

text \<open>
  Lengths travel as 32-bit numbers in the byte order of the host, which is little-endian here. \<^verbatim>\<open>read_fully\<close> gets what it asks for
  unless the other end closes the socket first. \<open>cli_read_cb\<close> gives whether the connection stays open, the answer, and what is left of
  the input.
\<close>

definition host32 :: "nat \<Rightarrow> cstr" where
  "host32 n = text_of (rev (enc_be32 (of_nat n)))"

definition read_len :: "cstr \<Rightarrow> (nat \<times> cstr) option" where
  "read_len inp =
     (if length inp < 4 then None else map_option (\<lambda>w. (unat w, drop 4 inp)) (dec_be32 (rev (bytes_of (take 4 inp)))))"

definition read_msg :: "cstr \<Rightarrow> (cstr \<times> cstr) option" where
  "read_msg inp =
     do { (n, r) \<leftarrow> read_len inp; guard_opt (n \<le> length r); Some (take n r, drop n r) }"

definition cli_read_cb ::
    "int \<Rightarrow> (cstr \<Rightarrow> byte list) \<Rightarrow> (tid \<Rightarrow> start_env) \<Rightarrow> cstr \<Rightarrow> btpd \<Rightarrow> ((bool \<times> cstr option) \<times> cstr \<times> btpd) option" where
  "cli_read_cb we sha env inp b =
     (case read_msg inp of
        None \<Rightarrow> Some ((False, None), [], b)
      | Some (msg, rest) \<Rightarrow>
          if \<not> (benc_validate msg = None \<and> benc_islst msg) then Some ((False, None), rest, b)
          else do {
            f \<leftarrow> benc_first msg;
            if \<not> (case f of Some q \<Rightarrow> benc_isstr q | None \<Rightarrow> False) then Some ((False, None), rest, b)
            else do {
              ((err, ans), b1) \<leftarrow> cmd_dispatch we sha env msg b;
              Some ((err = 0, ans), rest, b1) } })"

text \<open>\<^verbatim>\<open>write_buffer\<close>: the length and the bytes.\<close>

definition frame :: "cstr \<Rightarrow> cstr" where
  "frame msg = host32 (length msg) @ msg"

end
