(* ===== verification/BtpdIf.thy ===== *)
theory BtpdIf
  imports CliIf
begin

text \<open>
  The client side of the command interface, \<^verbatim>\<open>misc/btpd_if.c\<close>. A connection is a function: what the other end sends back for the
  bytes written to it, \<open>None\<close> when writing fails.
\<close>

section \<open>Names\<close>

definition errmsgs :: "cstr list" where
  "errmsgs = [''no error'', ''communication error'', ''bad content directory'', ''bad torrent'', ''bad torrent entry'', ''bad tracker'',
     ''couldn't create content directory'', ''no such key'', ''no such torrent entry'', ''btpd is shutting down'', ''torrent is active'',
     ''torrent entry exists'', ''torrent is inactive'']"

definition tval_names :: "cstr list" where
  "tval_names = [''content_got'', ''content_size'', ''dir'', ''name'', ''num'', ''info_hash'', ''pieces_got'', ''peer_count'',
     ''piece_count'', ''pieces_seen'', ''rate_down'', ''rate_up'', ''sess_down'', ''sess_up'', ''state'', ''total_down'', ''total_up'',
     ''tr_errors'', ''tr_good'', ''label'']"

definition ipc_strerror :: "nat \<Rightarrow> cstr" where
  "ipc_strerror err = (if err \<ge> 13 then ''unknown error'' else errmsgs ! err)"

definition tval_name :: "nat \<Rightarrow> cstr" where
  "tval_name key = (if key \<ge> 20 then ''unknown key'' else tval_names ! key)"

section \<open>Requests and responses\<close>

type_synonym wire = "cstr \<Rightarrow> cstr option"

definition ipc_response :: "cstr \<Rightarrow> ipc_err + cstr" where
  "ipc_response inp =
     (case read_len inp of
        None \<Rightarrow> Inl IPC_COMMERR
      | Some (n, r) \<Rightarrow> if n = 0 then Inl IPC_COMMERR else if length r < n then Inl IPC_COMMERR else Inr (take n r))"

definition ipc_req_res :: "wire \<Rightarrow> cstr \<Rightarrow> ipc_err + cstr" where
  "ipc_req_res wire req =
     (case wire (frame req) of
        None \<Rightarrow> Inl IPC_COMMERR
      | Some inp \<Rightarrow>
          (case ipc_response inp of
             Inl _ \<Rightarrow> Inl IPC_COMMERR
           | Inr res \<Rightarrow>
               if benc_validate res \<noteq> None then Inl IPC_COMMERR
               else if \<not> benc_isdct res then Inl IPC_COMMERR
               else Inr res))"

definition ipc_buf_req_code :: "wire \<Rightarrow> cstr \<Rightarrow> nat option" where
  "ipc_buf_req_code wire req =
     (case ipc_req_res wire req of
        Inl e \<Rightarrow> Some (nat (err_num e))
      | Inr res \<Rightarrow> map_option to_enum (benc_dget_int res ''code''))"

definition btpd_die :: "wire \<Rightarrow> nat option" where
  "btpd_die wire = ipc_buf_req_code wire ''l3:diee''"

datatype ipc_torrent = By_Num u32 | By_Hash "byte list"

fun torrent_arg :: "ipc_torrent \<Rightarrow> cstr" where
  "torrent_arg (By_Hash h) = ''20:'' @ text_of h"
| "torrent_arg (By_Num n) = benc_num (uint n)"

definition simple_text :: "cstr \<Rightarrow> ipc_torrent \<Rightarrow> cstr" where
  "simple_text cmd tp = ''l'' @ benc_text cmd @ torrent_arg tp @ ''e''"

definition simple_treq :: "wire \<Rightarrow> cstr \<Rightarrow> ipc_torrent \<Rightarrow> nat option" where
  "simple_treq wire cmd tp = ipc_buf_req_code wire (simple_text cmd tp)"

definition btpd_del :: "wire \<Rightarrow> ipc_torrent \<Rightarrow> nat option" where
  "btpd_del wire tp = simple_treq wire ''del'' tp"

definition btpd_start :: "wire \<Rightarrow> ipc_torrent \<Rightarrow> nat option" where
  "btpd_start wire tp = simple_treq wire ''start'' tp"

definition btpd_stop :: "wire \<Rightarrow> ipc_torrent \<Rightarrow> nat option" where
  "btpd_stop wire tp = simple_treq wire ''stop'' tp"

definition btpd_start_all :: "wire \<Rightarrow> nat option" where
  "btpd_start_all wire = ipc_buf_req_code wire ''l9:start-alle''"

definition btpd_stop_all :: "wire \<Rightarrow> nat option" where
  "btpd_stop_all wire = ipc_buf_req_code wire ''l8:stop-alle''"

text \<open>The rates are unsigned numbers printed with \<^verbatim>\<open>%i\<close>.\<close>

definition rate_text :: "u32 \<Rightarrow> u32 \<Rightarrow> cstr" where
  "rate_text up down = ''l4:rate'' @ benc_num (sint up) @ benc_num (sint down) @ ''e''"

definition btpd_rate :: "wire \<Rightarrow> u32 \<Rightarrow> u32 \<Rightarrow> nat option" where
  "btpd_rate wire up down = ipc_buf_req_code wire (rate_text up down)"

definition opt_entry :: "cstr \<Rightarrow> cstr option \<Rightarrow> cstr" where
  "opt_entry key v = (case v of None \<Rightarrow> [] | Some s \<Rightarrow> key @ benc_text s)"

definition add_text :: "cstr \<Rightarrow> cstr \<Rightarrow> cstr option \<Rightarrow> cstr option \<Rightarrow> cstr" where
  "add_text mi content name label =
     ''l3:addd7:content'' @ benc_text content @ opt_entry ''4:name'' name @ opt_entry ''5:label'' label @ ''7:torrent'' @ benc_text mi @ ''ee''"

definition btpd_add :: "wire \<Rightarrow> cstr \<Rightarrow> cstr \<Rightarrow> cstr option \<Rightarrow> cstr option \<Rightarrow> nat option" where
  "btpd_add wire mi content name label = ipc_buf_req_code wire (add_text mi content name label)"

section \<open>Reading the library\<close>

text \<open>
  \<^verbatim>\<open>struct ipc_get_res\<close>: a type and a number, or a string that may be NULL. \<open>cbres\<close> keeps a value that is not written again.
\<close>

datatype get_val = V_Num int | V_Str "cstr option"

type_synonym get_res = "nat \<times> get_val option"

definition get_one :: "cstr \<Rightarrow> cstr \<Rightarrow> get_val option \<Rightarrow> get_res option" where
  "get_one t v old =
     do {
       ty \<leftarrow> map_option to_enum (benc_int t);
       if ty = 0 \<or> ty = 2 then do { i \<leftarrow> benc_int v; Some (ty, Some (V_Num i)) }
       else if ty = 3 \<or> ty = 1 then
         do { m \<leftarrow> benc_mem v; Some (ty, Some (V_Str (map_option (\<lambda>(len, p). take len p) m))) }
       else Some (ty, old) }"

text \<open>The loop over the keys: the pointers \<open>t\<close> and \<open>v\<close> and the results, of which there are as many as there are values.\<close>

fun get_keys :: "nat list \<Rightarrow> cstr option \<Rightarrow> cstr option \<Rightarrow> (nat \<Rightarrow> get_res option) \<Rightarrow> (nat \<Rightarrow> get_res option) option" where
  "get_keys [] t v cbres = Some cbres"
| "get_keys (k # ks) t v cbres =
     do {
       guard_opt (k < length tvals);
       t1 \<leftarrow> t;
       v1 \<leftarrow> v;
       g \<leftarrow> get_one t1 v1 (case cbres k of None \<Rightarrow> None | Some (_, x) \<Rightarrow> x);
       t2 \<leftarrow> benc_next v1;
       v2 \<leftarrow> (case t2 of None \<Rightarrow> Some (Some v1) | Some q \<Rightarrow> benc_next q);
       get_keys ks t2 v2 (cbres(k \<mapsto> g)) }"

text \<open>What the callback gets for each object, in order: an error, or the results.\<close>

type_synonym obj = "nat \<times> (nat \<Rightarrow> get_res option) option"

function get_objs :: "nat list \<Rightarrow> (nat \<Rightarrow> get_res option) \<Rightarrow> cstr option \<Rightarrow> obj list option" where
  "get_objs keys cbres None = Some []"
| "get_objs keys cbres (Some res) =
     (if benc_isint res
      then do {
        e \<leftarrow> benc_int res;
        nx \<leftarrow> benc_next res;
        r \<leftarrow> get_objs keys cbres nx;
        Some ((to_enum e, None) # r) }
      else do {
        t \<leftarrow> benc_first res;
        t1 \<leftarrow> t;
        v \<leftarrow> benc_next t1;
        cb1 \<leftarrow> get_keys keys t v cbres;
        nx \<leftarrow> benc_next res;
        r \<leftarrow> get_objs keys cb1 nx;
        Some ((0, Some cb1) # r) })"
  by pat_completeness auto
termination
  by (relation "measure (\<lambda>(keys, cb, x). case x of None \<Rightarrow> 0 | Some p \<Rightarrow> Suc (length p))")
    (auto dest!: benc_next_shrinks split: option.splits)

declare get_objs.simps [simp del]

definition tget_common :: "cstr \<Rightarrow> nat list \<Rightarrow> (nat \<times> obj list) option" where
  "tget_common ans keys =
     do {
       code \<leftarrow> benc_dget_int ans ''code'';
       if to_enum code \<noteq> 0 then Some (to_enum code, [])
       else do {
         res \<leftarrow> benc_dget_lst ans ''result'';
         r \<leftarrow> res;
         f \<leftarrow> benc_first r;
         objs \<leftarrow> get_objs keys (\<lambda>_. None) f;
         Some (0, objs) } }"

definition keys_text :: "nat list \<Rightarrow> cstr" where
  "keys_text keys = concat (map (\<lambda>k. benc_num (int k)) keys)"

definition tget_text :: "ipc_torrent list \<Rightarrow> nat list \<Rightarrow> cstr" where
  "tget_text tps keys = ''l4:tgetd4:froml'' @ concat (map torrent_arg tps) @ ''e4:keysl'' @ keys_text keys @ ''eee''"

definition tget_wc_text :: "ipc_twc \<Rightarrow> nat list \<Rightarrow> cstr" where
  "tget_wc_text twc keys = ''l4:tgetd4:from'' @ benc_num (int (twc_num twc)) @ ''4:keysl'' @ keys_text keys @ ''eee''"

definition tget_req :: "wire \<Rightarrow> cstr \<Rightarrow> nat list \<Rightarrow> (nat \<times> obj list) option" where
  "tget_req wire req keys =
     (case ipc_req_res wire req of Inl e \<Rightarrow> Some (nat (err_num e), []) | Inr res \<Rightarrow> tget_common res keys)"

definition btpd_tget :: "wire \<Rightarrow> ipc_torrent list \<Rightarrow> nat list \<Rightarrow> (nat \<times> obj list) option" where
  "btpd_tget wire tps keys =
     (if keys = [] \<or> tps = [] then Some (nat (err_num IPC_COMMERR), []) else tget_req wire (tget_text tps keys) keys)"

definition btpd_tget_wc :: "wire \<Rightarrow> ipc_twc \<Rightarrow> nat list \<Rightarrow> (nat \<times> obj list) option" where
  "btpd_tget_wc wire twc keys =
     (if keys = [] then Some (nat (err_num IPC_COMMERR), []) else tget_req wire (tget_wc_text twc keys) keys)"

end
