(* ===== verification/Rpc.thy ===== *)
theory Rpc
  imports BtpdIf
begin

text \<open>
  The client and the daemon together: what a client prints reaches the operation it names with the arguments it was called with, and
  the code it gets back is the one the daemon answered.
\<close>

section \<open>Framing\<close>

lemma length_text_of [simp]: "length (text_of bs) = length bs"
  by (simp add: text_of_def)

lemma read_len_host: "n < 2 ^ 32 \<Longrightarrow> read_len (host32 n @ r) = Some (n, r)"
  using dec_enc_be32 [of "of_nat n" "[]"]
  by (simp add: read_len_def host32_def take_bit_nat_eq_self unsigned_of_nat)

lemma read_msg_frame: "length msg < 2 ^ 32 \<Longrightarrow> read_msg (frame msg @ r) = Some (msg, r)"
  by (simp add: read_msg_def frame_def read_len_host)

lemma ipc_response_frame: "length msg < 2 ^ 32 \<Longrightarrow> msg \<noteq> [] \<Longrightarrow> ipc_response (frame msg) = Inr msg"
  using read_len_host [of "length msg" msg] by (simp add: ipc_response_def frame_def)

section \<open>Requests\<close>

text \<open>Bytes that encode a value in both readings of length fields.\<close>

definition enc2 :: "bval \<Rightarrow> cstr \<Rightarrow> bool" where
  "enc2 v b \<longleftrightarrow> encodes dec_val v b \<and> encodes wrap_rd v b"

lemma enc2_num: "enc2 (BInt i) (benc_num i)"
  by (simp add: enc2_def enc_num)

lemma enc2_text: "length s < 2 ^ 64 \<Longrightarrow> enc2 (BStr s) (benc_text s)"
  by (simp add: enc2_def enc_text)

lemma enc2_list: "list_all2 enc2 vs bs \<Longrightarrow> enc2 (BList vs) (benc_list bs)"
  unfolding enc2_def by (auto intro!: enc_list elim!: list_all2_mono)

lemma enc2_dict:
  "list_all2 (\<lambda>kv kb. fst kb = fst kv \<and> length (fst kv) < 2 ^ 64 \<and> enc2 (snd kv) (snd kb)) kvs kbs \<Longrightarrow> enc2 (BDict kvs) (benc_dict kbs)"
  unfolding enc2_def by (auto intro!: enc_dict elim!: list_all2_mono simp: enc_entry_def)

definition request :: "cstr \<Rightarrow> cstr list \<Rightarrow> cstr" where
  "request cmd bs = benc_list (benc_text cmd # bs)"

lemma request_read:
  assumes "list_all2 enc2 vs bs" "length (request cmd bs) < 2 ^ 32"
  shows "benc_validate (request cmd bs) = None" "benc_islst (request cmd bs)"
    "\<exists>q. benc_first (request cmd bs) = Some (Some q) \<and> benc_isstr q \<and>
       (\<exists>r. benc_mem q = Some (Some (length cmd, cmd @ r))) \<and>
       benc_mem_next q = Some (if bs = [] then None else Some (concat bs @ ''e''))"
    "benc_nelems (request cmd bs) = Some (Suc (length bs))"
proof -
  let ?m = "request cmd bs"
  have len: "length cmd < 2 ^ 64" using assms(2) by (simp add: request_def benc_list_def benc_text_def)
  have e: "enc2 (BList (BStr cmd # vs)) ?m"
    unfolding request_def using assms(1) len by (intro enc2_list) (simp add: enc2_text)
  then show "benc_validate ?m = None" by (auto simp: enc2_def benc_validate_grammar)
  show "benc_islst ?m" by (simp add: request_def benc_list_def benc_islst_def)
  have l2: "length vs = length bs" using assms(1) by (rule list_all2_lengthD)
  show "benc_nelems ?m = Some (Suc (length bs))"
    using benc_nelems_encodes [of "BStr cmd # vs" ?m "[]"] e assms(2) l2 by (simp add: enc2_def)
  let ?q = "benc_text cmd @ concat bs @ ''e''"
  have t: "encodes dec_val (BStr cmd) (benc_text cmd)" using len by (simp add: enc_text)
  obtain c r where cr: "benc_text cmd = c # r" "c \<noteq> CHR ''e''" using encodes_first [OF t] by auto
  have f: "benc_first ?m = Some (Some ?q)"
    using cr by (simp add: request_def benc_first_def benc_islst_def benc_list_def)
  have n: "benc_mem_next ?q = Some (if bs = [] then None else Some (concat bs @ ''e''))"
  proof (cases bs)
    case Nil
    then show ?thesis using benc_mem_next_encodes [OF t len, of "CHR ''e''" "[]"] by simp
  next
    case (Cons b bs')
    with assms(1) obtain v where "enc2 v b" by (auto simp: list_all2_Cons2)
    then obtain c r where "b = c # r" "c \<noteq> CHR ''e''" using encodes_first [of dec_val v b] by (auto simp: enc2_def)
    then show ?thesis using benc_mem_next_encodes [OF t len, of c "r @ concat bs' @ ''e''"] Cons by simp
  qed
  show "\<exists>q. benc_first ?m = Some (Some q) \<and> benc_isstr q \<and> (\<exists>r. benc_mem q = Some (Some (length cmd, cmd @ r))) \<and>
       benc_mem_next q = Some (if bs = [] then None else Some (concat bs @ ''e''))"
    using f n benc_isstr_encodes [OF t] benc_mem_encodes [OF t len] by blast
qed

lemma request_dispatched:
  assumes "list_all2 enc2 vs bs" "length (request cmd bs) < 2 ^ 32"
    "\<And>r. List.find (\<lambda>(name, nlen, fn). length cmd = nlen \<and> strncmp name (cmd @ r) (length cmd) = 0) (cmd_table 0 sha env) = Some (name, nl, fn)"
  shows "cli_read_cb 0 sha env (frame (request cmd bs)) b =
    do { ((err, ans), b1) \<leftarrow> fn (length bs) (if bs = [] then None else Some (concat bs @ ''e'')) b; Some ((err = 0, ans), [], b1) }"
proof -
  note r = request_read [OF assms(1,2)]
  from r(3) obtain q r where q: "benc_first (request cmd bs) = Some (Some q)" "benc_isstr q" "benc_mem q = Some (Some (length cmd, cmd @ r))"
    "benc_mem_next q = Some (if bs = [] then None else Some (concat bs @ ''e''))" by blast
  have "cmd_dispatch 0 sha env (request cmd bs) b = fn (length bs) (if bs = [] then None else Some (concat bs @ ''e'')) b"
    by (simp add: cmd_dispatch_def q r(4) assms(3))
  then show ?thesis using read_msg_frame [OF assms(2), of "[]"] by (simp add: cli_read_cb_def r q)
qed

section \<open>What a call asks for\<close>

datatype call = Call_Add cstr cstr "cstr option" "cstr option" | Call_Del ipc_torrent | Call_Start ipc_torrent | Call_Stop ipc_torrent |
  Call_Rate u32 u32 | Call_Start_All | Call_Stop_All | Call_Die

fun btpd_call :: "wire \<Rightarrow> call \<Rightarrow> nat option" where
  "btpd_call wire (Call_Add mi content name label) = btpd_add wire mi content name label"
| "btpd_call wire (Call_Del tp) = btpd_del wire tp"
| "btpd_call wire (Call_Start tp) = btpd_start wire tp"
| "btpd_call wire (Call_Stop tp) = btpd_stop wire tp"
| "btpd_call wire (Call_Rate up down) = btpd_rate wire up down"
| "btpd_call wire Call_Start_All = btpd_start_all wire"
| "btpd_call wire Call_Stop_All = btpd_stop_all wire"
| "btpd_call wire Call_Die = btpd_die wire"

fun call_text :: "call \<Rightarrow> cstr" where
  "call_text (Call_Add mi content name label) = add_text mi content name label"
| "call_text (Call_Del tp) = simple_text ''del'' tp"
| "call_text (Call_Start tp) = simple_text ''start'' tp"
| "call_text (Call_Stop tp) = simple_text ''stop'' tp"
| "call_text (Call_Rate up down) = rate_text up down"
| "call_text Call_Start_All = ''l9:start-alle''"
| "call_text Call_Stop_All = ''l8:stop-alle''"
| "call_text Call_Die = ''l3:diee''"

lemma btpd_call_text: "btpd_call wire c = ipc_buf_req_code wire (call_text c)"
  by (cases c) (simp_all add: btpd_add_def btpd_del_def btpd_start_def btpd_stop_def btpd_rate_def btpd_start_all_def btpd_stop_all_def
      btpd_die_def simple_treq_def)

text \<open>A hash has 20 bytes; the texts are C strings.\<close>

fun torrent_ok :: "ipc_torrent \<Rightarrow> bool" where
  "torrent_ok (By_Hash h) = (length h = 20)"
| "torrent_ok (By_Num n) = True"

definition c_string :: "cstr \<Rightarrow> bool" where
  "c_string s \<longleftrightarrow> CHR 0x00 \<notin> set s"

fun call_ok :: "call \<Rightarrow> bool" where
  "call_ok (Call_Add mi content name label) = (c_string content \<and> pred_option c_string name \<and> pred_option c_string label)"
| "call_ok (Call_Del tp) = torrent_ok tp"
| "call_ok (Call_Start tp) = torrent_ok tp"
| "call_ok (Call_Stop tp) = torrent_ok tp"
| "call_ok _ = True"

text \<open>The operations themselves, on values: the code and the next state.\<close>

definition entry_of :: "daemon \<Rightarrow> ipc_torrent \<Rightarrow> lid option" where
  "entry_of d tp = (case tp of By_Num n \<Rightarrow> tlib_by_num d n | By_Hash h \<Rightarrow> tlib_by_hash d h)"

definition with_entry :: "ipc_torrent \<Rightarrow> (lid \<Rightarrow> tlib \<Rightarrow> btpd \<Rightarrow> (ipc_err \<times> btpd) option) \<Rightarrow> btpd \<Rightarrow> (ipc_err \<times> btpd) option" where
  "with_entry tp f b =
     (case entry_of (bd_d b) tp of
        None \<Rightarrow> Some (IPC_ENOTENT, b)
      | Some l \<Rightarrow>
          do {
            x \<leftarrow> dm_tl (bd_d b) l;
            haunting \<leftarrow> torrent_haunting (bd_d b) x;
            if haunting then Some (IPC_ENOTENT, b) else f l x b })"

definition stop_tors :: "btpd \<Rightarrow> btpd option" where
  "stop_tors b = on_d (\<lambda>d. foreach (w_torrents (dm_w d)) (\<lambda>t. torrent_stop t False) d) b"

fun serve :: "(cstr \<Rightarrow> byte list) \<Rightarrow> (tid \<Rightarrow> start_env) \<Rightarrow> call \<Rightarrow> btpd \<Rightarrow> (ipc_err \<times> btpd) option" where
  "serve sha env (Call_Add mi content name label) b =
     do {
       ok \<leftarrow> mi_test mi;
       if \<not> ok then Some (IPC_EBADT, b)
       else if content = [] \<or> length content \<ge> PATH_MAX \<or> hd content \<noteq> CHR ''/'' then Some (IPC_EBADCDIR, b)
       else do {
         h \<leftarrow> mi_info_hash sha mi;
         haunting \<leftarrow> (case tlib_by_hash (bd_d b) h of None \<Rightarrow> Some True
           | Some l \<Rightarrow> do { x \<leftarrow> dm_tl (bd_d b) l; torrent_haunting (bd_d b) x });
         if \<not> haunting then Some (IPC_ETENTEXIST, b)
         else do {
           (l, d1) \<leftarrow> (case tlib_by_hash (bd_d b) h of
               Some l \<Rightarrow> tlib_readd l h mi content name label (bd_d b)
             | None \<Rightarrow> tlib_add h mi content name label (bd_d b));
           x \<leftarrow> dm_tl d1 l;
           Some (IPC_OK, b\<lparr>bd_d := d1\<rparr>) } } }"
| "serve sha env (Call_Del tp) b =
     with_entry tp (\<lambda>l x b. do {
       b1 \<leftarrow> (case tl_tp x of Some t \<Rightarrow> on_d (torrent_stop t True) b | None \<Rightarrow> on_d (tlib_del l) b);
       Some (IPC_OK, b1) }) b"
| "serve sha env (Call_Start tp) b =
     (if bd_shutdown b then Some (IPC_ESHUTDOWN, b)
      else with_entry tp (\<lambda>l x b. do {
        startable \<leftarrow> torrent_startable (bd_d b) x;
        if \<not> startable then Some (IPC_ETACTIVE, b)
        else do {
          (code, d1) \<leftarrow> torrent_start (env (dm_next_tp (bd_d b))) l (bd_d b);
          Some (code, b\<lparr>bd_d := if code = IPC_OK then active_add (tl_hash x) d1 else d1\<rparr>) } }) b)"
| "serve sha env (Call_Stop tp) b =
     with_entry tp (\<lambda>l x b. do {
       active \<leftarrow> torrent_active (bd_d b) x;
       if \<not> active then Some (IPC_ETINACTIVE, b)
       else do {
         t \<leftarrow> tl_tp x;
         b1 \<leftarrow> on_d (torrent_stop t False) (b\<lparr>bd_d := active_del (tl_hash x) (bd_d b)\<rparr>);
         Some (IPC_OK, b1) } }) b"
| "serve sha env (Call_Rate up down) b =
     (if bd_shutdown b then Some (IPC_ESHUTDOWN, b)
      else do {
        b1 \<leftarrow> on_d (on_w (\<lambda>w. Some (ul_set_max_uploads (w\<lparr>w_limit_out := unat up, w_limit_in := unat down\<rparr>)))) b;
        Some (IPC_OK, b1) })"
| "serve sha env Call_Start_All b =
     (if bd_shutdown b then Some (IPC_ESHUTDOWN, b)
      else do {
        ls \<leftarrow> tlib_iter (bd_d b);
        b1 \<leftarrow> on_d (foreach ls (\<lambda>l d.
          do {
            x \<leftarrow> dm_tl d l;
            startable \<leftarrow> torrent_startable d x;
            if \<not> startable then Some d
            else do {
              (code, d1) \<leftarrow> torrent_start (env (dm_next_tp d)) l d;
              guard_opt (code = IPC_OK);
              Some (active_add (tl_hash x) d1) } })) b;
        Some (IPC_OK, b1) })"
| "serve sha env Call_Stop_All b = do { b1 \<leftarrow> stop_tors (b\<lparr>bd_d := active_clear (bd_d b)\<rparr>); Some (IPC_OK, b1) }"
| "serve sha env Call_Die b = do { b1 \<leftarrow> (if \<not> bd_shutdown b then btpd_shutdown b else Some b); Some (IPC_OK, b1) }"

definition daemon_wire :: "(cstr \<Rightarrow> byte list) \<Rightarrow> (tid \<Rightarrow> start_env) \<Rightarrow> btpd \<Rightarrow> wire" where
  "daemon_wire sha env b req =
     Some (case cli_read_cb 0 sha env req b of Some ((_, Some ans), _) \<Rightarrow> frame ans | _ \<Rightarrow> [])"

definition daemon_after :: "(cstr \<Rightarrow> byte list) \<Rightarrow> (tid \<Rightarrow> start_env) \<Rightarrow> btpd \<Rightarrow> cstr \<Rightarrow> btpd option" where
  "daemon_after sha env b req = map_option (\<lambda>(_, _, b1). b1) (cli_read_cb 0 sha env req b)"

section \<open>Answers\<close>

lemma key_text:
  "benc_text ''code'' = ''4:code''" "benc_text ''num'' = ''3:num''" "benc_text ''content'' = ''7:content''" "benc_text ''torrent'' = ''7:torrent''"
  "benc_text ''name'' = ''4:name''" "benc_text ''label'' = ''5:label''" "benc_text ''from'' = ''4:from''" "benc_text ''keys'' = ''4:keys''"
  "benc_text ''result'' = ''6:result''" "benc_text ''add'' = ''3:add''" "benc_text ''del'' = ''3:del''" "benc_text ''die'' = ''3:die''"
  "benc_text ''rate'' = ''4:rate''" "benc_text ''start'' = ''5:start''" "benc_text ''start-all'' = ''9:start-all''" "benc_text ''stop'' = ''4:stop''"
  "benc_text ''stop-all'' = ''8:stop-all''" "benc_text ''tget'' = ''4:tget''"
  by (simp_all add: benc_text_def show_base.simps digit_char_def char_of_def bit_0)

definition answers :: "cstr \<Rightarrow> ipc_err \<Rightarrow> bool" where
  "answers ans code \<longleftrightarrow> (\<exists>kvs kbs. ans = benc_dict kbs \<and> enc2 (BDict kvs) ans \<and> map_of kvs ''code'' = Some (BInt (err_num code)) \<and>
     length ans < 2 ^ 32)"

lemma length_show_base: "n < 10 ^ k \<Longrightarrow> 0 < k \<Longrightarrow> length (show_nat n) \<le> k"
proof (induction k arbitrary: n)
  case (Suc k)
  show ?case
  proof (cases "n < 10")
    case True
    then show ?thesis by (simp add: show_base.simps)
  next
    case False
    with Suc.prems have "n div 10 < 10 ^ k" "0 < k" by (auto simp: less_mult_imp_div_less intro: gr0I)
    with Suc.IH [of "n div 10"] False show ?thesis by (subst show_nat_rec) simp
  qed
qed simp

lemma err_num_small: "0 \<le> err_num c \<and> err_num c < 20"
  by (cases c) simp_all

lemma code_answers: "write_code_buffer we code = (we, Some a) \<Longrightarrow> answers a code"
proof -
  assume "write_code_buffer we code = (we, Some a)"
  then have a: "a = benc_dict [(''code'', benc_num (err_num code))]"
    by (simp add: write_code_buffer_def benc_dict_def key_text)
  have e: "enc2 (BDict [(''code'', BInt (err_num code))]) a" unfolding a by (intro enc2_dict) (simp add: enc2_num)
  have n: "nat (err_num code) < 10 ^ 2" by (cases code) simp_all
  have "length a < 100"
    using length_show_base [of "nat (err_num code)" 2] n err_num_small [of code] by (simp add: a benc_dict_def key_text benc_num_def show_int_def)
  with a e show ?thesis unfolding answers_def by (intro exI [of _ "[(''code'', BInt (err_num code))]"] exI conjI) simp_all
qed

lemma add_answers: "write_add_buffer we num = (we, Some a) \<Longrightarrow> answers a IPC_OK"
proof -
  assume "write_add_buffer we num = (we, Some a)"
  then have a: "a = benc_dict [(''code'', benc_num 0), (''num'', benc_num (uint num))]"
    by (simp add: write_add_buffer_def benc_dict_def key_text)
  have e: "enc2 (BDict [(''code'', BInt 0), (''num'', BInt (uint num))]) a" unfolding a by (intro enc2_dict) (simp add: enc2_num)
  have "unat num < 10 ^ 10" using unsigned_less [of num, where 'a = nat] by simp
  then have "length a < 100"
    using length_show_base [of "unat num" 10] length_show_base [of 0 1]
    by (simp add: a benc_dict_def key_text benc_num_def show_int_def)
  with a e show ?thesis
    unfolding answers_def by (intro exI [of _ "[(''code'', BInt 0), (''num'', BInt (uint num))]"] exI conjI) simp_all
qed

lemma answer_read:
  assumes "answers a code"
  shows "ipc_buf_req_code (\<lambda>_. Some (frame a)) req = Some (nat (err_num code))"
proof -
  from assms obtain kvs kbs where a: "a = benc_dict kbs" "enc2 (BDict kvs) a" "map_of kvs ''code'' = Some (BInt (err_num code))" "length a < 2 ^ 32"
    by (auto simp: answers_def)
  from a(2,4) have s: "starts a (BDict kvs)" using startsI [of "BDict kvs" a "[]"] by (auto simp: enc2_def)
  have v: "benc_validate a = None" using a(2) by (auto simp: enc2_def benc_validate_grammar)
  have ne: "a \<noteq> []" by (simp add: a(1) benc_dict_def)
  have "benc_dget_int a ''code'' = Some (err_num code)"
    using dget_starts(3) [OF s, of "''code''"] a(3) err_num_small [of code] by simp
  moreover have "to_enum (err_num code) = nat (err_num code)"
    by (cases code) (simp_all add: to_enum_def)
  ultimately show ?thesis
    using ipc_response_frame [OF a(4) ne] v starts_dict [OF s] by (simp add: ipc_buf_req_code_def ipc_req_res_def)
qed

section \<open>The daemon on the arguments of a call\<close>

fun torrent_bval :: "ipc_torrent \<Rightarrow> bval" where
  "torrent_bval (By_Num n) = BInt (uint n)"
| "torrent_bval (By_Hash h) = BStr (text_of h)"

lemma torrent_arg_bval:
  assumes "torrent_ok tp"
  shows "enc2 (torrent_bval tp) (torrent_arg tp) \<and> length (torrent_arg tp) < 100"
proof (cases tp)
  case (By_Num n)
  have "unat n < 10 ^ 10" using unsigned_less [of n, where 'a = nat] by simp
  then have "length (torrent_arg tp) < 100" using length_show_base [of "unat n" 10] By_Num by (simp add: benc_num_def show_int_def)
  with By_Num show ?thesis by (simp add: enc2_num)
next
  case (By_Hash h)
  with assms have "torrent_arg tp = benc_text (text_of h)" "length (text_of h) = 20"
    by (simp_all add: benc_text_def show_base.simps digit_chars)
  moreover have "length (torrent_arg tp) = 23" using By_Hash assms by simp
  ultimately show ?thesis using enc2_text [of "text_of h"] By_Hash by simp
qed

lemma starts_strlen: "encodes dec_val (BStr s) b \<Longrightarrow> length s < 2 ^ 64 \<Longrightarrow> benc_strlen (b @ r) = length s"
  by (auto simp: benc_strlen_def strtoul_digits elim!: encodes_strE)

lemma starts_entry:
  assumes "starts q (torrent_bval tp)" "torrent_ok tp"
  shows "cmd_entry d q = Some (Some (entry_of d tp))" "benc_isint q \<or> benc_isstr q \<and> benc_strlen q = 20"
proof -
  have "cmd_entry d q = Some (Some (entry_of d tp)) \<and> (benc_isint q \<or> benc_isstr q \<and> benc_strlen q = 20)"
  proof (cases tp)
    case (By_Num n)
    have b: "- (2 ^ 63) \<le> uint n" "uint n < 2 ^ 63"
      using unsigned_less [of n, where 'a = int] by (auto intro: order_trans [of _ 0])
    with starts_int [of q "uint n"] assms(1) By_Num have i: "benc_isint q" "benc_int q = Some (uint n)" by simp_all
    moreover have "\<not> benc_isstr q" using i(1) by (auto simp: benc_isint_def benc_isstr_def split: list.splits)
    ultimately show ?thesis using By_Num by (simp add: cmd_entry_def entry_of_def)
  next
    case (By_Hash h)
    with assms have h: "starts q (BStr (text_of h))" "length h = 20" by simp_all
    from h(1) obtain a t where q: "q = a @ t" "encodes dec_val (BStr (text_of h)) a" by (auto simp: starts_def)
    have "benc_strlen q = 20" using starts_strlen [OF q(2), of t] h(2) q(1) by simp
    moreover from starts_str(3) [OF h(1)] obtain r where "benc_mem q = Some (Some (20, text_of h @ r))" using h(2) by auto
    ultimately show ?thesis using starts_str(1) [OF h(1)] By_Hash h(2) by (simp add: cmd_entry_def entry_of_def)
  qed
  then show "cmd_entry d q = Some (Some (entry_of d tp))" "benc_isint q \<or> benc_isstr q \<and> benc_strlen q = 20" by simp_all
qed

lemma cmd_entry_arg:
  assumes "torrent_ok tp"
  shows "cmd_entry d (torrent_arg tp @ r) = Some (Some (entry_of d tp))"
  using torrent_arg_bval [OF assms] by (intro starts_entry(1) [OF startsI assms]) (simp_all add: enc2_def)

lemma serve_code: "f = map_option (\<lambda>(code, b'). (write_code_buffer 0 code, b')) g \<Longrightarrow> g = Some (code, b') \<Longrightarrow>
  \<exists>a. f = Some ((0, Some a), b') \<and> answers a code"
  using code_answers [of 0 code] by (auto simp: write_code_buffer_def)

lemma cmd_del_serves:
  assumes "torrent_ok tp"
  shows "cmd_del 0 1 (torrent_arg tp @ r) b = map_option (\<lambda>(code, b'). (write_code_buffer 0 code, b')) (serve sha env (Call_Del tp) b)"
  by (cases "entry_of (bd_d b) tp")
    (auto simp: cmd_del_def cmd_entry_arg [OF assms] with_entry_def bind_eq_None_conv split: option.splits Option.bind_splits if_splits)

lemma cmd_start_serves:
  assumes "torrent_ok tp"
  shows "cmd_start 0 env 1 (torrent_arg tp @ r) b = map_option (\<lambda>(code, b'). (write_code_buffer 0 code, b')) (serve sha env (Call_Start tp) b)"
  by (cases "entry_of (bd_d b) tp")
    (auto simp: cmd_start_def cmd_entry_arg [OF assms] with_entry_def Let_def split: option.splits Option.bind_splits if_splits)

lemma cmd_stop_serves:
  assumes "torrent_ok tp"
  shows "cmd_stop 0 1 (torrent_arg tp @ r) b = map_option (\<lambda>(code, b'). (write_code_buffer 0 code, b')) (serve sha env (Call_Stop tp) b)"
  by (cases "entry_of (bd_d b) tp")
    (auto simp: cmd_stop_def cmd_entry_arg [OF assms] with_entry_def Let_def split: option.splits Option.bind_splits if_splits)

lemma sint_u32_text:
  fixes n :: u32
  shows "length (benc_num (sint n)) < 100" "- (2 ^ 63) \<le> sint n" "sint n < 2 ^ 63" "to_enum (sint n) = unat n"
proof -
  have b: "- (2 ^ 31) \<le> sint n" "sint n < 2 ^ 31" using sint_greater_eq [of n] sint_less [of n] by simp_all
  then show "- (2 ^ 63) \<le> sint n" "sint n < 2 ^ 63" by simp_all
  have "nat \<bar>sint n\<bar> < 10 ^ 10" using b by (simp add: nat_less_iff abs_less_iff)
  then show "length (benc_num (sint n)) < 100"
    using length_show_base [of "nat \<bar>sint n\<bar>" 10] by (cases "sint n < 0") (simp_all add: benc_num_def show_int_def)
  show "to_enum (sint n) = unat n" by (simp add: to_enum_def)
qed

lemma cmd_rate_serves:
  "cmd_rate 0 2 (benc_num (sint up) @ benc_num (sint down) @ ''e'') b =
     map_option (\<lambda>(code, b'). (write_code_buffer 0 code, b')) (serve sha env (Call_Rate up down) b)"
proof -
  note u = benc_int_encodes [OF enc_num sint_u32_text(2,3), of up "benc_num (sint down) @ ''e''"]
  note d = benc_int_encodes [OF enc_num sint_u32_text(2,3), of down "''e''"]
  have "benc_int_next (benc_num (sint up) @ benc_num (sint down) @ ''e'') = Some (Some (benc_num (sint down) @ ''e''))"
    using u by (simp add: benc_num_def)
  with u d show ?thesis
    by (auto simp: cmd_rate_def sint_u32_text(4) split: Option.bind_splits)
qed

lemma cmd_start_all_serves:
  "cmd_start_all 0 env n x b = map_option (\<lambda>(code, b'). (write_code_buffer 0 code, b')) (serve sha env Call_Start_All b)"
  by (auto simp: cmd_start_all_def split: Option.bind_splits)

lemma cmd_stop_all_serves:
  "cmd_stop_all 0 n x b = map_option (\<lambda>(code, b'). (write_code_buffer 0 code, b')) (serve sha env Call_Stop_All b)"
  by (auto simp: cmd_stop_all_def stop_tors_def split: Option.bind_splits)

lemma cmd_die_serves:
  "cmd_die 0 n x b = map_option (\<lambda>(code, b'). (write_code_buffer 0 code, b')) (serve sha env Call_Die b)"
  by (auto simp: cmd_die_def split: Option.bind_splits)

text \<open>The dictionary of an add request.\<close>

definition add_kvs :: "cstr \<Rightarrow> cstr \<Rightarrow> cstr option \<Rightarrow> cstr option \<Rightarrow> (cstr \<times> cstr) list" where
  "add_kvs mi content name label =
     (''content'', content) # (case name of None \<Rightarrow> [] | Some s \<Rightarrow> [(''name'', s)]) @
     (case label of None \<Rightarrow> [] | Some s \<Rightarrow> [(''label'', s)]) @ [(''torrent'', mi)]"

definition add_arg :: "cstr \<Rightarrow> cstr \<Rightarrow> cstr option \<Rightarrow> cstr option \<Rightarrow> cstr" where
  "add_arg mi content name label = benc_dict (map (\<lambda>(k, s). (k, benc_text s)) (add_kvs mi content name label))"

lemma add_text_request: "add_text mi content name label = request ''add'' [add_arg mi content name label]"
  by (cases name; cases label)
    (simp_all add: add_text_def request_def add_arg_def add_kvs_def benc_list_def benc_dict_def opt_entry_def key_text)

lemma add_arg_enc:
  assumes "length (add_arg mi content name label) < 2 ^ 32"
  shows "enc2 (BDict (map (\<lambda>(k, s). (k, BStr s)) (add_kvs mi content name label))) (add_arg mi content name label)"
proof -
  have "length content < 2 ^ 64 \<and> length mi < 2 ^ 64 \<and> pred_option (\<lambda>s. length s < 2 ^ 64) name \<and> pred_option (\<lambda>s. length s < 2 ^ 64) label"
    using assms by (auto simp: add_arg_def add_kvs_def benc_dict_def benc_text_def split: option.splits)
  then show ?thesis
    unfolding add_arg_def
    by (intro enc2_dict) (auto simp: add_kvs_def list_all2_map1 list_all2_map2 enc2_text split: option.splits)
qed

lemma add_arg_read:
  fixes r :: cstr
  assumes "length (add_arg mi content name label) < 2 ^ 32" "call_ok (Call_Add mi content name label)"
  defines "q \<equiv> add_arg mi content name label @ r"
  shows "benc_isdct q" "\<exists>r. benc_dget_mem q ''torrent'' = Some (Some (length mi, mi @ r))"
    "\<exists>r. benc_dget_mem q ''content'' = Some (Some (length content, content @ r))"
    "dget_cstr q ''name'' = Some name" "dget_cstr q ''label'' = Some label"
proof -
  let ?kvs = "map (\<lambda>(k, s). (k, BStr s)) (add_kvs mi content name label)"
  have s: "starts q (BDict ?kvs)"
    unfolding q_def using add_arg_enc [OF assms(1)] assms(1) by (intro startsI) (auto simp: enc2_def)
  have keys: "map_of ?kvs ''torrent'' = Some (BStr mi)" "map_of ?kvs ''content'' = Some (BStr content)"
    "map_of ?kvs ''name'' = map_option BStr name" "map_of ?kvs ''label'' = map_option BStr label"
    by (auto simp: add_kvs_def split: option.splits)
  show "benc_isdct q" using s by (rule starts_dict)
  show "\<exists>r. benc_dget_mem q ''torrent'' = Some (Some (length mi, mi @ r))" using dget_starts(2) [OF s] keys by simp
  show "\<exists>r. benc_dget_mem q ''content'' = Some (Some (length content, content @ r))" using dget_starts(2) [OF s] keys by simp
  show "dget_cstr q ''name'' = Some name"
    using dget_starts(1,6) [OF s, of "''name''"] keys(3) assms(2) by (cases name) (auto simp: dget_cstr_def c_string_def takeWhile_eq_all_conv)
  show "dget_cstr q ''label'' = Some label"
    using dget_starts(1,6) [OF s, of "''label''"] keys(4) assms(2) by (cases label) (auto simp: dget_cstr_def c_string_def takeWhile_eq_all_conv)
qed

lemma cmd_add_serves:
  assumes "length (add_arg mi content name label) < 2 ^ 32" "call_ok (Call_Add mi content name label)"
    "serve sha env (Call_Add mi content name label) b = Some (code, b')"
  shows "\<exists>a. cmd_add 0 sha 1 (add_arg mi content name label @ r) b = Some ((0, Some a), b') \<and> answers a code"
proof -
  note rd = add_arg_read [OF assms(1,2), of r]
  from rd(2,3) obtain r1 r2 where m: "benc_dget_mem (add_arg mi content name label @ r) ''torrent'' = Some (Some (length mi, mi @ r1))"
    "benc_dget_mem (add_arg mi content name label @ r) ''content'' = Some (Some (length content, content @ r2))" by blast
  have tw: "takeWhile (\<lambda>c. c \<noteq> CHR 0x00) content = content"
    using assms(2) by (auto simp: c_string_def takeWhile_eq_all_conv)
  let ?q = "add_arg mi content name label @ r" and ?d = "bd_d b"
  let ?bad = "content = [] \<or> length content \<ge> PATH_MAX \<or> hd content \<noteq> CHR ''/''"
  define H where "H h = (case tlib_by_hash ?d h of None \<Rightarrow> Some True | Some l \<Rightarrow> do { x \<leftarrow> dm_tl ?d l; torrent_haunting ?d x })" for h
  define A where "A h = (case tlib_by_hash ?d h of Some l \<Rightarrow> tlib_readd l h mi content name label ?d
    | None \<Rightarrow> tlib_add h mi content name label ?d)" for h
  have s: "serve sha env (Call_Add mi content name label) b = do { ok \<leftarrow> mi_test mi;
      if \<not> ok then Some (IPC_EBADT, b)
      else if ?bad then Some (IPC_EBADCDIR, b)
      else do { h \<leftarrow> mi_info_hash sha mi; haunting \<leftarrow> H h;
        if \<not> haunting then Some (IPC_ETENTEXIST, b)
        else do { (l, d1) \<leftarrow> A h; x \<leftarrow> dm_tl d1 l; Some (IPC_OK, b\<lparr>bd_d := d1\<rparr>) } } }"
    unfolding H_def A_def by (simp only: serve.simps)
  from assms(3) consider
      (badt) "mi_test mi = Some False" "code = IPC_EBADT" "b' = b"
    | (dir) "mi_test mi = Some True" ?bad "code = IPC_EBADCDIR" "b' = b"
    | (present) h where "mi_test mi = Some True" "\<not> ?bad" "mi_info_hash sha mi = Some h" "H h = Some False" "code = IPC_ETENTEXIST" "b' = b"
    | (put) h l d1 x where "mi_test mi = Some True" "\<not> ?bad" "mi_info_hash sha mi = Some h" "H h = Some True" "A h = Some (l, d1)"
        "dm_tl d1 l = Some x" "code = IPC_OK" "b' = b\<lparr>bd_d := d1\<rparr>"
    unfolding s by (auto simp: bind_eq_Some_conv split: if_splits)
  then have "cmd_add 0 sha 1 ?q b = Some (write_code_buffer 0 code, b') \<or>
      code = IPC_OK \<and> (\<exists>n. cmd_add 0 sha 1 ?q b = Some (write_add_buffer 0 n, b'))"
  proof cases
    case badt
    then show ?thesis by (simp add: cmd_add_def rd(1) m(1))
  next
    case dir
    then show ?thesis using rd(1) m by (cases "content = []") (auto simp: cmd_add_def)
  next
    case present
    note p = present(1-3,5,6) present(4) [unfolded H_def]
    then show ?thesis by (simp add: cmd_add_def rd(1,4,5) m tw Let_def)
  next
    case put
    note p = put(1-3,6-8) put(4) [unfolded H_def] put(5) [unfolded A_def]
    then show ?thesis by (auto simp add: cmd_add_def rd(1,4,5) m tw Let_def cong del: option.case_cong_weak)
  qed
  then show ?thesis
    using code_answers [of 0 code] add_answers [of 0] by (auto simp: write_code_buffer_def write_add_buffer_def)
qed

section \<open>Calls are served\<close>

lemma find_cmd:
  "List.find (\<lambda>(name, nlen, fn). length ''add'' = nlen \<and> strncmp name (''add'' @ r) (length ''add'') = 0) (cmd_table 0 sha env) =
     Some (''add'', 3, with_arg (cmd_add 0 sha))"
  "List.find (\<lambda>(name, nlen, fn). length ''del'' = nlen \<and> strncmp name (''del'' @ r) (length ''del'') = 0) (cmd_table 0 sha env) =
     Some (''del'', 3, with_arg (cmd_del 0))"
  "List.find (\<lambda>(name, nlen, fn). length ''die'' = nlen \<and> strncmp name (''die'' @ r) (length ''die'') = 0) (cmd_table 0 sha env) =
     Some (''die'', 3, cmd_die 0)"
  "List.find (\<lambda>(name, nlen, fn). length ''rate'' = nlen \<and> strncmp name (''rate'' @ r) (length ''rate'') = 0) (cmd_table 0 sha env) =
     Some (''rate'', 4, with_arg (cmd_rate 0))"
  "List.find (\<lambda>(name, nlen, fn). length ''start'' = nlen \<and> strncmp name (''start'' @ r) (length ''start'') = 0) (cmd_table 0 sha env) =
     Some (''start'', 5, with_arg (cmd_start 0 env))"
  "List.find (\<lambda>(name, nlen, fn). length ''start-all'' = nlen \<and> strncmp name (''start-all'' @ r) (length ''start-all'') = 0) (cmd_table 0 sha env) =
     Some (''start-all'', 9, cmd_start_all 0 env)"
  "List.find (\<lambda>(name, nlen, fn). length ''stop'' = nlen \<and> strncmp name (''stop'' @ r) (length ''stop'') = 0) (cmd_table 0 sha env) =
     Some (''stop'', 4, with_arg (cmd_stop 0))"
  "List.find (\<lambda>(name, nlen, fn). length ''stop-all'' = nlen \<and> strncmp name (''stop-all'' @ r) (length ''stop-all'') = 0) (cmd_table 0 sha env) =
     Some (''stop-all'', 8, cmd_stop_all 0)"
  "List.find (\<lambda>(name, nlen, fn). length ''tget'' = nlen \<and> strncmp name (''tget'' @ r) (length ''tget'') = 0) (cmd_table 0 sha env) =
     Some (''tget'', 4, with_arg (cmd_tget 0))"
  by (simp_all add: cmd_table_def)

lemma call_reaches:
  assumes "call_ok c" "length (call_text c) < 2 ^ 32" "serve sha env c b = Some (code, b')"
  shows "\<exists>a. cli_read_cb 0 sha env (frame (call_text c)) b = Some ((True, Some a), [], b') \<and> answers a code"
proof (cases c)
  case (Call_Add mi content name label)
  have t: "call_text c = request ''add'' [add_arg mi content name label]" using Call_Add by (simp add: add_text_request)
  have l: "length (add_arg mi content name label) < 2 ^ 32" using assms(2) unfolding t by (simp add: request_def benc_list_def)
  from cmd_add_serves [OF l, of sha env b code b' "''e''"] assms(1,3) Call_Add
  obtain a where a: "cmd_add 0 sha 1 (add_arg mi content name label @ ''e'') b = Some ((0, Some a), b')" "answers a code" by auto
  from request_dispatched [OF _ assms(2) [unfolded t] find_cmd(1), where vs = "[BDict (map (\<lambda>(k, s). (k, BStr s)) (add_kvs mi content name label))]" and b = b]
    add_arg_enc [OF l] a t
  show ?thesis by (simp add: with_arg_def)
next
  case (Call_Del tp)
  have ok: "torrent_ok tp" using assms(1) Call_Del by simp
  have t: "call_text c = request ''del'' [torrent_arg tp]" using Call_Del by (simp add: simple_text_def request_def benc_list_def)
  from torrent_arg_bval [OF ok] obtain v where v: "enc2 v (torrent_arg tp)" by blast
  from serve_code [OF cmd_del_serves [OF ok, of "''e''" b sha env]] assms(3) Call_Del
  obtain a where a: "cmd_del 0 1 (torrent_arg tp @ ''e'') b = Some ((0, Some a), b')" "answers a code" by blast
  from request_dispatched [OF _ assms(2) [unfolded t] find_cmd(2), where vs = "[v]" and b = b] v a t show ?thesis by (simp add: with_arg_def)
next
  case (Call_Start tp)
  have ok: "torrent_ok tp" using assms(1) Call_Start by simp
  have t: "call_text c = request ''start'' [torrent_arg tp]" using Call_Start by (simp add: simple_text_def request_def benc_list_def)
  from torrent_arg_bval [OF ok] obtain v where v: "enc2 v (torrent_arg tp)" by blast
  from serve_code [OF cmd_start_serves [OF ok, of env "''e''" b sha]] assms(3) Call_Start
  obtain a where a: "cmd_start 0 env 1 (torrent_arg tp @ ''e'') b = Some ((0, Some a), b')" "answers a code" by blast
  from request_dispatched [OF _ assms(2) [unfolded t] find_cmd(5), where vs = "[v]" and b = b] v a t show ?thesis by (simp add: with_arg_def)
next
  case (Call_Stop tp)
  have ok: "torrent_ok tp" using assms(1) Call_Stop by simp
  have t: "call_text c = request ''stop'' [torrent_arg tp]" using Call_Stop by (simp add: simple_text_def request_def benc_list_def)
  from torrent_arg_bval [OF ok] obtain v where v: "enc2 v (torrent_arg tp)" by blast
  from serve_code [OF cmd_stop_serves [OF ok, of "''e''" b sha env]] assms(3) Call_Stop
  obtain a where a: "cmd_stop 0 1 (torrent_arg tp @ ''e'') b = Some ((0, Some a), b')" "answers a code" by blast
  from request_dispatched [OF _ assms(2) [unfolded t] find_cmd(7), where vs = "[v]" and b = b] v a t show ?thesis by (simp add: with_arg_def)
next
  case (Call_Rate up down)
  have t: "call_text c = request ''rate'' [benc_num (sint up), benc_num (sint down)]"
    using Call_Rate by (simp add: rate_text_def request_def benc_list_def key_text)
  from serve_code [OF cmd_rate_serves [of up down b sha env]] assms(3) Call_Rate
  obtain a where a: "cmd_rate 0 2 (benc_num (sint up) @ benc_num (sint down) @ ''e'') b = Some ((0, Some a), b')" "answers a code" by blast
  from request_dispatched [OF _ assms(2) [unfolded t] find_cmd(4), where vs = "[BInt (sint up), BInt (sint down)]" and b = b] a t
  show ?thesis by (simp add: with_arg_def enc2_num numeral_2_eq_2)
next
  case Call_Start_All
  have t: "call_text c = request ''start-all'' []" using Call_Start_All by (simp add: request_def benc_list_def key_text)
  from serve_code [OF cmd_start_all_serves [of env 0 None b sha]] assms(3) Call_Start_All
  obtain a where a: "cmd_start_all 0 env 0 None b = Some ((0, Some a), b')" "answers a code" by blast
  from request_dispatched [OF _ assms(2) [unfolded t] find_cmd(6), where vs = "[]" and b = b] a t show ?thesis by simp
next
  case Call_Stop_All
  have t: "call_text c = request ''stop-all'' []" using Call_Stop_All by (simp add: request_def benc_list_def key_text)
  from serve_code [OF cmd_stop_all_serves [of 0 None b sha env]] assms(3) Call_Stop_All
  obtain a where a: "cmd_stop_all 0 0 None b = Some ((0, Some a), b')" "answers a code" by blast
  from request_dispatched [OF _ assms(2) [unfolded t] find_cmd(8), where vs = "[]" and b = b] a t show ?thesis by simp
next
  case Call_Die
  have t: "call_text c = request ''die'' []" using Call_Die by (simp add: request_def benc_list_def key_text)
  from serve_code [OF cmd_die_serves [of 0 None b sha env]] assms(3) Call_Die
  obtain a where a: "cmd_die 0 0 None b = Some ((0, Some a), b')" "answers a code" by blast
  from request_dispatched [OF _ assms(2) [unfolded t] find_cmd(3), where vs = "[]" and b = b] a t show ?thesis by simp
qed

text \<open>C1. A call of the client library and the daemon: for every request of the library (add, delete, start, stop, rates, start and stop
  everything, end), printed, framed by its length, received, validated and dispatched by name, the daemon performs exactly the
  operation called, on the torrent, texts and numbers the client passed, and the client gets the code of that operation.\<close>

theorem calls_are_served:
  assumes "call_ok c" "length (call_text c) < 2 ^ 32" "serve sha env c b = Some (code, b')"
  shows "btpd_call (daemon_wire sha env b) c = Some (nat (err_num code)) \<and>
    daemon_after sha env b (frame (call_text c)) = Some b'"
proof -
  from call_reaches [OF assms] obtain a where
    a: "cli_read_cb 0 sha env (frame (call_text c)) b = Some ((True, Some a), [], b')" "answers a code" by blast
  have "ipc_req_res (daemon_wire sha env b) (call_text c) = ipc_req_res (\<lambda>_. Some (frame a)) (call_text c)"
    by (simp add: ipc_req_res_def daemon_wire_def a(1))
  then have "ipc_buf_req_code (daemon_wire sha env b) (call_text c) = ipc_buf_req_code (\<lambda>_. Some (frame a)) (call_text c)"
    by (simp add: ipc_buf_req_code_def)
  then show ?thesis using answer_read [OF a(2)] a(1) by (simp add: btpd_call_text daemon_after_def)
qed

definition sample_btpd :: btpd where
  "sample_btpd = \<lparr>bd_d = set_w ((dm_w sample_daemon)\<lparr>w_torrents := []\<rparr>) sample_daemon, bd_shutdown = False, bd_ghost = False, bd_signal = False, bd_exit = False\<rparr>"

text \<open>Two calls of a client of a daemon without torrents: number 7 is not known; then the daemon ends.\<close>

theorem calls_are_served_witness:
  "btpd_call (daemon_wire (\<lambda>_. []) (\<lambda>_. undefined) sample_btpd) (Call_Del (By_Num 7)) = Some 8 \<and>
   btpd_call (daemon_wire (\<lambda>_. []) (\<lambda>_. undefined) sample_btpd) Call_Die = Some 0 \<and>
   daemon_after (\<lambda>_. []) (\<lambda>_. undefined) sample_btpd (frame (call_text Call_Die)) = Some (sample_btpd\<lparr>bd_shutdown := True, bd_exit := True\<rparr>)"
proof -
  have d: "serve (\<lambda>_. []) (\<lambda>_. undefined) (Call_Del (By_Num 7)) sample_btpd = Some (IPC_ENOTENT, sample_btpd)"
    by (simp add: with_entry_def entry_of_def sample_btpd_def sample_daemon_def tlib_by_num_def htbl_create_def htbl_find_def bucket_of_def set_w_def)
  have e: "serve (\<lambda>_. []) (\<lambda>_. undefined) Call_Die sample_btpd = Some (IPC_OK, sample_btpd\<lparr>bd_shutdown := True, bd_exit := True\<rparr>)"
    by (simp add: btpd_shutdown_def death_procedure_def on_d_def sample_btpd_def sample_daemon_def sample_trackers_def set_w_def)
  have l: "length (call_text (Call_Del (By_Num 7))) < 2 ^ 32" "length (call_text Call_Die) < 2 ^ 32"
    by (simp_all add: simple_text_def benc_text_def benc_num_def show_int_def show_base.simps)
  from calls_are_served [OF _ l(1) d] calls_are_served [OF _ l(2) e] show ?thesis by simp
qed

end
