(* ===== verification/RpcGet.thy ===== *)
theory RpcGet
  imports Rpc
begin

text \<open>
  Reading the library through the command interface: what the client's callback gets is what the daemon holds.
\<close>

section \<open>Values\<close>

text \<open>What the client makes of a value.\<close>

fun res_of :: "answer \<Rightarrow> get_res" where
  "res_of (Ans_Num v) = (2, Some (V_Num v))"
| "res_of (Ans_Err e) = (0, Some (V_Num (err_num e)))"
| "res_of (Ans_Str s) = (3, Some (V_Str (Some s)))"
| "res_of (Ans_Bin h) = (1, Some (V_Str (Some h)))"

fun ans_type :: "answer \<Rightarrow> ipc_type" where
  "ans_type (Ans_Num v) = IPC_TYPE_NUM"
| "ans_type (Ans_Err e) = IPC_TYPE_ERR"
| "ans_type (Ans_Str s) = IPC_TYPE_STR"
| "ans_type (Ans_Bin h) = IPC_TYPE_BIN"

fun ans_bval :: "answer \<Rightarrow> bval" where
  "ans_bval (Ans_Num v) = BInt v"
| "ans_bval (Ans_Err e) = BInt (err_num e)"
| "ans_bval (Ans_Str s) = BStr s"
| "ans_bval (Ans_Bin h) = BStr h"

fun ans_bytes :: "answer \<Rightarrow> cstr" where
  "ans_bytes (Ans_Num v) = benc_num v"
| "ans_bytes (Ans_Err e) = benc_num (err_num e)"
| "ans_bytes (Ans_Str s) = benc_text s"
| "ans_bytes (Ans_Bin h) = benc_text h"

text \<open>A number has 64 bits, a binary value 20 bytes.\<close>

fun ans_fits :: "answer \<Rightarrow> bool" where
  "ans_fits (Ans_Num v) = (- (2 ^ 63) \<le> v \<and> v < 2 ^ 63)"
| "ans_fits (Ans_Err e) = True"
| "ans_fits (Ans_Str s) = (length s < 2 ^ 64)"
| "ans_fits (Ans_Bin h) = (length h = 20)"

definition type_bytes :: "answer \<Rightarrow> cstr" where
  "type_bytes a = benc_num (type_num (ans_type a))"

lemma ans_text_bytes: "ans_fits a \<Longrightarrow> ans_text a = type_bytes a @ ans_bytes a"
  by (cases a) (simp_all add: type_bytes_def benc_text_def show_base.simps digit_chars)

lemma ans_enc: "ans_fits a \<Longrightarrow> enc2 (ans_bval a) (ans_bytes a)"
  by (cases a) (simp_all add: enc2_num enc2_text)

lemma type_enc: "enc2 (BInt (type_num (ans_type a))) (type_bytes a)"
  by (simp add: type_bytes_def enc2_num)

lemma type_num_range: "0 \<le> type_num t \<and> type_num t < 4 \<and> to_enum (type_num t) = nat (type_num t)"
  by (cases t) (simp_all add: to_enum_def)

lemma get_one_reads:
  assumes "ans_fits a"
  shows "get_one (type_bytes a @ r) (ans_bytes a @ r') old = Some (res_of a)"
proof -
  have "benc_int (type_bytes a @ r) = Some (type_num (ans_type a))"
    using benc_int_encodes [of "type_num (ans_type a)" "type_bytes a" r] type_enc [of a] type_num_range [of "ans_type a"] by (auto simp: enc2_def)
  note t = this type_num_range [of "ans_type a"]
  have n: "benc_int (benc_num i @ r') = Some i" if "- (2 ^ 63) \<le> i" "i < 2 ^ 63" for i
    using benc_int_encodes [OF enc_num that] by blast
  have s: "benc_mem (benc_text x @ r') = Some (Some (length x, x @ r'))" if "length x < 2 ^ 64" for x
    using that by (intro benc_mem_encodes enc_text) simp_all
  show ?thesis
  proof (cases a)
    case (Ans_Err e)
    then show ?thesis using t n [of "err_num e"] err_num_small [of e] by (simp add: get_one_def to_enum_def)
  qed (use t assms n s in \<open>simp_all add: get_one_def to_enum_def\<close>)
qed

section \<open>One entry\<close>

definition pair_bytes :: "answer list \<Rightarrow> cstr" where
  "pair_bytes vs = concat (map (\<lambda>a. type_bytes a @ ans_bytes a) vs)"

lemma pair_bytes_Cons: "pair_bytes (a # vs) = type_bytes a @ ans_bytes a @ pair_bytes vs"
  by (simp add: pair_bytes_def)

lemma next_enc2:
  assumes "enc2 v b" "length b < 2 ^ 64"
  shows "benc_next (b @ c # r) = Some (if c = CHR ''e'' then None else Some (c # r))"
  using assms benc_next_encodes by (auto simp: enc2_def)

lemma enc2_hd: "enc2 v b \<Longrightarrow> \<exists>c r. b = c # r \<and> c \<noteq> CHR ''e''"
  using encodes_first by (auto simp: enc2_def)

lemma next_enc2_more:
  assumes "enc2 v b" "length b < 2 ^ 64" "enc2 v' b'"
  shows "benc_next (b @ b' @ r) = Some (Some (b' @ r))"
  using enc2_hd [OF assms(3)] next_enc2 [OF assms(1,2)] by auto

lemma get_keys_reads:
  assumes "\<forall>a \<in> set vs. ans_fits a" "length vs = length ks" "\<forall>k \<in> set ks. k < length tvals"
    "length (pair_bytes vs) < 2 ^ 64" "vs = a # vs'"
  shows "get_keys ks (Some (pair_bytes vs @ CHR ''e'' # r)) (Some (ans_bytes a @ pair_bytes vs' @ CHR ''e'' # r)) cb =
    Some (fold (\<lambda>(k, a) cb. cb(k \<mapsto> res_of a)) (zip ks vs) cb)"
  using assms
proof (induction ks arbitrary: vs a vs' cb)
  case (Cons k ks)
  note IH = Cons.IH and prems = Cons.prems
  note fa = prems(1) [unfolded prems(5)]
  have la: "length (type_bytes a) < 2 ^ 64" "length (ans_bytes a) < 2 ^ 64" "length (pair_bytes vs') < 2 ^ 64"
    using prems(4,5) by (simp_all add: pair_bytes_Cons)
  have ka: "k < length tvals" using prems(3) by simp
  have ea: "enc2 (ans_bval a) (ans_bytes a)" using fa by (simp add: ans_enc)
  have o: "get_one (pair_bytes vs @ CHR ''e'' # r) (ans_bytes a @ pair_bytes vs' @ CHR ''e'' # r) x = Some (res_of a)" for x
    using fa get_one_reads [of a "ans_bytes a @ pair_bytes vs' @ CHR ''e'' # r" "pair_bytes vs' @ CHR ''e'' # r"]
    by (simp add: prems(5) pair_bytes_Cons)
  show ?case
  proof (cases vs')
    case Nil
    with prems(2,5) have ks: "ks = []" by simp
    have "benc_next (ans_bytes a @ CHR ''e'' # r) = Some None" using next_enc2 [OF ea la(2)] by simp
    with o ka ks Nil prems(5) show ?thesis by (simp add: pair_bytes_def fun_upd_def)
  next
    case (Cons a2 vs2)
    note c = this
    have e2: "enc2 (ans_bval a2) (ans_bytes a2)" "enc2 (BInt (type_num (ans_type a2))) (type_bytes a2)"
      using fa c by (simp_all add: ans_enc type_enc)
    have l2: "length (type_bytes a2) < 2 ^ 64" using la(3) c by (simp add: pair_bytes_Cons)
    have n1: "benc_next (ans_bytes a @ pair_bytes vs' @ CHR ''e'' # r) = Some (Some (pair_bytes vs' @ CHR ''e'' # r))"
      using next_enc2_more [OF ea la(2) e2(2)] c by (simp add: pair_bytes_Cons)
    have n2: "benc_next (pair_bytes vs' @ CHR ''e'' # r) = Some (Some (ans_bytes a2 @ pair_bytes vs2 @ CHR ''e'' # r))"
      using next_enc2_more [OF e2(2) l2 e2(1)] c by (simp add: pair_bytes_Cons)
    have ih: "get_keys ks (Some (pair_bytes vs' @ CHR ''e'' # r)) (Some (ans_bytes a2 @ pair_bytes vs2 @ CHR ''e'' # r)) cb' =
        Some (fold (\<lambda>(k, a) cb. cb(k \<mapsto> res_of a)) (zip ks vs') cb')" for cb'
      by (rule IH [OF _ _ _ la(3) c]) (use prems in simp_all)
    show ?thesis using o ka n1 n2 ih prems(5) by (simp add: fun_upd_def)
  qed
qed simp

text \<open>What a callback is given for an entry: the value of a key that was asked for twice is the last one.\<close>

definition obj_of :: "nat list \<Rightarrow> answer list \<Rightarrow> nat \<Rightarrow> get_res option" where
  "obj_of keys vs = map_of (rev (zip keys (map res_of vs)))"

lemma fold_upd_obj: "length vs = length keys \<Longrightarrow> fold (\<lambda>(k, a) cb. cb(k \<mapsto> res_of a)) (zip keys vs) cb = cb ++ obj_of keys vs"
  by (induction keys vs arbitrary: cb rule: list_induct2') (simp_all add: obj_of_def)

lemma dom_obj_of: "length vs = length keys \<Longrightarrow> dom (obj_of keys vs) = set keys"
  by (simp add: obj_of_def dom_map_of_conv_image_fst flip: set_map)

lemma obj_of_over: "length vs = length keys \<Longrightarrow> dom cb \<subseteq> set keys \<Longrightarrow> cb ++ obj_of keys vs = obj_of keys vs"
  using dom_obj_of [of vs keys] by (auto simp: map_add_def fun_eq_iff split: option.splits)

section \<open>The answer\<close>

text \<open>An object of the answer: the values of an entry, or that there is none.\<close>

datatype item = Entry "answer list" | Missing

fun item_text :: "item \<Rightarrow> cstr" where
  "item_text (Entry vs) = CHR ''l'' # pair_bytes vs @ ''e''"
| "item_text Missing = benc_num (err_num IPC_ENOTENT)"

fun item_obj :: "nat list \<Rightarrow> item \<Rightarrow> obj" where
  "item_obj keys (Entry vs) = (0, Some (obj_of keys vs))"
| "item_obj keys Missing = (nat (err_num IPC_ENOTENT), None)"

fun item_ok :: "nat list \<Rightarrow> item \<Rightarrow> bool" where
  "item_ok keys (Entry vs) = (length vs = length keys \<and> (\<forall>a \<in> set vs. ans_fits a))"
| "item_ok keys Missing = True"

definition keys_ok :: "nat list \<Rightarrow> bool" where
  "keys_ok keys \<longleftrightarrow> keys \<noteq> [] \<and> (\<forall>k \<in> set keys. k < length tvals)"

definition items_text :: "item list \<Rightarrow> cstr" where
  "items_text is = concat (map item_text is)"

lemma pair_bytes_list: "CHR ''l'' # pair_bytes vs @ ''e'' = benc_list (concat (map (\<lambda>a. [type_bytes a, ans_bytes a]) vs))"
  by (induction vs) (simp_all add: pair_bytes_def benc_list_def)

lemma item_enc: "item_ok keys i \<Longrightarrow> \<exists>v. enc2 v (item_text i)"
proof (cases i)
  case (Entry vs)
  assume "item_ok keys i"
  with Entry have f: "\<forall>a \<in> set vs. ans_fits a" by simp
  have "list_all2 enc2 (concat (map (\<lambda>a. [BInt (type_num (ans_type a)), ans_bval a]) vs)) (concat (map (\<lambda>a. [type_bytes a, ans_bytes a]) vs))"
    using f by (induction vs) (simp_all add: type_enc ans_enc)
  from enc2_list [OF this] Entry show ?thesis by (auto simp: pair_bytes_list)
qed (auto intro: enc2_num)

lemma get_objs_reads:
  assumes "\<forall>i \<in> set is. item_ok keys i" "keys_ok keys" "length (items_text is) < 2 ^ 64" "dom cb \<subseteq> set keys"
  shows "get_objs keys cb (if is = [] then None else Some (items_text is @ CHR ''e'' # r)) = Some (map (item_obj keys) is)"
  using assms
proof (induction "is" arbitrary: cb)
  case Nil
  then show ?case by (simp add: get_objs.simps)
next
  case (Cons i "is")
  have l: "length (item_text i) < 2 ^ 64" "length (items_text is) < 2 ^ 64" using Cons.prems(3) by (simp_all add: items_text_def)
  have ok: "item_ok keys i" "\<forall>i \<in> set is. item_ok keys i" using Cons.prems(1) by simp_all
  obtain v where e: "enc2 v (item_text i)" using item_enc [OF ok(1)] by blast
  have nx: "benc_next (item_text i @ items_text is @ CHR ''e'' # r) = Some (if is = [] then None else Some (items_text is @ CHR ''e'' # r))"
  proof (cases "is")
    case Nil
    then show ?thesis using next_enc2 [OF e l(1)] by (simp add: items_text_def)
  next
    case (Cons j js)
    with ok(2) obtain w where "enc2 w (item_text j)" using item_enc [of keys j] by auto
    from next_enc2_more [OF e l(1) this] Cons show ?thesis by (simp add: items_text_def)
  qed
  note IH = Cons.IH [OF ok(2) Cons.prems(2) l(2)]
  show ?case
  proof (cases i)
    case Missing
    have "benc_isint (item_text i @ items_text is @ CHR ''e'' # r) \<and> benc_int (item_text i @ items_text is @ CHR ''e'' # r) = Some 8"
      using benc_int_encodes [OF enc_num, of 8] Missing by simp
    with nx IH [OF Cons.prems(4)] show ?thesis
      by (simp add: get_objs.simps(2) items_text_def Missing to_enum_def)
  next
    case (Entry vs)
    from Entry ok(1) have vs: "length vs = length keys" "\<forall>a \<in> set vs. ans_fits a" by simp_all
    with Cons.prems(2) obtain a vs' where a: "vs = a # vs'" by (cases vs) (auto simp: keys_ok_def)
    have lp: "length (pair_bytes vs) < 2 ^ 64" using l(1) Entry by simp
    let ?r = "items_text is @ CHR ''e'' # r"
    have t: "item_text i @ ?r = CHR ''l'' # pair_bytes vs @ CHR ''e'' # ?r" using Entry by simp
    obtain c q where cq: "type_bytes a = c # q" "c \<noteq> CHR ''e''" using enc2_hd [OF type_enc [of a]] by blast
    have f: "benc_first (item_text i @ ?r) = Some (Some (pair_bytes vs @ CHR ''e'' # ?r))"
      unfolding t using cq by (simp add: benc_first_def benc_islst_def a pair_bytes_Cons)
    have ea: "enc2 (ans_bval a) (ans_bytes a)" using vs a by (simp add: ans_enc)
    have lt: "length (type_bytes a) < 2 ^ 64" using lp a by (simp add: pair_bytes_Cons)
    have n: "benc_next (pair_bytes vs @ CHR ''e'' # ?r) = Some (Some (ans_bytes a @ pair_bytes vs' @ CHR ''e'' # ?r))"
      using next_enc2_more [OF type_enc lt ea] a by (simp add: pair_bytes_Cons)
    have k: "get_keys keys (Some (pair_bytes vs @ CHR ''e'' # ?r)) (Some (ans_bytes a @ pair_bytes vs' @ CHR ''e'' # ?r)) cb = Some (obj_of keys vs)"
      using get_keys_reads [OF vs(2,1) _ lp a] Cons.prems(2) fold_upd_obj [OF vs(1)] obj_of_over [OF vs(1) Cons.prems(4)]
      by (simp add: keys_ok_def)
    have ni: "\<not> benc_isint (item_text i @ ?r)" unfolding t by (simp add: benc_isint_def)
    from f n k ni nx IH [of "obj_of keys vs"] dom_obj_of [OF vs(1)] Entry show ?thesis
      by (simp add: get_objs.simps(2) items_text_def)
  qed
qed

section \<open>What is asked for\<close>

datatype selection = Sel_All ipc_twc | Sel_These "ipc_torrent list"

fun btpd_get :: "wire \<Rightarrow> selection \<Rightarrow> nat list \<Rightarrow> (nat \<times> obj list) option" where
  "btpd_get wire (Sel_All twc) keys = btpd_tget_wc wire twc keys"
| "btpd_get wire (Sel_These tps) keys = btpd_tget wire tps keys"

fun sel_text :: "selection \<Rightarrow> nat list \<Rightarrow> cstr" where
  "sel_text (Sel_All twc) keys = tget_wc_text twc keys"
| "sel_text (Sel_These tps) keys = tget_text tps keys"

fun sel_ok :: "selection \<Rightarrow> bool" where
  "sel_ok (Sel_All twc) = True"
| "sel_ok (Sel_These tps) = (tps \<noteq> [] \<and> list_all torrent_ok tps)"

text \<open>The objects that the daemon has for it.\<close>

definition entry_item :: "daemon \<Rightarrow> tlib \<Rightarrow> nat list \<Rightarrow> item option" where
  "entry_item d x keys = map_option Entry (those (map (\<lambda>k. ans_of d x (tval_of k)) keys))"

fun selects :: "ipc_twc \<Rightarrow> bool \<Rightarrow> bool" where
  "selects IPC_TWC_ALL active = True"
| "selects IPC_TWC_ACTIVE active = active"
| "selects IPC_TWC_INACTIVE active = (\<not> active)"

fun wc_items :: "daemon \<Rightarrow> ipc_twc \<Rightarrow> nat list \<Rightarrow> lid list \<Rightarrow> item list option" where
  "wc_items d twc keys [] = Some []"
| "wc_items d twc keys (l # ls) =
     do {
       x \<leftarrow> dm_tl d l;
       haunting \<leftarrow> torrent_haunting d x;
       active \<leftarrow> torrent_active d x;
       i \<leftarrow> (if \<not> haunting \<and> selects twc active then map_option (\<lambda>i. [i]) (entry_item d x keys) else Some []);
       r \<leftarrow> wc_items d twc keys ls;
       Some (i @ r) }"

definition torrent_item :: "daemon \<Rightarrow> nat list \<Rightarrow> ipc_torrent \<Rightarrow> item option" where
  "torrent_item d keys tp =
     (case entry_of d tp of
        None \<Rightarrow> Some Missing
      | Some l \<Rightarrow>
          do { x \<leftarrow> dm_tl d l; haunting \<leftarrow> torrent_haunting d x; if haunting then Some Missing else entry_item d x keys })"

fun these_items :: "daemon \<Rightarrow> nat list \<Rightarrow> ipc_torrent list \<Rightarrow> item list option" where
  "these_items d keys [] = Some []"
| "these_items d keys (tp # tps) = do { i \<leftarrow> torrent_item d keys tp; r \<leftarrow> these_items d keys tps; Some (i # r) }"

fun sel_items :: "daemon \<Rightarrow> selection \<Rightarrow> nat list \<Rightarrow> item list option" where
  "sel_items d (Sel_All twc) keys = do { ls \<leftarrow> tlib_iter d; wc_items d twc keys ls }"
| "sel_items d (Sel_These tps) keys = these_items d keys tps"

section \<open>The daemon writes them\<close>

lemma write_all_bytes:
  assumes "those (map (\<lambda>k. ans_of d x (tval_of k)) keys) = Some vs" "\<forall>a \<in> set vs. ans_fits a"
  shows "write_all d x keys = Some (pair_bytes vs)"
  using assms
  by (induction keys arbitrary: vs) (auto simp: write_ans_def pair_bytes_def ans_text_bytes split: option.splits)

lemma tget_entry_text: "entry_item d x keys = Some i \<Longrightarrow> item_ok keys i \<Longrightarrow> tget_entry d x keys = Some (item_text i)"
  using write_all_bytes by (auto simp: entry_item_def tget_entry_def)

lemma twc_selects: "(twc_num twc = 0 \<or> \<not> active \<and> twc_num twc = 2 \<or> active \<and> twc_num twc = 1) = selects twc active"
  by (cases twc) simp_all

lemma tget_all_text:
  "wc_items d twc keys ls = Some is \<Longrightarrow> \<forall>i \<in> set is. item_ok keys i \<Longrightarrow> tget_all d (twc_num twc) keys ls = Some (items_text is)"
proof (induction ls arbitrary: "is")
  case (Cons l ls)
  from Cons.prems(1) obtain x h a i r where s: "dm_tl d l = Some x" "torrent_haunting d x = Some h" "torrent_active d x = Some a"
    "(if \<not> h \<and> selects twc a then map_option (\<lambda>i. [i]) (entry_item d x keys) else Some []) = Some i"
    "wc_items d twc keys ls = Some r" "is = i @ r"
    by (auto simp: bind_eq_Some_conv)
  from Cons.IH [OF s(5)] Cons.prems(2) s(6) have r: "tget_all d (twc_num twc) keys ls = Some (items_text r)" by simp
  show ?case
  proof (cases "\<not> h \<and> selects twc a")
    case True
    with s(4) obtain j where j: "entry_item d x keys = Some j" "i = [j]" by auto
    with tget_entry_text [OF j(1)] Cons.prems(2) s(6) have "tget_entry d x keys = Some (item_text j)" by simp
    with s r True j twc_selects [of twc a] show ?thesis by (simp add: items_text_def)
  next
    case False
    with s(4) have "i = []" by (auto split: if_splits)
    with s r False twc_selects [of twc a] show ?thesis by (auto simp: items_text_def)
  qed
qed (simp add: items_text_def)

lemma tget_list_text:
  assumes "encodes_list dec_val (map torrent_bval tps) bl" "length bl < 2 ^ 64" "list_all torrent_ok tps"
    "these_items d keys tps = Some is" "\<forall>i \<in> set is. item_ok keys i"
  shows "tget_list d keys (if tps = [] then None else Some (bl @ CHR ''e'' # r)) = Some (Some (items_text is))"
  using assms
proof (induction tps arbitrary: bl "is")
  case Nil
  then show ?case by (simp add: tget_list.simps items_text_def)
next
  case (Cons tp tps)
  from Cons.prems(1) obtain a bl' where a: "bl = a @ bl'" "encodes dec_val (torrent_bval tp) a" "encodes_list dec_val (map torrent_bval tps) bl'"
    by (auto elim: encodes_list_ConsE)
  from Cons.prems(4) obtain i is' where i: "torrent_item d keys tp = Some i" "these_items d keys tps = Some is'" "is = i # is'"
    by (auto simp: bind_eq_Some_conv)
  have la: "length a < 2 ^ 64" "length bl' < 2 ^ 64" using Cons.prems(2) a(1) by simp_all
  note ih = Cons.IH [OF a(3) la(2) _ i(2)]
  let ?q = "a @ bl' @ CHR ''e'' # r"
  have st: "starts ?q (torrent_bval tp)" using a(2) la(1) by (rule startsI)
  have ok: "torrent_ok tp" using Cons.prems(3) by simp
  note e = starts_entry [OF st ok]
  have nx: "benc_next ?q = Some (if tps = [] then None else Some (bl' @ CHR ''e'' # r))"
  proof (cases "tps = []")
    case True
    with a(3) have "bl' = []" by (auto elim: encodes_list_NilE)
    with True benc_next_encodes [OF a(2) la(1)] show ?thesis by simp
  next
    case False
    with encodes_list_hd [OF a(3)] obtain c q where "bl' = c # q" "c \<noteq> CHR ''e''" by auto
    with False benc_next_encodes [OF a(2) la(1), of c "q @ CHR ''e'' # r"] show ?thesis by simp
  qed
  have x: "(case entry_of d tp of None \<Rightarrow> Some (benc_num (err_num IPC_ENOTENT))
    | Some l \<Rightarrow> do { x \<leftarrow> dm_tl d l; haunting \<leftarrow> torrent_haunting d x;
        if haunting then Some (benc_num (err_num IPC_ENOTENT)) else tget_entry d x keys }) = Some (item_text i)"
    using i(1,3) Cons.prems(5) tget_entry_text
    by (auto simp: torrent_item_def bind_eq_Some_conv split: option.splits if_splits)
  show ?case
    using e x nx ih Cons.prems(3,5) i(3) a(1) by (simp add: tget_list.simps(2) items_text_def)
qed

lemma tget_opts_reads:
  assumes "encodes_list dec_val (map (\<lambda>k. BInt (int k)) keys) bl" "\<forall>k \<in> set keys. k < length tvals"
  shows "tget_opts (length keys) (if keys = [] then None else Some (bl @ CHR ''e'' # r)) = Some keys"
  using assms
proof (induction keys arbitrary: bl)
  case (Cons k keys)
  from Cons.prems(1) obtain a bl' where a: "bl = a @ bl'" "encodes dec_val (BInt (int k)) a" "encodes_list dec_val (map (\<lambda>k. BInt (int k)) keys) bl'"
    by (auto elim: encodes_list_ConsE)
  have k: "k < 20" using Cons.prems(2) by (simp add: tvals_def)
  have te: "to_enum (int k) = k" using k by (simp add: to_enum_def take_bit_nat_eq_self unsigned_of_nat)
  note b = benc_int_encodes [OF a(2), of "bl' @ CHR ''e'' # r"]
  have nx: "benc_int_next (a @ bl' @ CHR ''e'' # r) = Some (if keys = [] then None else Some (bl' @ CHR ''e'' # r))"
  proof (cases "keys = []")
    case True
    with a(3) have "bl' = []" by (auto elim: encodes_list_NilE)
    with True b k show ?thesis by simp
  next
    case False
    with encodes_list_hd [OF a(3)] obtain c q where "bl' = c # q" "c \<noteq> CHR ''e''" by auto
    with False b k show ?thesis by simp
  qed
  show ?case using b k nx te Cons.IH [OF a(3)] Cons.prems(2) a(1) by simp
qed simp

lemma starts_list_first:
  assumes "starts q (BList vs)"
  shows "\<exists>bl t. benc_first q = Some (if vs = [] then None else Some (bl @ CHR ''e'' # t)) \<and> encodes_list dec_val vs bl \<and>
    length bl < 2 ^ 64 \<and> benc_nelems q = Some (length vs)"
proof -
  from assms obtain a t where a: "q = a @ t" "encodes dec_val (BList vs) a" "length a < 2 ^ 64" by (auto simp: starts_def)
  from a(2) obtain bl where bl: "a = CHR ''l'' # bl @ ''e''" "encodes_list dec_val vs bl" by (auto elim: encodes_listE)
  have "benc_first q = Some (if vs = [] then None else Some (bl @ CHR ''e'' # t))"
  proof (cases "vs = []")
    case True
    with bl(2) have "bl = []" by (auto elim: encodes_list_NilE)
    with True a bl show ?thesis by (simp add: benc_first_def benc_islst_def)
  next
    case False
    with encodes_list_hd [OF bl(2)] obtain c r where "bl = c # r" "c \<noteq> CHR ''e''" by auto
    with False a bl show ?thesis by (simp add: benc_first_def benc_islst_def)
  qed
  with bl a benc_nelems_encodes [OF a(2,3), of t] show ?thesis by (intro exI [of _ bl] exI [of _ t]) simp
qed

text \<open>The argument of the request.\<close>

fun from_bval :: "selection \<Rightarrow> bval" where
  "from_bval (Sel_All twc) = BInt (int (twc_num twc))"
| "from_bval (Sel_These tps) = BList (map torrent_bval tps)"

fun from_bytes :: "selection \<Rightarrow> cstr" where
  "from_bytes (Sel_All twc) = benc_num (int (twc_num twc))"
| "from_bytes (Sel_These tps) = benc_list (map torrent_arg tps)"

abbreviation keys_bval :: "nat list \<Rightarrow> bval" where
  "keys_bval keys \<equiv> BList (map (\<lambda>k. BInt (int k)) keys)"

definition tget_arg :: "selection \<Rightarrow> nat list \<Rightarrow> cstr" where
  "tget_arg sel keys = benc_dict [(''from'', from_bytes sel), (''keys'', benc_list (map (\<lambda>k. benc_num (int k)) keys))]"

lemma sel_text_request: "sel_text sel keys = request ''tget'' [tget_arg sel keys]"
  by (cases sel) (simp_all add: tget_wc_text_def tget_text_def request_def tget_arg_def benc_list_def benc_dict_def key_text keys_text_def)

lemma tget_arg_enc: "sel_ok sel \<Longrightarrow> enc2 (BDict [(''from'', from_bval sel), (''keys'', keys_bval keys)]) (tget_arg sel keys)"
proof -
  assume "sel_ok sel"
  then have "enc2 (from_bval sel) (from_bytes sel)"
    using torrent_arg_bval by (cases sel) (auto simp: enc2_num list_all_iff list_all2_map1 list_all2_map2 intro!: enc2_list list.rel_refl_strong)
  moreover have "enc2 (keys_bval keys) (benc_list (map (\<lambda>k. benc_num (int k)) keys))"
    by (intro enc2_list) (auto simp: list_all2_map1 list_all2_map2 enc2_num intro!: list.rel_refl_strong)
  ultimately show ?thesis unfolding tget_arg_def by (intro enc2_dict) simp
qed

definition tget_answer :: "item list \<Rightarrow> cstr" where
  "tget_answer is = ''d4:codei0e6:resultl'' @ items_text is @ ''ee''"

lemma cmd_tget_answers:
  assumes "starts q (BDict [(''from'', from_bval sel), (''keys'', keys_bval keys)])" "keys_ok keys" "sel_ok sel"
    "sel_items (bd_d b) sel keys = Some is" "\<forall>i \<in> set is. item_ok keys i"
  shows "cmd_tget 0 1 q b = Some ((0, Some (tget_answer is)), b)"
proof -
  have z: "CHR 0x00 \<notin> set ''keys''" "CHR 0x00 \<notin> set ''from''" by simp_all
  from dget_starts(5) [OF assms(1) z(1), of "map (\<lambda>k. BInt (int k)) keys"] obtain p where
    p: "benc_dget_lst q ''keys'' = Some (Some p)" "starts p (keys_bval keys)" by auto
  from starts_list_first [OF p(2)] obtain bl t where f: "benc_first p = Some (if keys = [] then None else Some (bl @ CHR ''e'' # t))"
    "encodes_list dec_val (map (\<lambda>k. BInt (int k)) keys) bl" "benc_nelems p = Some (length keys)" by auto
  have "\<forall>k \<in> set keys. k < length tvals" using assms(2) by (simp add: keys_ok_def)
  note o = tget_opts_reads [OF f(2) this, of t]
  from dget_any_starts(2) [OF assms(1) z(2), of "from_bval sel"] obtain g where
    g: "benc_dget_any q ''from'' = Some (Some g)" "starts g (from_bval sel)" by auto
  have d: "benc_isdct q" using assms(1) by (rule starts_dict)
  show ?thesis
  proof (cases sel)
    case (Sel_All twc)
    have "- (2 ^ 63) \<le> int (twc_num twc)" "int (twc_num twc) < 2 ^ 63" "to_enum (int (twc_num twc)) = twc_num twc"
      by (cases twc; simp add: to_enum_def)+
    with starts_int [of g "int (twc_num twc)"] g(2) Sel_All
    have i: "benc_isint g" "benc_int g = Some (int (twc_num twc))" "to_enum (int (twc_num twc)) = twc_num twc" by simp_all
    from assms(4) Sel_All obtain ls where ls: "tlib_iter (bd_d b) = Some ls" "wc_items (bd_d b) twc keys ls = Some is"
      by (auto simp: bind_eq_Some_conv)
    from d p(1) f(1,3) o g(1) i ls tget_all_text [OF ls(2) assms(5)] show ?thesis
      by (simp add: cmd_tget_def Let_def tget_answer_def)
  next
    case (Sel_These tps)
    with g(2) have gl: "starts g (BList (map torrent_bval tps))" by simp
    from starts_list_first [OF gl] obtain bl2 t2 where f2: "benc_first g = Some (if tps = [] then None else Some (bl2 @ CHR ''e'' # t2))"
      "encodes_list dec_val (map torrent_bval tps) bl2" "length bl2 < 2 ^ 64" by auto
    have "list_all torrent_ok tps" "these_items (bd_d b) keys tps = Some is" using assms(3,4) Sel_These by simp_all
    from tget_list_text [OF f2(2,3) this assms(5), of t2] d p(1) f(1,3) o g(1) starts_list [OF gl] f2(1) show ?thesis
      by (simp add: cmd_tget_def Let_def tget_answer_def)
  qed
qed

lemma tget_answer_read:
  assumes "\<forall>i \<in> set is. item_ok keys i" "keys_ok keys" "length (items_text is) < 2 ^ 31"
  shows "ipc_req_res (\<lambda>_. Some (frame (tget_answer is))) req = Inr (tget_answer is)"
    "tget_common (tget_answer is) keys = Some (0, map (item_obj keys) is)"
proof -
  let ?a = "tget_answer is"
  have b: "?a = benc_dict [(''code'', benc_num 0), (''result'', benc_list (map item_text is))]"
    by (simp add: tget_answer_def benc_dict_def key_text benc_list_def items_text_def benc_num_def show_int_def show_base.simps digit_chars)
  define vs where "vs = map (\<lambda>i. SOME v. enc2 v (item_text i)) is"
  have "enc2 (SOME v. enc2 v (item_text i)) (item_text i)" if "i \<in> set is" for i
    using item_enc [of keys i] that assms(1) by (auto intro: someI_ex)
  then have "list_all2 enc2 vs (map item_text is)" unfolding vs_def by (auto simp: list_all2_map1 list_all2_map2 intro!: list.rel_refl_strong)
  note res = enc2_list [OF this]
  have e: "enc2 (BDict [(''code'', BInt 0), (''result'', BList vs)]) ?a"
    unfolding b using res enc2_num [of 0] by (intro enc2_dict) simp
  have l: "length ?a < 2 ^ 32" using assms(3) by (simp add: tget_answer_def)
  have s: "starts ?a (BDict [(''code'', BInt 0), (''result'', BList vs)])" using startsI [of _ ?a "[]"] e l by (auto simp: enc2_def)
  have v: "benc_validate ?a = None" using e by (auto simp: enc2_def benc_validate_grammar)
  show "ipc_req_res (\<lambda>_. Some (frame ?a)) req = Inr ?a"
    using ipc_response_frame [OF l] v starts_dict [OF s] by (simp add: ipc_req_res_def tget_answer_def)
  have c: "benc_dget_int ?a ''code'' = Some 0" using dget_starts(3) [OF s, of "''code''" 0] by simp
  show "tget_common ?a keys = Some (0, map (item_obj keys) is)"
  proof -
    have g: "benc_dget_lst ?a ''result'' = Some (Some (CHR ''l'' # items_text is @ ''ee''))"
      by (simp add: tget_answer_def benc_dget_lst_def benc_dget_any_def benc_eval)
    have f: "benc_first (CHR ''l'' # items_text is @ ''ee'') = Some (if is = [] then None else Some (items_text is @ ''ee''))"
    proof (cases "is")
      case (Cons i js)
      with assms(1) obtain w where "enc2 w (item_text i)" using item_enc [of keys i] by auto
      with enc2_hd obtain c r where "item_text i = c # r" "c \<noteq> CHR ''e''" by blast
      with Cons show ?thesis by (simp add: benc_first_def benc_islst_def items_text_def)
    qed (simp add: benc_first_def benc_islst_def items_text_def)
    have "length (items_text is) < 2 ^ 64" using assms(3) by simp
    from get_objs_reads [OF assms(1,2) this, of "\<lambda>_. None" "''e''"] c g f show ?thesis
      by (simp add: tget_common_def to_enum_def)
  qed
qed

section \<open>The client reads the library\<close>

lemma get_reaches:
  assumes "keys_ok keys" "sel_ok sel" "length (sel_text sel keys) < 2 ^ 32"
    "sel_items (bd_d b) sel keys = Some is" "\<forall>i \<in> set is. item_ok keys i"
  shows "cli_read_cb 0 sha env (frame (sel_text sel keys)) b = Some ((True, Some (tget_answer is)), [], b)"
proof -
  have l: "length (request ''tget'' [tget_arg sel keys]) < 2 ^ 32" using assms(3) by (simp add: sel_text_request)
  have la: "length (tget_arg sel keys) < 2 ^ 64" using l by (simp add: request_def benc_list_def)
  note e = tget_arg_enc [OF assms(2), of keys]
  have "starts (tget_arg sel keys @ ''e'') (BDict [(''from'', from_bval sel), (''keys'', keys_bval keys)])"
    using e la by (intro startsI) (simp_all add: enc2_def)
  note c = cmd_tget_answers [OF this assms(1,2,4,5)]
  from request_dispatched [OF _ l find_cmd(9), where vs = "[BDict [(''from'', from_bval sel), (''keys'', keys_bval keys)]]" and b = b] e c
  show ?thesis by (simp add: with_arg_def sel_text_request)
qed

text \<open>C2. Reading the library from a client: for every list of keys and for all torrents, the active ones, the inactive ones, or a list of
  torrents by number or hash, the callback of the client gets one object for each torrent that is asked for and shown, in their order,
  and in it under each key the value that the daemon has for it (a number, a string, the hash, or the error that stands for it), and
  a torrent that is not there is reported as such; the daemon is not changed. Numbers have 64 bits and the texts fit their length fields.\<close>

theorem library_is_read:
  assumes "keys_ok keys" "sel_ok sel" "sel_items (bd_d b) sel keys = Some is" "\<forall>i \<in> set is. item_ok keys i"
    "length (sel_text sel keys) < 2 ^ 32" "length (items_text is) < 2 ^ 31"
  shows "btpd_get (daemon_wire sha env b) sel keys = Some (0, map (item_obj keys) is) \<and>
    daemon_after sha env b (frame (sel_text sel keys)) = Some b"
proof -
  note r = get_reaches [OF assms(1,2,5,3,4), of sha env]
  note a = tget_answer_read [OF assms(4,1,6)]
  have q: "ipc_req_res (daemon_wire sha env b) req = Inr (tget_answer is)" if "req = sel_text sel keys" for req
  proof -
    have "ipc_req_res (daemon_wire sha env b) req = ipc_req_res (\<lambda>_. Some (frame (tget_answer is))) req"
      using r by (simp add: ipc_req_res_def daemon_wire_def that)
    with a(1) show ?thesis by simp
  qed
  have "keys \<noteq> []" using assms(1) by (simp add: keys_ok_def)
  with q a(2) assms(2) have "btpd_get (daemon_wire sha env b) sel keys = Some (0, map (item_obj keys) is)"
    by (cases sel) (simp_all add: btpd_tget_def btpd_tget_wc_def tget_req_def)
  with r show ?thesis by (simp add: daemon_after_def)
qed

text \<open>A library with one entry that is not active: its number, name and peers; torrent 9 is not there.\<close>

definition one_btpd :: btpd where
  "one_btpd = sample_btpd\<lparr>bd_d := (bd_d sample_btpd)\<lparr>dm_tl := [0 \<mapsto> sample_entry],
     dm_numtbl := htbl_insert True (dm_numtbl (bd_d sample_btpd)) (7, 0)\<rparr>\<rparr>"

theorem library_is_read_witness:
  "btpd_get (daemon_wire (\<lambda>_. []) (\<lambda>_. undefined) one_btpd) (Sel_These [By_Num 7, By_Num 9]) [4, 3, 7] =
     Some (0, [(0, Some (obj_of [4, 3, 7] [Ans_Num 7, Ans_Str ''n'', Ans_Num 0])), (8, None)])"
proof -
  have i: "sel_items (bd_d one_btpd) (Sel_These [By_Num 7, By_Num 9]) [4, 3, 7] = Some [Entry [Ans_Num 7, Ans_Str ''n'', Ans_Num 0], Missing]"
    by (simp add: torrent_item_def entry_of_def tlib_by_num_def one_btpd_def sample_btpd_def set_w_def sample_daemon_def htbl_create_def
        htbl_find_def htbl_insert_def bucket_insert_def bucket_of_def Let_def entry_item_def sample_entry_def torrent_haunting_def ans_of_def tval_of_def tvals_def ans_str_def)
  have l: "length (sel_text (Sel_These [By_Num 7, By_Num 9]) [4, 3, 7]) < 2 ^ 32"
    "length (items_text [Entry [Ans_Num 7, Ans_Str ''n'', Ans_Num 0], Missing]) < 2 ^ 31"
    by (simp_all add: tget_text_def keys_text_def items_text_def pair_bytes_def type_bytes_def benc_text_def benc_num_def show_int_def
        show_base.simps)
  have "keys_ok [4, 3, 7]" by (simp add: keys_ok_def tvals_def)
  from library_is_read [OF this _ i _ l] show ?thesis by simp
qed

end
