(* ===== verification/Crashes.thy ===== *)
theory Crashes
  imports RpcGet
begin

text \<open>
  Inputs and states in which the code reads through a pointer that is NULL or has been freed. The model gives \<open>None\<close> there.
\<close>

section \<open>A question without a range\<close>

text \<open>\<^verbatim>\<open>cmd_tget\<close> does not check that \<^verbatim>\<open>benc_dget_any(args, "from")\<close> found anything.\<close>

lemma tget_without_from: "cmd_tget we 1 ''d4:keysli4eeee'' b = None"
proof -
  have o: "tget_opts 1 (Some ''i4eeee'') = Some [4]"
    by (simp add: benc_eval benc_int_next_def to_enum_def)
  show ?thesis
    using o by (simp add: cmd_tget_def benc_eval benc_int_next_def to_enum_def)
qed

section \<open>Adding a torrent again\<close>

text \<open>
  \<^verbatim>\<open>tlib_readd\<close> frees the entry, makes a new one and gives it the torrent; the torrent keeps its pointer to the freed entry,
  through which \<^verbatim>\<open>torrent_kill\<close> and \<^verbatim>\<open>become_ghost\<close> then write.
\<close>

lemma tlib_add_link:
  assumes "tlib_add h mi content name label d = Some (ln, d')"
  shows "ln = dm_next_tl d \<and> dm_tlink d' = dm_tlink d \<and> dm_delete d' = dm_delete d \<and> (\<forall>l. l \<noteq> dm_next_tl d \<longrightarrow> dm_tl d' l = dm_tl d l)"
  using assms by (auto simp: tlib_add_def tlib_create_def upd_tl_def Let_def bind_eq_Some_conv)

lemma readd_dangles:
  assumes "lib_wf d" "tlib_readd l h mi content name label d = Some (ln, d')" "dm_tl d l = Some x" "tl_tp x = Some t" "dm_tlink d t = Some l"
  shows "dm_tlink d' t = Some l \<and> dm_tl d' l = None \<and> torrent_kill t d' = None"
proof -
  have lt: "l < dm_next_tl d" using assms(1,3) by (auto simp: lib_wf_def)
  from assms(2-4) obtain d2 d3 where d2: "tlib_kill l (d\<lparr>dm_delete := (dm_delete d)(t := False)\<rparr>) = Some d2"
    and d3: "tlib_add h mi content name label d2 = Some (ln, d3)" and d': "d' = upd_tl ln (\<lambda>x. x\<lparr>tl_tp := Some t\<rparr>) d3"
    by (auto simp: tlib_readd_def bind_eq_Some_conv)
  obtain u1 n1 u2 n2 where r: "htbl_remove (dm_numtbl d) (tl_num x) = (u1, n1)" "htbl_remove (dm_hashtbl d) (tl_hash x) = (u2, n2)"
    by (metis surj_pair)
  from d2 assms(3,5) r have k: "dm_tl d2 l = None" "dm_tlink d2 t = Some l" "dm_next_tl d2 = dm_next_tl d" "\<not> dm_delete d2 t"
    by (auto simp: tlib_kill_def)
  have "dm_tl d' l = None" "dm_tlink d' t = Some l" "\<not> dm_delete d' t"
    using tlib_add_link [OF d3] k lt d' by (auto simp: upd_tl_def)
  then show ?thesis by (auto simp: torrent_kill_def set_w_def Let_def bind_eq_None_conv)
qed

section \<open>An error while a torrent starts\<close>

text \<open>\<^verbatim>\<open>torrent_on_tick\<close> looks at the torrent after \<^verbatim>\<open>torrent_stop\<close>, which may have freed it.\<close>

lemma tick_reads_freed:
  assumes "cw_tor (dm_w d) t = Some tp" "tp_state tp \<noteq> T_STOPPING" "cm_error tp" "torrent_stop t False d = Some d'" "cw_tor (dm_w d') t = None"
  shows "torrent_on_tick t d = None"
  using assms by (simp add: torrent_on_tick_def on_tick_state_def)

end
