(* ===== verification/Spec2Isabelle.thy ===== *)
theory Spec2Isabelle
  imports Prelude Subr Benc BencGet Iobuf Hashtable Timeheap Timer Stream Metainfo Content
    NetBuf NetTypes Sample Peer Upload DownloadSubr Download PeerOn Net
    Rarest PeerQueue UploadSlots Wire NetWrite Budget Printf Http HttpBody HttpReq Tracker HttpTr HttpOwner TrackerInv BencPut Tlib TlibInfo TlibInv
    Resume Torrent Active CliIf BtpdIf Rpc RpcGet Crashes
begin

text \<open>
  The btpd BitTorrent daemon.
\<close>

end
